(* ===== verification/Prelude.thy ===== *)
theory Prelude
  imports Complex_Main "HOL-Library.Word" "HOL-Library.Log_Nat" "HOL-Library.Monad_Syntax"
begin

text \<open>
  Shared vocabulary of the development: names for the machine integers of the sources, the
  collections of rewrite rules the component proofs use, and generic facts on lists and options.
  A \<^verbatim>\<open>uintN_t\<close> is an \<open>N word\<close>; a \<^verbatim>\<open>std::optional\<close> is an \<open>option\<close>; a
  \<^verbatim>\<open>std::vector\<close> or \<^verbatim>\<open>std::array\<close> is a list. Nanosecond time stamps
  (\<^verbatim>\<open>int64_t\<close>, signed: overflow is undefined in the sources' language) are unbounded
  \<open>int\<close>s.
\<close>

unbundle bit_operations_syntax

type_synonym u8 = "8 word"
type_synonym u16 = "16 word"
type_synonym u32 = "32 word"
type_synonym u64 = "64 word"
type_synonym ns = int

named_theorems fp_simps "evaluation of double comparisons and classification"
named_theorems state_simps "what an operation leaves unchanged"

text \<open>A loop over the axes of a group that stops at the first failure.\<close>

fun first_failure :: "('a \<Rightarrow> bool) \<Rightarrow> nat \<Rightarrow> 'a list \<Rightarrow> nat option" where
  "first_failure p i [] = None"
| "first_failure p i (x # xs) = (if p x then Some i else first_failure p (Suc i) xs)"

lemma first_failure_None: "first_failure p i xs = None \<longleftrightarrow> (\<forall>x \<in> set xs. \<not> p x)"
  by (induction xs arbitrary: i) auto

lemma first_failure_Some:
  "first_failure p i xs = Some k \<Longrightarrow> i \<le> k \<and> k - i < length xs \<and> p (xs ! (k - i))"
proof (induction xs arbitrary: i)
  case Nil
  then show ?case by simp
next
  case (Cons x xs)
  show ?case
  proof (cases "p x")
    case True
    with Cons.prems show ?thesis by simp
  next
    case False
    with Cons.prems have "first_failure p (Suc i) xs = Some k" by simp
    from Cons.IH [OF this] have *: "Suc i \<le> k" "k - Suc i < length xs" "p (xs ! (k - Suc i))"
      by auto
    then have "k - i = Suc (k - Suc i)" by simp
    with * show ?thesis by auto
  qed
qed

lemma fold_list_update_length: "length (fold (\<lambda>i xs. xs[i := f i]) is xs) = length xs"
  by (induction "is" arbitrary: xs) auto


lemma unat_succ_less: "a < b \<Longrightarrow> unat (a + 1) = Suc (unat a)" for a b :: "'a::len word"
proof -
  assume "a < b"
  then have "unat a < unat b" by (simp add: word_less_nat_alt)
  moreover have "unat b < 2 ^ LENGTH('a)" by (rule unsigned_less)
  ultimately have "unat a + 1 < 2 ^ LENGTH('a)" by linarith
  then have "unat a + unat (1 :: 'a word) < 2 ^ LENGTH('a)" by (simp only: unsigned_1)
  then show ?thesis by (simp only: unat_add_lem) simp
qed

lemma list_all_False [simp]: "list_all (\<lambda>_. False) xs \<longleftrightarrow> xs = []"
  by (cases xs) auto

section \<open>Latches\<close>

text \<open>
  The contract of a safety latch: a state that is latched stays latched under every call, whatever
  the order of calls. The second locale adds what a latched component may still emit.
\<close>

locale latch =
  fixes step :: "'c \<Rightarrow> 's \<Rightarrow> 's" and latched :: "'s \<Rightarrow> bool"
  assumes latched_step: "latched s \<Longrightarrow> latched (step c s)"
begin

lemma latched_run: "latched s \<Longrightarrow> latched (fold step cs s)"
  by (induction cs arbitrary: s) (auto simp: latched_step)

lemma latched_prefix: "latched (fold step cs s) \<Longrightarrow> latched (fold step (cs @ ds) s)"
  by (simp add: latched_run)

end

locale quiet_latch = latch step latched
  for step :: "'c \<Rightarrow> 's \<Rightarrow> 's" and latched :: "'s \<Rightarrow> bool" +
  fixes outputs :: "'s \<Rightarrow> 'o list" and harmless :: "'o \<Rightarrow> bool"
  assumes output_step:
    "latched s \<Longrightarrow> \<exists>os. outputs (step c s) = outputs s @ os \<and> list_all harmless os"
begin

lemma output_run: "latched s \<Longrightarrow> \<exists>os. outputs (fold step cs s) = outputs s @ os \<and> list_all harmless os"
proof (induction cs arbitrary: s)
  case Nil
  then show ?case by (simp add: exI [of _ "[]"])
next
  case (Cons c cs)
  obtain os where os: "outputs (step c s) = outputs s @ os" "list_all harmless os"
    using output_step [OF Cons.prems] by blast
  obtain os' where "outputs (fold step cs (step c s)) = outputs (step c s) @ os'" "list_all harmless os'"
    using Cons.IH [OF latched_step [OF Cons.prems]] by blast
  with os show ?case by (intro exI [of _ "os @ os'"]) simp
qed

end

end
