(* ===== verification/Ieee_Double.thy ===== *)
theory Ieee_Double
  imports Prelude
begin

text \<open>
  The \<^verbatim>\<open>double\<close> of the sources: IEEE 754 binary64 with round to nearest, ties to even.
  A finite value is the rational it denotes, so the sign of zero is not represented (no modelled
  code divides by a zero of known sign, prints one, or asks for its sign). Every arithmetic
  operation is the exact rational result rounded by \<open>rnd\<close>, with overflow to an infinity and
  gradual underflow; an operation on infinities and NaN follows the standard's tables.
  Comparisons are false on NaN, so the type's \<open>\<le>\<close> and \<open><\<close> are not an order: only
  the syntactic classes are instantiated.
\<close>

section \<open>Rounding\<close>

text \<open>The exponent of a positive rational, by the bit lengths of numerator and denominator.\<close>

definition pow2 :: "int \<Rightarrow> rat" where
  "pow2 e = 2 powi e"

definition ilog2 :: "rat \<Rightarrow> int" where
  "ilog2 x = (let (p, q) = quotient_of x; e = bitlen p - bitlen q
              in if pow2 e \<le> x then e else e - 1)"

definition round_half_even :: "rat \<Rightarrow> int" where
  "round_half_even y =
     (let f = \<lfloor>y\<rfloor>; d = y - of_int f
      in if d < 1 / 2 then f else if 1 / 2 < d then f + 1 else if even f then f else f + 1)"

text \<open>The weight of the last place of a result: 53 significant bits, at least \<open>2^-1074\<close>.\<close>

definition last_place :: "rat \<Rightarrow> int" where
  "last_place x = (if \<bar>x\<bar> < pow2 (-1022) then -1074 else ilog2 \<bar>x\<bar> - 52)"

definition round_rat :: "rat \<Rightarrow> rat" where
  "round_rat x = of_int (round_half_even (x / pow2 (last_place x))) * pow2 (last_place x)"

datatype double = Fin rat | PInf | NInf | NaN

definition rnd :: "rat \<Rightarrow> double" where
  "rnd x = (let r = round_rat x
            in if pow2 1024 \<le> r then PInf else if r \<le> - pow2 1024 then NInf else Fin r)"

fun isfinite :: "double \<Rightarrow> bool" where
  "isfinite (Fin _) = True"
| "isfinite _ = False"

fun isnan :: "double \<Rightarrow> bool" where
  "isnan NaN = True"
| "isnan _ = False"

fun dval :: "double \<Rightarrow> rat" where
  "dval (Fin x) = x"
| "dval _ = 0"

section \<open>Comparisons and arithmetic\<close>

instantiation double :: ord
begin

fun less_double :: "double \<Rightarrow> double \<Rightarrow> bool" where
  "less_double (Fin x) (Fin y) = (x < y)"
| "less_double NInf (Fin _) = True"
| "less_double NInf PInf = True"
| "less_double (Fin _) PInf = True"
| "less_double _ _ = False"

fun less_eq_double :: "double \<Rightarrow> double \<Rightarrow> bool" where
  "less_eq_double (Fin x) (Fin y) = (x \<le> y)"
| "less_eq_double NInf (Fin _) = True"
| "less_eq_double NInf NInf = True"
| "less_eq_double NInf PInf = True"
| "less_eq_double (Fin _) PInf = True"
| "less_eq_double PInf PInf = True"
| "less_eq_double _ _ = False"

instance ..

end

text \<open>\<^verbatim>\<open>==\<close>: NaN is not equal to itself.\<close>

fun deq :: "double \<Rightarrow> double \<Rightarrow> bool" where
  "deq (Fin x) (Fin y) = (x = y)"
| "deq PInf PInf = True"
| "deq NInf NInf = True"
| "deq _ _ = False"

definition inf_of_sign :: "rat \<Rightarrow> double" where
  "inf_of_sign x = (if 0 < x then PInf else if x < 0 then NInf else NaN)"

instantiation double :: "{plus, minus, uminus, times, inverse, abs, zero, one}"
begin

definition zero_double :: double where
  "zero_double = Fin 0"

definition one_double :: double where
  "one_double = Fin 1"

fun plus_double :: "double \<Rightarrow> double \<Rightarrow> double" where
  "plus_double (Fin x) (Fin y) = rnd (x + y)"
| "plus_double (Fin _) PInf = PInf"
| "plus_double PInf (Fin _) = PInf"
| "plus_double PInf PInf = PInf"
| "plus_double (Fin _) NInf = NInf"
| "plus_double NInf (Fin _) = NInf"
| "plus_double NInf NInf = NInf"
| "plus_double _ _ = NaN"

fun uminus_double :: "double \<Rightarrow> double" where
  "uminus_double (Fin x) = Fin (- x)"
| "uminus_double PInf = NInf"
| "uminus_double NInf = PInf"
| "uminus_double NaN = NaN"

definition minus_double :: "double \<Rightarrow> double \<Rightarrow> double" where
  "minus_double a b = a + (- b)"

fun times_double :: "double \<Rightarrow> double \<Rightarrow> double" where
  "times_double (Fin x) (Fin y) = rnd (x * y)"
| "times_double (Fin x) PInf = inf_of_sign x"
| "times_double (Fin x) NInf = inf_of_sign (- x)"
| "times_double PInf (Fin y) = inf_of_sign y"
| "times_double NInf (Fin y) = inf_of_sign (- y)"
| "times_double PInf PInf = PInf"
| "times_double NInf NInf = PInf"
| "times_double PInf NInf = NInf"
| "times_double NInf PInf = NInf"
| "times_double _ _ = NaN"

text \<open>Division by zero: the zero is taken as positive (see above on the sign of zero).\<close>

fun divide_double :: "double \<Rightarrow> double \<Rightarrow> double" where
  "divide_double (Fin x) (Fin y) = (if y = 0 then inf_of_sign x else rnd (x / y))"
| "divide_double (Fin _) PInf = Fin 0"
| "divide_double (Fin _) NInf = Fin 0"
| "divide_double PInf (Fin y) = (if y < 0 then NInf else PInf)"
| "divide_double NInf (Fin y) = (if y < 0 then PInf else NInf)"
| "divide_double _ _ = NaN"

definition inverse_double :: "double \<Rightarrow> double" where
  "inverse_double b = divide (Fin 1) b"

fun abs_double :: "double \<Rightarrow> double" where
  "abs_double (Fin x) = Fin \<bar>x\<bar>"
| "abs_double PInf = PInf"
| "abs_double NInf = PInf"
| "abs_double NaN = NaN"

instance ..

end

text \<open>A floating literal, and the conversion of an integer.\<close>

abbreviation dlit :: "rat \<Rightarrow> double" where
  "dlit x \<equiv> rnd x"

definition dint :: "int \<Rightarrow> double" where
  "dint i = rnd (of_int i)"

text \<open>\<^verbatim>\<open>std::max\<close>, \<^verbatim>\<open>std::min\<close>, \<^verbatim>\<open>std::clamp\<close>, \<^verbatim>\<open>std::floor\<close> as the library defines them.\<close>

definition dmax :: "double \<Rightarrow> double \<Rightarrow> double" where
  "dmax a b = (if a < b then b else a)"

definition dmin :: "double \<Rightarrow> double \<Rightarrow> double" where
  "dmin a b = (if b < a then b else a)"

definition clamp :: "double \<Rightarrow> double \<Rightarrow> double \<Rightarrow> double" where
  "clamp v lo hi = (if v < lo then lo else if hi < v then hi else v)"

fun dfloor :: "double \<Rightarrow> double" where
  "dfloor (Fin x) = Fin (of_int \<lfloor>x\<rfloor>)"
| "dfloor d = d"

text \<open>
  A conversion to an unsigned integer truncates towards zero. Outside the target's range the
  language leaves it undefined; the model then keeps the low bits (0 for a non-finite value), and
  the components show that their conversions stay in range.
\<close>

definition rat_trunc :: "rat \<Rightarrow> int" where
  "rat_trunc x = (if 0 \<le> x then \<lfloor>x\<rfloor> else - \<lfloor>- x\<rfloor>)"

definition cast_word :: "double \<Rightarrow> 'a::len word" where
  "cast_word d = (case d of Fin x \<Rightarrow> word_of_int (rat_trunc x) | _ \<Rightarrow> 0)"

definition cast_in_range :: "nat \<Rightarrow> double \<Rightarrow> bool" where
  "cast_in_range w d = (case d of Fin x \<Rightarrow> 0 \<le> rat_trunc x \<and> rat_trunc x < 2 ^ w | _ \<Rightarrow> False)"

text \<open>The values a \<^verbatim>\<open>double\<close> can hold.\<close>

fun is_double :: "double \<Rightarrow> bool" where
  "is_double (Fin x) = (rnd x = Fin x)"
| "is_double _ = True"


section \<open>Facts about rounding\<close>

lemma pow2_pos [simp]: "0 < pow2 e"
  by (simp add: pow2_def)

lemma pow2_nonneg [simp]: "0 \<le> pow2 e"
  by (simp add: pow2_def)

lemma pow2_nz [simp]: "pow2 e \<noteq> 0"
  by (simp add: pow2_def)

lemma pow2_add: "pow2 (a + b) = pow2 a * pow2 b"
  by (simp add: pow2_def power_int_add)

lemma pow2_minus: "pow2 (- a) = 1 / pow2 a"
  by (simp add: pow2_def power_int_minus field_simps)

lemma pow2_diff: "pow2 (a - b) = pow2 a / pow2 b"
  by (simp add: pow2_def power_int_diff)

lemma pow2_nat: "0 \<le> e \<Longrightarrow> pow2 e = 2 ^ nat e"
  by (simp add: pow2_def power_int_def)

lemma pow2_0 [simp]: "pow2 0 = 1"
  by (simp add: pow2_def)

lemma pow2_mono: "a \<le> b \<Longrightarrow> pow2 a \<le> pow2 b"
  unfolding pow2_def by (rule power_int_increasing) auto

lemma pow2_strict: "a < b \<Longrightarrow> pow2 a < pow2 b"
  unfolding pow2_def by (rule power_int_strict_increasing) auto

lemma pow2_le_iff [simp]: "pow2 a \<le> pow2 b \<longleftrightarrow> a \<le> b"
  by (metis pow2_mono pow2_strict leD leI)

lemma pow2_less_iff [simp]: "pow2 a < pow2 b \<longleftrightarrow> a < b"
  by (meson pow2_le_iff not_le)

lemma ilog2_bounds:
  assumes "0 < x"
  shows "pow2 (ilog2 x) \<le> x" and "x < pow2 (ilog2 x + 1)"
proof -
  obtain p q where pq: "quotient_of x = (p, q)" by fastforce
  then have q: "0 < q" and x: "x = of_int p / of_int q"
    by (auto simp: quotient_of_denom_pos quotient_of_div)
  with assms have p: "0 < p" by (simp add: zero_less_divide_iff)
  define e where "e = bitlen p - bitlen q"
  have bound: "pow2 (bitlen n - 1) \<le> of_int n \<and> of_int n < pow2 (bitlen n)" if "0 < n" for n :: int
  proof -
    have b: "1 \<le> bitlen n" using that bitlen_nonneg [of n] bitlen_eq_zero_iff [of n] by linarith
    from bitlen_bounds [OF that]
    have "2 ^ nat (bitlen n - 1) \<le> n" "n < 2 ^ nat (bitlen n)" by auto
    then have "of_int (2 ^ nat (bitlen n - 1)) \<le> (of_int n :: rat)"
      "of_int n < (of_int (2 ^ nat (bitlen n)) :: rat)"
      by (simp_all only: of_int_le_iff of_int_less_iff)
    with b show ?thesis by (simp add: pow2_nat)
  qed
  have pb: "pow2 (bitlen p - 1) \<le> of_int p" "of_int p < pow2 (bitlen p)"
    and qb: "pow2 (bitlen q - 1) \<le> of_int q" "of_int q < pow2 (bitlen q)"
    using bound [OF p] bound [OF q] by auto
  have "pow2 (bitlen p - 1) / pow2 (bitlen q) \<le> x"
    unfolding x using pb qb p q by (intro frac_le) auto
  then have lo: "pow2 (e - 1) \<le> x"
    by (simp add: e_def pow2_diff [symmetric] algebra_simps)
  have "x < pow2 (bitlen p) / pow2 (bitlen q - 1)"
    unfolding x using pb qb p q by (intro frac_less) auto
  then have hi: "x < pow2 (e + 1)"
    by (simp add: e_def pow2_diff [symmetric] algebra_simps)
  show "pow2 (ilog2 x) \<le> x" "x < pow2 (ilog2 x + 1)"
    using lo hi by (auto simp: ilog2_def pq e_def [symmetric] Let_def)
qed

lemma round_half_even_error: "\<bar>of_int (round_half_even y) - y\<bar> \<le> 1 / 2"
proof -
  define f where "f = \<lfloor>y\<rfloor>"
  have "of_int f \<le> y" "y < of_int f + 1" unfolding f_def by linarith+
  then show ?thesis
    by (auto simp: round_half_even_def Let_def f_def [symmetric] abs_le_iff)
qed

lemma round_half_even_int [simp]: "round_half_even (of_int i) = i"
  by (simp add: round_half_even_def)

lemma round_half_even_mono: "x \<le> y \<Longrightarrow> round_half_even x \<le> round_half_even y"
proof -
  assume le: "x \<le> y"
  have bx: "\<lfloor>x\<rfloor> \<le> round_half_even x" "round_half_even x \<le> \<lfloor>x\<rfloor> + 1" for x
    by (auto simp: round_half_even_def Let_def)
  show ?thesis
  proof (cases "\<lfloor>x\<rfloor> = \<lfloor>y\<rfloor>")
    case True
    with le show ?thesis by (auto simp: round_half_even_def Let_def)
  next
    case False
    with le have "\<lfloor>x\<rfloor> < \<lfloor>y\<rfloor>" using floor_mono [OF le] by simp
    with bx(2) [of x] bx(1) [of y] show ?thesis by linarith
  qed
qed

lemma round_half_even_uminus: "round_half_even (- y) = - round_half_even y"
proof (cases "of_int \<lfloor>y\<rfloor> = y")
  case True
  then obtain n where "y = of_int n" by metis
  then show ?thesis by (metis of_int_minus round_half_even_int)
next
  case False
  then have "\<lfloor>- y\<rfloor> = - \<lfloor>y\<rfloor> - 1"
    by (metis ceiling_altdef floor_minus minus_diff_commute diff_minus_eq_add minus_add_distrib
        uminus_add_conv_diff add.commute)
  then show ?thesis by (auto simp: round_half_even_def Let_def)
qed


lemma last_place_mono: "\<bar>x\<bar> \<le> \<bar>y\<bar> \<Longrightarrow> last_place x \<le> last_place y"
proof -
  assume le: "\<bar>x\<bar> \<le> \<bar>y\<bar>"
  show ?thesis
  proof (cases "\<bar>x\<bar> < pow2 (-1022)")
    case True
    have "-1022 \<le> ilog2 \<bar>y\<bar>" if "pow2 (-1022) \<le> \<bar>y\<bar>"
    proof (rule ccontr)
      assume "\<not> -1022 \<le> ilog2 \<bar>y\<bar>"
      then have "pow2 (ilog2 \<bar>y\<bar> + 1) \<le> pow2 (-1022)" by (simp only: pow2_le_iff)
      moreover have "\<bar>y\<bar> < pow2 (ilog2 \<bar>y\<bar> + 1)"
        using that pow2_pos [of "-1022"] by (intro ilog2_bounds) linarith
      ultimately show False using that by linarith
    qed
    with True show ?thesis by (auto simp: last_place_def)
  next
    case False
    then have x: "0 < \<bar>x\<bar>" using pow2_pos [of "-1022"] by linarith
    with le have y: "0 < \<bar>y\<bar>" by linarith
    have "pow2 (ilog2 \<bar>x\<bar>) < pow2 (ilog2 \<bar>y\<bar> + 1)"
      using ilog2_bounds(1) [OF x] ilog2_bounds(2) [OF y] le by linarith
    then have "ilog2 \<bar>x\<bar> \<le> ilog2 \<bar>y\<bar>" by simp
    with False le show ?thesis by (auto simp: last_place_def)
  qed
qed

lemma last_place_uminus [simp]: "last_place (- x) = last_place x"
  by (simp add: last_place_def)

lemma round_rat_uminus [simp]: "round_rat (- x) = - round_rat x"
  by (simp add: round_rat_def round_half_even_uminus)

lemma round_rat_0 [simp]: "round_rat 0 = 0"
  using round_half_even_int [of 0] by (simp add: round_rat_def)

text \<open>A multiple of the last place that bounds the argument bounds the rounded value.\<close>

lemma round_rat_le_multiple:
  assumes "x \<le> of_int i * pow2 (last_place x)"
  shows "round_rat x \<le> of_int i * pow2 (last_place x)"
proof -
  from assms have "x / pow2 (last_place x) \<le> of_int i" by (simp add: pos_divide_le_eq)
  from round_half_even_mono [OF this] show ?thesis by (simp add: round_rat_def)
qed

lemma round_rat_ge_multiple:
  assumes "of_int i * pow2 (last_place x) \<le> x"
  shows "of_int i * pow2 (last_place x) \<le> round_rat x"
proof -
  from assms have "of_int i \<le> x / pow2 (last_place x)" by (simp add: pos_le_divide_eq)
  from round_half_even_mono [OF this] show ?thesis by (simp add: round_rat_def)
qed

lemma pow2_multiple: "l \<le> k \<Longrightarrow> pow2 k = of_int (2 ^ nat (k - l)) * pow2 l"
  using pow2_add [of "k - l" l] by (simp add: pow2_nat)

lemma round_rat_le_pow2: "x \<le> pow2 k \<Longrightarrow> last_place x \<le> k \<Longrightarrow> round_rat x \<le> pow2 k"
  using round_rat_le_multiple [of x "2 ^ nat (k - last_place x)"] pow2_multiple [of "last_place x" k]
  by simp

lemma round_rat_ge_pow2: "pow2 k \<le> x \<Longrightarrow> last_place x \<le> k \<Longrightarrow> pow2 k \<le> round_rat x"
  using round_rat_ge_multiple [of "2 ^ nat (k - last_place x)" x] pow2_multiple [of "last_place x" k]
  by simp

lemma round_rat_nonneg: "0 \<le> x \<Longrightarrow> 0 \<le> round_rat x"
  using round_rat_ge_multiple [of 0 x] by simp

lemma round_rat_mono_nonneg:
  assumes "0 \<le> x" and "x \<le> y"
  shows "round_rat x \<le> round_rat y"
proof -
  have le: "last_place x \<le> last_place y" using assms by (intro last_place_mono) simp
  show ?thesis
  proof (cases "last_place x = last_place y")
    case True
    have "x / pow2 (last_place y) \<le> y / pow2 (last_place y)"
      using assms by (simp add: divide_right_mono)
    from round_half_even_mono [OF this] True show ?thesis by (simp add: round_rat_def)
  next
    case False
    with le have lt: "last_place x < last_place y" by simp
    define k where "k = last_place y + 52"
    have ny: "\<not> \<bar>y\<bar> < pow2 (-1022)"
    proof
      assume "\<bar>y\<bar> < pow2 (-1022)"
      with assms have "\<bar>x\<bar> < pow2 (-1022)" by linarith
      with \<open>\<bar>y\<bar> < _\<close> lt show False by (simp add: last_place_def)
    qed
    then have y: "0 < y" using assms pow2_pos [of "-1022"] by linarith
    have k: "k = ilog2 y" using ny y by (simp add: last_place_def k_def)
    have ky: "pow2 k \<le> y" unfolding k by (rule ilog2_bounds(1) [OF y])
    have xk: "x \<le> pow2 k"
    proof (rule ccontr)
      assume "\<not> x \<le> pow2 k"
      then have "\<bar>pow2 k\<bar> \<le> \<bar>x\<bar>" using assms by simp
      from last_place_mono [OF this] have lp: "last_place (pow2 k) \<le> last_place x" .
      have "ilog2 (pow2 k) = k"
      proof -
        have "pow2 (ilog2 (pow2 k)) \<le> pow2 k" "pow2 k < pow2 (ilog2 (pow2 k) + 1)"
          using ilog2_bounds [of "pow2 k"] by auto
        then show ?thesis by simp
      qed
      moreover have "-1022 \<le> k"
      proof (rule ccontr)
        assume "\<not> -1022 \<le> k"
        then have "pow2 (ilog2 y + 1) \<le> pow2 (-1022)" using k by (simp only: pow2_le_iff)
        with ilog2_bounds(2) [OF y] ny assms show False by simp
      qed
      then have "pow2 (-1022) \<le> pow2 k" by (simp only: pow2_le_iff)
      ultimately have "last_place (pow2 k) = k - 52" by (simp add: last_place_def not_less)
      with lp lt show False by (simp add: k_def)
    qed
    have "round_rat x \<le> pow2 k" using xk lt by (intro round_rat_le_pow2) (auto simp: k_def)
    also have "\<dots> \<le> round_rat y" using ky by (intro round_rat_ge_pow2) (auto simp: k_def)
    finally show ?thesis .
  qed
qed

lemma round_rat_mono: "x \<le> y \<Longrightarrow> round_rat x \<le> round_rat y"
proof -
  assume le: "x \<le> y"
  consider "0 \<le> x" | "y \<le> 0" | "x \<le> 0" "0 \<le> y" using le by linarith
  then show ?thesis
  proof cases
    case 1
    then show ?thesis using le by (rule round_rat_mono_nonneg)
  next
    case 2
    then show ?thesis using le round_rat_mono_nonneg [of "- y" "- x"] by simp
  next
    case 3
    then show ?thesis using round_rat_nonneg [of y] round_rat_nonneg [of "- x"] by simp
  qed
qed

text \<open>The relative error of a result in the normal range, and the absolute one below it.\<close>

lemma round_rat_abs_error: "\<bar>round_rat x - x\<bar> \<le> pow2 (last_place x) / 2"
proof -
  define u where "u = pow2 (last_place x)"
  define m where "m = (of_int (round_half_even (x / u)) :: rat)"
  have u: "0 < u" by (simp add: u_def)
  have "round_rat x - x = (m - x / u) * u"
    using u by (simp add: round_rat_def m_def u_def field_simps)
  then have "\<bar>round_rat x - x\<bar> = \<bar>m - x / u\<bar> * u" using u by (simp add: abs_mult)
  also have "\<dots> \<le> 1 / 2 * u"
    unfolding m_def using u by (intro mult_right_mono round_half_even_error) simp
  finally show ?thesis by (simp add: u_def)
qed

lemma round_rat_rel_error:
  assumes "pow2 (-1022) \<le> \<bar>x\<bar>"
  shows "\<bar>round_rat x - x\<bar> \<le> pow2 (-53) * \<bar>x\<bar>"
proof -
  have x: "0 < \<bar>x\<bar>" using assms pow2_pos [of "-1022"] by linarith
  have "\<bar>round_rat x - x\<bar> \<le> pow2 (last_place x) / 2" by (rule round_rat_abs_error)
  also have "pow2 (last_place x) / 2 = pow2 (-53) * pow2 (ilog2 \<bar>x\<bar>)"
    using assms pow2_add [of "-53" "ilog2 \<bar>x\<bar>"] pow2_add [of "-52" "ilog2 \<bar>x\<bar>"]
      pow2_add [of "-53" 1] by (simp add: last_place_def pow2_nat)
  also have "\<dots> \<le> pow2 (-53) * \<bar>x\<bar>"
    by (intro mult_left_mono ilog2_bounds x) simp
  finally show ?thesis .
qed


text \<open>The error relative to any bound of the argument that is not subnormal.\<close>

lemma round_rat_error_le:
  assumes "\<bar>x\<bar> \<le> X" and "pow2 (-1022) \<le> X"
  shows "\<bar>round_rat x - x\<bar> \<le> pow2 (-53) * X"
proof (cases "pow2 (-1022) \<le> \<bar>x\<bar>")
  case True
  have "pow2 (-53) * \<bar>x\<bar> \<le> pow2 (-53) * X" using assms(1) by (rule mult_left_mono) simp
  with round_rat_rel_error [OF True] show ?thesis by linarith
next
  case False
  then have "last_place x = -1074" by (simp add: last_place_def)
  then have "\<bar>round_rat x - x\<bar> \<le> pow2 (-1074) / 2" using round_rat_abs_error [of x] by simp
  also have "\<dots> = pow2 (-53) * pow2 (-1022)"
    using pow2_add [of "-1" "-1074"] pow2_add [of "-53" "-1022"] pow2_minus [of 1] by (simp add: pow2_nat [of 1])
  also have "\<dots> \<le> pow2 (-53) * X" using assms(2) by (rule mult_left_mono) simp
  finally show ?thesis .
qed

lemma round_rat_exact:
  assumes "\<bar>m\<bar> < 2 ^ 53" and "-1074 \<le> e"
  shows "round_rat (of_int m * pow2 e) = of_int m * pow2 e"
proof (cases "m = 0")
  case True
  then show ?thesis by simp
next
  case False
  define x where "x = of_int m * pow2 e"
  have ax: "\<bar>x\<bar> = of_int \<bar>m\<bar> * pow2 e" by (simp add: x_def abs_mult)
  have pos: "0 < \<bar>x\<bar>" using False by (simp add: x_def)
  have le: "last_place x \<le> e"
  proof (cases "\<bar>x\<bar> < pow2 (-1022)")
    case True
    with assms show ?thesis by (simp add: last_place_def)
  next
    case False
    have "(of_int \<bar>m\<bar> :: rat) < of_int (2 ^ 53)" using assms by (simp only: of_int_less_iff)
    then have "\<bar>x\<bar> < pow2 53 * pow2 e" unfolding ax by (simp add: pow2_nat)
    also have "\<dots> = pow2 (53 + e)" by (simp only: pow2_add)
    finally have "\<bar>x\<bar> < pow2 (53 + e)" .
    with ilog2_bounds(1) [OF pos] have "pow2 (ilog2 \<bar>x\<bar>) < pow2 (53 + e)" by linarith
    then have "ilog2 \<bar>x\<bar> < 53 + e" by simp
    with False show ?thesis by (simp add: last_place_def)
  qed
  have xm: "x = of_int (m * 2 ^ nat (e - last_place x)) * pow2 (last_place x)"
    using pow2_multiple [OF le] by (simp add: x_def)
  then have "x / pow2 (last_place x) = of_int (m * 2 ^ nat (e - last_place x))"
    by (simp add: field_simps)
  with xm show ?thesis unfolding round_rat_def x_def [symmetric]
    by (metis round_half_even_int)
qed

lemma round_rat_of_int:
  assumes "\<bar>i\<bar> \<le> 2 ^ 53"
  shows "round_rat (of_int i) = of_int i"
proof (cases "\<bar>i\<bar> < 2 ^ 53")
  case True
  from round_rat_exact [OF this, of 0] show ?thesis by simp
next
  case False
  with assms have "i = 2 ^ 53 \<or> i = - (2 ^ 53)" by linarith
  with round_rat_exact [of 1 53] round_rat_exact [of "-1" 53] show ?thesis
    by (auto simp: pow2_nat)
qed

lemma round_rat_magnitude:
  assumes "\<bar>x\<bar> \<le> pow2 k" and "-1074 \<le> k"
  shows "\<bar>round_rat x\<bar> \<le> pow2 k"
proof -
  have r: "round_rat (pow2 k) = pow2 k" using round_rat_exact [of 1 k] assms by simp
  have "round_rat x \<le> pow2 k" using round_rat_mono [of x "pow2 k"] assms r by linarith
  moreover have "- pow2 k \<le> round_rat x"
    using round_rat_mono [of "- pow2 k" x] assms r by simp
  ultimately show ?thesis by simp
qed

lemma rnd_Fin:
  assumes "\<bar>x\<bar> \<le> pow2 1023"
  shows "rnd x = Fin (round_rat x)"
proof -
  have "\<bar>round_rat x\<bar> \<le> pow2 1023" using assms by (intro round_rat_magnitude) auto
  moreover have "pow2 1023 < pow2 1024" by simp
  ultimately have "\<not> pow2 1024 \<le> round_rat x" "\<not> round_rat x \<le> - pow2 1024"
    by (auto simp only: abs_le_iff not_le)
  then show ?thesis by (simp add: rnd_def Let_def)
qed

lemma rnd_of_int: "\<bar>i\<bar> \<le> 2 ^ 53 \<Longrightarrow> rnd (of_int i) = Fin (of_int i)"
proof -
  assume i: "\<bar>i\<bar> \<le> 2 ^ 53"
  then have "of_int \<bar>i\<bar> \<le> (of_int (2 ^ 53) :: rat)" by (simp only: of_int_le_iff)
  moreover have "pow2 53 \<le> pow2 1023" by simp
  ultimately have "\<bar>of_int i\<bar> \<le> pow2 1023" by (simp add: pow2_nat)
  then show ?thesis using round_rat_of_int [OF i] by (simp add: rnd_Fin)
qed

lemma dint_Fin: "\<bar>i\<bar> \<le> 2 ^ 53 \<Longrightarrow> dint i = Fin (of_int i)"
  by (simp add: dint_def rnd_of_int)

lemma rnd_not_NaN [simp]: "rnd x \<noteq> NaN" "NaN \<noteq> rnd x"
  by (auto simp: rnd_def Let_def)

lemma rnd_mono: "x \<le> y \<Longrightarrow> rnd x \<le> rnd y"
proof -
  assume "x \<le> y"
  then have "round_rat x \<le> round_rat y" by (rule round_rat_mono)
  moreover have "0 < pow2 1024" by simp
  ultimately show ?thesis by (auto simp: rnd_def Let_def)
qed

lemma rnd_0 [simp]: "rnd 0 = Fin 0"
  using rnd_of_int [of 0] by simp

section \<open>Classification and comparison\<close>

lemma isfinite_iff: "isfinite d \<longleftrightarrow> (\<exists>x. d = Fin x)"
  by (cases d) auto

lemma isfiniteE: "isfinite d \<Longrightarrow> (\<And>x. d = Fin x \<Longrightarrow> P) \<Longrightarrow> P"
  by (cases d) auto

lemma isfinite_dval: "isfinite d \<Longrightarrow> d = Fin (dval d)"
  by (cases d) auto

lemma deq_iff: "deq a b \<longleftrightarrow> a = b \<and> \<not> isnan a"
  by (cases a; cases b) auto

lemma double_le_iff: "a \<le> b \<longleftrightarrow> a < b \<or> deq a b" for a b :: double
  by (cases a; cases b) auto

lemma not_less_finite: "isfinite a \<Longrightarrow> isfinite b \<Longrightarrow> \<not> a < b \<longleftrightarrow> b \<le> a" for a b :: double
  by (cases a; cases b) auto

lemma double_le_trans: "a \<le> b \<Longrightarrow> b \<le> c \<Longrightarrow> a \<le> c" for a b c :: double
  by (cases a; cases b; cases c) auto

lemma double_less_le_trans: "a < b \<Longrightarrow> b \<le> c \<Longrightarrow> a < c" for a b c :: double
  by (cases a; cases b; cases c) auto

lemma NaN_compare [simp]:
  "\<not> NaN < d" "\<not> d < NaN" "\<not> NaN \<le> d" "\<not> d \<le> NaN" "\<not> deq NaN d" "\<not> deq d NaN"
  by (cases d; simp)+

lemma clamp_in_range:
  assumes "isfinite v" and "isfinite lo" and "isfinite hi" and "lo \<le> hi"
  shows "isfinite (clamp v lo hi) \<and> lo \<le> clamp v lo hi \<and> clamp v lo hi \<le> hi"
  using assms by (cases v; cases lo; cases hi) (auto simp: clamp_def)

lemma clamp_id:
  "lo \<le> v \<Longrightarrow> v \<le> hi \<Longrightarrow> clamp v lo hi = v"
  by (cases v; cases lo; cases hi) (auto simp: clamp_def)

lemma dmax_ge: "\<not> isnan a \<Longrightarrow> \<not> isnan b \<Longrightarrow> a \<le> dmax a b \<and> b \<le> dmax a b"
  by (cases a; cases b) (auto simp: dmax_def)


lemma rnd_numeral [simp]: "(numeral n :: int) \<le> 2 ^ 53 \<Longrightarrow> rnd (numeral n) = Fin (numeral n)"
  using rnd_of_int [of "numeral n"] by simp

lemma rnd_neg_numeral [simp]:
  "(numeral n :: int) \<le> 2 ^ 53 \<Longrightarrow> rnd (- numeral n) = Fin (- numeral n)"
  using rnd_of_int [of "- numeral n"] by simp

lemma rnd_1 [simp]: "rnd 1 = Fin 1" and rnd_neg_1 [simp]: "rnd (- 1) = Fin (- 1)"
  using rnd_of_int [of 1] rnd_of_int [of "-1"] by simp_all

text \<open>A result with few significant bits is exact.\<close>

lemma rnd_dyadic:
  assumes "\<bar>m\<bar> < 2 ^ 53" and "-1074 \<le> e" and "e \<le> 900"
  shows "rnd (of_int m * pow2 e) = Fin (of_int m * pow2 e)"
proof -
  have "(of_int \<bar>m\<bar> :: rat) < of_int (2 ^ 53)" using assms by (simp only: of_int_less_iff)
  then have "\<bar>of_int m * pow2 e\<bar> \<le> pow2 53 * pow2 e"
    by (simp add: abs_mult pow2_nat)
  also have "\<dots> = pow2 (53 + e)" by (simp only: pow2_add)
  also have "\<dots> \<le> pow2 1023" using assms by simp
  finally show ?thesis using round_rat_exact [OF assms(1,2)] by (simp add: rnd_Fin)
qed

lemma rnd_half_power:
  assumes "\<bar>m\<bar> < 2 ^ 53" and "k \<le> 1074"
  shows "rnd (of_int m / 2 ^ k) = Fin (of_int m / 2 ^ k)"
  using rnd_dyadic [of m "- int k"] assms pow2_minus [of "int k"] by (simp add: pow2_nat)

end
