(* ===== verification/Hil_Interval.thy ===== *)
theory Hil_Interval
  imports Ieee_Double
begin

text \<open>
  The interval arithmetic of the trajectory engine (\<^verbatim>\<open>src/hil_trajectory.cpp\<close>, anonymous namespace): neighbours of
  a \<^verbatim>\<open>double\<close> (\<^verbatim>\<open>std::nextafter\<close>), outward rounded addition and multiplication, Horner evaluation, and
  the bounded search for stationary points. The lemmas show that an interval result encloses the exact real result.
\<close>

section \<open>Neighbours\<close>

text \<open>The distance to the next value towards zero, for a positive finite value.\<close>

definition gap_below :: "rat \<Rightarrow> rat" where
  "gap_below m = (if m \<le> pow2 (-1022) then pow2 (-1074)
     else if m = pow2 (ilog2 m) then pow2 (last_place m - 1) else pow2 (last_place m))"

fun up :: "double \<Rightarrow> double" where
  "up (Fin x) = (if 0 \<le> x then (let y = x + pow2 (last_place x) in if pow2 1024 \<le> y then PInf else Fin y)
     else Fin (x + gap_below (- x)))"
| "up PInf = PInf"
| "up NInf = Fin (- (pow2 1024 - pow2 971))"
| "up NaN = NaN"

definition down :: "double \<Rightarrow> double" where
  "down d = - up (- d)"

lemma last_place_ge: "-1074 \<le> last_place x"
proof (cases "\<bar>x\<bar> < pow2 (-1022)")
  case False
  then have "pow2 (-1022) \<le> \<bar>x\<bar>" "0 < \<bar>x\<bar>" using pow2_pos [of "-1022"] by linarith+
  then have "pow2 (-1022) < pow2 (ilog2 \<bar>x\<bar> + 1)" using ilog2_bounds(2) [of "\<bar>x\<bar>"] by linarith
  then show ?thesis using False by (simp add: last_place_def)
qed (simp add: last_place_def)

lemma last_place_le:
  assumes "\<bar>x\<bar> \<le> pow2 k" and "-1074 \<le> k"
  shows "last_place x \<le> k"
proof (cases "\<bar>x\<bar> < pow2 (-1022)")
  case False
  then have "0 < \<bar>x\<bar>" using pow2_pos [of "-1022"] by linarith
  then have "pow2 (ilog2 \<bar>x\<bar>) \<le> pow2 k" using ilog2_bounds(1) [of "\<bar>x\<bar>"] assms(1) by linarith
  then show ?thesis using False by (simp add: last_place_def)
qed (use assms in \<open>simp add: last_place_def\<close>)

text \<open>Rounding does not lower the weight of the last place.\<close>

lemma last_place_round:
  assumes "0 \<le> e"
  shows "last_place e \<le> last_place (round_rat e)"
proof (cases "e < pow2 (-1022)")
  case True
  then show ?thesis using last_place_ge [of "round_rat e"] assms by (simp add: last_place_def)
next
  case False
  then have pos: "0 < e" using pow2_pos [of "-1022"] by linarith
  have n: "pow2 (-1022) < pow2 (ilog2 e + 1)" using ilog2_bounds(2) [OF pos] False by linarith
  have lp: "last_place e = ilog2 e - 52" using False assms by (simp add: last_place_def)
  have r: "pow2 (ilog2 e) \<le> round_rat e" using round_rat_ge_pow2 [OF ilog2_bounds(1) [OF pos]] lp by simp
  then have rp: "0 < round_rat e" using pow2_pos [of "ilog2 e"] by linarith
  have "pow2 (ilog2 e) < pow2 (ilog2 (round_rat e) + 1)" using r ilog2_bounds(2) [OF rp] by linarith
  then have l: "ilog2 e \<le> ilog2 (round_rat e)" by simp
  have "pow2 (-1022) \<le> pow2 (ilog2 e)" using n by simp
  then have "\<not> round_rat e < pow2 (-1022)" using r by linarith
  then show ?thesis using l lp rp by (simp add: last_place_def)
qed

lemma pow2_half: "pow2 k / 2 = pow2 (k - 1)"
  using pow2_diff [of k 1] by (simp add: pow2_nat)

lemma pow2_double: "pow2 k + pow2 k = pow2 (k + 1)"
  using pow2_half [of "k + 1"] by simp

lemma gap_below_ge:
  assumes "0 < f" and "f < m" and "m = round_rat f"
  shows "pow2 (last_place f) / 2 \<le> gap_below m"
proof -
  have f: "\<bar>f\<bar> = f" "0 < m" using assms by simp_all
  consider "m \<le> pow2 (-1022)" | "pow2 (-1022) < m" "m = pow2 (ilog2 m)" | "pow2 (-1022) < m" "m \<noteq> pow2 (ilog2 m)" by linarith
  then show ?thesis
  proof cases
    case 1
    then have "last_place f = -1074" using assms f by (simp add: last_place_def)
    then show ?thesis using 1 by (simp add: gap_below_def)
  next
    case 2
    have "pow2 (-1022) < pow2 (ilog2 m)" using 2 by simp
    then have l: "-1021 \<le> ilog2 m" by simp
    have lm: "last_place m = ilog2 m - 52" using 2(1) f(2) by (simp add: last_place_def)
    have "last_place f \<le> last_place m"
      using last_place_mono [of f m] assms by simp
    then have "pow2 (last_place f - 1) \<le> pow2 (last_place m - 1)" by simp
    then show ?thesis using 2 by (simp add: gap_below_def pow2_half)
  next
    case 3
    have "last_place f \<le> last_place m" using last_place_mono [of f m] assms by simp
    then have "pow2 (last_place f - 1) \<le> pow2 (last_place m)" by simp
    then show ?thesis using 3 by (simp add: gap_below_def pow2_half)
  qed
qed

lemma gap_below_le:
  assumes "0 < m" and "m \<le> pow2 k" and "-1074 \<le> k"
  shows "0 < gap_below m" and "gap_below m \<le> pow2 k"
  using last_place_le [of m k] assms by (auto simp: gap_below_def)

text \<open>The upper neighbour of a rounded result is not below the exact result.\<close>

lemma up_rnd:
  assumes "\<bar>e\<bar> \<le> pow2 k" and "-1074 \<le> k" and "k \<le> 1000"
  shows "\<exists>u. up (rnd e) = Fin u \<and> e \<le> u \<and> \<bar>u\<bar> \<le> pow2 (k + 1)"
proof -
  define r where "r = round_rat e"
  have kk: "pow2 k < pow2 1023" "pow2 (k + 1) < pow2 1024" using assms(3) by simp_all
  have e: "rnd e = Fin r" using rnd_Fin [of e] assms(1) kk(1) by (simp add: r_def)
  have rk: "\<bar>r\<bar> \<le> pow2 k" unfolding r_def using assms by (intro round_rat_magnitude) auto
  have err: "\<bar>r - e\<bar> \<le> pow2 (last_place e) / 2" unfolding r_def by (rule round_rat_abs_error)
  show ?thesis
  proof (cases "0 \<le> r")
    case True
    let ?u = "r + pow2 (last_place r)"
    have "pow2 (last_place r) \<le> pow2 k" using last_place_le [OF rk assms(2)] by simp
    then have b: "?u \<le> pow2 (k + 1)" using rk True pow2_double [of k] by linarith
    have "e \<le> ?u"
    proof (cases "e \<le> r")
      case True
      then show ?thesis using pow2_pos [of "last_place r"] by linarith
    next
      case False
      then have "last_place e \<le> last_place r" using last_place_round [of e] True by (simp add: r_def)
      then have "pow2 (last_place e - 1) \<le> pow2 (last_place r)" by simp
      then show ?thesis using err pow2_half [of "last_place e"] by linarith
    qed
    moreover have "0 \<le> ?u" using True pow2_pos [of "last_place r"] by linarith
    moreover have "\<not> pow2 1024 \<le> ?u" using b kk(2) by linarith
    ultimately show ?thesis using True b e by (intro exI [of _ ?u]) (simp add: Let_def)
  next
    case False
    define m f where "m = - r" and "f = - e"
    have m: "0 < m" "m \<le> pow2 k" "m = round_rat f" using False rk by (simp_all add: m_def f_def r_def)
    then have f: "0 < f" using round_rat_mono [of f 0] by (cases "0 < f") auto
    note g = gap_below_le [OF m(1,2) assms(2)]
    have "m - gap_below m \<le> f"
    proof (cases "m \<le> f")
      case False
      then have "m - f \<le> pow2 (last_place f) / 2" using err by (simp add: m_def f_def)
      then show ?thesis using gap_below_ge [OF f _ m(3)] False by linarith
    qed (use g(1) in linarith)
    then have "e \<le> r + gap_below (- r)" by (simp add: m_def f_def)
    moreover have "\<bar>r + gap_below (- r)\<bar> \<le> pow2 (k + 1)"
      using g m(1,2) pow2_double [of k] pow2_pos [of k] unfolding m_def abs_le_iff by linarith
    ultimately show ?thesis using False e by (intro exI [of _ "r + gap_below (- r)"]) simp
  qed
qed

lemma rnd_uminus: "rnd (- x) = - rnd x"
proof -
  have "\<not> (pow2 1024 \<le> round_rat x \<and> pow2 1024 \<le> - round_rat x)" using pow2_pos [of 1024] by linarith
  then show ?thesis by (auto simp: rnd_def Let_def)
qed

lemma down_rnd:
  assumes "\<bar>e\<bar> \<le> pow2 k" and "-1074 \<le> k" and "k \<le> 1000"
  shows "\<exists>d. down (rnd e) = Fin d \<and> d \<le> e \<and> \<bar>d\<bar> \<le> pow2 (k + 1)"
proof -
  obtain u where "up (rnd (- e)) = Fin u" "- e \<le> u" "\<bar>u\<bar> \<le> pow2 (k + 1)"
    using up_rnd [of "- e" k] assms by auto
  then show ?thesis by (intro exI [of _ "- u"]) (simp add: down_def rnd_uminus)
qed

section \<open>Intervals\<close>

record Interval =
  iv_lo :: double
  iv_hi :: double

abbreviation iv :: "double \<Rightarrow> double \<Rightarrow> Interval" where
  "iv a b \<equiv> \<lparr>iv_lo = a, iv_hi = b\<rparr>"

definition iv_add :: "Interval \<Rightarrow> Interval \<Rightarrow> Interval" where
  "iv_add a b = iv (down (iv_lo a + iv_lo b)) (up (iv_hi a + iv_hi b))"

text \<open>\<^verbatim>\<open>std::min_element\<close> and \<^verbatim>\<open>std::max_element\<close>: the first smallest and the first largest.\<close>

definition min_element :: "double list \<Rightarrow> double" where
  "min_element xs = fold (\<lambda>v best. if v < best then v else best) (tl xs) (hd xs)"

definition max_element :: "double list \<Rightarrow> double" where
  "max_element xs = fold (\<lambda>v best. if best < v then v else best) (tl xs) (hd xs)"

definition iv_products :: "Interval \<Rightarrow> Interval \<Rightarrow> double list" where
  "iv_products a b = [iv_lo a * iv_lo b, iv_lo a * iv_hi b, iv_hi a * iv_lo b, iv_hi a * iv_hi b]"

definition iv_multiply :: "Interval \<Rightarrow> Interval \<Rightarrow> Interval" where
  "iv_multiply a b = iv (down (min_element (iv_products a b))) (up (max_element (iv_products a b)))"

definition iv_magnitude :: "Interval \<Rightarrow> double" where
  "iv_magnitude a = dmax \<bar>iv_lo a\<bar> \<bar>iv_hi a\<bar>"

definition polynomial :: "double list \<Rightarrow> Interval \<Rightarrow> Interval" where
  "polynomial coefficients x = foldr (\<lambda>c y. iv_add (iv_multiply y x) (iv c c)) coefficients (iv (dlit 0) (dlit 0))"

text \<open>An interval that contains a real number and has end points of bounded magnitude.\<close>

definition encl :: "int \<Rightarrow> Interval \<Rightarrow> real \<Rightarrow> bool" where
  "encl k a x \<longleftrightarrow> (\<exists>l h. a = iv (Fin l) (Fin h) \<and> of_rat l \<le> x \<and> x \<le> of_rat h \<and> \<bar>l\<bar> \<le> pow2 k \<and> \<bar>h\<bar> \<le> pow2 k)"

lemma enclE:
  assumes "encl k a x"
  obtains l h where "a = iv (Fin l) (Fin h)" "of_rat l \<le> x" "x \<le> of_rat h" "\<bar>l\<bar> \<le> pow2 k" "\<bar>h\<bar> \<le> pow2 k"
  using assms by (auto simp: encl_def)

lemma encl_mono: "encl k a x \<Longrightarrow> k \<le> m \<Longrightarrow> encl m a x"
proof -
  assume "encl k a x" and km: "k \<le> m"
  then obtain l h where a: "a = iv (Fin l) (Fin h)" "of_rat l \<le> x" "x \<le> of_rat h" "\<bar>l\<bar> \<le> pow2 k" "\<bar>h\<bar> \<le> pow2 k" by (elim enclE)
  then have "\<bar>l\<bar> \<le> pow2 m" "\<bar>h\<bar> \<le> pow2 m" using pow2_mono [OF km] by linarith+
  with a(1-3) show ?thesis unfolding encl_def by blast
qed

lemma encl_point: "\<bar>c\<bar> \<le> pow2 k \<Longrightarrow> encl k (iv (Fin c) (Fin c)) (of_rat c)"
  by (auto simp: encl_def)

lemma iv_add_encl:
  assumes "encl k a x" and "encl k b y" and "-1000 \<le> k" and "k \<le> 900"
  shows "encl (k + 2) (iv_add a b) (x + y)"
proof -
  obtain l h where a: "a = iv (Fin l) (Fin h)" "of_rat l \<le> x" "x \<le> of_rat h" "\<bar>l\<bar> \<le> pow2 k" "\<bar>h\<bar> \<le> pow2 k" using assms(1) by (rule enclE)
  obtain l' h' where b: "b = iv (Fin l') (Fin h')" "of_rat l' \<le> y" "y \<le> of_rat h'" "\<bar>l'\<bar> \<le> pow2 k" "\<bar>h'\<bar> \<le> pow2 k" using assms(2) by (rule enclE)
  have s: "\<bar>l + l'\<bar> \<le> pow2 (k + 1)" "\<bar>h + h'\<bar> \<le> pow2 (k + 1)" using a(4,5) b(4,5) pow2_double [of k] by linarith+
  obtain d where d: "down (rnd (l + l')) = Fin d" "d \<le> l + l'" "\<bar>d\<bar> \<le> pow2 (k + 1 + 1)" using down_rnd [OF s(1)] assms(3,4) by auto
  obtain u where u: "up (rnd (h + h')) = Fin u" "h + h' \<le> u" "\<bar>u\<bar> \<le> pow2 (k + 1 + 1)" using up_rnd [OF s(2)] assms(3,4) by auto
  have "of_rat d \<le> (of_rat (l + l') :: real)" "(of_rat (h + h') :: real) \<le> of_rat u" using d(2) u(2) by (simp_all only: of_rat_less_eq)
  then have "of_rat d \<le> x + y" "x + y \<le> of_rat u" using a(2,3) b(2,3) by (simp_all add: of_rat_add)
  then show ?thesis using d u by (auto simp: encl_def iv_add_def a(1) b(1) add.assoc)
qed

text \<open>A product of two numbers lies between products of end points.\<close>

lemma product_ge:
  fixes x y :: real
  assumes "l \<le> x" "x \<le> h" "a \<le> y" "y \<le> b"
  shows "l * a \<le> x * y \<or> l * b \<le> x * y \<or> h * a \<le> x * y \<or> h * b \<le> x * y"
proof -
  have "l * y \<le> x * y \<or> h * y \<le> x * y"
    using mult_right_mono [OF assms(1), of y] mult_right_mono_neg [OF assms(2), of y] by (cases "0 \<le> y") auto
  moreover have "z * a \<le> z * y \<or> z * b \<le> z * y" for z
    using mult_left_mono [OF assms(3), of z] mult_left_mono_neg [OF assms(4), of z] by (cases "0 \<le> z") auto
  ultimately show ?thesis by (meson order_trans)
qed

lemma product_le:
  fixes x y :: real
  assumes "l \<le> x" "x \<le> h" "a \<le> y" "y \<le> b"
  shows "x * y \<le> l * a \<or> x * y \<le> l * b \<or> x * y \<le> h * a \<or> x * y \<le> h * b"
  using product_ge [of "- h" "- x" "- l" a y b] assms by auto

lemma min_element_rnd:
  assumes "\<And>p. p \<in> set ps \<Longrightarrow> \<bar>p\<bar> \<le> pow2 1000" and "ps \<noteq> []"
  shows "min_element (map rnd ps) = rnd (Min (set ps))" and "max_element (map rnd ps) = rnd (Max (set ps))"
proof -
  have fin: "rnd p = Fin (round_rat p)" if "p \<in> set ps" for p 
    using rnd_Fin [OF order_trans [OF assms(1) [OF that] pow2_mono [of 1000 1023]]] by simp
  have mono: "rnd p < rnd q \<Longrightarrow> p \<le> q" if "p \<in> set ps" "q \<in> set ps" for p q
    using rnd_mono [of q p] fin that by (cases "p \<le> q") auto
  have eq: "\<not> rnd p < rnd q \<Longrightarrow> p \<le> q \<Longrightarrow> rnd p = rnd q" if "p \<in> set ps" "q \<in> set ps" for p q
    using rnd_mono [of p q] fin that by auto
  have mn: "fold (\<lambda>v best. if v < best then v else best) (map rnd xs) (rnd b) = rnd (Min (insert b (set xs)))"
    if "set xs \<subseteq> set ps" "b \<in> set ps" for xs b using that
  proof (induction xs arbitrary: b)
    case (Cons x xs)
    have "(if rnd x < rnd b then rnd x else rnd b) = rnd (min x b)"
      using mono [of x b] eq [of x b] Cons.prems by (auto simp: min_def)
    moreover have "min x b \<in> set ps" using Cons.prems by (simp add: min_def)
    ultimately show ?case using Cons.IH [of "min x b"] Cons.prems by (simp add: insert_commute) (cases "xs = []"; simp add: min.commute min.left_commute)
  qed simp
  have mx: "fold (\<lambda>v best. if best < v then v else best) (map rnd xs) (rnd b) = rnd (Max (insert b (set xs)))"
    if "set xs \<subseteq> set ps" "b \<in> set ps" for xs b using that
  proof (induction xs arbitrary: b)
    case (Cons x xs)
    have "(if rnd b < rnd x then rnd x else rnd b) = rnd (max x b)"
      using mono [of b x] eq [of b x] Cons.prems by (auto simp: max_def)
    moreover have "max x b \<in> set ps" using Cons.prems by (simp add: max_def)
    ultimately show ?case using Cons.IH [of "max x b"] Cons.prems by (simp add: insert_commute) (cases "xs = []"; simp add: max.commute max.left_commute)
  qed simp
  obtain b xs where ps: "ps = b # xs" using assms(2) by (cases ps) auto
  show "min_element (map rnd ps) = rnd (Min (set ps))" using mn [of xs b] by (auto simp: min_element_def ps)
  show "max_element (map rnd ps) = rnd (Max (set ps))" using mx [of xs b] by (auto simp: max_element_def ps)
qed

lemma iv_multiply_encl:
  assumes "encl k a x" and "encl m b y" and "-1000 \<le> k + m" and "k + m \<le> 900"
  shows "encl (k + m + 1) (iv_multiply a b) (x * y)"
proof -
  obtain l h where a: "a = iv (Fin l) (Fin h)" "of_rat l \<le> x" "x \<le> of_rat h" "\<bar>l\<bar> \<le> pow2 k" "\<bar>h\<bar> \<le> pow2 k" using assms(1) by (rule enclE)
  obtain l' h' where b: "b = iv (Fin l') (Fin h')" "of_rat l' \<le> y" "y \<le> of_rat h'" "\<bar>l'\<bar> \<le> pow2 m" "\<bar>h'\<bar> \<le> pow2 m" using assms(2) by (rule enclE)
  define ps where "ps = [l * l', l * h', h * l', h * h']"
  have pr: "iv_products a b = map rnd ps" by (simp add: iv_products_def a(1) b(1) ps_def)
  have bnd: "\<bar>u * v\<bar> \<le> pow2 (k + m)" if "\<bar>u\<bar> \<le> pow2 k" "\<bar>v\<bar> \<le> pow2 m" for u v :: rat
    using mult_mono [OF that] by (simp add: abs_mult pow2_add)
  then have all: "\<bar>p\<bar> \<le> pow2 (k + m)" if "p \<in> set ps" for p using that a(4,5) b(4,5) by (auto simp: ps_def)
  then have all': "\<bar>p\<bar> \<le> pow2 1000" if "p \<in> set ps" for p
    using that order_trans [OF all pow2_mono [of "k + m" 1000]] assms(4) by simp
  have ne: "ps \<noteq> []" by (simp add: ps_def)
  note me = min_element_rnd [OF all' ne]
  have mem: "Min (set ps) \<in> set ps" "Max (set ps) \<in> set ps" using ne by simp_all
  obtain d where d: "down (rnd (Min (set ps))) = Fin d" "d \<le> Min (set ps)" "\<bar>d\<bar> \<le> pow2 (k + m + 1)"
    using down_rnd [OF all [OF mem(1)]] assms(3,4) by auto
  obtain u where u: "up (rnd (Max (set ps))) = Fin u" "Max (set ps) \<le> u" "\<bar>u\<bar> \<le> pow2 (k + m + 1)"
    using up_rnd [OF all [OF mem(2)]] assms(3,4) by auto
  have le: "(of_rat d :: real) \<le> of_rat p" "of_rat p \<le> (of_rat u :: real)" if "p \<in> set ps" for p
    using d(2) u(2) Min_le [OF finite_set that] Max_ge [OF finite_set that] by (simp_all add: of_rat_less_eq)
  have "of_rat d \<le> x * y"
    using product_ge [OF a(2,3) b(2,3)] le(1) [of "l * l'"] le(1) [of "l * h'"] le(1) [of "h * l'"] le(1) [of "h * h'"]
    by (auto simp: ps_def of_rat_mult)
  moreover have "x * y \<le> of_rat u"
    using product_le [OF a(2,3) b(2,3)] le(2) [of "l * l'"] le(2) [of "l * h'"] le(2) [of "h * l'"] le(2) [of "h * h'"]
    by (auto simp: ps_def of_rat_mult)
  ultimately show ?thesis using d u by (auto simp: encl_def iv_multiply_def pr me)
qed

text \<open>Horner's scheme on reals.\<close>

definition real_poly :: "rat list \<Rightarrow> real \<Rightarrow> real" where
  "real_poly cs x = foldr (\<lambda>c y. y * x + of_rat c) cs 0"

lemma polynomial_encl:
  assumes "encl 0 a x" and "\<forall>c \<in> set cs. \<bar>c\<bar> \<le> pow2 13" and "length cs \<le> 100"
  shows "encl (13 + 3 * int (length cs)) (polynomial (map Fin cs) a) (real_poly cs x)"
  using assms(2,3)
proof (induction cs)
  case Nil
  show ?case using encl_point [of 0 13] by (simp add: polynomial_def real_poly_def)
next
  case (Cons c cs)
  let ?k = "13 + 3 * int (length cs)"
  have i: "encl ?k (polynomial (map Fin cs) a) (real_poly cs x)" using Cons by simp
  have "encl (?k + 0 + 1) (iv_multiply (polynomial (map Fin cs) a) a) (real_poly cs x * x)"
    using Cons.prems(2) by (intro iv_multiply_encl [OF i assms(1)]) simp_all
  then have p: "encl (?k + 1) (iv_multiply (polynomial (map Fin cs) a) a) (real_poly cs x * x)" by simp
  have c: "encl (?k + 1) (iv (Fin c) (Fin c)) (of_rat c)"
    using Cons.prems(1) encl_point [of c 13] encl_mono [of 13 _ _ "?k + 1"] by simp
  have "encl (?k + 1 + 2) (iv_add (iv_multiply (polynomial (map Fin cs) a) a) (iv (Fin c) (Fin c))) (real_poly cs x * x + of_rat c)"
    using Cons.prems(2) by (intro iv_add_encl [OF p c]) simp_all
  then show ?case by (simp add: polynomial_def real_poly_def algebra_simps)
qed

lemma iv_magnitude_encl:
  assumes "encl k a x"
  shows "\<exists>m. iv_magnitude a = Fin m \<and> \<bar>x\<bar> \<le> of_rat m \<and> 0 \<le> m \<and> m \<le> pow2 k"
proof -
  obtain l h where a: "a = iv (Fin l) (Fin h)" "of_rat l \<le> x" "x \<le> of_rat h" "\<bar>l\<bar> \<le> pow2 k" "\<bar>h\<bar> \<le> pow2 k" using assms by (rule enclE)
  have m: "iv_magnitude a = Fin (max \<bar>l\<bar> \<bar>h\<bar>)" by (simp add: iv_magnitude_def dmax_def a(1) max_def)
  have "of_rat (- \<bar>l\<bar>) \<le> (of_rat l :: real)" "(of_rat h :: real) \<le> of_rat \<bar>h\<bar>" by (simp_all add: of_rat_less_eq)
  moreover have "(of_rat \<bar>l\<bar> :: real) \<le> of_rat (max \<bar>l\<bar> \<bar>h\<bar>)" "(of_rat \<bar>h\<bar> :: real) \<le> of_rat (max \<bar>l\<bar> \<bar>h\<bar>)" by (simp_all add: of_rat_less_eq)
  ultimately have "\<bar>x\<bar> \<le> of_rat (max \<bar>l\<bar> \<bar>h\<bar>)" using a(2,3) by (auto simp: of_rat_minus abs_le_iff)
  then show ?thesis using m a(4,5) by auto
qed

section \<open>The magnitude of the ramp acceleration\<close>

text \<open>\<open>sq\<close> is \<^verbatim>\<open>std::sqrt\<close>.\<close>

definition rampMagnitude :: "(double \<Rightarrow> double) \<Rightarrow> double list \<Rightarrow> Interval \<Rightarrow> double" where
  "rampMagnitude sq q c =
     (let min_abs = (if iv_lo c \<le> dlit 0 \<and> dlit 0 \<le> iv_hi c then dlit 0 else dmin \<bar>iv_lo c\<bar> \<bar>iv_hi c\<bar>);
          min_square = dmax (dlit 0) (down (min_abs * min_abs));
          sin_upper = up (sq (dmax (dlit 0) (up (dlit 1 - min_square))))
      in up (sin_upper * iv_magnitude (polynomial q c)))"

text \<open>The recursion depth of the source, counted down from 36, and the shared work budget.\<close>

fun stationaryMagnitude ::
  "(double \<Rightarrow> double) \<Rightarrow> double list \<Rightarrow> double list \<Rightarrow> Interval \<Rightarrow> nat \<Rightarrow> u32 \<Rightarrow> double \<times> u32" where
  "stationaryMagnitude sq derivative q c levels remaining =
     (let p = polynomial derivative c
      in if dlit 0 < iv_lo p \<or> iv_hi p < dlit 0 then (dlit 0, remaining)
      else if remaining = 0 then (rampMagnitude sq q c, remaining)
      else case levels of 0 \<Rightarrow> (rampMagnitude sq q c, remaining)
      | Suc k \<Rightarrow>
          (let mid = iv_lo c + (iv_hi c - iv_lo c) * dlit (1 / 2);
               (left, remaining) = stationaryMagnitude sq derivative q (iv (iv_lo c) mid) k (remaining - 1);
               (right, remaining) = stationaryMagnitude sq derivative q (iv mid (iv_hi c)) k remaining
           in (dmax left right, remaining)))"

declare stationaryMagnitude.simps [simp del]

text \<open>What is used of \<^verbatim>\<open>std::sqrt\<close>: on the values that occur, the neighbour above the result is not below the root.\<close>

definition sqrt_ok :: "(double \<Rightarrow> double) \<Rightarrow> bool" where
  "sqrt_ok sq \<longleftrightarrow> (\<forall>v. 0 \<le> v \<and> v \<le> 2 \<longrightarrow> (\<exists>s. sq (Fin v) = Fin s \<and> 0 \<le> s \<and> s \<le> 2 \<and> v \<le> (s + pow2 (last_place s)) ^ 2))"

lemma rat_real_le: "a \<le> b \<Longrightarrow> (of_rat a :: real) \<le> of_rat b"
  by (simp add: of_rat_less_eq)

lemma min_abs_ok:
  assumes "encl 0 c x"
  shows "\<exists>m. (if iv_lo c \<le> dlit 0 \<and> dlit 0 \<le> iv_hi c then dlit 0 else dmin \<bar>iv_lo c\<bar> \<bar>iv_hi c\<bar>) = Fin m \<and> 0 \<le> m \<and> m \<le> 1 \<and> of_rat m \<le> \<bar>x\<bar>"
proof -
  obtain l h where c: "c = iv (Fin l) (Fin h)" "of_rat l \<le> x" "x \<le> of_rat h" "\<bar>l\<bar> \<le> 1" "\<bar>h\<bar> \<le> 1"
    using assms by (auto elim!: enclE)
  consider "l \<le> 0" "0 \<le> h" | "0 < l" | "h < 0" by linarith
  then show ?thesis
  proof cases
    case 1
    then show ?thesis using c(1) by (intro exI [of _ 0]) simp
  next
    case 2
    have "(of_rat l :: real) \<le> of_rat h" using c(2,3) by linarith
    then have lh: "l \<le> h" by (simp add: of_rat_less_eq)
    have "(0 :: real) < of_rat l" using 2 by simp
    then have "of_rat l \<le> \<bar>x\<bar>" using c(2) by linarith
    then show ?thesis using c(1,4) 2 lh by (intro exI [of _ l]) (simp add: dmin_def)
  next
    case 3
    have "(of_rat l :: real) \<le> of_rat h" using c(2,3) by linarith
    then have lh: "l \<le> h" by (simp add: of_rat_less_eq)
    have "(of_rat h :: real) < 0" using 3 by simp
    then have "of_rat (- h) \<le> \<bar>x\<bar>" using c(3) by (simp add: of_rat_minus)
    then show ?thesis using c(1,5) 3 lh by (intro exI [of _ "- h"]) (auto simp: dmin_def)
  qed
qed

lemma rampMagnitude_bound:
  assumes "encl 0 c x" and "sqrt_ok sq" and "\<forall>a \<in> set q. \<bar>a\<bar> \<le> pow2 13" and "length q \<le> 100"
  shows "\<exists>m. rampMagnitude sq (map Fin q) c = Fin m \<and> sqrt (1 - x\<^sup>2) * \<bar>real_poly q x\<bar> \<le> of_rat m \<and> \<bar>m\<bar> \<le> pow2 400"
proof -
  obtain a where a: "(if iv_lo c \<le> dlit 0 \<and> dlit 0 \<le> iv_hi c then dlit 0 else dmin \<bar>iv_lo c\<bar> \<bar>iv_hi c\<bar>) = Fin a"
    "0 \<le> a" "a \<le> 1" "of_rat a \<le> \<bar>x\<bar>" using min_abs_ok [OF assms(1)] by blast
  have aa: "\<bar>a * a\<bar> \<le> pow2 0" using a(2,3) by (simp add: mult_le_one)
  obtain d where d: "down (rnd (a * a)) = Fin d" "d \<le> a * a" using down_rnd [OF aa] by auto
  define ms where "ms = max 0 d"
  have ms: "dmax (dlit 0) (down (Fin a * Fin a)) = Fin ms" "0 \<le> ms" "ms \<le> a * a" "ms \<le> 1"
    using d a(2) aa by (auto simp: ms_def dmax_def max_def)
  have one: "\<bar>1 - ms\<bar> \<le> pow2 0" using ms(2,4) by simp
  obtain v where v: "up (rnd (1 - ms)) = Fin v" "1 - ms \<le> v" "\<bar>v\<bar> \<le> pow2 1" using up_rnd [OF one] by auto
  define w where "w = max 0 v"
  have w: "dmax (dlit 0) (up (dlit 1 - Fin ms)) = Fin w" "0 \<le> w" "w \<le> 2" "1 - ms \<le> w"
    using v by (auto simp: w_def dmax_def max_def minus_double_def pow2_nat)
  obtain s where s: "sq (Fin w) = Fin s" "0 \<le> s" "s \<le> 2" "w \<le> (s + pow2 (last_place s)) ^ 2"
    using assms(2) w(2,3) by (auto simp: sqrt_ok_def)
  define u where "u = s + pow2 (last_place s)"
  have lp: "last_place s \<le> 1" using last_place_le [of s 1] s(2,3) by (simp add: pow2_nat)
  then have "pow2 (last_place s) \<le> pow2 1" by (rule pow2_mono)
  then have u: "0 \<le> u" "u \<le> 4" "w \<le> u ^ 2" using s(2,3,4) pow2_pos [of "last_place s"] unfolding u_def by (simp_all add: pow2_nat)
  have "u < pow2 1024" using u(2) pow2_strict [of 2 1024] by (simp add: pow2_nat)
  then have ups: "up (Fin s) = Fin u" using s(2) by (simp add: u_def Let_def)
  obtain m where m: "iv_magnitude (polynomial (map Fin q) c) = Fin m" "\<bar>real_poly q x\<bar> \<le> of_rat m" "0 \<le> m" "m \<le> pow2 (13 + 3 * int (length q))"
    using iv_magnitude_encl [OF polynomial_encl [OF assms(1,3,4)]] by blast
  have m': "m \<le> pow2 313" using m(4) pow2_mono [of "13 + 3 * int (length q)" 313] assms(4) by linarith
  have um: "\<bar>u * m\<bar> \<le> pow2 315"
    using mult_mono [OF u(2) m'] u(1) m(3) pow2_add [of 2 313] by (simp add: pow2_nat [of 2])
  obtain z where z: "up (rnd (u * m)) = Fin z" "u * m \<le> z" "\<bar>z\<bar> \<le> pow2 316" using up_rnd [OF um] by auto
  have r: "rampMagnitude sq (map Fin q) c = Fin z"
    unfolding rampMagnitude_def Let_def a(1) ms(1) w(1) s(1) ups m(1) using z(1) by simp
  have "a * a \<le> 1" using aa a(2) by simp
  have "(of_rat (a * a) :: real) \<le> x\<^sup>2"
    using mult_mono [OF a(4) a(4)] a(2) by (simp add: of_rat_mult power2_eq_square)
  moreover have "(of_rat (1 - a * a) :: real) \<le> of_rat (u ^ 2)" using ms(3) w(4) u(3) by (intro rat_real_le) linarith
  ultimately have "1 - x\<^sup>2 \<le> (of_rat u)\<^sup>2" by (simp add: of_rat_diff of_rat_power)
  then have sq: "sqrt (1 - x\<^sup>2) \<le> of_rat u" using u(1) real_le_lsqrt by (metis of_rat_0 rat_real_le real_sqrt_abs real_sqrt_le_iff abs_of_nonneg)
  have "sqrt (1 - x\<^sup>2) * \<bar>real_poly q x\<bar> \<le> of_rat u * of_rat m"
    using u(1) sq m(2) by (intro mult_mono) (auto simp: rat_real_le [of 0, simplified])
  also have "\<dots> \<le> of_rat z" using z(2) by (simp add: of_rat_less_eq flip: of_rat_mult)
  finally have "sqrt (1 - x\<^sup>2) * \<bar>real_poly q x\<bar> \<le> of_rat z" .
  moreover have "\<bar>z\<bar> \<le> pow2 400" using order_trans [OF z(3) pow2_mono] by simp
  ultimately show ?thesis using r by blast
qed


section \<open>The search over stationary points\<close>

text \<open>The intervals of the search at depth \<open>d\<close>: their end points are dyadic, so halving is exact.\<close>

definition cell :: "nat \<Rightarrow> int \<Rightarrow> Interval" where
  "cell d j = iv (Fin (of_int j / 2 ^ d)) (Fin (of_int (j + 2) / 2 ^ d))"

definition cell_ok :: "nat \<Rightarrow> int \<Rightarrow> bool" where
  "cell_ok d j \<longleftrightarrow> - (2 ^ d) \<le> j \<and> j + 2 \<le> 2 ^ d \<and> d \<le> 50"

lemma cell_bounds:
  assumes "cell_ok d j"
  shows "\<bar>j\<bar> < 2 ^ 53" and "\<bar>j + 1\<bar> < 2 ^ 53" and "\<bar>of_int j / 2 ^ d :: rat\<bar> \<le> 1" and "\<bar>of_int (j + 2) / 2 ^ d :: rat\<bar> \<le> 1"
proof -
  have "(2 :: int) ^ d \<le> 2 ^ 50" using assms by (intro power_increasing) (auto simp: cell_ok_def)
  then show "\<bar>j\<bar> < 2 ^ 53" "\<bar>j + 1\<bar> < 2 ^ 53" using assms by (auto simp: cell_ok_def)
  have "\<bar>j\<bar> \<le> 2 ^ d" "\<bar>j + 2\<bar> \<le> 2 ^ d" using assms by (auto simp: cell_ok_def)
  then have "of_int \<bar>j\<bar> \<le> (of_int (2 ^ d) :: rat)" "of_int \<bar>j + 2\<bar> \<le> (of_int (2 ^ d) :: rat)" by (simp_all only: of_int_le_iff)
  then show "\<bar>of_int j / 2 ^ d :: rat\<bar> \<le> 1" "\<bar>of_int (j + 2) / 2 ^ d :: rat\<bar> \<le> 1" by simp_all
qed

lemma cell_encl:
  assumes "cell_ok d j" and "of_int j / 2 ^ d \<le> x" and "x \<le> of_int (j + 2) / 2 ^ d"
  shows "encl 0 (cell d j) x"
  using assms(2,3) cell_bounds [OF assms(1)] by (auto simp: encl_def cell_def of_rat_divide of_rat_power of_rat_add)

lemma cell_mid:
  assumes "cell_ok d j"
  shows "iv_lo (cell d j) + (iv_hi (cell d j) - iv_lo (cell d j)) * dlit (1 / 2) = Fin (of_int (j + 1) / 2 ^ d)"
proof -
  have d: "d \<le> 1074" using assms by (simp add: cell_ok_def)
  have w: "of_int (j + 2) / 2 ^ d - of_int j / 2 ^ d = (of_int 2 / 2 ^ d :: rat)" by (simp add: diff_divide_distrib [symmetric])
  have h: "of_int 2 / 2 ^ d * (1 / 2) = (of_int 1 / 2 ^ d :: rat)" by simp
  have m: "of_int j / 2 ^ d + of_int 1 / 2 ^ d = (of_int (j + 1) / 2 ^ d :: rat)" by (simp add: add_divide_distrib)
  have "rnd (of_int (j + 2) / 2 ^ d - of_int j / 2 ^ d) = Fin (of_int 2 / 2 ^ d)"
    unfolding w by (rule rnd_half_power) (use d in simp_all)
  moreover have "rnd (of_int 2 / 2 ^ d * (1 / 2)) = Fin (of_int 1 / 2 ^ d)"
    unfolding h by (rule rnd_half_power) (use d in simp_all)
  moreover have "rnd (of_int j / 2 ^ d + of_int 1 / 2 ^ d) = Fin (of_int (j + 1) / 2 ^ d)"
    unfolding m by (rule rnd_half_power) (use d cell_bounds [OF assms] in simp_all)
  moreover have "dlit (1 / 2) = Fin (1 / 2)" using rnd_half_power [of 1 1] by simp
  ultimately show ?thesis by (simp add: cell_def minus_double_def)
qed

lemma cell_halves:
  assumes "cell_ok d j" and "d < 50"
  shows "iv (iv_lo (cell d j)) (Fin (of_int (j + 1) / 2 ^ d)) = cell (Suc d) (2 * j)"
    and "iv (Fin (of_int (j + 1) / 2 ^ d)) (iv_hi (cell d j)) = cell (Suc d) (2 * j + 2)"
    and "cell_ok (Suc d) (2 * j)" and "cell_ok (Suc d) (2 * j + 2)"
proof -
  have e: "(of_int (2 * i) / 2 ^ Suc d :: rat) = of_int i / 2 ^ d" for i by simp
  have t: "2 * j + 2 = 2 * (j + 1)" "2 * (j + 1) + 2 = 2 * (j + 2)" by simp_all
  show "iv (iv_lo (cell d j)) (Fin (of_int (j + 1) / 2 ^ d)) = cell (Suc d) (2 * j)"
    unfolding cell_def t e by simp
  show "iv (Fin (of_int (j + 1) / 2 ^ d)) (iv_hi (cell d j)) = cell (Suc d) (2 * j + 2)"
    unfolding cell_def t e by simp
  show "cell_ok (Suc d) (2 * j)" "cell_ok (Suc d) (2 * j + 2)" using assms by (auto simp: cell_ok_def)
qed

text \<open>A magnitude that bounds the ramp factor at every stationary point of a cell.\<close>

definition covers :: "rat list \<Rightarrow> rat list \<Rightarrow> nat \<Rightarrow> int \<Rightarrow> double \<Rightarrow> bool" where
  "covers p q d j r \<longleftrightarrow> (\<exists>m. r = Fin m \<and> \<bar>m\<bar> \<le> pow2 400 \<and>
     (\<forall>x. of_int j / 2 ^ d \<le> x \<and> x \<le> of_int (j + 2) / 2 ^ d \<and> real_poly p x = 0 \<longrightarrow>
        sqrt (1 - x\<^sup>2) * \<bar>real_poly q x\<bar> \<le> of_rat m))"

lemma covers_ramp:
  assumes "cell_ok d j" and "sqrt_ok sq" and "\<forall>a \<in> set q. \<bar>a\<bar> \<le> pow2 13" and "length q \<le> 100"
  shows "covers p q d j (rampMagnitude sq (map Fin q) (cell d j))"
proof -
  have "encl 0 (cell d j) (of_int j / 2 ^ d)" by (rule cell_encl [OF assms(1)]) (simp_all add: divide_right_mono)
  then obtain m where "rampMagnitude sq (map Fin q) (cell d j) = Fin m" "\<bar>m\<bar> \<le> pow2 400" using rampMagnitude_bound [OF _ assms(2-4)] by blast
  then show ?thesis using rampMagnitude_bound [OF cell_encl [OF assms(1)] assms(2-4)] by (fastforce simp: covers_def)
qed

lemma covers_excluded:
  assumes "cell_ok d j" and "\<forall>a \<in> set p. \<bar>a\<bar> \<le> pow2 13" and "length p \<le> 100"
    and "dlit 0 < iv_lo (polynomial (map Fin p) (cell d j)) \<or> iv_hi (polynomial (map Fin p) (cell d j)) < dlit 0"
  shows "covers p q d j (dlit 0)"
proof -
  have "real_poly p x \<noteq> 0" if x: "of_int j / 2 ^ d \<le> x" "x \<le> of_int (j + 2) / 2 ^ d" for x :: real
  proof -
    obtain l h where "polynomial (map Fin p) (cell d j) = iv (Fin l) (Fin h)" "of_rat l \<le> real_poly p x" "real_poly p x \<le> of_rat h"
      using polynomial_encl [OF cell_encl [OF assms(1) x] assms(2,3)] by (rule enclE)
    moreover have "0 < l \<Longrightarrow> (0 :: real) < of_rat l" "h < 0 \<Longrightarrow> (of_rat h :: real) < 0" by simp_all
    ultimately show ?thesis using assms(4) by auto
  qed
  then show ?thesis by (auto simp: covers_def)
qed

lemma covers_split:
  assumes "covers p q (Suc d) (2 * j) a" and "covers p q (Suc d) (2 * j + 2) b"
  shows "covers p q d j (dmax a b)"
proof -
  obtain m n where r: "a = Fin m" "b = Fin n" "\<bar>m\<bar> \<le> pow2 400" "\<bar>n\<bar> \<le> pow2 400" using assms by (auto simp: covers_def)
  have le: "(of_rat m :: real) \<le> of_rat (max m n)" "(of_rat n :: real) \<le> of_rat (max m n)" by (simp_all add: of_rat_less_eq)
  have e: "(of_int (2 * i) / 2 ^ Suc d :: real) = of_int i / 2 ^ d" for i by simp
  have t: "2 * j + 2 = 2 * (j + 1)" "2 * (j + 1) + 2 = 2 * (j + 2)" by simp_all
  have l: "sqrt (1 - x\<^sup>2) * \<bar>real_poly q x\<bar> \<le> of_rat m"
    if "of_int j / 2 ^ d \<le> x" "x \<le> of_int (j + 1) / 2 ^ d" "real_poly p x = 0" for x
    using assms(1)[unfolded covers_def r(1) t e] that by auto
  have h: "sqrt (1 - x\<^sup>2) * \<bar>real_poly q x\<bar> \<le> of_rat n"
    if "of_int (j + 1) / 2 ^ d \<le> x" "x \<le> of_int (j + 2) / 2 ^ d" "real_poly p x = 0" for x
    using assms(2)[unfolded covers_def r(2) t e] that by auto
  have "sqrt (1 - x\<^sup>2) * \<bar>real_poly q x\<bar> \<le> of_rat (max m n)"
    if "of_int j / 2 ^ d \<le> x" "x \<le> of_int (j + 2) / 2 ^ d" "real_poly p x = 0" for x
    using l [OF that(1) _ that(3)] h [OF _ that(2,3)] le by linarith
  moreover have "dmax a b = Fin (max m n)" using r by (simp add: dmax_def max_def)
  moreover have "\<bar>max m n\<bar> \<le> pow2 400" using r(3,4) by (simp add: max_def)
  ultimately show ?thesis by (auto simp: covers_def)
qed

lemma stationaryMagnitude_covers:
  assumes "sqrt_ok sq" and "\<forall>a \<in> set p. \<bar>a\<bar> \<le> pow2 13" and "length p \<le> 100"
    and "\<forall>a \<in> set q. \<bar>a\<bar> \<le> pow2 13" and "length q \<le> 100"
    and "cell_ok d j" and "d + levels \<le> 50"
  shows "covers p q d j (fst (stationaryMagnitude sq (map Fin p) (map Fin q) (cell d j) levels remaining))"
  using assms(6,7)
proof (induction levels arbitrary: d j remaining)
  case 0
  show ?case
    using covers_excluded [OF 0(1) assms(2,3)] covers_ramp [OF 0(1) assms(1,4,5)]
    by (simp add: stationaryMagnitude.simps Let_def)
next
  case (Suc k)
  have d: "d < 50" "Suc d + k \<le> 50" using Suc.prems by simp_all
  note c = cell_halves [OF Suc.prems(1) d(1)]
  let ?f = "stationaryMagnitude sq (map Fin p) (map Fin q)"
  obtain left r1 where l: "?f (cell (Suc d) (2 * j)) k (remaining - 1) = (left, r1)" by fastforce
  obtain right r2 where r: "?f (cell (Suc d) (2 * j + 2)) k r1 = (right, r2)" by fastforce
  have "covers p q d j (dmax left right)"
    using Suc.IH [OF c(3) d(2), of "remaining - 1"] Suc.IH [OF c(4) d(2), of r1] by (intro covers_split) (simp_all add: l r)
  then show ?case
    using covers_excluded [OF Suc.prems(1) assms(2,3)] covers_ramp [OF Suc.prems(1) assms(1,4,5)]
    by (subst stationaryMagnitude.simps) (simp add: Let_def cell_mid [OF Suc.prems(1)] c(1,2) l r del: of_int_add)
qed

end
