(* ===== verification/Hil_Trajectory.thy ===== *)
theory Hil_Trajectory
  imports Hil_Interval
begin

text \<open>
  The trajectory engine of the hardware-in-the-loop controllers (\<^verbatim>\<open>src/hil_trajectory.cpp\<close>): the constant
  speed ramp, the sine with a cosine shaped envelope, its velocity and acceleration bounds, and the friction torque. The
  functions of the C mathematics library are the fields of \<open>libm\<close>. The exact trajectory over the real numbers is
  the specification: the theorem shows that the bound the code computes in \<^verbatim>\<open>double\<close> arithmetic is not below the
  exact acceleration at any time.
\<close>

section \<open>Ramp and sine\<close>

record libm =
  lm_sin :: "double \<Rightarrow> double"
  lm_cos :: "double \<Rightarrow> double"
  lm_exp :: "double \<Rightarrow> double"
  lm_tanh :: "double \<Rightarrow> double"
  lm_sqrt :: "double \<Rightarrow> double"
  lm_hypot :: "double \<Rightarrow> double \<Rightarrow> double"

definition kPi :: double where
  "kPi = dlit (314159265358979323846 / 10 ^ 20)"

record Setpoint =
  sp_position :: double
  sp_velocity :: double

text \<open>\<^verbatim>\<open>std::copysign(1.0, v)\<close>; the model has one zero, whose sign is positive.\<close>

definition copysign1 :: "double \<Rightarrow> double" where
  "copysign1 v = (if v < dlit 0 then dlit (- 1) else dlit 1)"

record RampTrajectory =
  rt_start :: double
  rt_target :: double
  rt_speed :: double
  rt_ramp_time :: double
  rt_direction :: double

definition makeRampTrajectory :: "double \<Rightarrow> double \<Rightarrow> double \<Rightarrow> RampTrajectory" where
  "makeRampTrajectory start target speed =
     \<lparr>rt_start = start, rt_target = target, rt_speed = speed,
      rt_ramp_time = \<bar>target - start\<bar> / speed, rt_direction = copysign1 (target - start)\<rparr>"

definition ramp_at :: "RampTrajectory \<Rightarrow> double \<Rightarrow> Setpoint" where
  "ramp_at r elapsed =
     (if elapsed < rt_ramp_time r
      then \<lparr>sp_position = rt_start r + rt_direction r * rt_speed r * elapsed, sp_velocity = rt_direction r * rt_speed r\<rparr>
      else \<lparr>sp_position = rt_target r, sp_velocity = dlit 0\<rparr>)"

record SineTrajectory =
  st_center :: double
  st_amplitude :: double
  st_omega :: double
  st_ramp :: double
  st_flat :: double
  st_duration :: double
  st_frequency :: double
  st_cycles :: double
  st_ramp_cycles :: double

definition makeSineTrajectory :: "double \<Rightarrow> double \<Rightarrow> double \<Rightarrow> double \<Rightarrow> double \<Rightarrow> SineTrajectory" where
  "makeSineTrajectory center amplitude frequency cycles ramp_cycles =
     \<lparr>st_center = center, st_amplitude = amplitude, st_omega = dlit 2 * kPi * frequency,
      st_ramp = ramp_cycles / frequency, st_flat = cycles / frequency,
      st_duration = dlit 2 * (ramp_cycles / frequency) + cycles / frequency,
      st_frequency = frequency, st_cycles = cycles, st_ramp_cycles = ramp_cycles\<rparr>"

record Envelope =
  en_a :: double
  en_da :: double
  en_dda :: double

definition envelope :: "libm \<Rightarrow> SineTrajectory \<Rightarrow> double \<Rightarrow> bool \<Rightarrow> Envelope" where
  "envelope m s t second_derivative =
     (let h = dlit (1 / 2); ramp = st_ramp s; amplitude = st_amplitude s
      in if dlit 0 < ramp then
           if t < ramp then
             (let x = t / ramp
              in \<lparr>en_a = amplitude * h * (dlit 1 - lm_cos m (kPi * x)),
                  en_da = amplitude * h * kPi / ramp * lm_sin m (kPi * x),
                  en_dda = (if second_derivative then amplitude * h * (kPi / ramp) * (kPi / ramp) * lm_cos m (kPi * x) else dlit 0)\<rparr>)
           else if ramp + st_flat s < t then
             (let x = dmin ((t - ramp - st_flat s) / ramp) (dlit 1)
              in \<lparr>en_a = amplitude * h * (dlit 1 + lm_cos m (kPi * x)),
                  en_da = - amplitude * h * kPi / ramp * lm_sin m (kPi * x),
                  en_dda = (if second_derivative then - amplitude * h * (kPi / ramp) * (kPi / ramp) * lm_cos m (kPi * x) else dlit 0)\<rparr>)
           else \<lparr>en_a = amplitude, en_da = dlit 0, en_dda = dlit 0\<rparr>
         else \<lparr>en_a = amplitude, en_da = dlit 0, en_dda = dlit 0\<rparr>)"

definition sine_at :: "libm \<Rightarrow> SineTrajectory \<Rightarrow> double \<Rightarrow> Setpoint" where
  "sine_at m s time =
     (let t = dmin (dmax time (dlit 0)) (st_duration s);
          e = envelope m s t False;
          sn = lm_sin m (st_omega s * t);
          c = lm_cos m (st_omega s * t)
      in \<lparr>sp_position = st_center s + en_a e * sn, sp_velocity = en_da e * sn + en_a e * st_omega s * c\<rparr>)"

definition accelerationAt :: "libm \<Rightarrow> SineTrajectory \<Rightarrow> double \<Rightarrow> double" where
  "accelerationAt m s time =
     (if \<not> isfinite time \<or> \<not> isfinite (st_center s) \<or> \<not> isfinite (st_amplitude s) \<or> st_amplitude s \<le> dlit 0
         \<or> \<not> isfinite (st_frequency s) \<or> st_frequency s \<le> dlit 0 \<or> \<not> isfinite (st_cycles s) \<or> st_cycles s < dlit 0
         \<or> \<not> isfinite (st_ramp_cycles s) \<or> st_ramp_cycles s < dlit 0 \<or> \<not> isfinite (st_duration s) \<or> \<not> isfinite (st_omega s)
      then NaN
      else
        (let t = dmin (dmax time (dlit 0)) (st_duration s);
             e = envelope m s t True;
             sn = lm_sin m (st_omega s * t);
             c = lm_cos m (st_omega s * t);
             result = en_dda e * sn + dlit 2 * st_omega s * en_da e * c - st_omega s * st_omega s * en_a e * sn
         in if isfinite result then result else NaN))"

definition velocityUpperBound :: "libm \<Rightarrow> SineTrajectory \<Rightarrow> double" where
  "velocityUpperBound m s =
     (if st_ramp s \<le> dlit 0 then st_amplitude s * st_omega s
      else st_amplitude s * lm_hypot m (st_omega s) (dlit (1 / 2) * kPi / st_ramp s))"

definition derivative_table :: "double \<Rightarrow> double list" where
  "derivative_table ramp_cycles =
     (if deq ramp_cycles (dlit 1) then map dlit [16, -80, -32, 108, 0, 0]
      else map dlit [-128, 544, 1024, -2392, -1024, 2000])"

definition factor_table :: "double \<Rightarrow> double list" where
  "factor_table ramp_cycles =
     (if deq ramp_cycles (dlit 1) then map dlit [-8, -16, 36, 0, 0, 0]
      else map dlit [16, 128, -264, -256, 400, 0])"

definition ramp_factor :: "libm \<Rightarrow> double \<Rightarrow> double" where
  "ramp_factor m ramp_cycles =
     (let p = derivative_table ramp_cycles; q = factor_table ramp_cycles
      in max_element [rampMagnitude (lm_sqrt m) q (iv (dlit (- 1)) (dlit (- 1))),
                      rampMagnitude (lm_sqrt m) q (iv (dlit 1) (dlit 1)),
                      fst (stationaryMagnitude (lm_sqrt m) p q (iv (dlit (- 1)) (dlit 1)) 36 100000)])"

definition accelerationUpperBound :: "libm \<Rightarrow> SineTrajectory \<Rightarrow> double option" where
  "accelerationUpperBound m s =
     (if \<not> isfinite (st_center s) \<or> \<not> isfinite (st_amplitude s) \<or> st_amplitude s \<le> dlit 0
         \<or> \<not> isfinite (st_frequency s) \<or> st_frequency s \<le> dlit 0 \<or> \<not> isfinite (st_duration s)
         \<or> \<not> isfinite (st_omega s) \<or> \<not> isfinite (st_ramp s) \<or> st_ramp s \<le> dlit 0
         \<or> \<not> isfinite (st_cycles s) \<or> st_cycles s < dlit 0 \<or> dlit 20 < st_cycles s
         \<or> \<not> deq (dfloor (st_cycles s)) (st_cycles s)
         \<or> \<not> deq (st_ramp_cycles s) (dlit 1) \<and> \<not> deq (st_ramp_cycles s) (dlit 2)
      then None
      else
        (let factor = ramp_factor m (st_ramp_cycles s);
             pii = iv (down kPi) (up kPi);
             frequency = iv (st_frequency s) (st_frequency s);
             a = iv (st_amplitude s) (st_amplitude s);
             k = iv_multiply (iv_multiply pii frequency) (iv (dlit 1 / st_ramp_cycles s) (dlit 1 / st_ramp_cycles s));
             omega = iv_multiply (iv_multiply pii frequency) (iv (dlit 2) (dlit 2));
             ramp_scale = iv_multiply (iv_multiply a (iv_multiply k k)) (iv (dlit (1 / 4)) (dlit (1 / 4)));
             bound = dmax (iv_hi (iv_multiply a (iv_multiply omega omega))) (up (iv_hi ramp_scale * factor));
             guarded = up (bound + up (dlit (1 / 10 ^ 10) * dmax (dlit 1) bound))
         in if isfinite guarded then Some guarded else None))"

definition frictionTorque :: "libm \<Rightarrow> double \<Rightarrow> double \<Rightarrow> double \<Rightarrow> double \<Rightarrow> double \<Rightarrow> double" where
  "frictionTorque m target_velocity kinetic friction_velocity static_torque stribeck_velocity =
     (let stat = (if static_torque < dlit 0 then kinetic else static_torque)
      in if deq kinetic (dlit 0) \<and> deq stat (dlit 0) then dlit 0
      else (kinetic + (stat - kinetic) * lm_exp m (- \<bar>target_velocity\<bar> / stribeck_velocity))
             * lm_tanh m (target_velocity / friction_velocity))"

section \<open>The number pi\<close>

lemma arctan_bounds:
  fixes x :: real
  assumes "0 \<le> x" and "x \<le> 1"
  shows "(\<Sum>i<2 * n. (-1) ^ i * (1 / real (i * 2 + 1) * x ^ (i * 2 + 1))) \<le> arctan x"
    and "arctan x \<le> (\<Sum>i<2 * n + 1. (-1) ^ i * (1 / real (i * 2 + 1) * x ^ (i * 2 + 1)))"
proof -
  let ?a = "\<lambda>i. 1 / real (i * 2 + 1) * x ^ (i * 2 + 1)"
  have z: "?a \<longlonglongrightarrow> 0" using assms by (intro zeroseq_arctan_series) simp
  have p: "0 \<le> ?a i" for i using assms by simp
  have m: "?a (Suc i) \<le> ?a i" for i
  proof (rule mult_mono)
    show "1 / real (Suc i * 2 + 1) \<le> 1 / real (i * 2 + 1)" by (intro divide_left_mono) auto
    show "x ^ (Suc i * 2 + 1) \<le> x ^ (i * 2 + 1)" using assms by (intro power_decreasing) auto
  qed (use assms in auto)
  have s: "arctan x = (\<Sum>k. (-1) ^ k * ?a k)" using assms by (intro arctan_series) simp
  show "(\<Sum>i<2 * n. (-1) ^ i * ?a i) \<le> arctan x" "arctan x \<le> (\<Sum>i<2 * n + 1. (-1) ^ i * ?a i)"
    unfolding s using summable_Leibniz'(2,4) [of ?a, OF z p m, of n] by blast+
qed

lemma pi_bounds: "31415926535897930 / 10 ^ 16 \<le> pi" "pi \<le> 31415926535897934 / 10 ^ 16"
proof -
  note ev = lessThan_nat_numeral lessThan_Suc power_divide
  have "1973955598498807574 / 10 ^ 19 \<le> arctan (1 / 5 :: real)" using arctan_bounds(1) [of "1 / 5" 6] by (simp add: ev)
  moreover have "arctan (1 / 5 :: real) \<le> 1973955598498807594 / 10 ^ 19" using arctan_bounds(2) [of "1 / 5" 6] by (simp add: ev)
  moreover have "41840760020747229 / 10 ^ 19 \<le> arctan (1 / 239 :: real)" using arctan_bounds(1) [of "1 / 239" 2] by (simp add: ev)
  moreover have "arctan (1 / 239 :: real) \<le> 41840760020747249 / 10 ^ 19" using arctan_bounds(2) [of "1 / 239" 2] by (simp add: ev)
  ultimately show "31415926535897930 / 10 ^ 16 \<le> pi" "pi \<le> 31415926535897934 / 10 ^ 16"
    using machin by simp_all
qed

lemma kPi_value: "kPi = Fin (7074237752028440 / 2 ^ 51)"
proof -
  define e :: rat where "e = 314159265358979323846 / 10 ^ 20"
  have e: "pow2 1 \<le> e" "e < pow2 2" "0 < e" by (simp_all add: e_def pow2_nat)
  have "pow2 (ilog2 e) < pow2 2" "pow2 1 < pow2 (ilog2 e + 1)" using ilog2_bounds [OF e(3)] e by linarith+
  then have "ilog2 e = 1" by simp
  moreover have "\<not> e < pow2 (-1022)" using pow2_mono [of "-1022" 1] e(1) by linarith
  ultimately have l: "last_place e = -51" using e(3) by (simp add: last_place_def)
  define y where "y = e * 2 ^ 51"
  have y: "e / pow2 (-51) = y" using pow2_minus [of 51] by (simp add: y_def pow2_nat field_simps)
  have "\<bar>y - of_int 7074237752028440\<bar> < 1 / 2" by (simp add: y_def e_def)
  then have "\<bar>of_int (round_half_even y) - (of_int 7074237752028440 :: rat)\<bar> < 1" using round_half_even_error [of y] by linarith
  then have "\<bar>round_half_even y - 7074237752028440\<bar> < 1" by (metis of_int_1 of_int_abs of_int_diff of_int_less_iff)
  then have "round_half_even y = 7074237752028440" by linarith
  then have "round_rat e = 7074237752028440 / 2 ^ 51" using pow2_minus [of 51] unfolding round_rat_def l y by (simp add: pow2_nat)
  moreover have "\<bar>e\<bar> \<le> pow2 1023" using e pow2_mono [of 2 1023] by linarith
  ultimately show ?thesis using rnd_Fin [of e] by (simp add: kPi_def e_def)
qed

text \<open>The interval the code uses for pi contains the number.\<close>

lemma kPi_encl: "encl 2 (iv (down kPi) (up kPi)) pi"
proof -
  define v :: rat where "v = 7074237752028440 / 2 ^ 51"
  have v: "pow2 1 < v" "v < pow2 2" "0 < v" by (simp_all add: v_def pow2_nat)
  have "pow2 (ilog2 v) < pow2 2" "pow2 1 < pow2 (ilog2 v + 1)" using ilog2_bounds [OF v(3)] v by linarith+
  then have il: "ilog2 v = 1" by simp
  have n: "\<not> v \<le> pow2 (-1022)" "\<not> v < pow2 (-1022)" using pow2_mono [of "-1022" 1] v(1) by linarith+
  then have l: "last_place v = -51" using il v(3) by (simp add: last_place_def)
  have q: "pow2 (-51) = 1 / 2 ^ 51" using pow2_minus [of 51] by (simp add: pow2_nat)
  have u: "up (Fin v) = Fin (7074237752028441 / 2 ^ 51)"
  proof -
    have "v + 1 / 2 ^ 51 < pow2 1024" using pow2_mono [of 3 1024] by (simp add: v_def pow2_nat [of 3])
    then have "up (Fin v) = Fin (v + 1 / 2 ^ 51)" using v(3) by (simp add: l q Let_def)
    then show ?thesis by (simp add: v_def)
  qed
  have "v \<noteq> pow2 (ilog2 v)" using v(1) il by simp
  then have "gap_below v = 1 / 2 ^ 51" using n(1) by (simp add: gap_below_def l q)
  then have d: "down (Fin v) = Fin (7074237752028439 / 2 ^ 51)" using v(3) by (simp add: down_def) (simp add: v_def)
  have "of_rat (7074237752028439 / 2 ^ 51) \<le> pi" "pi \<le> of_rat (7074237752028441 / 2 ^ 51)"
    using pi_bounds by (simp_all add: of_rat_divide)
  then show ?thesis unfolding kPi_value v_def [symmetric] u d encl_def
    by (intro exI [of _ "7074237752028439 / 2 ^ 51"] exI [of _ "7074237752028441 / 2 ^ 51"]) (simp add: pow2_nat)
qed

section \<open>The ramp factor\<close>

definition derivative_coeffs :: "nat \<Rightarrow> rat list" where
  "derivative_coeffs n = (if n = 1 then [16, -80, -32, 108, 0, 0] else [-128, 544, 1024, -2392, -1024, 2000])"

definition factor_coeffs :: "nat \<Rightarrow> rat list" where
  "factor_coeffs n = (if n = 1 then [-8, -16, 36, 0, 0, 0] else [16, 128, -264, -256, 400, 0])"

lemma tables:
  assumes "n = 1 \<or> n = 2"
  shows "derivative_table (Fin (of_nat n)) = map Fin (derivative_coeffs n)" and "factor_table (Fin (of_nat n)) = map Fin (factor_coeffs n)"
  using assms by (auto simp: derivative_table_def factor_table_def derivative_coeffs_def factor_coeffs_def)

lemma coeffs_ok:
  "\<forall>a \<in> set (derivative_coeffs n). \<bar>a\<bar> \<le> pow2 13" "length (derivative_coeffs n) \<le> 100"
  "\<forall>a \<in> set (factor_coeffs n). \<bar>a\<bar> \<le> pow2 13" "length (factor_coeffs n) \<le> 100"
  by (simp_all add: derivative_coeffs_def factor_coeffs_def pow2_nat)

text \<open>The magnitude of a ramp, as a function of the phase.\<close>

definition ramp_shape :: "nat \<Rightarrow> real \<Rightarrow> real" where
  "ramp_shape n x = sin x * real_poly (factor_coeffs n) (cos x)"

lemma ramp_shape_deriv:
  assumes "n = 1 \<or> n = 2"
  shows "(ramp_shape n has_real_derivative real_poly (derivative_coeffs n) (cos x)) (at x)"
proof -
  have ss: "sin x * sin x = 1 - cos x * cos x" using sin_squared_eq [of x] by (simp add: power2_eq_square)
  have rs: "ramp_shape n = (\<lambda>x. sin x * (if n = 1 then 36 * cos x ^ 2 - 16 * cos x - 8
      else 400 * cos x ^ 4 - 256 * cos x ^ 3 - 264 * cos x ^ 2 + 128 * cos x + 16))"
    using assms by (auto simp: ramp_shape_def factor_coeffs_def real_poly_def of_rat_minus algebra_simps power_numeral_reduce fun_eq_iff)
  show ?thesis
  proof (cases "n = 1")
    case True
    have "((\<lambda>x. sin x * (36 * cos x ^ 2 - 16 * cos x - 8)) has_real_derivative
        cos x * (36 * cos x ^ 2 - 16 * cos x - 8) + sin x * (16 * sin x - 72 * cos x * sin x)) (at x)"
      by (auto intro!: derivative_eq_intros)
    moreover have "cos x * (36 * cos x ^ 2 - 16 * cos x - 8) + sin x * (16 * sin x - 72 * cos x * sin x)
        = ((108 * cos x - 32) * cos x - 80) * cos x + 16" using ss by algebra
    moreover have "\<dots> = real_poly (derivative_coeffs n) (cos x)"
      using True by (simp add: derivative_coeffs_def real_poly_def of_rat_minus)
    ultimately show ?thesis unfolding rs using True by simp
  next
    case False
    let ?q = "400 * cos x ^ 4 - 256 * cos x ^ 3 - 264 * cos x ^ 2 + 128 * cos x + 16"
    let ?d = "1600 * cos x ^ 3 - 768 * cos x ^ 2 - 528 * cos x + 128"
    have "((\<lambda>x. sin x * (400 * cos x ^ 4 - 256 * cos x ^ 3 - 264 * cos x ^ 2 + 128 * cos x + 16)) has_real_derivative
        cos x * ?q - sin x * (?d * sin x)) (at x)"
      by (auto intro!: derivative_eq_intros simp: algebra_simps)
    moreover have "cos x * ?q - sin x * (?d * sin x)
        = ((((2000 * cos x - 1024) * cos x - 2392) * cos x + 1024) * cos x + 544) * cos x - 128" using ss by algebra
    moreover have "\<dots> = real_poly (derivative_coeffs n) (cos x)"
      using False by (simp add: derivative_coeffs_def real_poly_def of_rat_minus)
    ultimately show ?thesis unfolding rs using False by simp
  qed
qed

lemma ramp_shape_max:
  assumes "n = 1 \<or> n = 2" and "0 \<le> b"
    and "\<And>c. - 1 \<le> c \<Longrightarrow> c \<le> 1 \<Longrightarrow> real_poly (derivative_coeffs n) c = 0 \<Longrightarrow> sqrt (1 - c\<^sup>2) * \<bar>real_poly (factor_coeffs n) c\<bar> \<le> b"
    and "0 \<le> x" and "x \<le> pi"
  shows "\<bar>ramp_shape n x\<bar> \<le> b"
proof -
  note D = ramp_shape_deriv [OF assms(1)]
  have cont: "continuous_on {0..pi} (\<lambda>x. \<bar>ramp_shape n x\<bar>)"
    using DERIV_isCont [OF D] by (intro continuous_intros continuous_at_imp_continuous_on) auto
  obtain y where y: "0 \<le> y" "y \<le> pi" and top: "\<And>z. 0 \<le> z \<Longrightarrow> z \<le> pi \<Longrightarrow> \<bar>ramp_shape n z\<bar> \<le> \<bar>ramp_shape n y\<bar>"
    using continuous_attains_sup [OF _ _ cont] by auto
  have "\<bar>ramp_shape n y\<bar> \<le> b"
  proof (cases "y = 0 \<or> y = pi")
    case True
    then show ?thesis using assms(2) by (auto simp: ramp_shape_def)
  next
    case False
    define d where "d = min y (pi - y)"
    have d: "0 < d" "\<And>z. \<bar>y - z\<bar> < d \<Longrightarrow> 0 \<le> z \<and> z \<le> pi" using False y by (auto simp: d_def)
    have "real_poly (derivative_coeffs n) (cos y) = 0"
    proof (cases "0 \<le> ramp_shape n y")
      case True
      have "\<forall>z. \<bar>y - z\<bar> < d \<longrightarrow> ramp_shape n z \<le> ramp_shape n y" using d(2) top True by (metis abs_le_D1 abs_of_nonneg)
      then show ?thesis using DERIV_local_max [OF D d(1)] by blast
    next
      case False
      have "\<forall>z. \<bar>y - z\<bar> < d \<longrightarrow> ramp_shape n y \<le> ramp_shape n z" using d(2) top False by (smt (verit))
      then show ?thesis using DERIV_local_min [OF D d(1)] by blast
    qed
    then have "sqrt (1 - (cos y)\<^sup>2) * \<bar>real_poly (factor_coeffs n) (cos y)\<bar> \<le> b" by (intro assms(3)) auto
    moreover have "sqrt (1 - (cos y)\<^sup>2) = sin y" using sin_ge_zero [OF y] by (simp add: sin_squared_eq [symmetric])
    ultimately show ?thesis using sin_ge_zero [OF y] by (simp add: ramp_shape_def abs_mult)
  qed
  then show ?thesis using top [OF assms(4,5)] by linarith
qed

lemma max_element_3: "max_element [Fin a, Fin b, Fin c] = Fin (max (max a b) c)"
  by (simp add: max_element_def max_def)

text \<open>The factor the code computes bounds the shape of a ramp.\<close>

lemma ramp_factor_bound:
  assumes "n = 1 \<or> n = 2" and "sqrt_ok (lm_sqrt m)"
  shows "\<exists>f. ramp_factor m (Fin (of_nat n)) = Fin f \<and> 0 \<le> f \<and> f \<le> pow2 400 \<and> (\<forall>x. 0 \<le> x \<and> x \<le> pi \<longrightarrow> \<bar>ramp_shape n x\<bar> \<le> of_rat f)"
proof -
  let ?p = "map Fin (derivative_coeffs n)" and ?q = "map Fin (factor_coeffs n)"
  obtain a where a: "rampMagnitude (lm_sqrt m) ?q (iv (Fin (- 1)) (Fin (- 1))) = Fin a" "\<bar>a\<bar> \<le> pow2 400"
    using rampMagnitude_bound [OF encl_point [of "- 1" 0] assms(2) coeffs_ok(3) [of n] coeffs_ok(4) [of n]] by auto
  obtain b where b: "rampMagnitude (lm_sqrt m) ?q (iv (Fin 1) (Fin 1)) = Fin b" "\<bar>b\<bar> \<le> pow2 400" "0 \<le> b"
    using rampMagnitude_bound [OF encl_point [of 1 0] assms(2) coeffs_ok(3) [of n] coeffs_ok(4) [of n]] by auto
  have ok: "cell_ok 0 (- 1)" and c0: "cell 0 (- 1) = iv (Fin (- 1)) (Fin 1)" by (simp_all add: cell_ok_def cell_def)
  have "covers (derivative_coeffs n) (factor_coeffs n) 0 (- 1) (fst (stationaryMagnitude (lm_sqrt m) ?p ?q (cell 0 (- 1)) 36 100000))"
    by (rule stationaryMagnitude_covers [OF assms(2) coeffs_ok ok]) simp
  then obtain c where c: "fst (stationaryMagnitude (lm_sqrt m) ?p ?q (iv (Fin (- 1)) (Fin 1)) 36 100000) = Fin c" "\<bar>c\<bar> \<le> pow2 400"
    "\<And>x. - 1 \<le> x \<Longrightarrow> x \<le> 1 \<Longrightarrow> real_poly (derivative_coeffs n) x = 0 \<Longrightarrow> sqrt (1 - x\<^sup>2) * \<bar>real_poly (factor_coeffs n) x\<bar> \<le> of_rat c"
    by (auto simp: covers_def c0)
  define f where "f = max (max a b) c"
  have "ramp_factor m (Fin (of_nat n)) = Fin f"
    unfolding ramp_factor_def Let_def tables [OF assms(1)] rnd_1 rnd_neg_1 a(1) b(1) c(1) f_def by (rule max_element_3)
  moreover have "0 \<le> f" "f \<le> pow2 400" using a(2) b(2,3) c(2) by (auto simp: f_def max_def)
  moreover have le: "(of_rat c :: real) \<le> of_rat f" by (simp add: f_def of_rat_less_eq)
  moreover have "\<bar>ramp_shape n x\<bar> \<le> of_rat f" if "0 \<le> x" "x \<le> pi" for x
    using order_trans [OF c(3) le] \<open>0 \<le> f\<close> by (intro ramp_shape_max [OF assms(1) _ _ that]) auto
  ultimately show ?thesis by blast
qed

section \<open>The exact trajectory\<close>

text \<open>The formulas of \<^verbatim>\<open>envelope\<close> and \<^verbatim>\<open>accelerationAt\<close> over the real numbers.\<close>

definition exact_envelope :: "real \<Rightarrow> real \<Rightarrow> real \<Rightarrow> real \<Rightarrow> real \<times> real \<times> real" where
  "exact_envelope A T F t =
     (if t < T then (A / 2 * (1 - cos (pi * (t / T))), A / 2 * (pi / T) * sin (pi * (t / T)), A / 2 * (pi / T)\<^sup>2 * cos (pi * (t / T)))
      else if T + F < t then
        (let x = min ((t - T - F) / T) 1
         in (A / 2 * (1 + cos (pi * x)), - (A / 2) * (pi / T) * sin (pi * x), - (A / 2) * (pi / T)\<^sup>2 * cos (pi * x)))
      else (A, 0, 0))"

definition exact_acceleration :: "real \<Rightarrow> real \<Rightarrow> nat \<Rightarrow> nat \<Rightarrow> real \<Rightarrow> real" where
  "exact_acceleration A f cycles n time =
     (let T = real n / f; F = real cycles / f; w = 2 * pi * f;
          t = min (max time 0) (2 * T + F);
          (a, da, dda) = exact_envelope A T F t
      in dda * sin (w * t) + 2 * w * da * cos (w * t) - w\<^sup>2 * a * sin (w * t))"

lemma ramp_identity:
  assumes "n = 1 \<or> n = 2"
  shows "cos x * sin (2 * real n * x) + 2 * (2 * real n) * sin x * cos (2 * real n * x) - (2 * real n)\<^sup>2 * (1 - cos x) * sin (2 * real n * x)
    = ramp_shape n x / 2"
proof -
  have ss: "sin x * sin x = 1 - cos x * cos x" using sin_squared_eq [of x] by (simp add: power2_eq_square)
  have s2: "sin (2 * x) = 2 * sin x * cos x" and c2: "cos (2 * x) = 2 * (cos x)\<^sup>2 - 1" by (rule sin_double, rule cos_double_cos)
  show ?thesis using assms
  proof
    assume n: "n = 1"
    have "cos x * (2 * sin x * cos x) + 4 * sin x * (2 * (cos x)\<^sup>2 - 1) - 4 * (1 - cos x) * (2 * sin x * cos x)
      = sin x * ((36 * cos x - 16) * cos x - 8) / 2" by (simp add: field_simps power2_eq_square)
    then show ?thesis using n by (simp add: s2 c2 ramp_shape_def factor_coeffs_def real_poly_def of_rat_minus)
  next
    assume n: "n = 2"
    have e: "sin (4 * x) = 2 * (2 * sin x * cos x) * (2 * (cos x)\<^sup>2 - 1)" "cos (4 * x) = 2 * (2 * (cos x)\<^sup>2 - 1)\<^sup>2 - 1"
      using sin_double [of "2 * x"] cos_double_cos [of "2 * x"] by (simp_all add: s2 c2)
    have "cos x * (2 * (2 * sin x * cos x) * (2 * (cos x)\<^sup>2 - 1)) + 8 * sin x * (2 * (2 * (cos x)\<^sup>2 - 1)\<^sup>2 - 1)
        - 16 * (1 - cos x) * (2 * (2 * sin x * cos x) * (2 * (cos x)\<^sup>2 - 1))
      = sin x * ((((400 * cos x - 256) * cos x - 264) * cos x + 128) * cos x + 16) / 2" by (simp add: field_simps power2_eq_square)
    then show ?thesis using n by (simp add: e ramp_shape_def factor_coeffs_def real_poly_def of_rat_minus)
  qed
qed

text \<open>On each of the three phases the exact acceleration is a multiple of a shape.\<close>

lemma ramp_up_acceleration:
  fixes A f t :: real
  assumes "n = 1 \<or> n = 2" and "0 < f" and "x = pi * (t / (real n / f))"
  shows "A / 2 * (pi / (real n / f))\<^sup>2 * cos x * sin (2 * pi * f * t) + 2 * (2 * pi * f) * (A / 2 * (pi / (real n / f)) * sin x) * cos (2 * pi * f * t)
      - (2 * pi * f)\<^sup>2 * (A / 2 * (1 - cos x)) * sin (2 * pi * f * t)
    = A * (pi * f * (1 / real n))\<^sup>2 / 4 * ramp_shape n x"
proof -
  define k where "k = pi * f * (1 / real n)"
  have n: "0 < real n" using assms(1) by auto
  have w: "2 * pi * f = 2 * real n * k" "pi / (real n / f) = k" using n assms(2) by (simp_all add: k_def)
  have wt: "2 * pi * f * t = 2 * real n * x" using n assms(2,3) by simp
  have id: "A / 2 * k\<^sup>2 * cos x * S + 2 * (2 * real n * k) * (A / 2 * k * sin x) * C - (2 * real n * k)\<^sup>2 * (A / 2 * (1 - cos x)) * S
      = A * k\<^sup>2 / 2 * (cos x * S + 2 * (2 * real n) * sin x * C - (2 * real n)\<^sup>2 * (1 - cos x) * S)" for S C :: real
    by (simp add: field_simps power2_eq_square)
  show ?thesis unfolding wt unfolding w k_def [symmetric] unfolding id ramp_identity [OF assms(1)] by simp
qed

lemma ramp_down_phase:
  fixes f t :: real
  assumes "0 < n" and "0 < f" and "y = pi - pi * ((t - real n / f - real c / f) / (real n / f))"
  shows "sin (2 * pi * f * t) = - sin (2 * real n * y)" and "cos (2 * pi * f * t) = cos (2 * real n * y)"
proof -
  have "(t - real n / f - real c / f) / (real n / f) = (f * t - real n - real c) / real n" using assms(1,2) by (simp add: field_simps)
  then have "y = pi - pi * ((f * t - real n - real c) / real n)" using assms(3) by simp
  then have "2 * pi * f * t = 2 * real (2 * n + c) * pi - 2 * real n * y" using assms(1) by (simp add: field_simps)
  then show "sin (2 * pi * f * t) = - sin (2 * real n * y)" "cos (2 * pi * f * t) = cos (2 * real n * y)"
    by (simp_all add: sin_diff cos_diff sin_2npi cos_2npi del: of_nat_add of_nat_mult)
qed

lemma ramp_down_acceleration:
  fixes A f t :: real
  assumes "n = 1 \<or> n = 2" and "0 < f" and "x = pi * ((t - real n / f - real c / f) / (real n / f))"
  shows "- (A / 2) * (pi / (real n / f))\<^sup>2 * cos x * sin (2 * pi * f * t) + 2 * (2 * pi * f) * (- (A / 2) * (pi / (real n / f)) * sin x) * cos (2 * pi * f * t)
      - (2 * pi * f)\<^sup>2 * (A / 2 * (1 + cos x)) * sin (2 * pi * f * t)
    = - (A * (pi * f * (1 / real n))\<^sup>2 / 4 * ramp_shape n (pi - x))"
proof -
  define y where "y = pi - x"
  define t' where "t' = y / pi * (real n / f)"
  have n: "0 < n" using assms(1) by auto
  have y: "y = pi * (t' / (real n / f))" using n assms(2) by (simp add: t'_def)
  have x: "cos x = - cos y" "sin x = sin y" by (simp_all add: y_def)
  have ph: "2 * pi * f * t' = 2 * real n * y" using assms(2) by (simp add: t'_def)
  have p: "sin (2 * pi * f * t) = - sin (2 * pi * f * t')" "cos (2 * pi * f * t) = cos (2 * pi * f * t')"
    unfolding ph by (rule ramp_down_phase [OF n assms(2), of _ _ c]; simp only: y_def assms(3))+
  show ?thesis unfolding p x y_def [symmetric] ramp_up_acceleration [OF assms(1,2) y, of A, symmetric] by (simp add: field_simps)
qed

lemma exact_acceleration_bound:
  fixes A f b :: real
  assumes "n = 1 \<or> n = 2" and "0 < f" and "0 < A" and "A * (2 * pi * f)\<^sup>2 \<le> b"
    and "\<And>x. 0 \<le> x \<Longrightarrow> x \<le> pi \<Longrightarrow> A * (pi * f * (1 / real n))\<^sup>2 / 4 * \<bar>ramp_shape n x\<bar> \<le> b"
  shows "\<bar>exact_acceleration A f c n time\<bar> \<le> b"
proof -
  define T F t where "T = real n / f" and "F = real c / f" and "t = min (max time 0) (2 * T + F)"
  have T: "0 < T" "0 \<le> F" using assms(1,2) by (auto simp: T_def F_def)
  have t: "0 \<le> t" "t \<le> 2 * T + F" using T by (auto simp: t_def)
  have sc: "0 \<le> A * (pi * f * (1 / real n))\<^sup>2 / 4" using assms(3) by simp
  note e = exact_acceleration_def [of A f c n time, folded T_def F_def, unfolded Let_def, folded t_def]
  consider "t < T" | "T \<le> t" "t \<le> T + F" | "T + F < t" using T by linarith
  then show ?thesis
  proof cases
    case 1
    have x: "0 \<le> pi * (t / T)" "pi * (t / T) \<le> pi" using 1 t(1) T(1) by (simp_all add: divide_le_eq mult_left_mono)
    have "exact_acceleration A f c n time = A * (pi * f * (1 / real n))\<^sup>2 / 4 * ramp_shape n (pi * (t / T))"
      unfolding e exact_envelope_def using 1 ramp_up_acceleration [OF assms(1,2) refl, of A t, folded T_def] by simp
    then show ?thesis using assms(5) [OF x] by (simp only: abs_mult abs_of_nonneg [OF sc])
  next
    case 2
    have "exact_acceleration A f c n time = - ((A * (2 * pi * f)\<^sup>2) * sin (2 * pi * f * t))" unfolding e exact_envelope_def using 2 by simp
    moreover have "\<bar>sin (2 * pi * f * t)\<bar> \<le> 1" by (rule abs_sin_le_one)
    ultimately have "\<bar>exact_acceleration A f c n time\<bar> \<le> A * (2 * pi * f)\<^sup>2" using assms(3) by (simp add: abs_mult mult_left_le)
    then show ?thesis using assms(4) by linarith
  next
    case 3
    define x where "x = (t - T - F) / T"
    have x: "0 \<le> x" "x \<le> 1" using 3 t(2) T(1) by (simp_all add: x_def)
    have p: "0 \<le> pi - pi * x" "pi - pi * x \<le> pi" using x by (simp_all add: mult_left_le)
    have "\<not> t < T" "min x 1 = x" using 3 T x by auto
    then have "exact_acceleration A f c n time = - (A * (pi * f * (1 / real n))\<^sup>2 / 4 * ramp_shape n (pi - pi * x))"
      unfolding e exact_envelope_def x_def [symmetric] using 3 ramp_down_acceleration [OF assms(1,2) refl, of A t c, folded T_def F_def, folded x_def] by simp
    then show ?thesis using assms(5) [OF p] by (simp only: abs_minus abs_mult abs_of_nonneg [OF sc])
  qed
qed

text \<open>The exact velocity, and that the exact acceleration is its derivative inside each of the three phases.\<close>

definition exact_velocity :: "real \<Rightarrow> real \<Rightarrow> nat \<Rightarrow> nat \<Rightarrow> real \<Rightarrow> real" where
  "exact_velocity A f cycles n time =
     (let T = real n / f; F = real cycles / f; w = 2 * pi * f;
          t = min (max time 0) (2 * T + F);
          (a, da, dda) = exact_envelope A T F t
      in da * sin (w * t) + a * w * cos (w * t))"

lemma modulated_deriv:
  fixes a da :: "real \<Rightarrow> real"
  assumes "(a has_real_derivative da t) (at t)" and "(da has_real_derivative dda) (at t)"
  shows "((\<lambda>t. da t * sin (w * t) + a t * w * cos (w * t)) has_real_derivative
    dda * sin (w * t) + 2 * w * da t * cos (w * t) - w\<^sup>2 * a t * sin (w * t)) (at t)"
  by (rule derivative_eq_intros assms refl)+ (simp add: algebra_simps power2_eq_square)

lemma exact_phase:
  assumes "open S" and "t \<in> S" and "\<And>u. u \<in> S \<Longrightarrow> min (max u 0) (2 * (real n / f) + real cycles / f) = u"
    and "\<And>u. u \<in> S \<Longrightarrow> exact_envelope A (real n / f) (real cycles / f) u = (a u, da u, dda u)"
    and "(a has_real_derivative da t) (at t)" and "(da has_real_derivative dda t) (at t)"
  shows "(exact_velocity A f cycles n has_real_derivative exact_acceleration A f cycles n t) (at t)"
proof -
  have v: "exact_velocity A f cycles n u = da u * sin (2 * pi * f * u) + a u * (2 * pi * f) * cos (2 * pi * f * u)" if "u \<in> S" for u
    using assms(3,4) [OF that] by (simp add: exact_velocity_def Let_def)
  have "exact_acceleration A f cycles n t
      = dda t * sin (2 * pi * f * t) + 2 * (2 * pi * f) * da t * cos (2 * pi * f * t) - (2 * pi * f)\<^sup>2 * a t * sin (2 * pi * f * t)"
    using assms(3,4) [OF assms(2)] by (simp add: exact_acceleration_def Let_def)
  then show ?thesis using has_field_derivative_transform_within_open [OF modulated_deriv [OF assms(5,6), of "2 * pi * f"] assms(1,2)] v by metis
qed

lemma exact_acceleration_is_derivative:
  assumes "0 < f" and "0 < n" and "T = real n / f" and "F = real c / f"
    and "0 < t \<and> t < T \<or> T < t \<and> t < T + F \<or> T + F < t \<and> t < 2 * T + F"
  shows "(exact_velocity A f c n has_real_derivative exact_acceleration A f c n t) (at t)"
proof -
  have T: "0 < T" "0 \<le> F" using assms(1-4) by auto
  note fold = assms(3,4) [symmetric]
  consider "0 < t" "t < T" | "T < t" "t < T + F" | "T + F < t" "t < 2 * T + F" using assms(5) by blast
  then show ?thesis
  proof cases
    case 1
    show ?thesis
      by (rule exact_phase [of "{0<..<T}" _ _ _ _ _ "\<lambda>t. A / 2 * (1 - cos (pi * (t / T)))" "\<lambda>t. A / 2 * (pi / T) * sin (pi * (t / T))" "\<lambda>t. A / 2 * (pi / T)\<^sup>2 * cos (pi * (t / T))"];
          use 1 T in \<open>auto simp: fold exact_envelope_def power2_eq_square intro!: derivative_eq_intros\<close>)
  next
    case 2
    show ?thesis
      by (rule exact_phase [of "{T<..<T + F}" _ _ _ _ _ "\<lambda>t. A" "\<lambda>t. 0" "\<lambda>t. 0"];
          use 2 T in \<open>auto simp: fold exact_envelope_def intro!: derivative_eq_intros\<close>)
  next
    case 3
    show ?thesis
      by (rule exact_phase [of "{T + F<..<2 * T + F}" _ _ _ _ _ "\<lambda>t. A / 2 * (1 + cos (pi * ((t - T - F) / T)))" "\<lambda>t. - (A / 2) * (pi / T) * sin (pi * ((t - T - F) / T))" "\<lambda>t. - (A / 2) * (pi / T)\<^sup>2 * cos (pi * ((t - T - F) / T))"];
          use 3 T in \<open>auto simp: fold exact_envelope_def power2_eq_square min_def intro!: derivative_eq_intros\<close>)
  qed
qed

section \<open>The computed bound\<close>

lemma encl_hi:
  assumes "encl k a x"
  shows "\<exists>h. iv_hi a = Fin h \<and> x \<le> of_rat h \<and> \<bar>h\<bar> \<le> pow2 k"
  using assms by (auto elim!: enclE)

lemma rnd_small:
  assumes "\<bar>x\<bar> \<le> pow2 k" and "-1000 \<le> k" and "k \<le> 1000"
  shows "\<exists>r. rnd x = Fin r \<and> \<bar>r\<bar> \<le> pow2 k"
proof -
  have "\<bar>x\<bar> \<le> pow2 1023" using assms pow2_mono [of k 1023] by linarith
  then show ?thesis using rnd_Fin [of x] round_rat_magnitude [of x k] assms by simp
qed

text \<open>The last step of the bound: the guard never lowers it.\<close>

lemma guarded_ge:
  assumes "\<bar>b\<bar> \<le> pow2 712"
  shows "\<exists>z. up (Fin b + up (dlit (1 / 10 ^ 10) * dmax (dlit 1) (Fin b))) = Fin z \<and> b \<le> z"
proof -
  obtain g where g: "dlit (1 / 10 ^ 10) = Fin g" "\<bar>g\<bar> \<le> 1" using rnd_small [of "1 / 10 ^ 10" 0] by auto
  have "dlit 0 \<le> dlit (1 / 10 ^ 10)" by (rule rnd_mono) simp
  then have g0: "0 \<le> g" using g(1) by simp
  define c where "c = max 1 b"
  have c: "dmax (dlit 1) (Fin b) = Fin c" "0 \<le> c" "c \<le> pow2 712"
    using assms pow2_mono [of 0 712] by (auto simp: c_def dmax_def max_def)
  have gc: "\<bar>g * c\<bar> \<le> pow2 712" "0 \<le> g * c" using g(2) g0 c(2,3) mult_left_le_one_le [of c g] by (auto simp: abs_mult)
  obtain w where w: "up (rnd (g * c)) = Fin w" "g * c \<le> w" "\<bar>w\<bar> \<le> pow2 (712 + 1)" using up_rnd [OF gc(1)] by auto
  have "pow2 712 \<le> pow2 713" by simp
  then have "pow2 712 + pow2 713 \<le> pow2 714" using pow2_double [of 713, simplified] by linarith
  then have "\<bar>b + w\<bar> \<le> pow2 714" using assms w(3) by simp
  then obtain z where z: "up (rnd (b + w)) = Fin z" "b + w \<le> z" using up_rnd [of "b + w" 714] by auto
  have "b \<le> z" using z(2) w(2) gc(2) by linarith
  then show ?thesis unfolding g(1) c(1) using z(1) w(1) by simp
qed

text \<open>The bounds on the amplitude and the frequency keep the intermediate results away from overflow.\<close>

definition sine_range :: "rat \<Rightarrow> rat \<Rightarrow> nat \<Rightarrow> nat \<Rightarrow> bool" where
  "sine_range A f cycles n \<longleftrightarrow>
     0 < A \<and> A \<le> pow2 100 \<and> pow2 (-100) \<le> f \<and> f \<le> pow2 100 \<and> cycles \<le> 20 \<and> (n = 1 \<or> n = 2)"

lemma quotient_range:
  assumes "pow2 (-100) \<le> f" and "0 \<le> i" and "i \<le> 2 ^ 5"
  shows "\<bar>i / f\<bar> \<le> pow2 105"
proof -
  have f: "0 < f" using assms(1) pow2_pos [of "-100"] by linarith
  have "i / f \<le> 2 ^ 5 / pow2 (-100)" using assms f by (intro frac_le) auto
  also have "\<dots> = pow2 105" using pow2_diff [of 5 "-100"] by (simp add: pow2_nat [of 5])
  finally show ?thesis using assms(2) f by simp
qed

lemma makeSineTrajectory_finite:
  assumes "sine_range A f cycles n" and "s = makeSineTrajectory (Fin c) (Fin A) (Fin f) (Fin (of_nat cycles)) (Fin (of_nat n))"
  shows "isfinite (st_omega s)" and "isfinite (st_ramp s)" and "dlit 0 < st_ramp s" and "isfinite (st_duration s)"
proof -
  note r = assms(1) [unfolded sine_range_def]
  have f: "0 < f" using r pow2_pos [of "-100"] by linarith
  have "\<bar>2 * (7074237752028440 / 2 ^ 51) :: rat\<bar> \<le> pow2 3" by (simp add: pow2_nat)
  then obtain v where v: "dlit 2 * kPi = Fin v" "\<bar>v\<bar> \<le> pow2 3" using rnd_small [of _ 3] by (fastforce simp: kPi_value)
  have "\<bar>v * f\<bar> \<le> pow2 3 * pow2 100" unfolding abs_mult using v(2) r f by (intro mult_mono) auto
  then have "\<bar>v * f\<bar> \<le> pow2 103" using pow2_add [of 3 100] by simp
  then obtain w where "rnd (v * f) = Fin w" using rnd_small [of "v * f" 103] by auto
  then show "isfinite (st_omega s)" using v(1) by (simp add: assms(2) makeSineTrajectory_def)
  have q: "\<bar>of_nat n / f\<bar> \<le> pow2 105" "\<bar>of_nat cycles / f\<bar> \<le> pow2 105" by (rule quotient_range; use r in \<open>auto simp: of_nat_le_iff [of _ 32, simplified]\<close>)+
  obtain a where a: "rnd (of_nat n / f) = Fin a" "\<bar>a\<bar> \<le> pow2 105" using rnd_small [OF q(1)] by auto
  obtain b where b: "rnd (of_nat cycles / f) = Fin b" "\<bar>b\<bar> \<le> pow2 105" using rnd_small [OF q(2)] by auto
  have st: "st_ramp s = Fin a" using a(1) f by (simp add: assms(2) makeSineTrajectory_def)
  then show "isfinite (st_ramp s)" by simp
  have "1 / pow2 100 \<le> of_nat n / f" using r f by (intro frac_le) auto
  then have lo: "pow2 (-100) \<le> of_nat n / f" using pow2_minus [of 100] by simp
  have "rnd (pow2 (-100)) = Fin (pow2 (-100))" using rnd_dyadic [of 1 "-100"] by simp
  then have "pow2 (-100) \<le> a" using rnd_mono [OF lo] a(1) by simp
  then have "0 < a" using pow2_pos [of "-100"] by linarith
  then show "dlit 0 < st_ramp s" using st by simp
  have "\<bar>2 * a\<bar> \<le> pow2 106" using a(2) pow2_double [of 105] by simp
  then obtain d where d: "rnd (2 * a) = Fin d" "\<bar>d\<bar> \<le> pow2 106" using rnd_small [of "2 * a" 106] by auto
  have "pow2 105 \<le> pow2 106" by simp
  then have "\<bar>d + b\<bar> \<le> pow2 107" using d(2) b(2) pow2_double [of 106, simplified] by linarith
  then obtain e where "rnd (d + b) = Fin e" using rnd_small [of "d + b" 107] by auto
  then show "isfinite (st_duration s)" using f a(1) b(1) d(1) by (simp add: assms(2) makeSineTrajectory_def)
qed

lemma bound_intervals:
  assumes "sine_range A f cycles n"
  defines "pii \<equiv> iv (down kPi) (up kPi)" and "fr \<equiv> iv (Fin f) (Fin f)" and "a \<equiv> iv (Fin A) (Fin A)"
  defines "k \<equiv> iv_multiply (iv_multiply pii fr) (iv (Fin (1 / of_nat n)) (Fin (1 / of_nat n)))"
    and "omega \<equiv> iv_multiply (iv_multiply pii fr) (iv (Fin 2) (Fin 2))"
  shows "encl 312 (iv_multiply a (iv_multiply omega omega)) (of_rat A * (2 * pi * of_rat f)\<^sup>2)"
    and "encl 311 (iv_multiply (iv_multiply a (iv_multiply k k)) (iv (Fin (1 / 4)) (Fin (1 / 4)))) (of_rat A * (pi * of_rat f * (1 / real n))\<^sup>2 / 4)"
proof -
  note r = assms(1) [unfolded sine_range_def]
  have f: "0 < f" using r pow2_pos [of "-100"] by linarith
  have ea: "encl 100 a (of_rat A)" and ef: "encl 100 fr (of_rat f)" unfolding a_def fr_def using r f by (auto intro!: encl_point)
  have "encl (2 + 100 + 1) (iv_multiply pii fr) (pi * of_rat f)" unfolding pii_def by (rule iv_multiply_encl [OF kPi_encl ef]) simp_all
  then have pf: "encl 103 (iv_multiply pii fr) (pi * of_rat f)" by simp
  have "encl 1 (iv (Fin 2) (Fin 2)) (of_rat 2)" by (rule encl_point) (simp add: pow2_nat)
  then have "encl (103 + 1 + 1) omega (pi * of_rat f * of_rat 2)" unfolding omega_def by (rule iv_multiply_encl [OF pf]) simp_all
  then have o: "encl 105 omega (pi * of_rat f * 2)" by simp
  have "encl (105 + 105 + 1) (iv_multiply omega omega) (pi * of_rat f * 2 * (pi * of_rat f * 2))" by (rule iv_multiply_encl [OF o o]) simp_all
  from iv_multiply_encl [OF ea this]
  show "encl 312 (iv_multiply a (iv_multiply omega omega)) (of_rat A * (2 * pi * of_rat f)\<^sup>2)"
    by (simp add: power2_eq_square mult.commute mult.left_commute)
  have "encl 0 (iv (Fin (1 / of_nat n)) (Fin (1 / of_nat n))) (of_rat (1 / of_nat n))" using r by (intro encl_point) auto
  then have "encl (103 + 0 + 1) k (pi * of_rat f * of_rat (1 / of_nat n))" unfolding k_def by (rule iv_multiply_encl [OF pf]) simp_all
  then have ek: "encl 104 k (pi * of_rat f * (1 / real n))" by (simp add: of_rat_divide)
  have "encl (104 + 104 + 1) (iv_multiply k k) (pi * of_rat f * (1 / real n) * (pi * of_rat f * (1 / real n)))" by (rule iv_multiply_encl [OF ek ek]) simp_all
  then have "encl (100 + (104 + 104 + 1) + 1) (iv_multiply a (iv_multiply k k)) (of_rat A * (pi * of_rat f * (1 / real n) * (pi * of_rat f * (1 / real n))))"
    by (rule iv_multiply_encl [OF ea]) simp_all
  moreover have "encl 0 (iv (Fin (1 / 4)) (Fin (1 / 4))) (of_rat (1 / 4))" by (rule encl_point) simp
  ultimately have "encl (100 + (104 + 104 + 1) + 1 + 0 + 1) (iv_multiply (iv_multiply a (iv_multiply k k)) (iv (Fin (1 / 4)) (Fin (1 / 4))))
      (of_rat A * (pi * of_rat f * (1 / real n) * (pi * of_rat f * (1 / real n))) * of_rat (1 / 4))"
    by (rule iv_multiply_encl) simp_all
  then show "encl 311 (iv_multiply (iv_multiply a (iv_multiply k k)) (iv (Fin (1 / 4)) (Fin (1 / 4)))) (of_rat A * (pi * of_rat f * (1 / real n))\<^sup>2 / 4)"
    by (simp add: power2_eq_square of_rat_divide)
qed

text \<open>
  Property C9 For every supported sine trajectory, \<^verbatim>\<open>accelerationUpperBound\<close> returns a value,
  and the value, computed with rounded arithmetic and the bounded search, is not below the magnitude of the exact
  acceleration of the trajectory at any time: over the ramp up, the flat part, the ramp down and outside.
\<close>

theorem acceleration_bound_covers:
  assumes "sine_range A f cycles n" and "sqrt_ok (lm_sqrt m)"
  shows "\<exists>b. accelerationUpperBound m (makeSineTrajectory (Fin c) (Fin A) (Fin f) (Fin (of_nat cycles)) (Fin (of_nat n))) = Some (Fin b)
    \<and> (\<forall>t. \<bar>exact_acceleration (of_rat A) (of_rat f) cycles n t\<bar> \<le> of_rat b)"
proof -
  define s where "s = makeSineTrajectory (Fin c) (Fin A) (Fin f) (Fin (of_nat cycles)) (Fin (of_nat n))"
  have fields: "st_center s = Fin c" "st_amplitude s = Fin A" "st_frequency s = Fin f" "st_cycles s = Fin (of_nat cycles)" "st_ramp_cycles s = Fin (of_nat n)"
    by (simp_all add: s_def makeSineTrajectory_def)
  note r = assms(1) [unfolded sine_range_def]
  have f: "0 < f" using r pow2_pos [of "-100"] by linarith
  have n: "n = 1 \<or> n = 2" using r by simp
  note fin = makeSineTrajectory_finite [OF assms(1) s_def]
  obtain h1 where h1: "iv_hi (iv_multiply (iv (Fin A) (Fin A)) (iv_multiply (iv_multiply (iv_multiply (iv (down kPi) (up kPi)) (iv (Fin f) (Fin f))) (iv (Fin 2) (Fin 2)))
      (iv_multiply (iv_multiply (iv (down kPi) (up kPi)) (iv (Fin f) (Fin f))) (iv (Fin 2) (Fin 2))))) = Fin h1"
    "of_rat A * (2 * pi * of_rat f)\<^sup>2 \<le> of_rat h1" "\<bar>h1\<bar> \<le> pow2 312" using encl_hi [OF bound_intervals(1) [OF assms(1)]] by blast
  obtain h2 where h2: "iv_hi (iv_multiply (iv_multiply (iv (Fin A) (Fin A)) (iv_multiply (iv_multiply (iv_multiply (iv (down kPi) (up kPi)) (iv (Fin f) (Fin f))) (iv (Fin (1 / of_nat n)) (Fin (1 / of_nat n))))
      (iv_multiply (iv_multiply (iv (down kPi) (up kPi)) (iv (Fin f) (Fin f))) (iv (Fin (1 / of_nat n)) (Fin (1 / of_nat n)))))) (iv (Fin (1 / 4)) (Fin (1 / 4)))) = Fin h2"
    "of_rat A * (pi * of_rat f * (1 / real n))\<^sup>2 / 4 \<le> of_rat h2" "\<bar>h2\<bar> \<le> pow2 311" using encl_hi [OF bound_intervals(2) [OF assms(1)]] by blast
  obtain g where g: "ramp_factor m (Fin (of_nat n)) = Fin g" "0 \<le> g" "g \<le> pow2 400" "\<And>x. 0 \<le> x \<Longrightarrow> x \<le> pi \<Longrightarrow> \<bar>ramp_shape n x\<bar> \<le> of_rat g"
    using ramp_factor_bound [OF n assms(2)] by blast
  have "\<bar>h2 * g\<bar> \<le> pow2 311 * pow2 400" unfolding abs_mult using h2(3) g(2,3) by (intro mult_mono) auto
  then have "\<bar>h2 * g\<bar> \<le> pow2 711" using pow2_add [of 311 400] by simp
  then obtain u where u: "up (rnd (h2 * g)) = Fin u" "h2 * g \<le> u" "\<bar>u\<bar> \<le> pow2 (711 + 1)" using up_rnd [of "h2 * g" 711] by auto
  define b where "b = max h1 u"
  have b: "dmax (Fin h1) (up (Fin h2 * Fin g)) = Fin b" "h1 \<le> b" "u \<le> b" using u(1) by (auto simp: b_def dmax_def max_def)
  have "\<bar>h1\<bar> \<le> pow2 712" using h1(3) pow2_mono [of 312 712] by linarith
  then have "\<bar>b\<bar> \<le> pow2 712" using u(3) by (simp add: b_def max_def)
  then obtain z where z: "up (Fin b + up (dlit (1 / 10 ^ 10) * dmax (dlit 1) (Fin b))) = Fin z" "b \<le> z" using guarded_ge by blast
  have lits: "dlit 1 / Fin (of_nat n) = Fin (1 / of_nat n)" "dlit (1 / 4) = Fin (1 / 4)" "dlit 2 = Fin 2"
    using n rnd_half_power [of 1 1] rnd_half_power [of 1 2] by auto
  have nz: "\<not> st_ramp s \<le> dlit 0" using fin(3) by (cases "st_ramp s") auto
  have "accelerationUpperBound m s = Some (Fin z)"
    unfolding accelerationUpperBound_def Let_def fields lits h1(1) h2(1) g(1) b(1) z(1)
    using fin(1,2,4) nz r f n by auto
  moreover have "\<bar>exact_acceleration (of_rat A) (of_rat f) cycles n t\<bar> \<le> of_rat z" for t
  proof (rule exact_acceleration_bound [OF n])
    show "(0 :: real) < of_rat f" "(0 :: real) < of_rat A" using f r by simp_all
    have "(of_rat h1 :: real) \<le> of_rat z" "(of_rat (h2 * g) :: real) \<le> of_rat z" using b u(2) z(2) by (simp_all add: of_rat_less_eq)
    then show "of_rat A * (2 * pi * of_rat f)\<^sup>2 \<le> of_rat z" using h1(2) by linarith
    fix x :: real assume x: "0 \<le> x" "x \<le> pi"
    have "0 \<le> of_rat A * (pi * of_rat f * (1 / real n))\<^sup>2 / 4" using r by simp
    then have "(0 :: real) \<le> of_rat h2" using h2(2) by linarith
    then have "of_rat A * (pi * of_rat f * (1 / real n))\<^sup>2 / 4 * \<bar>ramp_shape n x\<bar> \<le> of_rat h2 * of_rat g"
      by (intro mult_mono [OF h2(2) g(4) [OF x]]) simp_all
    then show "of_rat A * (pi * of_rat f * (1 / real n))\<^sup>2 / 4 * \<bar>ramp_shape n x\<bar> \<le> of_rat z"
      using \<open>of_rat (h2 * g) \<le> of_rat z\<close> by (simp add: of_rat_mult)
  qed
  ultimately show ?thesis unfolding s_def by blast
qed

text \<open>A root function that meets the assumption, and one trajectory: amplitude 1/2, 1 Hz, three flat periods, one ramp period.\<close>

definition coarse_libm :: libm where
  "coarse_libm = \<lparr>lm_sin = \<lambda>_. NaN, lm_cos = \<lambda>_. NaN, lm_exp = \<lambda>_. NaN, lm_tanh = \<lambda>_. NaN,
     lm_sqrt = \<lambda>d. if d \<le> dlit 1 then dlit 1 else dlit 2, lm_hypot = \<lambda>_ _. NaN\<rparr>"

lemma coarse_sqrt_ok: "sqrt_ok (lm_sqrt coarse_libm)"
proof -
  have q: "1 \<le> (1 + pow2 k) ^ 2" "4 \<le> (2 + pow2 k) ^ 2" for k
    using power_mono [of 1 "1 + pow2 k" 2] power_mono [of 2 "2 + pow2 k" 2] pow2_pos [of k] by simp_all
  have "v \<le> 1 \<Longrightarrow> v \<le> (1 + pow2 k) ^ 2" "v \<le> 2 \<Longrightarrow> v \<le> (2 + pow2 k) ^ 2" for v k
    using q(1) [of k] q(2) [of k] by linarith+
  then show ?thesis by (auto simp: sqrt_ok_def coarse_libm_def)
qed

theorem acceleration_bound_covers_witness:
  "\<exists>b. accelerationUpperBound coarse_libm (makeSineTrajectory (Fin 0) (Fin (1 / 2)) (Fin 1) (Fin (of_nat 3)) (Fin (of_nat 1))) = Some (Fin b)
    \<and> (\<forall>t. \<bar>exact_acceleration (of_rat (1 / 2)) (of_rat 1) 3 1 t\<bar> \<le> of_rat b)"
proof -
  have "pow2 (-100) \<le> 1" "1 \<le> pow2 100" using pow2_mono [of "-100" 0] pow2_mono [of 0 100] by simp_all
  then have "sine_range (1 / 2) 1 3 1" by (simp add: sine_range_def)
  then show ?thesis using coarse_sqrt_ok by (rule acceleration_bound_covers)
qed

end
