(* ===== verification/Mit_Protocol.thy ===== *)
theory Mit_Protocol
  imports Ieee_Double
begin

text \<open>
  The MIT command and feedback codec of \<^verbatim>\<open>src/mit_protocol.cpp\<close>: range checks, the
  quantisation of a value to a fixed number of bits, the eight-byte command block, the feedback
  payload, the special commands and the reply identifier. The two places where a motor-side reader
  appears in the sources (the vcan motor emulator) are modelled as well, so that encoding can be
  compared with the reading of the same bytes.
\<close>

section \<open>Data\<close>

definition kMaxSupportedMotorCanId :: u32 where
  "kMaxSupportedMotorCanId = 0x0F"

record MitLimits =
  ml_p_min :: double
  ml_p_max :: double
  ml_v_min :: double
  ml_v_max :: double
  ml_kp_min :: double
  ml_kp_max :: double
  ml_kd_min :: double
  ml_kd_max :: double
  ml_torque_min :: double
  ml_torque_max :: double

definition default_MitLimits :: MitLimits where
  "default_MitLimits =
     \<lparr>ml_p_min = dlit (-25/2), ml_p_max = dlit (25/2), ml_v_min = dlit (-45), ml_v_max = dlit 45,
      ml_kp_min = dlit 0, ml_kp_max = dlit 500, ml_kd_min = dlit 0, ml_kd_max = dlit 5,
      ml_torque_min = dlit (-80), ml_torque_max = dlit 80\<rparr>"

record MitCommand =
  mc_position :: double
  mc_velocity :: double
  mc_kp :: double
  mc_kd :: double
  mc_torque :: double

definition default_MitCommand :: MitCommand where
  "default_MitCommand =
     \<lparr>mc_position = 0, mc_velocity = 0, mc_kp = 0, mc_kd = 0, mc_torque = 0\<rparr>"

definition kTemperatureMinC :: double where
  "kTemperatureMinC = dlit (-30)"

definition kTemperatureSpanC :: double where
  "kTemperatureSpanC = dlit 180"

record MitFeedback =
  mf_motor_id :: u8
  mf_position :: double
  mf_velocity :: double
  mf_torque :: double
  mf_mos_temperature :: double
  mf_motor_temperature :: double

datatype SpecialCommand =
  kDisableTerminalOutput | kEnableTerminalOutput | kEnable | kDisable | kSaveZero

fun special_code :: "SpecialCommand \<Rightarrow> u8" where
  "special_code kDisableTerminalOutput = 0xFA"
| "special_code kEnableTerminalOutput = 0xFB"
| "special_code kEnable = 0xFC"
| "special_code kDisable = 0xFD"
| "special_code kSaveZero = 0xFE"

text \<open>The reasons the codec reports; the last is the exception an empty optional would raise.\<close>

datatype codec_error =
  InvalidRange | CommandOutOfRange | MotorIdMismatch | BadOptionalAccess

section \<open>Operations\<close>

definition isFiniteAndInRange :: "double \<Rightarrow> double \<Rightarrow> double \<Rightarrow> bool" where
  "isFiniteAndInRange value minimum maximum \<longleftrightarrow>
     isfinite value \<and> minimum \<le> value \<and> value \<le> maximum"

definition validateLimits :: "MitLimits \<Rightarrow> bool" where
  "validateLimits limits \<longleftrightarrow>
     list_all (\<lambda>(minimum, maximum). \<not> (\<not> isfinite minimum \<or> \<not> isfinite maximum \<or> maximum \<le> minimum))
       [(ml_p_min limits, ml_p_max limits), (ml_v_min limits, ml_v_max limits),
        (ml_kp_min limits, ml_kp_max limits), (ml_kd_min limits, ml_kd_max limits),
        (ml_torque_min limits, ml_torque_max limits)]"

definition scale_word :: "nat \<Rightarrow> u32" where
  "scale_word bits = push_bit bits 1 - 1"

definition scaled_value :: "double \<Rightarrow> double \<Rightarrow> double \<Rightarrow> nat \<Rightarrow> double" where
  "scaled_value value minimum maximum bits =
     (let scale = dint (uint (scale_word bits))
      in (value - minimum) * scale / (maximum - minimum))"

definition floatToUint :: "double \<Rightarrow> double \<Rightarrow> double \<Rightarrow> nat \<Rightarrow> u32 option" where
  "floatToUint value minimum maximum bits =
     (if \<not> isfinite value \<or> \<not> isfinite minimum \<or> \<not> isfinite maximum \<or> maximum \<le> minimum \<or>
         bits = 0 \<or> 31 < bits \<or> value < minimum \<or> maximum < value then None
      else Some (cast_word (scaled_value value minimum maximum bits)))"

definition uintToFloat :: "u32 \<Rightarrow> double \<Rightarrow> double \<Rightarrow> nat \<Rightarrow> double" where
  "uintToFloat value minimum maximum bits =
     (if \<not> isfinite minimum \<or> \<not> isfinite maximum \<or> maximum \<le> minimum \<or> bits = 0 \<or> 31 < bits
      then NaN
      else let maximum_integer = scale_word bits; saturated = min value maximum_integer
           in dint (uint saturated) * (maximum - minimum) / dint (uint maximum_integer) + minimum)"

definition pack_command :: "u32 \<Rightarrow> u32 \<Rightarrow> u32 \<Rightarrow> u32 \<Rightarrow> u32 \<Rightarrow> u8 list" where
  "pack_command p v kp kd torque =
     [ucast (drop_bit 8 p), ucast p,
      ucast (drop_bit 4 v),
      ucast (push_bit 4 (v AND 0xF) OR drop_bit 8 kp), ucast kp,
      ucast (drop_bit 4 kd),
      ucast (push_bit 4 (kd AND 0xF) OR drop_bit 8 torque), ucast torque]"

definition command_in_range :: "MitCommand \<Rightarrow> MitLimits \<Rightarrow> bool" where
  "command_in_range command limits \<longleftrightarrow>
     isFiniteAndInRange (mc_position command) (ml_p_min limits) (ml_p_max limits) \<and>
     isFiniteAndInRange (mc_velocity command) (ml_v_min limits) (ml_v_max limits) \<and>
     isFiniteAndInRange (mc_kp command) (ml_kp_min limits) (ml_kp_max limits) \<and>
     isFiniteAndInRange (mc_kd command) (ml_kd_min limits) (ml_kd_max limits) \<and>
     isFiniteAndInRange (mc_torque command) (ml_torque_min limits) (ml_torque_max limits)"

definition encodeCommand :: "MitCommand \<Rightarrow> MitLimits \<Rightarrow> codec_error + u8 list" where
  "encodeCommand command limits =
     (if \<not> validateLimits limits then Inl InvalidRange
      else if \<not> command_in_range command limits then Inl CommandOutOfRange
      else case (do {
             p \<leftarrow> floatToUint (mc_position command) (ml_p_min limits) (ml_p_max limits) 16;
             v \<leftarrow> floatToUint (mc_velocity command) (ml_v_min limits) (ml_v_max limits) 12;
             kp \<leftarrow> floatToUint (mc_kp command) (ml_kp_min limits) (ml_kp_max limits) 12;
             kd \<leftarrow> floatToUint (mc_kd command) (ml_kd_min limits) (ml_kd_max limits) 12;
             torque \<leftarrow> floatToUint (mc_torque command) (ml_torque_min limits)
               (ml_torque_max limits) 12;
             Some (pack_command p v kp kd torque)
           }) of None \<Rightarrow> Inl BadOptionalAccess | Some block \<Rightarrow> Inr block)"

definition decodeTemperature :: "u8 \<Rightarrow> double" where
  "decodeTemperature raw = dint (uint raw) * kTemperatureSpanC / dlit 255 + kTemperatureMinC"

definition feedback_p_raw :: "u8 list \<Rightarrow> u32" where
  "feedback_p_raw data = push_bit 8 (ucast (data ! 1)) OR ucast (data ! 2)"

definition feedback_v_raw :: "u8 list \<Rightarrow> u32" where
  "feedback_v_raw data = push_bit 4 (ucast (data ! 3)) OR ucast (drop_bit 4 (data ! 4))"

definition feedback_torque_raw :: "u8 list \<Rightarrow> u32" where
  "feedback_torque_raw data = push_bit 8 (ucast (data ! 4 AND 0xF)) OR ucast (data ! 5)"

definition decodeFeedback ::
  "u8 list \<Rightarrow> MitLimits \<Rightarrow> u8 option \<Rightarrow> codec_error + MitFeedback" where
  "decodeFeedback data limits expected_motor_id =
     (if \<not> validateLimits limits then Inl InvalidRange
      else if expected_motor_id \<noteq> None \<and> data ! 0 \<noteq> the expected_motor_id
      then Inl MotorIdMismatch
      else Inr \<lparr>mf_motor_id = data ! 0,
        mf_position = uintToFloat (feedback_p_raw data) (ml_p_min limits) (ml_p_max limits) 16,
        mf_velocity = uintToFloat (feedback_v_raw data) (ml_v_min limits) (ml_v_max limits) 12,
        mf_torque = uintToFloat (feedback_torque_raw data) (ml_torque_min limits)
          (ml_torque_max limits) 12,
        mf_mos_temperature = decodeTemperature (data ! 6),
        mf_motor_temperature = decodeTemperature (data ! 7)\<rparr>)"

definition encodeSpecialCommand :: "SpecialCommand \<Rightarrow> u8 list" where
  "encodeSpecialCommand command =
     [0xFF, 0xFF, 0xFF, 0xFF, 0xFF, 0xFF, 0xFF, special_code command]"

definition defaultMasterId :: "u32 \<Rightarrow> u32" where
  "defaultMasterId motor_can_id = motor_can_id OR 0x010"

text \<open>What the motor emulator reads of a command block (\<^verbatim>\<open>follow\<close>).\<close>

definition follow_p_raw :: "u8 list \<Rightarrow> u32" where
  "follow_p_raw block = push_bit 8 (ucast (block ! 0)) OR ucast (block ! 1)"

definition follow_kp_raw :: "u8 list \<Rightarrow> u32" where
  "follow_kp_raw block = push_bit 8 (ucast (block ! 3 AND 0x0F)) OR ucast (block ! 4)"

text \<open>The payload the emulator answers with (\<^verbatim>\<open>feedbackFrame\<close>).\<close>

definition feedback_payload :: "int \<Rightarrow> (double \<times> double) option \<Rightarrow> u8 list" where
  "feedback_payload motor_id joint =
     (let data = [word_of_int motor_id, 0x7F, 0xFF, 0x7F, 0xF7, 0xFF, 0x55, 0x5A];
          limits = default_MitLimits
      in case joint of None \<Rightarrow> data
         | Some (position, velocity) \<Rightarrow>
             (case (floatToUint position (ml_p_min limits) (ml_p_max limits) 16,
                    floatToUint velocity (ml_v_min limits) (ml_v_max limits) 12) of
                (Some p, Some v) \<Rightarrow>
                  data[1 := ucast (drop_bit 8 p), 2 := ucast (p AND 0xFF),
                       3 := ucast (drop_bit 4 v),
                       4 := ucast (push_bit 4 (v AND 0xF) OR (ucast (data ! 4 AND 0x0F)))]
              | _ \<Rightarrow> data))"

section \<open>Field layout\<close>

lemma low_bits:
  assumes "unat w < 2 ^ k" and "bit w n"
  shows "n < k"
proof -
  have "take_bit k w = w"
    using assms(1) by (simp add: unsigned_take_bit_eq take_bit_nat_eq_self word_unat_eq_iff)
  with assms(2) show ?thesis by (metis bit_take_bit_iff)
qed

lemma low_bits_12: "unat w < 4096 \<Longrightarrow> bit w n \<Longrightarrow> n < 12"
  using low_bits [of w 12 n] by simp

lemma low_bits_16: "unat w < 65536 \<Longrightarrow> bit w n \<Longrightarrow> n < 16"
  using low_bits [of w 16 n] by simp

lemma and_15: "w AND 15 = take_bit 4 (w :: 'a::len word)"
  by (simp add: take_bit_eq_mask mask_eq_exp_minus_1)

lemmas layout_simps = and_15 bit_simps

lemma byte_pair_join:
  "unat (p :: u32) < 65536 \<Longrightarrow>
     push_bit 8 (ucast (ucast (drop_bit 8 p) :: u8)) OR ucast (ucast p :: u8) = p"
  by (rule bit_word_eqI) (auto simp: layout_simps dest: low_bits_16)

text \<open>The twelve-bit fields: the first of a pair is in a byte and a high nibble, the second in
  a low nibble and a byte.\<close>

lemma nibble_pair_first:
  "unat (v :: u32) < 4096 \<Longrightarrow> unat (k :: u32) < 4096 \<Longrightarrow>
     push_bit 4 (ucast (ucast (drop_bit 4 v) :: u8))
       OR ucast (drop_bit 4 (ucast (push_bit 4 (v AND 15) OR drop_bit 8 k) :: u8)) = v"
  unfolding and_15
  by (rule bit_word_eqI) (auto simp: bit_simps dest: low_bits_12)

lemma nibble_pair_second:
  "unat (v :: u32) < 4096 \<Longrightarrow> unat (k :: u32) < 4096 \<Longrightarrow>
     push_bit 8 (ucast ((ucast (push_bit 4 (v AND 15) OR drop_bit 8 k) :: u8) AND 15))
       OR ucast (ucast k :: u8) = k"
  unfolding and_15
  by (rule bit_word_eqI) (auto simp: bit_simps dest: low_bits_12)

lemmas pack_fields = pack_command_def follow_p_raw_def follow_kp_raw_def
  byte_pair_join nibble_pair_first nibble_pair_second

lemma pack_command_length [simp]: "length (pack_command p v kp kd t) = 8"
  by (simp add: pack_command_def)


section \<open>Quantisation\<close>

text \<open>
  The ranges for which quantisation is free of overflow and underflow: magnitudes up to
  \<open>2^500\<close> and a width of at least \<open>2^-500\<close>. Every range a motor specification can
  mean is far inside.
\<close>

definition sane_range :: "double \<Rightarrow> double \<Rightarrow> bool" where
  "sane_range lo hi \<longleftrightarrow> isfinite lo \<and> isfinite hi \<and> \<bar>dval lo\<bar> \<le> pow2 500 \<and> \<bar>dval hi\<bar> \<le> pow2 500 \<and>
     pow2 (-500) \<le> dval hi - dval lo"

definition sane_limits :: "MitLimits \<Rightarrow> bool" where
  "sane_limits l \<longleftrightarrow> sane_range (ml_p_min l) (ml_p_max l) \<and> sane_range (ml_v_min l) (ml_v_max l) \<and>
     sane_range (ml_kp_min l) (ml_kp_max l) \<and> sane_range (ml_kd_min l) (ml_kd_max l) \<and>
     sane_range (ml_torque_min l) (ml_torque_max l)"

lemma minus_Fin: "Fin x - Fin y = rnd (x - y)"
  by (simp add: minus_double_def)

lemma pow_bits_le: "bits \<le> 31 \<Longrightarrow> (2 :: int) ^ bits \<le> 2 ^ 31"
  by (rule power_increasing) auto

lemma scale_word_uint: "0 < bits \<Longrightarrow> bits \<le> 31 \<Longrightarrow> uint (scale_word bits) = 2 ^ bits - 1"
proof -
  assume b: "0 < bits" "bits \<le> 31"
  have w: "scale_word bits = word_of_int (2 ^ bits - 1)"
    by (simp add: scale_word_def push_bit_eq_mult)
  have "uint (scale_word bits) = (2 ^ bits - 1) mod 2 ^ 32"
    unfolding w uint_word_of_int by simp
  also have "\<dots> = 2 ^ bits - 1"
    using pow_bits_le [OF b(2)] by (intro mod_pos_pos_trivial) auto
  finally show ?thesis .
qed

text \<open>The scaled value in exact terms: three roundings of the exact quotient.\<close>

definition scaled_rat :: "rat \<Rightarrow> rat \<Rightarrow> int \<Rightarrow> rat" where
  "scaled_rat a b s = round_rat (round_rat (round_rat a * of_int s) / round_rat b)"

lemma width_rounded:
  assumes "pow2 (-500) \<le> b" and "b \<le> pow2 501"
  shows "pow2 (-500) \<le> round_rat b" and "round_rat b \<le> pow2 501"
proof -
  have e: "round_rat (pow2 (-500)) = pow2 (-500)" "round_rat (pow2 501) = pow2 501"
    using round_rat_exact [of 1 "-500"] round_rat_exact [of 1 501] by auto
  show "pow2 (-500) \<le> round_rat b" "round_rat b \<le> pow2 501"
    using round_rat_mono [OF assms(1)] round_rat_mono [OF assms(2)] e by auto
qed

lemma scaled_rat_mono:
  assumes "0 \<le> a" and "a \<le> a'" and "pow2 (-500) \<le> b" and "b \<le> pow2 501" and "0 \<le> s"
  shows "0 \<le> scaled_rat a b s" and "scaled_rat a b s \<le> scaled_rat a' b s"
proof -
  have B: "0 < round_rat b" using width_rounded(1) [OF assms(3,4)] pow2_pos [of "-500"] by linarith
  have s: "(0 :: rat) \<le> of_int s" using assms(5) by simp
  have A: "0 \<le> round_rat a" "round_rat a \<le> round_rat a'"
    using assms by (auto intro: round_rat_nonneg round_rat_mono)
  have "0 \<le> round_rat a * of_int s" using A(1) s by (rule mult_nonneg_nonneg)
  then have "0 \<le> round_rat (round_rat a * of_int s) / round_rat b"
    using B by (intro divide_nonneg_pos round_rat_nonneg)
  then show "0 \<le> scaled_rat a b s" unfolding scaled_rat_def by (rule round_rat_nonneg)
  have "round_rat (round_rat a * of_int s) \<le> round_rat (round_rat a' * of_int s)"
    using A(2) s by (intro round_rat_mono [OF mult_right_mono])
  then have "round_rat (round_rat a * of_int s) / round_rat b
      \<le> round_rat (round_rat a' * of_int s) / round_rat b"
    using B by (intro divide_right_mono) auto
  then show "scaled_rat a b s \<le> scaled_rat a' b s"
    unfolding scaled_rat_def by (rule round_rat_mono)
qed

lemma scaled_rat_less:
  assumes "0 \<le> a" and "a \<le> b" and "pow2 (-500) \<le> b" and "b \<le> pow2 501"
    and "1 \<le> s" and "s < 2 ^ 31"
  shows "scaled_rat a b s < of_int s + 1"
proof -
  define B where "B = round_rat b"
  have B: "pow2 (-500) \<le> B" using width_rounded(1) [OF assms(3,4)] by (simp add: B_def)
  then have Bpos: "0 < B" using pow2_pos [of "-500"] by linarith
  have s1: "(1 :: rat) \<le> of_int s" using assms(5) by simp
  have "of_int s \<le> (of_int (2 ^ 31) :: rat)" using assms(6) by (simp only: of_int_le_iff)
  then have s2: "of_int s \<le> (2147483648 :: rat)" by simp
  have Bs: "B \<le> B * of_int s" using s1 Bpos by simp
  have norm: "pow2 (-1022) \<le> \<bar>B * of_int s\<bar>"
  proof -
    have "pow2 (-1022) \<le> pow2 (-500)" by (simp only: pow2_le_iff)
    with B Bs show ?thesis by linarith
  qed
  have u: "pow2 (-53) = 1 / 9007199254740992" by (simp add: pow2_minus pow2_nat)
  have "\<bar>round_rat (B * of_int s) - B * of_int s\<bar> \<le> pow2 (-53) * \<bar>B * of_int s\<bar>"
    by (rule round_rat_rel_error [OF norm])
  then have "round_rat (B * of_int s) \<le> B * of_int s * (1 + pow2 (-53))"
    using Bpos s1 by (simp add: abs_le_iff algebra_simps)
  then have "round_rat (B * of_int s) / B \<le> of_int s * (1 + pow2 (-53))"
    using Bpos by (simp add: pos_divide_le_eq algebra_simps)
  also have "\<dots> \<le> of_int s + 1 / 2" using s2 by (simp add: u algebra_simps)
  also have "\<dots> = of_int (2 * s + 1) * pow2 (-1)" by (simp add: pow2_minus pow2_nat field_simps)
  finally have "round_rat (round_rat (B * of_int s) / B) \<le> round_rat (of_int (2 * s + 1) * pow2 (-1))"
    by (rule round_rat_mono)
  also have "\<dots> = of_int (2 * s + 1) * pow2 (-1)"
    using assms(5,6) by (intro round_rat_exact) auto
  also have "\<dots> < of_int s + 1" by (simp add: pow2_minus pow2_nat field_simps)
  finally have "scaled_rat b b s < of_int s + 1" by (simp add: scaled_rat_def B_def)
  moreover have "scaled_rat a b s \<le> scaled_rat b b s"
    using assms by (intro scaled_rat_mono) auto
  ultimately show ?thesis by linarith
qed


lemma scaled_value_rat:
  assumes "sane_range (Fin lo) (Fin hi)" and "lo \<le> v" and "v \<le> hi" and "0 < bits" and "bits \<le> 31"
  shows "scaled_value (Fin v) (Fin lo) (Fin hi) bits = Fin (scaled_rat (v - lo) (hi - lo) (2 ^ bits - 1))"
proof -
  define a b s where "a = v - lo" and "b = hi - lo" and "s = (2 ^ bits - 1 :: int)"
  have b: "pow2 (-500) \<le> b" using assms(1) by (simp add: sane_range_def b_def)
  have "\<bar>lo\<bar> \<le> pow2 500" "\<bar>hi\<bar> \<le> pow2 500" using assms(1) by (simp_all add: sane_range_def)
  then have "b \<le> pow2 500 + pow2 500" unfolding b_def by linarith
  also have "\<dots> = pow2 501" using pow2_add [of 1 500] by (simp add: pow2_nat [of 1])
  finally have b2: "b \<le> pow2 501" .
  have a: "0 \<le> a" "a \<le> b" using assms(2,3) by (auto simp: a_def b_def)
  have s: "1 \<le> s" "s < 2 ^ 31"
  proof -
    have "(2 :: int) ^ 1 \<le> 2 ^ bits" using assms(4) by (intro power_increasing) auto
    then show "1 \<le> s" by (simp add: s_def)
    show "s < 2 ^ 31" using pow_bits_le [OF assms(5)] by (simp add: s_def)
  qed
  have big: "pow2 501 \<le> pow2 1023" "pow2 532 \<le> pow2 1023" by (simp_all only: pow2_le_iff)
  have A: "0 \<le> round_rat a" "round_rat a \<le> round_rat b"
    using a by (auto intro: round_rat_nonneg round_rat_mono)
  note B = width_rounded [OF b b2]
  have B0: "0 < round_rat b" using B(1) pow2_pos [of "-500"] by linarith
  have "\<bar>a\<bar> \<le> pow2 1023" "\<bar>b\<bar> \<le> pow2 1023" using a b2 big by linarith+
  then have sub: "Fin v - Fin lo = Fin (round_rat a)" "Fin hi - Fin lo = Fin (round_rat b)"
    using rnd_Fin unfolding minus_Fin a_def b_def by blast+
  have sf: "dint (uint (scale_word bits)) = Fin (of_int s)"
    using s scale_word_uint [OF assms(4,5)] by (simp add: dint_Fin s_def)
  have "round_rat a * of_int s \<le> pow2 501 * pow2 31"
    using A B s by (intro mult_mono) (auto simp: pow2_nat [of 31])
  also have "\<dots> = pow2 532" using pow2_add [of 501 31] by simp
  finally have P: "round_rat a * of_int s \<le> pow2 532" .
  have P0: "0 \<le> round_rat a * of_int s" using A s by simp
  have mul: "Fin (round_rat a) * Fin (of_int s) = Fin (round_rat (round_rat a * of_int s))"
  proof -
    have "\<bar>round_rat a * of_int s\<bar> \<le> pow2 1023" using P P0 big by linarith
    then show ?thesis unfolding times_double.simps by (rule rnd_Fin)
  qed
  have Q: "0 \<le> scaled_rat a b s" "scaled_rat a b s < of_int s + 1"
    using scaled_rat_mono(1) [OF a(1) order_refl b b2, of s] scaled_rat_less [OF a b b2 s] s by auto
  have "rnd (round_rat (round_rat a * of_int s) / round_rat b) = Fin (scaled_rat a b s)"
  proof -
    have "pow2 1024 > of_int s + 1"
    proof -
      have "(of_int s :: rat) < of_int (2 ^ 31)" using s(2) by (simp only: of_int_less_iff)
      then have "of_int s + 1 < pow2 32" by (simp add: pow2_nat)
      moreover have "pow2 32 < pow2 1024" by (simp only: pow2_less_iff)
      ultimately show ?thesis by linarith
    qed
    moreover have "0 < pow2 1024" by simp
    ultimately have "\<not> pow2 1024 \<le> scaled_rat a b s" "\<not> scaled_rat a b s \<le> - pow2 1024"
      using Q by linarith+
    then show ?thesis by (simp add: rnd_def Let_def scaled_rat_def)
  qed
  then have "Fin (round_rat (round_rat a * of_int s)) / Fin (round_rat b) = Fin (scaled_rat a b s)"
    using B0 by simp
  then show ?thesis
    unfolding scaled_value_def Let_def sf sub mul a_def [symmetric] b_def [symmetric]
      s_def [symmetric] .
qed

text \<open>The code of a value, in exact terms, and the value it is cut to.\<close>

definition range_code :: "double \<Rightarrow> double \<Rightarrow> double \<Rightarrow> nat \<Rightarrow> int" where
  "range_code v lo hi bits = \<lfloor>scaled_rat (dval v - dval lo) (dval hi - dval lo) (2 ^ bits - 1)\<rfloor>"

lemma sane_width:
  assumes "sane_range lo hi"
  shows "pow2 (-500) \<le> dval hi - dval lo" and "dval hi - dval lo \<le> pow2 501"
proof -
  have m: "\<bar>dval lo\<bar> \<le> pow2 500" "\<bar>dval hi\<bar> \<le> pow2 500" using assms by (simp_all add: sane_range_def)
  have "pow2 501 = pow2 500 + pow2 500" using pow2_add [of 1 500] by (simp add: pow2_nat [of 1])
  then show "dval hi - dval lo \<le> pow2 501" using m by linarith
  show "pow2 (-500) \<le> dval hi - dval lo" using assms by (simp add: sane_range_def)
qed

lemma sane_range_less:
  assumes "sane_range lo hi"
  shows "lo < hi" and "\<not> hi \<le> lo"
proof -
  have "dval lo < dval hi" using sane_width(1) [OF assms] pow2_pos [of "-500"] by linarith
  with assms show "lo < hi" "\<not> hi \<le> lo"
    by (auto simp: sane_range_def elim!: isfiniteE)
qed

lemma scale_int: "0 < bits \<Longrightarrow> bits \<le> 31 \<Longrightarrow> 1 \<le> (2 ^ bits - 1 :: int) \<and> (2 ^ bits - 1 :: int) < 2 ^ 31"
proof -
  assume b: "0 < bits" "bits \<le> 31"
  have "(2 :: int) ^ 1 \<le> 2 ^ bits" using b by (intro power_increasing) auto
  moreover have "(2 :: int) ^ bits \<le> 2 ^ 31" using b(2) by (rule pow_bits_le)
  ultimately show ?thesis by auto
qed

lemma range_code_bounds:
  assumes "sane_range lo hi" and "isFiniteAndInRange v lo hi" and "0 < bits" and "bits \<le> 31"
  shows "0 \<le> range_code v lo hi bits" and "range_code v lo hi bits < 2 ^ bits"
proof -
  have ab: "0 \<le> dval v - dval lo" "dval v - dval lo \<le> dval hi - dval lo"
    using assms(1,2) by (auto simp: isFiniteAndInRange_def sane_range_def elim!: isfiniteE)
  note w = sane_width [OF assms(1)] and s = scale_int [OF assms(3,4)]
  show "0 \<le> range_code v lo hi bits"
    using scaled_rat_mono(1) [OF ab(1) order_refl w, of "2 ^ bits - 1"] s by (simp add: range_code_def)
  have "scaled_rat (dval v - dval lo) (dval hi - dval lo) (2 ^ bits - 1) < of_int (2 ^ bits - 1) + 1"
    using s by (intro scaled_rat_less [OF ab w]) auto
  then show "range_code v lo hi bits < 2 ^ bits"
    unfolding range_code_def floor_less_iff by simp
qed

lemma range_code_mono:
  assumes "sane_range lo hi" and "isFiniteAndInRange v lo hi" and "isFiniteAndInRange w lo hi"
    and "v \<le> w" and "0 < bits" and "bits \<le> 31"
  shows "range_code v lo hi bits \<le> range_code w lo hi bits"
proof -
  have ab: "0 \<le> dval v - dval lo" "dval v - dval lo \<le> dval w - dval lo"
    using assms(1-4) by (auto simp: isFiniteAndInRange_def sane_range_def elim!: isfiniteE)
  show ?thesis unfolding range_code_def
    using scaled_rat_mono(2) [OF ab sane_width [OF assms(1)], of "2 ^ bits - 1"]
      scale_int [OF assms(5,6)]
    by (intro floor_mono) auto
qed

lemma floatToUint_range_code:
  assumes "sane_range lo hi" and "isFiniteAndInRange v lo hi" and "0 < bits" and "bits \<le> 31"
  shows "floatToUint v lo hi bits = Some (word_of_int (range_code v lo hi bits))"
    and "cast_in_range bits (scaled_value v lo hi bits)"
proof -
  obtain x l h where f: "v = Fin x" "lo = Fin l" "hi = Fin h"
    using assms(1,2) by (auto simp: isFiniteAndInRange_def sane_range_def elim!: isfiniteE)
  have le: "l \<le> x" "x \<le> h" using assms(2) by (auto simp: isFiniteAndInRange_def f)
  have lt: "l < h" using sane_range_less(1) [OF assms(1)] by (simp add: f)
  have sv: "scaled_value v lo hi bits = Fin (scaled_rat (x - l) (h - l) (2 ^ bits - 1))"
    using scaled_value_rat [OF assms(1) [unfolded f] le assms(3,4)] by (simp add: f)
  have c: "0 \<le> range_code v lo hi bits" "range_code v lo hi bits < 2 ^ bits"
    using range_code_bounds [OF assms] by auto
  have t: "rat_trunc (scaled_rat (x - l) (h - l) (2 ^ bits - 1)) = range_code v lo hi bits"
    using c(1) by (auto simp: rat_trunc_def range_code_def f)
  show "floatToUint v lo hi bits = Some (word_of_int (range_code v lo hi bits))"
    using le lt assms(3,4) by (simp add: floatToUint_def sv f [symmetric] cast_word_def t) (simp add: f)
  show "cast_in_range bits (scaled_value v lo hi bits)"
    using c by (simp add: sv cast_in_range_def t)
qed

lemma code_word_bound:
  assumes "sane_range lo hi" and "isFiniteAndInRange v lo hi" and "0 < bits" and "bits \<le> 31"
  shows "unat (word_of_int (range_code v lo hi bits) :: u32) < 2 ^ bits"
    and "uint (word_of_int (range_code v lo hi bits) :: u32) = range_code v lo hi bits"
proof -
  have c: "0 \<le> range_code v lo hi bits" "range_code v lo hi bits < 2 ^ bits"
    using range_code_bounds [OF assms] by auto
  have "range_code v lo hi bits < 2 ^ 31" using c(2) pow_bits_le [OF assms(4)] by (rule less_le_trans)
  then have "range_code v lo hi bits < 2 ^ 32" by simp
  then show u: "uint (word_of_int (range_code v lo hi bits) :: u32) = range_code v lo hi bits"
    using c(1) unfolding uint_word_of_int by (intro mod_pos_pos_trivial) auto
  have "int (unat (word_of_int (range_code v lo hi bits) :: u32)) < int (2 ^ bits)"
    unfolding uint_nat [symmetric] u using c(2) by simp
  then show "unat (word_of_int (range_code v lo hi bits) :: u32) < 2 ^ bits"
    by (simp only: of_nat_less_iff)
qed

section \<open>Quantisation error\<close>

lemma pow2_m53: "pow2 (-53) = 1 / 9007199254740992"
  by (simp add: pow2_minus pow2_nat)

text \<open>One rounded width: the facts the two error bounds share.\<close>

lemma width_error:
  assumes "pow2 (-500) \<le> W"
  shows "0 < W" and "pow2 (-1022) \<le> W" and "\<bar>round_rat W - W\<bar> \<le> pow2 (-53) * W"
    and "W / 2 \<le> round_rat W" and "round_rat W \<le> 2 * W"
proof -
  have "pow2 (-1022) \<le> pow2 (-500)" by (simp only: pow2_le_iff)
  then show W: "0 < W" "pow2 (-1022) \<le> W" using assms pow2_pos [of "-500"] by linarith+
  then show e: "\<bar>round_rat W - W\<bar> \<le> pow2 (-53) * W" by (intro round_rat_error_le) auto
  have "pow2 (-53) * W \<le> W / 2" using W by (simp add: pow2_m53)
  with e show "W / 2 \<le> round_rat W" "round_rat W \<le> 2 * W" using W by linarith+
qed

lemma encode_error:
  assumes "0 \<le> a" and "a \<le> W" and "pow2 (-500) \<le> W" and "1 \<le> s"
  shows "\<bar>scaled_rat a W s * round_rat W - a * of_int s\<bar> \<le> 19 * (pow2 (-53) * (W * of_int s))"
proof -
  define u r where "u = pow2 (-53)" and "r = (of_int s :: rat)"
  have u: "0 < u" "u \<le> 1" by (simp_all add: u_def pow2_m53)
  have r: "1 \<le> r" using assms(4) by (simp add: r_def)
  note w = width_error [OF assms(3)]
  define A P B S where "A = round_rat a" and "P = round_rat (A * r)" and "B = round_rat W"
    and "S = round_rat (P / B)"
  have S: "S = scaled_rat a W s" by (simp add: S_def P_def A_def B_def r_def scaled_rat_def)
  have eA: "\<bar>A - a\<bar> \<le> u * W" unfolding A_def u_def by (rule round_rat_error_le) (use assms w in auto)
  have uW: "u * W \<le> W" using u w by simp
  have A: "0 \<le> A" "A \<le> 2 * W" using eA uW assms(1,2) by (simp add: A_def round_rat_nonneg, linarith)
  have Wr: "W \<le> W * r" using w r by simp
  have Ar: "0 \<le> A * r" "A * r \<le> 2 * (W * r)"
    using mult_right_mono [OF A(2), of r] A(1) r by auto
  have eP: "\<bar>P - A * r\<bar> \<le> u * (2 * (W * r))" unfolding P_def u_def
    using Ar w Wr by (intro round_rat_error_le) linarith+
  have "u * (2 * (W * r)) \<le> 2 * (W * r)" using u w r by simp
  then have P: "0 \<le> P" "P \<le> 4 * (W * r)" using eP Ar by (simp add: P_def round_rat_nonneg, linarith)
  have B: "0 < B" "W \<le> 2 * B" "B \<le> 2 * W" using w by (auto simp: B_def)
  have "P \<le> 4 * (2 * B * r)" using P(2) mult_right_mono [OF B(2), of r] r by linarith
  then have "P / B \<le> 8 * r" using B by (simp add: pos_divide_le_eq algebra_simps)
  moreover have "0 \<le> P / B" using P B by simp
  moreover have "pow2 (-1022) \<le> pow2 0" by (simp only: pow2_le_iff)
  ultimately have "\<bar>S - P / B\<bar> \<le> u * (8 * r)" unfolding S_def u_def
    using r by (intro round_rat_error_le) auto
  then have "\<bar>S - P / B\<bar> * B \<le> u * (8 * r) * (2 * W)" using B r u by (intro mult_mono) auto
  moreover have "\<bar>S - P / B\<bar> * B = \<bar>S * B - P\<bar>"
    using B(1) by (simp add: left_diff_distrib abs_mult_pos)
  ultimately have eS: "\<bar>S * B - P\<bar> \<le> 16 * (u * (W * r))" by (simp add: algebra_simps)
  have "\<bar>A - a\<bar> * r \<le> u * W * r" using eA r by (intro mult_right_mono) auto
  moreover have "\<bar>A - a\<bar> * r = \<bar>A * r - a * r\<bar>" using r by (simp add: left_diff_distrib abs_mult_pos)
  ultimately have "\<bar>A * r - a * r\<bar> \<le> u * (W * r)" by (simp add: algebra_simps)
  with eS eP have "\<bar>S * B - a * r\<bar> \<le> 19 * (u * (W * r))" by (simp add: algebra_simps)
  then show ?thesis by (simp add: S B_def u_def r_def)
qed

text \<open>The exact value of a decoded code: three roundings again.\<close>

definition unscaled_rat :: "int \<Rightarrow> rat \<Rightarrow> rat \<Rightarrow> int \<Rightarrow> rat" where
  "unscaled_rat c W lo s = round_rat (round_rat (round_rat (of_int c * round_rat W) / of_int s) + lo)"

lemma decode_error:
  assumes "0 \<le> c" and "c \<le> s" and "pow2 (-500) \<le> W" and "1 \<le> s"
  shows "\<bar>unscaled_rat c W lo s - (of_int c * round_rat W / of_int s + lo)\<bar>
           \<le> 14 * (pow2 (-53) * W) + pow2 (-53) * \<bar>lo\<bar>"
    and "\<bar>round_rat (of_int c * round_rat W)\<bar> \<le> 4 * (W * of_int s)"
    and "\<bar>round_rat (round_rat (of_int c * round_rat W) / of_int s)\<bar> \<le> 8 * W"
proof -
  define u r where "u = pow2 (-53)" and "r = (of_int s :: rat)"
  have u: "0 < u" "u \<le> 1" by (simp_all add: u_def pow2_m53)
  have r: "1 \<le> r" using assms(4) by (simp add: r_def)
  note w = width_error [OF assms(3)]
  define B D E where "B = round_rat W" and "D = round_rat (of_int c * B)" and "E = round_rat (D / r)"
  have B: "0 < B" "B \<le> 2 * W" using w by (auto simp: B_def)
  have cr: "0 \<le> (of_int c :: rat)" "of_int c \<le> r" using assms(1,2) by (simp_all add: r_def)
  have Wr: "W \<le> W * r" using w r by simp
  have "of_int c * B \<le> r * (2 * W)" using cr B w by (intro mult_mono) auto
  then have cB: "0 \<le> of_int c * B" "of_int c * B \<le> 2 * (W * r)" using cr B by (auto simp: algebra_simps)
  have eD: "\<bar>D - of_int c * B\<bar> \<le> u * (2 * (W * r))" unfolding D_def u_def
    using cB w Wr by (intro round_rat_error_le) linarith+
  have "u * (2 * (W * r)) \<le> 2 * (W * r)" using u w r by simp
  then have D: "0 \<le> D" "D \<le> 4 * (W * r)" using eD cB by (simp add: D_def round_rat_nonneg, linarith)
  have Dr: "0 \<le> D / r" "D / r \<le> 4 * W" using D r by (simp_all add: pos_divide_le_eq algebra_simps)
  have eE: "\<bar>E - D / r\<bar> \<le> u * (4 * W)" unfolding E_def u_def
    using Dr w by (intro round_rat_error_le) linarith+
  have uW: "u * W \<le> W" using u w by simp
  have E: "0 \<le> E" "E \<le> 8 * W" using eE Dr uW by (simp add: E_def round_rat_nonneg, linarith)
  have eF: "\<bar>round_rat (E + lo) - (E + lo)\<bar> \<le> u * (8 * W + \<bar>lo\<bar>)" unfolding u_def
    using E w by (intro round_rat_error_le) linarith+
  have "\<bar>D - of_int c * B\<bar> / r \<le> u * (2 * (W * r)) / r" using eD r by (intro divide_right_mono) auto
  moreover have "\<bar>D - of_int c * B\<bar> / r = \<bar>D / r - of_int c * B / r\<bar>"
    using r by (simp add: diff_divide_distrib [symmetric])
  ultimately have "\<bar>D / r - of_int c * B / r\<bar> \<le> 2 * (u * W)" using r by simp
  with eE eF have "\<bar>round_rat (E + lo) - (of_int c * B / r + lo)\<bar> \<le> 14 * (u * W) + u * \<bar>lo\<bar>"
    by (simp add: algebra_simps)
  then show "\<bar>unscaled_rat c W lo s - (of_int c * round_rat W / of_int s + lo)\<bar>
           \<le> 14 * (pow2 (-53) * W) + pow2 (-53) * \<bar>lo\<bar>"
    by (simp add: unscaled_rat_def E_def D_def B_def u_def r_def)
  show "\<bar>round_rat (of_int c * round_rat W)\<bar> \<le> 4 * (W * of_int s)"
    using D by (simp add: D_def B_def r_def)
  show "\<bar>round_rat (round_rat (of_int c * round_rat W) / of_int s)\<bar> \<le> 8 * W"
    using E by (simp add: E_def D_def B_def r_def)
qed

lemma code_error:
  assumes "0 \<le> a" and "a \<le> W" and "pow2 (-500) \<le> W" and "W \<le> pow2 501" and "1 \<le> s" and "s < 2 ^ 31"
  shows "\<bar>unscaled_rat \<lfloor>scaled_rat a W s\<rfloor> W lo s - (lo + a)\<bar>
           \<le> W / of_int s + pow2 (-47) * (W + \<bar>lo\<bar>)"
proof -
  define u r c S B where "u = pow2 (-53)" and "r = (of_int s :: rat)" and "c = \<lfloor>scaled_rat a W s\<rfloor>"
    and "S = scaled_rat a W s" and "B = round_rat W"
  have r: "1 \<le> r" using assms(5) by (simp add: r_def)
  note w = width_error [OF assms(3)]
  have S: "0 \<le> S" "S < r + 1" unfolding S_def r_def
    using scaled_rat_mono(1) [OF assms(1) order_refl assms(3,4), of s] scaled_rat_less [OF assms] assms(5)
    by auto
  have c: "0 \<le> c" "c \<le> s" using S by (auto simp: c_def S_def [symmetric] r_def le_floor_iff floor_less_iff
      intro!: floor_le_iff [THEN iffD2])
  have cS: "of_int c \<le> S" "S < of_int c + 1" unfolding c_def S_def by linarith+
  have B: "0 < B" "\<bar>B - W\<bar> \<le> u * W" using w by (auto simp: B_def u_def)
  have "of_int c * B \<le> S * B" "S * B \<le> (of_int c + 1) * B"
    using cS B(1) by (auto intro!: mult_right_mono)
  then have f: "\<bar>S * B - of_int c * B\<bar> \<le> W + u * W" using B by (simp add: algebra_simps)
  have g: "\<bar>S * B - a * r\<bar> \<le> 19 * (u * (W * r))"
    using encode_error [OF assms(1-3,5)] by (simp add: S_def B_def u_def r_def)
  from f g have "\<bar>of_int c * B - a * r\<bar> \<le> W + u * W + 19 * (u * (W * r))" by linarith
  then have "\<bar>of_int c * B - a * r\<bar> / r \<le> (W + u * W + 19 * (u * (W * r))) / r"
    using r by (intro divide_right_mono) auto
  moreover have "\<bar>of_int c * B - a * r\<bar> / r = \<bar>of_int c * B / r - a\<bar>"
    using r by (simp add: divide_simps abs_if)
  moreover have "(W + u * W + 19 * (u * (W * r))) / r = W / r + (u * W) / r + 19 * (u * W)"
    using r by (simp add: add_divide_distrib)
  moreover have "(u * W) / r \<le> u * W"
    using r w by (simp add: u_def pos_divide_le_eq)
  ultimately have x: "\<bar>of_int c * B / r - a\<bar> \<le> W / r + 20 * (u * W)" by linarith
  have y: "\<bar>unscaled_rat c W lo s - (of_int c * B / r + lo)\<bar> \<le> 14 * (u * W) + u * \<bar>lo\<bar>"
    using decode_error(1) [OF c assms(3,5), of lo] by (simp add: B_def r_def u_def)
  define X where "X = of_int c * B / r"
  from x y have "\<bar>unscaled_rat c W lo s - (lo + a)\<bar> \<le> W / r + 34 * (u * W) + u * \<bar>lo\<bar>"
    unfolding X_def [symmetric] by linarith
  moreover have "pow2 (-47) = 64 * u" using pow2_add [of 6 "-53"] by (simp add: u_def pow2_nat [of 6])
  moreover have "0 \<le> u * W" "0 \<le> u * \<bar>lo\<bar>" using w by (simp_all add: u_def)
  ultimately show ?thesis by (simp add: c_def r_def algebra_simps)
qed


lemma sane_scale_bounds:
  assumes "pow2 (-500) \<le> W" and "W \<le> pow2 501" and "1 \<le> s" and "s < 2 ^ 31"
  shows "8 * (W * of_int s) \<le> pow2 535"
proof -
  have "(of_int s :: rat) \<le> of_int (2 ^ 31)" using assms(4) by (simp only: of_int_le_iff)
  then have "W * of_int s \<le> pow2 501 * pow2 31"
    using assms width_error(1) [OF assms(1)] by (intro mult_mono) (auto simp: pow2_nat [of 31])
  then have "8 * (W * of_int s) \<le> pow2 3 * (pow2 501 * pow2 31)" by (simp add: pow2_nat [of 3])
  also have "\<dots> = pow2 535" using pow2_add [of 501 31] pow2_add [of 3 532] by simp
  finally show ?thesis .
qed

lemma uintToFloat_rat:
  assumes "sane_range (Fin lo) (Fin hi)" and "0 < bits" and "bits \<le> 31" and "uint c < 2 ^ bits"
  shows "uintToFloat c (Fin lo) (Fin hi) bits = Fin (unscaled_rat (uint c) (hi - lo) lo (2 ^ bits - 1))"
proof -
  define W s where "W = hi - lo" and "s = (2 ^ bits - 1 :: int)"
  have W: "pow2 (-500) \<le> W" "W \<le> pow2 501" using sane_width [OF assms(1)] by (auto simp: W_def)
  have s: "1 \<le> s" "s < 2 ^ 31" using scale_int [OF assms(2,3)] by (auto simp: s_def)
  have c: "0 \<le> uint c" "uint c \<le> s" using assms(4) by (auto simp: s_def)
  have sw: "uint (scale_word bits) = s" using scale_word_uint [OF assms(2,3)] by (simp add: s_def)
  have sat: "min c (scale_word bits) = c"
    using c(2) sw by (simp add: min_def word_le_def)
  have "pow2 504 = pow2 501 * 8" using pow2_add [of 501 3] by (simp add: pow2_nat [of 3])
  moreover have "pow2 504 \<le> pow2 1022" by (simp only: pow2_le_iff)
  ultimately have big8: "8 * pow2 501 \<le> pow2 1022" by linarith
  have big: "pow2 501 \<le> pow2 1023" "pow2 535 \<le> pow2 1023" "pow2 500 \<le> pow2 1022"
    by (simp_all only: pow2_le_iff)
  note sb = sane_scale_bounds [OF W s] and d = decode_error [OF c W(1) s(1)]
  have W0: "0 < W" using width_error(1) [OF W(1)] .
  have w: "Fin hi - Fin lo = Fin (round_rat W)"
    unfolding minus_Fin W_def [symmetric] using W0 W(2) big by (intro rnd_Fin) linarith
  have i: "dint (uint c) = Fin (of_int (uint c))" "dint s = Fin (of_int s)"
    using c s by (auto intro!: dint_Fin simp del: of_int_uint)
  have "0 \<le> of_int (uint c) * round_rat W" 
    using c(1) width_error(4) [OF W(1)] W0 by (intro mult_nonneg_nonneg) (auto simp del: of_int_uint)
  moreover have "of_int (uint c) * round_rat W \<le> (2 * of_int s) * W"
    using mult_mono [of "of_int (uint c)" "of_int s" "round_rat W" "2 * W"] c s width_error [OF W(1)]
    by (auto simp del: of_int_uint)
  moreover have "0 \<le> W * of_int s" using W0 s by simp
  ultimately have "\<bar>of_int (uint c) * round_rat W\<bar> \<le> pow2 1023"
    using sb big unfolding mult.assoc mult.commute [of "of_int s" W] by linarith
  then have m: "Fin (of_int (uint c)) * Fin (round_rat W) = Fin (round_rat (of_int (uint c) * round_rat W))"
    unfolding times_double.simps by (rule rnd_Fin)
  have "\<bar>round_rat (of_int (uint c) * round_rat W) / of_int s\<bar> \<le> \<bar>round_rat (of_int (uint c) * round_rat W)\<bar>"
    using s(1) by (simp add: abs_divide divide_le_eq mult_le_cancel_left1 del: of_int_uint)
  then have "\<bar>round_rat (of_int (uint c) * round_rat W) / of_int s\<bar> \<le> pow2 1023"
    using d(2) sb big \<open>0 \<le> W * of_int s\<close> by linarith
  then have q: "Fin (round_rat (of_int (uint c) * round_rat W)) / Fin (of_int s)
      = Fin (round_rat (round_rat (of_int (uint c) * round_rat W) / of_int s))"
    using s(1) by (simp add: rnd_Fin del: of_int_uint)
  have "\<bar>lo\<bar> \<le> pow2 500" using assms(1) by (simp add: sane_range_def)
  then have "\<bar>lo\<bar> \<le> pow2 1022" using big(3) by (rule order_trans)
  moreover have "pow2 1023 = pow2 1022 + pow2 1022" using pow2_add [of 1 1022] by (simp add: pow2_nat [of 1])
  ultimately have "\<bar>round_rat (round_rat (of_int (uint c) * round_rat W) / of_int s) + lo\<bar> \<le> pow2 1023"
    using d(3) W(2) big8 by linarith
  then have "Fin (round_rat (round_rat (of_int (uint c) * round_rat W) / of_int s)) + Fin lo
      = Fin (unscaled_rat (uint c) W lo s)"
    unfolding plus_double.simps unscaled_rat_def by (rule rnd_Fin)
  then show ?thesis
    using assms(2,3) sane_range_less(2) [OF assms(1)] unfolding W_def [symmetric] s_def [symmetric]
    by (simp add: uintToFloat_def Let_def sw sat i w m q del: of_int_uint times_double.simps
        plus_double.simps divide_double.simps)
qed

lemma uintToFloat_code:
  assumes "sane_range lo hi" and "isFiniteAndInRange v lo hi" and "0 < bits" and "bits \<le> 31"
  shows "uintToFloat (word_of_int (range_code v lo hi bits)) lo hi bits
           = Fin (unscaled_rat (range_code v lo hi bits) (dval hi - dval lo) (dval lo) (2 ^ bits - 1))"
proof -
  have f: "lo = Fin (dval lo)" "hi = Fin (dval hi)"
    using assms(1) isfinite_dval unfolding sane_range_def by blast+
  note c = code_word_bound(2) [OF assms]
  have "uint (word_of_int (range_code v lo hi bits) :: u32) < 2 ^ bits"
    using c range_code_bounds(2) [OF assms] by simp
  from uintToFloat_rat [OF _ assms(3,4) this, of "dval lo" "dval hi"] assms(1) show ?thesis
    unfolding c f(1) [symmetric] f(2) [symmetric] by blast
qed

section \<open>The codec's contract\<close>

lemma special_code_distinct: "special_code a = special_code b \<longleftrightarrow> a = b"
  by (cases a; cases b) simp_all

lemma range_code_min: "range_code lo lo hi bits = 0"
  by (simp add: range_code_def scaled_rat_def)

lemma sane_limits_valid: "sane_limits l \<Longrightarrow> validateLimits l"
  by (simp add: sane_limits_def validateLimits_def sane_range_less)
    (simp add: sane_range_def)

lemma valid_range_quantises:
  "isfinite lo \<Longrightarrow> isfinite hi \<Longrightarrow> \<not> hi \<le> lo \<Longrightarrow> isFiniteAndInRange v lo hi \<Longrightarrow> 0 < bits \<Longrightarrow> bits \<le> 31 \<Longrightarrow>
     floatToUint v lo hi bits = Some (cast_word (scaled_value v lo hi bits))"
  by (auto simp: floatToUint_def isFiniteAndInRange_def elim!: isfiniteE)

lemma default_limits_values:
  "default_MitLimits =
     \<lparr>ml_p_min = Fin (-25/2), ml_p_max = Fin (25/2), ml_v_min = Fin (-45), ml_v_max = Fin 45,
      ml_kp_min = Fin 0, ml_kp_max = Fin 500, ml_kd_min = Fin 0, ml_kd_max = Fin 5,
      ml_torque_min = Fin (-80), ml_torque_max = Fin 80\<rparr>"
  using rnd_half_power [of 25 1] rnd_half_power [of "-25" 1] by (simp add: default_MitLimits_def)

lemma sane_range_numbers:
  "\<bar>x\<bar> \<le> 1024 \<Longrightarrow> \<bar>y\<bar> \<le> 1024 \<Longrightarrow> 1 \<le> y - x \<Longrightarrow> sane_range (Fin x) (Fin y)"
proof -
  assume a: "\<bar>x\<bar> \<le> 1024" "\<bar>y\<bar> \<le> 1024" "1 \<le> y - x"
  have "pow2 10 \<le> pow2 500" "pow2 (-500) \<le> pow2 0" by (simp_all only: pow2_le_iff)
  then show ?thesis using a by (simp add: sane_range_def pow2_nat [of 10])
qed

lemma default_limits_sane [simp]: "sane_limits default_MitLimits"
  by (simp add: sane_limits_def default_limits_values sane_range_numbers)



section \<open>Properties\<close>

lemma validateLimitsD:
  assumes "validateLimits l"
  shows "isfinite (ml_p_min l)" "isfinite (ml_p_max l)" "\<not> ml_p_max l \<le> ml_p_min l"
    "isfinite (ml_v_min l)" "isfinite (ml_v_max l)" "\<not> ml_v_max l \<le> ml_v_min l"
    "isfinite (ml_kp_min l)" "isfinite (ml_kp_max l)" "\<not> ml_kp_max l \<le> ml_kp_min l"
    "isfinite (ml_kd_min l)" "isfinite (ml_kd_max l)" "\<not> ml_kd_max l \<le> ml_kd_min l"
    "isfinite (ml_torque_min l)" "isfinite (ml_torque_max l)" "\<not> ml_torque_max l \<le> ml_torque_min l"
  using assms by (auto simp: validateLimits_def)

lemma in_rangeD:
  assumes "command_in_range c l"
  shows "isFiniteAndInRange (mc_position c) (ml_p_min l) (ml_p_max l)"
    "isFiniteAndInRange (mc_velocity c) (ml_v_min l) (ml_v_max l)"
    "isFiniteAndInRange (mc_kp c) (ml_kp_min l) (ml_kp_max l)"
    "isFiniteAndInRange (mc_kd c) (ml_kd_min l) (ml_kd_max l)"
    "isFiniteAndInRange (mc_torque c) (ml_torque_min l) (ml_torque_max l)"
  using assms by (auto simp: command_in_range_def)

lemma sane_limitsD:
  assumes "sane_limits l"
  shows "sane_range (ml_p_min l) (ml_p_max l)" "sane_range (ml_v_min l) (ml_v_max l)"
    "sane_range (ml_kp_min l) (ml_kp_max l)" "sane_range (ml_kd_min l) (ml_kd_max l)"
    "sane_range (ml_torque_min l) (ml_torque_max l)"
  using assms by (auto simp: sane_limits_def)

lemma pack_command_nth:
  "pack_command p v kp kd t ! 0 = ucast (drop_bit 8 p)" "pack_command p v kp kd t ! 1 = ucast p"
  "pack_command p v kp kd t ! 2 = ucast (drop_bit 4 v)"
  "pack_command p v kp kd t ! 3 = ucast (push_bit 4 (v AND 0xF) OR drop_bit 8 kp)"
  "pack_command p v kp kd t ! 4 = ucast kp" "pack_command p v kp kd t ! 5 = ucast (drop_bit 4 kd)"
  "pack_command p v kp kd t ! 6 = ucast (push_bit 4 (kd AND 0xF) OR drop_bit 8 t)"
  "pack_command p v kp kd t ! 7 = ucast t"
  by (simp_all add: pack_command_def)

text \<open>Reading the fields of a packed block gives the codes that were packed.\<close>

lemma pack_command_read_back:
  assumes "unat p < 65536" "unat v < 4096" "unat kp < 4096" "unat kd < 4096" "unat t < 4096"
  shows "follow_p_raw (pack_command p v kp kd t) = p"
    and "push_bit 4 (ucast (pack_command p v kp kd t ! 2))
           OR ucast (drop_bit 4 (pack_command p v kp kd t ! 3)) = v"
    and "follow_kp_raw (pack_command p v kp kd t) = kp"
    and "push_bit 4 (ucast (pack_command p v kp kd t ! 5))
           OR ucast (drop_bit 4 (pack_command p v kp kd t ! 6)) = kd"
    and "push_bit 8 (ucast (pack_command p v kp kd t ! 6 AND 0xF))
           OR ucast (pack_command p v kp kd t ! 7) = t"
  unfolding follow_p_raw_def follow_kp_raw_def pack_command_nth
  using byte_pair_join nibble_pair_first nibble_pair_second assms by blast+

text \<open>The block of an accepted command under sane limits, by its five codes.\<close>

definition command_codes :: "MitCommand \<Rightarrow> MitLimits \<Rightarrow> int list" where
  "command_codes c l =
     [range_code (mc_position c) (ml_p_min l) (ml_p_max l) 16,
      range_code (mc_velocity c) (ml_v_min l) (ml_v_max l) 12,
      range_code (mc_kp c) (ml_kp_min l) (ml_kp_max l) 12,
      range_code (mc_kd c) (ml_kd_min l) (ml_kd_max l) 12,
      range_code (mc_torque c) (ml_torque_min l) (ml_torque_max l) 12]"

lemma command_codes_nth:
  "command_codes c l ! 0 = range_code (mc_position c) (ml_p_min l) (ml_p_max l) 16"
  "command_codes c l ! 1 = range_code (mc_velocity c) (ml_v_min l) (ml_v_max l) 12"
  "command_codes c l ! 2 = range_code (mc_kp c) (ml_kp_min l) (ml_kp_max l) 12"
  "command_codes c l ! 3 = range_code (mc_kd c) (ml_kd_min l) (ml_kd_max l) 12"
  "command_codes c l ! 4 = range_code (mc_torque c) (ml_torque_min l) (ml_torque_max l) 12"
  by (simp_all add: command_codes_def)

lemma encodeCommand_sane:
  assumes "sane_limits l" and "command_in_range c l"
  shows "encodeCommand c l = Inr (pack_command (word_of_int (command_codes c l ! 0))
    (word_of_int (command_codes c l ! 1)) (word_of_int (command_codes c l ! 2))
    (word_of_int (command_codes c l ! 3)) (word_of_int (command_codes c l ! 4)))"
  using sane_limits_valid [OF assms(1)] assms(2)
    sane_limitsD [OF assms(1), THEN floatToUint_range_code(1)] in_rangeD [OF assms(2)]
  by (simp add: encodeCommand_def command_codes_def)

lemma encodeCommand_Inr_range: "encodeCommand c l = Inr b \<Longrightarrow> validateLimits l \<and> command_in_range c l"
  by (auto simp: encodeCommand_def split: if_splits)

text \<open>Property C31: a command is encoded exactly when the limits are valid and all five
  values are finite and inside their ranges; the block then has eight bytes, and each rejection
  carries its own reason. The \<^verbatim>\<open>.value()\<close> calls never meet an empty optional.\<close>

theorem encodeCommand_outcome:
  "encodeCommand c l =
     (if \<not> validateLimits l then Inl InvalidRange
      else if \<not> command_in_range c l then Inl CommandOutOfRange
      else Inr (pack_command
        (cast_word (scaled_value (mc_position c) (ml_p_min l) (ml_p_max l) 16))
        (cast_word (scaled_value (mc_velocity c) (ml_v_min l) (ml_v_max l) 12))
        (cast_word (scaled_value (mc_kp c) (ml_kp_min l) (ml_kp_max l) 12))
        (cast_word (scaled_value (mc_kd c) (ml_kd_min l) (ml_kd_max l) 12))
        (cast_word (scaled_value (mc_torque c) (ml_torque_min l) (ml_torque_max l) 12))))"
proof (cases "validateLimits l \<and> command_in_range c l")
  case True
  then have v: "validateLimits l" and r: "command_in_range c l" by auto
  note q = valid_range_quantises [OF validateLimitsD(1-3) [OF v] in_rangeD(1) [OF r]]
    valid_range_quantises [OF validateLimitsD(4-6) [OF v] in_rangeD(2) [OF r]]
    valid_range_quantises [OF validateLimitsD(7-9) [OF v] in_rangeD(3) [OF r]]
    valid_range_quantises [OF validateLimitsD(10-12) [OF v] in_rangeD(4) [OF r]]
    valid_range_quantises [OF validateLimitsD(13-15) [OF v] in_rangeD(5) [OF r]]
  show ?thesis using v r by (simp add: encodeCommand_def q)
qed (auto simp: encodeCommand_def)

text \<open>The fields of an accepted block.\<close>

lemma command_block_fields:
  assumes "sane_limits l" and "encodeCommand c l = Inr b"
  shows "length b = 8"
    and "uint (follow_p_raw b) = command_codes c l ! 0"
    and "uint (push_bit 4 (ucast (b ! 2)) OR ucast (drop_bit 4 (b ! 3)) :: u32) = command_codes c l ! 1"
    and "uint (follow_kp_raw b) = command_codes c l ! 2"
    and "uint (push_bit 4 (ucast (b ! 5)) OR ucast (drop_bit 4 (b ! 6)) :: u32) = command_codes c l ! 3"
    and "uint (push_bit 8 (ucast (b ! 6 AND 0xF)) OR ucast (b ! 7) :: u32) = command_codes c l ! 4"
    and "0 \<le> command_codes c l ! 0 \<and> command_codes c l ! 0 < 65536"
    and "\<forall>i \<in> {1..4}. 0 \<le> command_codes c l ! i \<and> command_codes c l ! i < 4096"
proof -
  have r: "command_in_range c l" using encodeCommand_Inr_range [OF assms(2)] by simp
  note w = code_word_bound [OF sane_limitsD(1) [OF assms(1)] in_rangeD(1) [OF r], of 16, simplified]
    code_word_bound [OF sane_limitsD(2) [OF assms(1)] in_rangeD(2) [OF r], of 12, simplified]
    code_word_bound [OF sane_limitsD(3) [OF assms(1)] in_rangeD(3) [OF r], of 12, simplified]
    code_word_bound [OF sane_limitsD(4) [OF assms(1)] in_rangeD(4) [OF r], of 12, simplified]
    code_word_bound [OF sane_limitsD(5) [OF assms(1)] in_rangeD(5) [OF r], of 12, simplified]
  note k = range_code_bounds [OF sane_limitsD(1) [OF assms(1)] in_rangeD(1) [OF r], of 16, simplified]
    range_code_bounds [OF sane_limitsD(2) [OF assms(1)] in_rangeD(2) [OF r], of 12, simplified]
    range_code_bounds [OF sane_limitsD(3) [OF assms(1)] in_rangeD(3) [OF r], of 12, simplified]
    range_code_bounds [OF sane_limitsD(4) [OF assms(1)] in_rangeD(4) [OF r], of 12, simplified]
    range_code_bounds [OF sane_limitsD(5) [OF assms(1)] in_rangeD(5) [OF r], of 12, simplified]
  note cc = command_codes_nth [of c l]
  have b: "b = pack_command (word_of_int (command_codes c l ! 0))
    (word_of_int (command_codes c l ! 1)) (word_of_int (command_codes c l ! 2))
    (word_of_int (command_codes c l ! 3)) (word_of_int (command_codes c l ! 4))"
    using encodeCommand_sane [OF assms(1) r] assms(2) by simp
  note rb = pack_command_read_back [OF w(1,3,5,7,9), folded cc]
  show "length b = 8" by (simp add: b)
  show "uint (follow_p_raw b) = command_codes c l ! 0"
    unfolding b using w by (simp only: rb) (simp add: command_codes_def)
  show "uint (push_bit 4 (ucast (b ! 2)) OR ucast (drop_bit 4 (b ! 3)) :: u32) = command_codes c l ! 1"
    unfolding b using w by (simp only: rb) (simp add: command_codes_def)
  show "uint (follow_kp_raw b) = command_codes c l ! 2"
    unfolding b using w by (simp only: rb) (simp add: command_codes_def)
  show "uint (push_bit 4 (ucast (b ! 5)) OR ucast (drop_bit 4 (b ! 6)) :: u32) = command_codes c l ! 3"
    unfolding b using w by (simp only: rb) (simp add: command_codes_def)
  show "uint (push_bit 8 (ucast (b ! 6 AND 0xF)) OR ucast (b ! 7) :: u32) = command_codes c l ! 4"
    unfolding b using w by (simp only: rb) (simp add: command_codes_def)
  show "0 \<le> command_codes c l ! 0 \<and> command_codes c l ! 0 < 65536"
    using k by (simp add: command_codes_def)
  have "{1..4} = {1, 2, 3, 4 :: nat}" by auto
  then show "\<forall>i \<in> {1..4}. 0 \<le> command_codes c l ! i \<and> command_codes c l ! i < 4096"
    using k by (simp add: command_codes_def)
qed


lemma range_code_max:
  assumes "dval h - dval l = of_int n" and "0 < n" and "n * (2 ^ bits - 1) \<le> 2 ^ 53" and "0 < bits" and "bits \<le> 31"
  shows "range_code h l h bits = 2 ^ bits - 1"
proof -
  have s: "1 \<le> (2 ^ bits - 1 :: int)" "(2 ^ bits - 1 :: int) < 2 ^ 31" using scale_int [OF assms(4,5)] by auto
  have "n \<le> n * (2 ^ bits - 1)" using s(1) assms(2) by simp
  then have n: "\<bar>n\<bar> \<le> 2 ^ 53" using assms(2,3) by linarith
  have p: "\<bar>n * (2 ^ bits - 1)\<bar> \<le> 2 ^ 53" using assms(2,3) s(1) by simp
  have q: "of_int n * of_int (2 ^ bits - 1) = (of_int (n * (2 ^ bits - 1)) :: rat)" by simp
  have "scaled_rat (of_int n) (of_int n) (2 ^ bits - 1) = of_int (2 ^ bits - 1)"
    unfolding scaled_rat_def round_rat_of_int [OF n] q round_rat_of_int [OF p]
    using assms(2) s by (subst round_rat_of_int [symmetric]) auto
  then show ?thesis unfolding range_code_def assms(1) by simp
qed

definition sample_command :: MitCommand where
  "sample_command = \<lparr>mc_position = Fin (25/2), mc_velocity = Fin (-45), mc_kp = Fin 500, mc_kd = Fin 0,
     mc_torque = Fin 80\<rparr>"

lemma sample_command_codes: "command_codes sample_command default_MitLimits = [65535, 0, 4095, 0, 4095]"
  using range_code_max [of "Fin (25/2)" "Fin (-25/2)" 25 16] range_code_max [of "Fin 500" "Fin 0" 500 12]
    range_code_max [of "Fin 80" "Fin (-80)" 160 12]
  by (simp add: command_codes_def sample_command_def default_limits_values range_code_min)

lemma sample_command_in_range: "command_in_range sample_command default_MitLimits"
  by (simp add: command_in_range_def isFiniteAndInRange_def sample_command_def default_limits_values)

lemma sample_command_block:
  "encodeCommand sample_command default_MitLimits = Inr [0xFF, 0xFF, 0, 0x0F, 0xFF, 0, 0x0F, 0xFF]"
  using encodeCommand_sane [OF default_limits_sane sample_command_in_range]
  unfolding sample_command_codes by (simp add: pack_command_def)

text \<open>Property C32: for limits free of overflow, what a motor reads out of the block are the
  codes of the commanded values: every code lies inside its field, the sixteen-bit position code and
  the twelve-bit gain code are read back unchanged, and the other three fields can be cut out of the
  block by the same layout.\<close>

theorem encodeCommand_fields:
  assumes "sane_limits l" and "encodeCommand c l = Inr b"
  shows "length b = 8 \<and>
    uint (follow_p_raw b) = command_codes c l ! 0 \<and>
    uint (push_bit 4 (ucast (b ! 2)) OR ucast (drop_bit 4 (b ! 3)) :: u32) = command_codes c l ! 1 \<and>
    uint (follow_kp_raw b) = command_codes c l ! 2 \<and>
    uint (push_bit 4 (ucast (b ! 5)) OR ucast (drop_bit 4 (b ! 6)) :: u32) = command_codes c l ! 3 \<and>
    uint (push_bit 8 (ucast (b ! 6 AND 0xF)) OR ucast (b ! 7) :: u32) = command_codes c l ! 4 \<and>
    0 \<le> command_codes c l ! 0 \<and> command_codes c l ! 0 < 65536 \<and>
    (\<forall>i \<in> {1..4}. 0 \<le> command_codes c l ! i \<and> command_codes c l ! i < 4096)"
  using command_block_fields [OF assms] by (intro conjI) auto

theorem encodeCommand_fields_witness:
  "uint (follow_p_raw [0xFF, 0xFF, 0, 0x0F, 0xFF, 0, 0x0F, 0xFF]) = 65535"
  using encodeCommand_fields [OF default_limits_sane sample_command_block]
  by (simp add: sample_command_codes)

text \<open>Property C33: encoding a value to \<open>bits\<close> bits and decoding the code again moves
  it by at most one quantisation step, up to the rounding of the double operations; neither
  direction overflows, and the cast to an unsigned integer is defined.\<close>

theorem quantisation_roundtrip:
  assumes "sane_range lo hi" and "isFiniteAndInRange v lo hi" and "0 < bits" and "bits \<le> 31"
  shows "\<exists>c x. floatToUint v lo hi bits = Some c \<and> cast_in_range bits (scaled_value v lo hi bits) \<and>
    uintToFloat c lo hi bits = Fin x \<and>
    \<bar>x - dval v\<bar> \<le> (dval hi - dval lo) / (2 ^ bits - 1) + pow2 (-47) * (dval hi - dval lo + \<bar>dval lo\<bar>)"
proof -
  have ab: "0 \<le> dval v - dval lo" "dval v - dval lo \<le> dval hi - dval lo"
    using assms(1,2) by (auto simp: isFiniteAndInRange_def sane_range_def elim!: isfiniteE)
  have s: "1 \<le> (2 ^ bits - 1 :: int)" "(2 ^ bits - 1 :: int) < 2 ^ 31" using scale_int [OF assms(3,4)] by auto
  have "\<bar>unscaled_rat (range_code v lo hi bits) (dval hi - dval lo) (dval lo) (2 ^ bits - 1) - dval v\<bar>
      \<le> (dval hi - dval lo) / (2 ^ bits - 1) + pow2 (-47) * (dval hi - dval lo + \<bar>dval lo\<bar>)"
    using code_error [OF ab sane_width [OF assms(1)] s, of "dval lo"] by (simp add: range_code_def)
  then show ?thesis
    using floatToUint_range_code [OF assms] uintToFloat_code [OF assms] by blast
qed

theorem quantisation_roundtrip_witness:
  "\<exists>c x. floatToUint (Fin 1) (Fin (-25/2)) (Fin (25/2)) 16 = Some c \<and>
    cast_in_range 16 (scaled_value (Fin 1) (Fin (-25/2)) (Fin (25/2)) 16) \<and>
    uintToFloat c (Fin (-25/2)) (Fin (25/2)) 16 = Fin x \<and>
    \<bar>x - 1\<bar> \<le> 25 / 65535 + pow2 (-47) * (75/2)"
  using quantisation_roundtrip [of "Fin (-25/2)" "Fin (25/2)" "Fin 1" 16]
  by (simp add: sane_range_numbers isFiniteAndInRange_def)

text \<open>Also: a larger value never gets a smaller code.\<close>

theorem quantisation_monotone:
  assumes "sane_range lo hi" and "isFiniteAndInRange v lo hi" and "isFiniteAndInRange w lo hi"
    and "v \<le> w" and "0 < bits" and "bits \<le> 31"
    and "floatToUint v lo hi bits = Some c" and "floatToUint w lo hi bits = Some d"
  shows "c \<le> d"
  using range_code_mono [OF assms(1-6)] assms(7,8)
    floatToUint_range_code(1) [OF assms(1,2,5,6)] floatToUint_range_code(1) [OF assms(1,3,5,6)]
    code_word_bound(2) [OF assms(1,2,5,6)] code_word_bound(2) [OF assms(1,3,5,6)]
  by (auto simp: word_le_def)

theorem quantisation_monotone_witness:
  "floatToUint (Fin 0) (Fin 0) (Fin 500) 12 = Some 0 \<and>
   floatToUint (Fin 500) (Fin 0) (Fin 500) 12 = Some 4095 \<and> (0 :: u32) \<le> 4095"
proof -
  have r: "sane_range (Fin 0) (Fin 500)" "isFiniteAndInRange (Fin 0) (Fin 0) (Fin 500)"
    "isFiniteAndInRange (Fin 500) (Fin 0) (Fin 500)"
    by (simp_all add: sane_range_numbers isFiniteAndInRange_def)
  have c: "floatToUint (Fin 0) (Fin 0) (Fin 500) 12 = Some 0"
    using floatToUint_range_code(1) [OF r(1,2), of 12] by (simp add: range_code_min)
  have d: "floatToUint (Fin 500) (Fin 0) (Fin 500) 12 = Some 4095"
    using floatToUint_range_code(1) [OF r(1,3), of 12] range_code_max [of "Fin 500" "Fin 0" 500 12] by simp
  show ?thesis using c d quantisation_monotone [OF r _ _ _ c d] by simp
qed

text \<open>Property C34: a control block with the smallest position gain is never the byte
  pattern of a special command, so a zero-gain stop block cannot be taken for enable, disable or
  save-zero, whatever the rest of the command.\<close>

theorem zero_gain_never_special:
  assumes "sane_limits l" and "encodeCommand c l = Inr b" and "mc_kp c = ml_kp_min l"
  shows "b \<noteq> encodeSpecialCommand s"
proof
  assume "b = encodeSpecialCommand s"
  moreover have "uint (follow_kp_raw b) = 0"
    using command_block_fields(4) [OF assms(1,2)] assms(3)
    by (simp add: command_codes_nth range_code_min)
  ultimately show False by (simp add: follow_kp_raw_def encodeSpecialCommand_def)
qed


definition zero_gain_sample :: MitCommand where
  "zero_gain_sample = sample_command\<lparr>mc_kp := Fin 0\<rparr>"

lemma zero_gain_sample_block:
  "encodeCommand zero_gain_sample default_MitLimits = Inr [0xFF, 0xFF, 0, 0, 0, 0, 0x0F, 0xFF]"
proof -
  have r: "command_in_range zero_gain_sample default_MitLimits"
    by (simp add: zero_gain_sample_def command_in_range_def isFiniteAndInRange_def sample_command_def
        default_limits_values)
  have c: "command_codes zero_gain_sample default_MitLimits = [65535, 0, 0, 0, 4095]"
    using sample_command_codes
    by (simp add: command_codes_def zero_gain_sample_def default_limits_values range_code_min)
  show ?thesis
    using encodeCommand_sane [OF default_limits_sane r] unfolding c by (simp add: pack_command_def)
qed

theorem zero_gain_never_special_witness:
  "[0xFF, 0xFF, 0, 0, 0, 0, 0x0F, 0xFF] \<noteq> encodeSpecialCommand kEnable"
  by (rule zero_gain_never_special [OF default_limits_sane zero_gain_sample_block])
    (simp add: zero_gain_sample_def default_limits_values)

subsection \<open>Temperatures and identifiers\<close>

definition temperature_rat :: "int \<Rightarrow> rat" where
  "temperature_rat k = round_rat (round_rat (of_int (k * 180) / 255) - 30)"

lemma temperature_quotient:
  assumes "0 \<le> k" and "k \<le> 255"
  shows "0 \<le> (of_int (k * 180) :: rat) / 255" and "(of_int (k * 180) :: rat) / 255 \<le> 180"
    and "0 \<le> round_rat (of_int (k * 180) / 255)" and "round_rat (of_int (k * 180) / 255) \<le> 180"
proof -
  show 1: "0 \<le> (of_int (k * 180) :: rat) / 255" using assms(1) by simp
  have "(of_int (k * 180) :: rat) \<le> of_int (255 * 180)" using assms(2) by (simp only: of_int_le_iff)
  then show 2: "(of_int (k * 180) :: rat) / 255 \<le> 180" by simp
  show "0 \<le> round_rat (of_int (k * 180) / 255)" by (rule round_rat_nonneg [OF 1])
  show "round_rat (of_int (k * 180) / 255) \<le> 180"
    using round_rat_mono [OF 2] round_rat_of_int [of 180] by simp
qed

lemma decodeTemperature_rat: "decodeTemperature raw = Fin (temperature_rat (uint raw))"
proof -
  define k where "k = uint raw"
  have k: "0 \<le> k" "k \<le> 255" using uint_bounded [of raw] by (auto simp: k_def)
  define q where "q = round_rat (of_int (k * 180) / 255)"
  note t = temperature_quotient [OF k, folded q_def]
  have "pow2 8 \<le> pow2 1023" by (simp only: pow2_le_iff)
  then have b: "180 \<le> pow2 1023" by (simp add: pow2_nat [of 8])
  have i: "dint k = Fin (of_int k)" using k by (intro dint_Fin) auto
  have "Fin (of_int k) * dlit 180 = rnd (of_int (k * 180))" by simp
  also have "\<dots> = Fin (of_int (k * 180))" using k by (intro rnd_of_int) auto
  finally have m: "Fin (of_int k) * dlit 180 = Fin (of_int (k * 180))" .
  have "Fin (of_int (k * 180)) / dlit 255 = rnd (of_int (k * 180) / 255)" by simp
  also have "\<dots> = Fin q" unfolding q_def using t b by (intro rnd_Fin) auto
  finally have d: "Fin (of_int (k * 180)) / dlit 255 = Fin q" .
  have "Fin q + dlit (-30) = rnd (q - 30)" by simp
  also have "\<dots> = Fin (round_rat (q - 30))" using t b by (intro rnd_Fin) auto
  finally have a: "Fin q + dlit (-30) = Fin (round_rat (q - 30))" .
  show ?thesis unfolding decodeTemperature_def kTemperatureSpanC_def kTemperatureMinC_def
      k_def [symmetric] i m d a by (simp add: temperature_rat_def q_def)
qed

lemma temperature_rat_mono: "j \<le> k \<Longrightarrow> temperature_rat j \<le> temperature_rat k"
proof -
  assume "j \<le> k"
  then have "(of_int (j * 180) :: rat) / 255 \<le> of_int (k * 180) / 255" by simp
  from round_rat_mono [OF this] show ?thesis
    unfolding temperature_rat_def by (intro round_rat_mono) simp
qed

lemma temperature_rat_ends: "temperature_rat 0 = -30" "temperature_rat 255 = 150"
  using round_rat_of_int [of "-30"] round_rat_of_int [of 150] round_rat_of_int [of 180]
  by (simp_all add: temperature_rat_def)

lemma temperature_rat_14: "temperature_rat 14 < -20"
proof -
  have "round_rat (of_int (14 * 180) / 255) \<le> round_rat (of_int 159 * pow2 (-4))"
    by (rule round_rat_mono) (simp add: pow2_minus pow2_nat [of 4])
  then have "round_rat (of_int (14 * 180) / 255) - 30 \<le> of_int (-321) * pow2 (-4)"
    using round_rat_exact [of 159 "-4"] by (simp add: pow2_minus pow2_nat [of 4])
  from round_rat_mono [OF this] show ?thesis
    using round_rat_exact [of "-321" "-4"] by (simp add: temperature_rat_def pow2_minus pow2_nat [of 4])
qed

lemma temperature_rat_15: "-20 < temperature_rat 15"
proof -
  have "round_rat (of_int 21 * pow2 (-1)) \<le> round_rat (of_int (15 * 180) / 255)"
    by (rule round_rat_mono) (simp add: pow2_minus pow2_nat [of 1])
  then have "of_int (-39) * pow2 (-1) \<le> round_rat (of_int (15 * 180) / 255) - 30"
    using round_rat_exact [of 21 "-1"] by (simp add: pow2_minus pow2_nat [of 1])
  from round_rat_mono [OF this] show ?thesis
    using round_rat_exact [of "-39" "-1"] by (simp add: temperature_rat_def pow2_minus pow2_nat [of 1])
qed

text \<open>Also: every raw byte decodes to a finite temperature between -30 and
  150 degrees, both ends included and reached, larger bytes to larger or equal temperatures; the
  readings below -20 degrees, the default limit under which a sensor counts as faulty, are exactly the
  bytes up to 14.\<close>

theorem decodeTemperature_range:
  assumes "raw \<le> raw'"
  shows "\<exists>t. decodeTemperature raw = Fin t \<and> -30 \<le> t \<and> t \<le> 150 \<and> (t < -20 \<longleftrightarrow> raw \<le> 14) \<and>
     Fin t \<le> decodeTemperature raw' \<and>
     decodeTemperature 0 = Fin (-30) \<and> decodeTemperature 255 = Fin 150"
proof -
  have k: "0 \<le> uint raw" "uint raw \<le> 255" using uint_bounded [of raw] by auto
  have "temperature_rat (uint raw) < -20 \<longleftrightarrow> uint raw \<le> 14"
    using temperature_rat_mono [of "uint raw" 14] temperature_rat_14
      temperature_rat_mono [of 15 "uint raw"] temperature_rat_15 by linarith
  then show ?thesis
    using temperature_rat_mono [OF k(1)] temperature_rat_mono [OF k(2)] assms
    by (simp add: decodeTemperature_rat temperature_rat_ends word_le_def temperature_rat_mono)
qed

theorem decodeTemperature_range_witness:
  "\<exists>t. decodeTemperature 14 = Fin t \<and> -30 \<le> t \<and> t < -20 \<and> Fin t \<le> decodeTemperature 255"
  using decodeTemperature_range [of 14 255] by auto

lemma small_id_bits: "(k :: u32) \<le> 0x0F \<Longrightarrow> k AND 0x10 = 0"
proof -
  assume "k \<le> 0x0F"
  then have "unat k < 2 ^ 4" by (simp add: word_le_nat_alt)
  then have "bit k n \<Longrightarrow> n < 4" for n using low_bits by blast
  moreover have "bit (0x10 :: u32) n \<Longrightarrow> n = 4" for n
    using bit_push_bit_iff [of 4 "1 :: u32" n] by (auto simp: bit_simps)
  ultimately show ?thesis by (intro bit_word_eqI) (auto simp: bit_and_iff)
qed

text \<open>Also: the reply identifiers of the supported motors are distinct, and none of
  them is a command identifier, so a reply can be told from a command and from another motor's
  reply.\<close>

theorem reply_ids_disjoint:
  assumes "i \<le> kMaxSupportedMotorCanId" and "j \<le> kMaxSupportedMotorCanId"
  shows "defaultMasterId i = i + 0x10 \<and> defaultMasterId i \<noteq> j \<and>
    (defaultMasterId i = defaultMasterId j \<longleftrightarrow> i = j)"
proof -
  have m: "defaultMasterId k = k + 0x10" if k: "k \<le> kMaxSupportedMotorCanId" for k
  proof -
    have "k AND 0x10 = 0" using k small_id_bits by (simp add: kMaxSupportedMotorCanId_def)
    then have "k OR 0x10 = (k AND 0x10) + (k OR 0x10)" by simp
    also have "\<dots> = k + 0x10" by (rule word_plus_and_or)
    finally show ?thesis by (simp add: defaultMasterId_def)
  qed
  have "defaultMasterId i AND 0x10 = 0x10" by (simp add: defaultMasterId_def bit.conj_disj_distrib2)
  then have "defaultMasterId i \<noteq> j"
    using small_id_bits [of j] assms(2) by (auto simp: kMaxSupportedMotorCanId_def)
  then show ?thesis using m assms by simp
qed

theorem reply_ids_disjoint_witness:
  "defaultMasterId 3 = 0x13 \<and> defaultMasterId 3 \<noteq> 15"
  using reply_ids_disjoint [of 3 15] by (simp add: kMaxSupportedMotorCanId_def)



subsection \<open>The emulator's reply\<close>

lemma ucast_byte: "(ucast (p AND 0xFF) :: u8) = ucast (p :: u32)"
proof -
  have "p AND 0xFF = take_bit 8 p" by (simp add: take_bit_eq_mask mask_eq_exp_minus_1)
  then show ?thesis by (intro bit_word_eqI) (auto simp: bit_simps)
qed

definition reply_bytes :: "u8 \<Rightarrow> u32 \<Rightarrow> u32 \<Rightarrow> u8 list" where
  "reply_bytes i p v = [i, ucast (drop_bit 8 p), ucast p, ucast (drop_bit 4 v),
     ucast (push_bit 4 (v AND 0xF) OR drop_bit 8 0x7FF), 0xFF, 0x55, 0x5A]"

lemma reply_bytes_read:
  assumes "unat p < 65536" and "unat v < 4096"
  shows "feedback_p_raw (reply_bytes i p v) = p" and "feedback_v_raw (reply_bytes i p v) = v"
    and "reply_bytes i p v ! 0 = i"
proof -
  have n: "reply_bytes i p v ! 1 = ucast (drop_bit 8 p)" "reply_bytes i p v ! 2 = ucast p"
    "reply_bytes i p v ! 3 = ucast (drop_bit 4 v)"
    "reply_bytes i p v ! 4 = ucast (push_bit 4 (v AND 0xF) OR drop_bit 8 0x7FF)"
    by (simp_all add: reply_bytes_def)
  have k: "unat (0x7FF :: u32) < 4096" by simp
  show "feedback_p_raw (reply_bytes i p v) = p"
    unfolding feedback_p_raw_def n by (rule byte_pair_join [OF assms(1)])
  show "feedback_v_raw (reply_bytes i p v) = v"
    unfolding feedback_v_raw_def n by (rule nibble_pair_first [OF assms(2) k])
  show "reply_bytes i p v ! 0 = i" by (simp add: reply_bytes_def)
qed

lemma feedback_payload_bytes:
  assumes "floatToUint p (ml_p_min default_MitLimits) (ml_p_max default_MitLimits) 16 = Some pc"
    and "floatToUint v (ml_v_min default_MitLimits) (ml_v_max default_MitLimits) 12 = Some vc"
  shows "feedback_payload i (Some (p, v)) = reply_bytes (word_of_int i) pc vc"
  using assms by (simp add: feedback_payload_def reply_bytes_def Let_def ucast_byte)

text \<open>Also: the driver decodes an emulated motor's reply to the position and
  velocity the emulator had, each within one quantisation step (up to the rounding of the double
  operations), and accepts it for the motor that sent it.\<close>

theorem emulator_reply_decoded:
  assumes "isFiniteAndInRange p (ml_p_min default_MitLimits) (ml_p_max default_MitLimits)"
    and "isFiniteAndInRange v (ml_v_min default_MitLimits) (ml_v_max default_MitLimits)"
  shows "\<exists>f. decodeFeedback (feedback_payload i (Some (p, v))) default_MitLimits (Some (word_of_int i)) = Inr f \<and>
    mf_motor_id f = word_of_int i \<and>
    \<bar>dval (mf_position f) - dval p\<bar> \<le> 25 / 65535 + pow2 (-41) \<and>
    \<bar>dval (mf_velocity f) - dval v\<bar> \<le> 90 / 4095 + pow2 (-39)"
proof -
  let ?l = default_MitLimits
  note s = sane_limitsD [OF default_limits_sane]
  define pc vc where "pc = range_code p (ml_p_min ?l) (ml_p_max ?l) 16"
    and "vc = range_code v (ml_v_min ?l) (ml_v_max ?l) 12"
  have pb: "unat (word_of_int pc :: u32) < 65536" and vb: "unat (word_of_int vc :: u32) < 4096"
    using code_word_bound(1) [OF s(1) assms(1), of 16] code_word_bound(1) [OF s(2) assms(2), of 12]
    by (simp_all add: pc_def vc_def)
  have pay: "feedback_payload i (Some (p, v)) = reply_bytes (word_of_int i) (word_of_int pc) (word_of_int vc)"
    using floatToUint_range_code(1) [OF s(1) assms(1), of 16] floatToUint_range_code(1) [OF s(2) assms(2), of 12]
    by (intro feedback_payload_bytes) (simp_all add: pc_def vc_def)
  define t where "t = pow2 (-47)"
  have t: "0 \<le> t" by (simp add: t_def)
  have p47: "pow2 (-41) = 64 * t" "pow2 (-39) = 256 * t"
    using pow2_add [of 6 "-47"] pow2_add [of 8 "-47"] by (simp_all add: t_def pow2_nat [of 6] pow2_nat [of 8])
  have ab: "0 \<le> dval p + 25/2" "dval p + 25/2 \<le> 25" "0 \<le> dval v + 45" "dval v + 45 \<le> 90"
    using assms by (auto simp: isFiniteAndInRange_def default_limits_values elim!: isfiniteE)
  note w = sane_width [OF s(1), unfolded default_limits_values, simplified]
    sane_width [OF s(2), unfolded default_limits_values, simplified]
  have e1: "\<bar>unscaled_rat pc 25 (-25/2) 65535 - dval p\<bar> \<le> 25 / 65535 + (75/2) * t"
    using code_error [OF ab(1,2) w(1,2), of 65535 "-25/2"]
    by (simp add: t_def pc_def range_code_def default_limits_values)
  have u1: "uintToFloat (word_of_int pc) (ml_p_min ?l) (ml_p_max ?l) 16 = Fin (unscaled_rat pc 25 (-25/2) 65535)"
    using uintToFloat_code [OF s(1) assms(1), of 16] unfolding pc_def by (simp add: default_limits_values)
  have e2: "\<bar>unscaled_rat vc 90 (-45) 4095 - dval v\<bar> \<le> 90 / 4095 + 135 * t"
    using code_error [OF ab(3,4) w(3,4), of 4095 "-45"]
    by (simp add: t_def vc_def range_code_def default_limits_values)
  have u2: "uintToFloat (word_of_int vc) (ml_v_min ?l) (ml_v_max ?l) 12 = Fin (unscaled_rat vc 90 (-45) 4095)"
    using uintToFloat_code [OF s(2) assms(2), of 12] unfolding vc_def by (simp add: default_limits_values)
  have "\<bar>unscaled_rat pc 25 (-25/2) 65535 - dval p\<bar> \<le> 25 / 65535 + pow2 (-41)"
    "\<bar>unscaled_rat vc 90 (-45) 4095 - dval v\<bar> \<le> 90 / 4095 + pow2 (-39)"
    using e1 e2 t unfolding p47 by linarith+
  then show ?thesis
    using sane_limits_valid [OF default_limits_sane] u1 u2
    by (simp add: decodeFeedback_def pay reply_bytes_read [OF pb vb])
qed

theorem emulator_reply_decoded_witness:
  "\<exists>f. decodeFeedback (feedback_payload 2 (Some (Fin 1, Fin (-3)))) default_MitLimits (Some 2) = Inr f \<and>
    mf_motor_id f = 2 \<and> \<bar>dval (mf_position f) - 1\<bar> \<le> 25 / 65535 + pow2 (-41) \<and>
    \<bar>dval (mf_velocity f) - (-3)\<bar> \<le> 90 / 4095 + pow2 (-39)"
  using emulator_reply_decoded [of "Fin 1" "Fin (-3)" 2]
  by (simp add: isFiniteAndInRange_def default_limits_values)


end
