(* ===== verification/Can_Frame.thy ===== *)
theory Can_Frame
  imports Mit_Protocol
begin

text \<open>
  The transport layer as its clients see it (\<^verbatim>\<open>can/can_bus.hpp\<close>): CAN frames, the bus
  operations \<^verbatim>\<open>send\<close> and \<^verbatim>\<open>recv\<close>, and the clocks. What the bus and the clocks do is an
  environment: a script of send results, received frames and elapsed times that the operations
  consume, and a log of everything the program tried to send. A script that has run out stands for a
  bus that accepts nothing and delivers nothing.
\<close>

section \<open>Frames\<close>

definition kClassicCanMaxDataLength :: nat where
  "kClassicCanMaxDataLength = 8"

definition kCanFdMaxDataLength :: nat where
  "kCanFdMaxDataLength = 64"

definition isValidCanFdDataLength :: "nat \<Rightarrow> bool" where
  "isValidCanFdDataLength n \<longleftrightarrow>
     n \<le> 8 \<or> n = 12 \<or> n = 16 \<or> n = 20 \<or> n = 24 \<or> n = 32 \<or> n = 48 \<or> n = 64"

record CanFrame =
  cf_id :: u32
  cf_extended :: bool
  cf_dlc :: u8
  cf_data :: "u8 list"
  cf_fd :: bool
  cf_brs :: bool
  cf_rx_kernel_realtime_ns :: ns
  cf_rx_userspace_realtime_ns :: ns
  cf_rx_hardware_raw_ns :: ns

definition default_CanFrame :: CanFrame where
  "default_CanFrame =
     \<lparr>cf_id = 0, cf_extended = True, cf_dlc = 0, cf_data = replicate 64 0, cf_fd = False, cf_brs = False,
      cf_rx_kernel_realtime_ns = 0, cf_rx_userspace_realtime_ns = 0, cf_rx_hardware_raw_ns = 0\<rparr>"

definition setData :: "u8 list \<Rightarrow> CanFrame \<Rightarrow> CanFrame" where
  "setData bytes f =
     f\<lparr>cf_data := bytes @ replicate (kCanFdMaxDataLength - length bytes) 0, cf_dlc := of_nat (length bytes)\<rparr>"

definition data8 :: "CanFrame \<Rightarrow> u8 list" where
  "data8 f = take 8 (cf_data f)"

datatype CanFrameFormat = kClassic | kFd | kFdBrs

text \<open>The frame a driver builds for one motor: standard identifier, eight bytes.\<close>

definition motor_frame :: "int \<Rightarrow> u8 list \<Rightarrow> CanFrame" where
  "motor_frame can_id bytes =
     setData bytes (default_CanFrame\<lparr>cf_id := word_of_int can_id, cf_extended := False\<rparr>)"

section \<open>The environment\<close>

record env =
  clk :: ns
  ticks :: "nat list"
  walls :: "ns list"
  sends :: "bool list"
  rx :: "(nat \<times> CanFrame option) list"
  tx_log :: "(CanFrame \<times> bool) list"

definition steady_now :: "env \<Rightarrow> ns \<times> env" where
  "steady_now e = (case ticks e of [] \<Rightarrow> (clk e, e)
     | t # ts \<Rightarrow> (clk e + int t, e\<lparr>clk := clk e + int t, ticks := ts\<rparr>))"

definition wall_now :: "env \<Rightarrow> ns \<times> env" where
  "wall_now e = (case walls e of [] \<Rightarrow> (0, e) | w # ws \<Rightarrow> (w, e\<lparr>walls := ws\<rparr>))"

definition bus_send :: "CanFrame \<Rightarrow> env \<Rightarrow> bool \<times> env" where
  "bus_send f e = (case sends e of [] \<Rightarrow> (False, e\<lparr>tx_log := tx_log e @ [(f, False)]\<rparr>)
     | b # bs \<Rightarrow> (b, e\<lparr>sends := bs, tx_log := tx_log e @ [(f, b)]\<rparr>))"

definition bus_recv :: "int \<Rightarrow> env \<Rightarrow> CanFrame option \<times> env" where
  "bus_recv timeout_ms e = (case rx e of [] \<Rightarrow> (None, e\<lparr>clk := clk e + max 0 timeout_ms * 1000000\<rparr>)
     | (t, r) # es \<Rightarrow> (r, e\<lparr>clk := clk e + int t, rx := es\<rparr>))"

section \<open>Lemmas\<close>

lemma setData_simps [simp]:
  "cf_id (setData b f) = cf_id f" "cf_extended (setData b f) = cf_extended f"
  "cf_dlc (setData b f) = of_nat (length b)" "cf_fd (setData b f) = cf_fd f"
  by (simp_all add: setData_def)

lemma data8_setData: "length b = 8 \<Longrightarrow> data8 (setData b f) = b"
  by (simp add: data8_def setData_def)

lemma motor_frame_simps [simp]:
  "cf_id (motor_frame i b) = word_of_int i" "cf_extended (motor_frame i b) = False"
  "length b = 8 \<Longrightarrow> cf_dlc (motor_frame i b) = 8" "length b = 8 \<Longrightarrow> data8 (motor_frame i b) = b"
  by (simp_all add: motor_frame_def default_CanFrame_def data8_setData)

lemma motor_frame_eq_iff:
  assumes "length b = 8" and "length c = 8"
  shows "motor_frame i b = motor_frame j c \<longleftrightarrow> word_of_int i = (word_of_int j :: u32) \<and> b = c"
proof
  assume "motor_frame i b = motor_frame j c"
  then show "word_of_int i = (word_of_int j :: u32) \<and> b = c"
    using motor_frame_simps(1,4) assms by metis
qed (simp add: motor_frame_def)

lemma special_length [simp]: "length (encodeSpecialCommand s) = 8"
  by (simp add: encodeSpecialCommand_def)

text \<open>The log only grows, and by exactly the frames sent; clocks and receptions leave it alone.\<close>

lemma env_log [simp]:
  "tx_log (snd (steady_now e)) = tx_log e" "tx_log (snd (wall_now e)) = tx_log e"
  "tx_log (snd (bus_recv t e)) = tx_log e"
  "tx_log (snd (bus_send f e)) = tx_log e @ [(f, fst (bus_send f e))]"
  by (auto simp: steady_now_def wall_now_def bus_recv_def bus_send_def split: list.splits prod.splits)

lemma env_rx [simp]:
  "rx (snd (steady_now e)) = rx e" "rx (snd (wall_now e)) = rx e" "rx (snd (bus_send f e)) = rx e"
  "rx (snd (bus_recv t e)) = tl (rx e)"
  by (auto simp: steady_now_def wall_now_def bus_recv_def bus_send_def split: list.splits prod.splits)

lemma env_clk:
  "clk e \<le> clk (snd (steady_now e))" "clk (snd (steady_now e)) = fst (steady_now e)"
  "clk (snd (wall_now e)) = clk e" "clk (snd (bus_send f e)) = clk e" "clk e \<le> clk (snd (bus_recv t e))"
  by (auto simp: steady_now_def wall_now_def bus_recv_def bus_send_def split: list.splits prod.splits)

lemma bus_recv_received: "fst (bus_recv t e) = Some f \<Longrightarrow> \<exists>d es. rx e = (d, Some f) # es"
  by (auto simp: bus_recv_def split: list.splits prod.splits)

end
