(* ===== verification/Bxi_Actuator.thy ===== *)
theory Bxi_Actuator
  imports Can_Frame
begin

text \<open>
  The actuator driver (\<^verbatim>\<open>src/bxi_actuator.cpp\<close>): one motor behind a bus, with its request/reply
  transactions, the count of consecutive timeouts, the safe-stop latch, the temperature sensor
  checks and the saturation of commands. Every operation takes the driver and the environment and
  returns its result with both, changed.
\<close>

section \<open>Data\<close>

record ActuatorFeedback =
  af_position :: double
  af_velocity :: double
  af_effort :: double
  af_temperature :: double
  af_motor_temperature :: double
  af_consecutive_timeouts :: u32
  af_valid :: bool
  af_rx_kernel_realtime_ns :: ns
  af_rx_userspace_realtime_ns :: ns

definition default_ActuatorFeedback :: ActuatorFeedback where
  "default_ActuatorFeedback =
     \<lparr>af_position = 0, af_velocity = 0, af_effort = 0, af_temperature = 0, af_motor_temperature = 0,
      af_consecutive_timeouts = 0, af_valid = False, af_rx_kernel_realtime_ns = 0,
      af_rx_userspace_realtime_ns = 0\<rparr>"

record BxiSpec =
  sp_p_min :: double
  sp_p_max :: double
  sp_v_min :: double
  sp_v_max :: double
  sp_kp_max :: double
  sp_kd_max :: double
  sp_t_min :: double
  sp_t_max :: double

definition default_BxiSpec :: BxiSpec where
  "default_BxiSpec =
     \<lparr>sp_p_min = dlit (-25/2), sp_p_max = dlit (25/2), sp_v_min = dlit (-45), sp_v_max = dlit 45,
      sp_kp_max = dlit 500, sp_kd_max = dlit 5, sp_t_min = dlit (-50), sp_t_max = dlit 50\<rparr>"

record FeedbackTransform =
  ft_direction :: int
  ft_offset :: double
  ft_sensor_fault_below :: double

datatype ActuatorState = kDisabled | kEnabled | kSafeStopped

record TransactionReply =
  tr_rx_dequeue_steady_ns :: ns
  tr_rx_kernel_realtime_ns :: ns
  tr_accepted :: bool
  tr_can_id :: u32
  tr_dlc :: u8

datatype TransactionResult =
  tr_safe_stop | tr_send_failed | tr_ok | tr_temperature_fault | tr_timeout

record TransactionObservation =
  to_tx_call_steady_ns :: ns
  to_tx_call_realtime_ns :: ns
  to_result :: TransactionResult
  to_replies :: "TransactionReply list"

definition default_TransactionObservation :: TransactionObservation where
  "default_TransactionObservation =
     \<lparr>to_tx_call_steady_ns = 0, to_tx_call_realtime_ns = 0, to_result = tr_safe_stop, to_replies = []\<rparr>"

record BxiActuatorDriver =
  bd_can_id :: int
  bd_motor_dir :: int
  bd_offset_angle :: double
  bd_lower :: double
  bd_upper :: double
  bd_default_kp :: double
  bd_default_kd :: double
  bd_spec :: BxiSpec
  bd_response_timeout_ms :: int
  bd_maximum_consecutive_timeouts :: u32
  bd_temperature_sensor_fault_below_c :: double
  bd_consecutive_timeouts :: u32
  bd_mos_sensor_fault :: bool
  bd_motor_sensor_fault :: bool
  bd_state :: ActuatorState

text \<open>The exception both the constructor and the setters raise.\<close>

datatype actuator_error = InvalidArgument

section \<open>Conversions\<close>

definition spec_limits :: "BxiSpec \<Rightarrow> MitLimits" where
  "spec_limits s = default_MitLimits
     \<lparr>ml_p_min := sp_p_min s, ml_p_max := sp_p_max s, ml_v_min := sp_v_min s, ml_v_max := sp_v_max s,
      ml_kp_max := sp_kp_max s, ml_kd_max := sp_kd_max s, ml_torque_min := sp_t_min s,
      ml_torque_max := sp_t_max s\<rparr>"

definition driver_limits :: "BxiActuatorDriver \<Rightarrow> MitLimits" where
  "driver_limits d = spec_limits (bd_spec d)"

definition new_driver ::
  "bool \<Rightarrow> int \<Rightarrow> int \<Rightarrow> double \<Rightarrow> double \<Rightarrow> double \<Rightarrow> double \<Rightarrow> double \<Rightarrow> BxiSpec \<Rightarrow> int \<Rightarrow> u32 \<Rightarrow> double
     \<Rightarrow> actuator_error + BxiActuatorDriver" where
  "new_driver bus_present can_id motor_dir offset_angle lower upper default_kp default_kd spec
     response_timeout_ms maximum_consecutive_timeouts temperature_sensor_fault_below_c =
     (if \<not> bus_present \<or> can_id \<le> 0 \<or> uint kMaxSupportedMotorCanId < can_id \<or>
         (motor_dir \<noteq> -1 \<and> motor_dir \<noteq> 1) \<or> response_timeout_ms \<le> 0 \<or>
         maximum_consecutive_timeouts = 0 \<or> upper \<le> lower \<or>
         \<not> isfinite temperature_sensor_fault_below_c \<or> \<not> validateLimits (spec_limits spec)
      then Inl InvalidArgument
      else Inr \<lparr>bd_can_id = can_id, bd_motor_dir = motor_dir, bd_offset_angle = offset_angle,
        bd_lower = lower, bd_upper = upper, bd_default_kp = default_kp, bd_default_kd = default_kd,
        bd_spec = spec, bd_response_timeout_ms = response_timeout_ms,
        bd_maximum_consecutive_timeouts = maximum_consecutive_timeouts,
        bd_temperature_sensor_fault_below_c = temperature_sensor_fault_below_c,
        bd_consecutive_timeouts = 0, bd_mos_sensor_fault = False, bd_motor_sensor_fault = False,
        bd_state = kDisabled\<rparr>)"

definition decodeMotorReply :: "CanFrame \<Rightarrow> int \<Rightarrow> MitLimits \<Rightarrow> MitFeedback option" where
  "decodeMotorReply frame can_id limits =
     (if cf_extended frame \<or> cf_dlc frame \<noteq> 8 \<or> cf_id frame \<noteq> defaultMasterId (word_of_int can_id)
      then None
      else case decodeFeedback (data8 frame) limits (Some (word_of_int can_id)) of
             Inl _ \<Rightarrow> None | Inr f \<Rightarrow> Some f)"

definition feedbackTransform :: "BxiActuatorDriver \<Rightarrow> FeedbackTransform" where
  "feedbackTransform d = \<lparr>ft_direction = bd_motor_dir d, ft_offset = bd_offset_angle d,
     ft_sensor_fault_below = bd_temperature_sensor_fault_below_c d\<rparr>"

definition reported_temperature :: "double \<Rightarrow> double \<Rightarrow> double" where
  "reported_temperature mos motor =
     (if isnan mos then motor else if isnan motor then mos else dmax mos motor)"

definition convertFeedback :: "MitFeedback \<Rightarrow> FeedbackTransform \<Rightarrow> ActuatorFeedback" where
  "convertFeedback decoded transform =
     (let mos = if mf_mos_temperature decoded < ft_sensor_fault_below transform then NaN
                else mf_mos_temperature decoded;
          motor = if mf_motor_temperature decoded < ft_sensor_fault_below transform then NaN
                  else mf_motor_temperature decoded
      in default_ActuatorFeedback
           \<lparr>af_position := (mf_position decoded - ft_offset transform) * dint (ft_direction transform),
            af_velocity := mf_velocity decoded * dint (ft_direction transform),
            af_effort := mf_torque decoded * dint (ft_direction transform),
            af_temperature := reported_temperature mos motor,
            af_motor_temperature := motor, af_valid := True\<rparr>)"

definition updateTemperature ::
  "BxiActuatorDriver \<Rightarrow> MitFeedback \<Rightarrow> ActuatorFeedback \<Rightarrow> ActuatorFeedback \<times> BxiActuatorDriver" where
  "updateTemperature d decoded result =
     (let mos_fault = mf_mos_temperature decoded < bd_temperature_sensor_fault_below_c d;
          mos = if mos_fault then NaN else mf_mos_temperature decoded;
          motor_fault = mf_motor_temperature decoded < bd_temperature_sensor_fault_below_c d;
          motor = if motor_fault then NaN else mf_motor_temperature decoded
      in (result\<lparr>af_temperature := (if isnan mos then motor else if isnan motor then mos else dmax mos motor),
                 af_motor_temperature := motor\<rparr>,
          d\<lparr>bd_mos_sensor_fault := mos_fault, bd_motor_sensor_fault := motor_fault\<rparr>))"

definition applyFeedback ::
  "BxiActuatorDriver \<Rightarrow> MitFeedback \<Rightarrow> ActuatorFeedback \<times> BxiActuatorDriver" where
  "applyFeedback d decoded =
     updateTemperature d decoded (convertFeedback decoded (feedbackTransform d))"

section \<open>Safe stop and transactions\<close>

definition trySendDisable :: "BxiActuatorDriver \<Rightarrow> env \<Rightarrow> env" where
  "trySendDisable d e = snd (bus_send (motor_frame (bd_can_id d) (encodeSpecialCommand kDisable)) e)"

definition latchSafeStop :: "BxiActuatorDriver \<Rightarrow> env \<Rightarrow> BxiActuatorDriver \<times> env" where
  "latchSafeStop d e =
     (if bd_state d = kSafeStopped then (d, e)
      else (let d' = d\<lparr>bd_state := kSafeStopped\<rparr> in (d', trySendDisable d' e)))"

definition push_reply ::
  "ns \<Rightarrow> CanFrame \<Rightarrow> TransactionObservation option \<Rightarrow> TransactionObservation option" where
  "push_reply dequeued_at f = map_option (\<lambda>ob. ob\<lparr>to_replies := to_replies ob @
     [\<lparr>tr_rx_dequeue_steady_ns = dequeued_at, tr_rx_kernel_realtime_ns = cf_rx_kernel_realtime_ns f,
       tr_accepted = False, tr_can_id = cf_id f, tr_dlc = cf_dlc f\<rparr>]\<rparr>)"

definition accept_reply ::
  "bool \<Rightarrow> TransactionObservation option \<Rightarrow> TransactionObservation option" where
  "accept_reply finite_temperature = map_option (\<lambda>ob. ob
     \<lparr>to_replies := butlast (to_replies ob) @ [(last (to_replies ob))\<lparr>tr_accepted := True\<rparr>],
      to_result := (if finite_temperature then tr_ok else tr_temperature_fault)\<rparr>)"

text \<open>The wait for the motor's own reply: frames that are not it are skipped until the deadline.\<close>

function await_reply ::
  "BxiActuatorDriver \<Rightarrow> ns \<Rightarrow> TransactionObservation option \<Rightarrow> env
     \<Rightarrow> (MitFeedback \<times> CanFrame) option \<times> TransactionObservation option \<times> env" where
  "await_reply d deadline ob e =
     (let (now, e) = steady_now e
      in if deadline \<le> now then (None, ob, e)
         else case bus_recv ((deadline - now + 999999) div 1000000) e of
                (None, e) \<Rightarrow> (None, ob, e)
              | (Some response, e) \<Rightarrow>
                  (let (dequeued_at, e) = steady_now e; ob = push_reply dequeued_at response ob
                   in if deadline \<le> dequeued_at then (None, ob, e)
                      else case decodeMotorReply response (bd_can_id d) (driver_limits d) of
                             None \<Rightarrow> await_reply d deadline ob e
                           | Some decoded \<Rightarrow> (Some (decoded, response), ob, e)))"
  by pat_completeness auto

lemma recv_shrinks: "(Some f, e') = bus_recv t e \<Longrightarrow> length (rx e') < length (rx e)"
proof -
  assume r: "(Some f, e') = bus_recv t e"
  then have "rx e' = tl (rx e)" using env_rx(4) [of t e] by (metis snd_conv)
  moreover have "rx e \<noteq> []" using bus_recv_received [of t e f] r by (metis fst_conv list.distinct(1))
  ultimately show ?thesis by simp
qed

termination await_reply
  by (relation "measure (\<lambda>(d, dl, ob, e). length (rx e))")
    (auto dest!: recv_shrinks simp: steady_now_def split: list.splits)

definition begin_observation ::
  "TransactionObservation option \<Rightarrow> env \<Rightarrow> TransactionObservation option \<times> env" where
  "begin_observation ob e = (case ob of None \<Rightarrow> (None, e)
     | Some o0 \<Rightarrow> (let (steady, e) = steady_now e; (wall, e) = wall_now e
                  in (Some (o0\<lparr>to_tx_call_steady_ns := steady, to_tx_call_realtime_ns := wall,
                        to_result := tr_send_failed\<rparr>), e)))"

definition reply_arrived ::
  "MitFeedback \<Rightarrow> CanFrame \<Rightarrow> TransactionObservation option \<Rightarrow> BxiActuatorDriver
     \<Rightarrow> ActuatorFeedback \<times> TransactionObservation option \<times> BxiActuatorDriver" where
  "reply_arrived decoded response ob d =
     (let (result, d) = applyFeedback (d\<lparr>bd_consecutive_timeouts := 0\<rparr>) decoded
      in (result\<lparr>af_rx_kernel_realtime_ns := cf_rx_kernel_realtime_ns response,
                 af_rx_userspace_realtime_ns := cf_rx_userspace_realtime_ns response\<rparr>,
          accept_reply (isfinite (af_temperature result)) ob, d))"

definition reply_missing ::
  "TransactionObservation option \<Rightarrow> BxiActuatorDriver \<Rightarrow> env
     \<Rightarrow> ActuatorFeedback \<times> TransactionObservation option \<times> BxiActuatorDriver \<times> env" where
  "reply_missing ob d e =
     (let d = d\<lparr>bd_consecutive_timeouts := bd_consecutive_timeouts d + 1\<rparr>;
          ob = map_option (\<lambda>o0. o0\<lparr>to_result := tr_timeout\<rparr>) ob;
          result = default_ActuatorFeedback\<lparr>af_consecutive_timeouts := bd_consecutive_timeouts d\<rparr>
      in if bd_maximum_consecutive_timeouts d \<le> bd_consecutive_timeouts d
         then (let (d, e) = latchSafeStop d e;
                   ob = map_option (\<lambda>o0. o0\<lparr>to_result := tr_safe_stop\<rparr>) ob
               in (result, ob, d, e))
         else (result, ob, d, e))"

definition transact ::
  "CanFrame \<Rightarrow> TransactionObservation option \<Rightarrow> BxiActuatorDriver \<Rightarrow> env
     \<Rightarrow> ActuatorFeedback \<times> TransactionObservation option \<times> BxiActuatorDriver \<times> env" where
  "transact request observation d e =
     (let ob = map_option (\<lambda>_. default_TransactionObservation) observation
      in if bd_state d = kSafeStopped then (default_ActuatorFeedback, ob, d, e)
      else let (ob, e) = begin_observation ob e; (sent, e) = bus_send request e
      in if \<not> sent then (let (d, e) = latchSafeStop d e in (default_ActuatorFeedback, ob, d, e))
      else let
        (started, e) = steady_now e;
        deadline = started + bd_response_timeout_ms d * 1000000
      in case await_reply d deadline ob e of
        (Some (decoded, response), ob, e) \<Rightarrow>
          (let (result, ob, d) = reply_arrived decoded response ob d in (result, ob, d, e))
      | (None, ob, e) \<Rightarrow> reply_missing ob d e)"

section \<open>The driver's operations\<close>

definition sendSpecial ::
  "SpecialCommand \<Rightarrow> bool \<Rightarrow> TransactionObservation option \<Rightarrow> BxiActuatorDriver \<Rightarrow> env
     \<Rightarrow> ActuatorFeedback \<times> TransactionObservation option \<times> BxiActuatorDriver \<times> env" where
  "sendSpecial command enables_motor observation d e =
     (if bd_state d = kSafeStopped \<and> enables_motor
      then (default_ActuatorFeedback, map_option (\<lambda>_. default_TransactionObservation) observation, d, e)
      else let frame = motor_frame (bd_can_id d) (encodeSpecialCommand command);
               (feedback, ob, d, e) = transact frame observation d e;
               d = if af_valid feedback
                   then d\<lparr>bd_state := (if enables_motor then kEnabled else kDisabled)\<rparr> else d
           in (feedback, ob, d, e))"

definition enable :: "BxiActuatorDriver \<Rightarrow> env \<Rightarrow> ActuatorFeedback \<times> BxiActuatorDriver \<times> env" where
  "enable d e = (let (f, _, d, e) = sendSpecial kEnable True None d e in (f, d, e))"

definition enableObserved ::
  "BxiActuatorDriver \<Rightarrow> env \<Rightarrow> ActuatorFeedback \<times> TransactionObservation \<times> BxiActuatorDriver \<times> env" where
  "enableObserved d e =
     (let (f, ob, d, e) = sendSpecial kEnable True (Some default_TransactionObservation) d e
      in (f, the ob, d, e))"

definition motor_command ::
  "BxiActuatorDriver \<Rightarrow> double \<Rightarrow> double \<Rightarrow> double \<Rightarrow> double \<Rightarrow> double \<Rightarrow> MitCommand" where
  "motor_command d p_ref v_ref kp kd tau_ff =
     (let s = bd_spec d; dir = dint (bd_motor_dir d);
          motor_position = (clamp p_ref (bd_lower d) (bd_upper d) * dir) + bd_offset_angle d
      in \<lparr>mc_position = clamp motor_position (sp_p_min s) (sp_p_max s),
          mc_velocity = clamp (v_ref * dir) (sp_v_min s) (sp_v_max s),
          mc_kp = clamp kp (dlit 0) (sp_kp_max s),
          mc_kd = clamp kd (dlit 0) (sp_kd_max s),
          mc_torque = clamp (tau_ff * dir) (sp_t_min s) (sp_t_max s)\<rparr>)"

definition encodeControlBlock ::
  "BxiActuatorDriver \<Rightarrow> double \<Rightarrow> double \<Rightarrow> double \<Rightarrow> double \<Rightarrow> double \<Rightarrow> u8 list option" where
  "encodeControlBlock d p_ref v_ref kp kd tau_ff =
     (if bd_state d \<noteq> kEnabled \<or> \<not> isfinite p_ref \<or> \<not> isfinite v_ref \<or> \<not> isfinite kp \<or>
         \<not> isfinite kd \<or> \<not> isfinite tau_ff then None
      else case encodeCommand (motor_command d p_ref v_ref kp kd tau_ff) (driver_limits d) of
             Inl _ \<Rightarrow> None | Inr block \<Rightarrow> Some block)"

definition initialControlObserved ::
  "BxiActuatorDriver \<Rightarrow> env \<Rightarrow> ActuatorFeedback \<times> TransactionObservation \<times> BxiActuatorDriver \<times> env" where
  "initialControlObserved d e =
     (case encodeControlBlock d 0 0 0 0 0 of
        None \<Rightarrow> (default_ActuatorFeedback, default_TransactionObservation, d, e)
      | Some encoded \<Rightarrow>
          (let (f, ob, d, e) = transact (motor_frame (bd_can_id d) encoded)
                 (Some default_TransactionObservation) d e
           in (f, the ob, d, e)))"

definition disable :: "BxiActuatorDriver \<Rightarrow> env \<Rightarrow> ActuatorFeedback \<times> BxiActuatorDriver \<times> env" where
  "disable d e =
     (if bd_state d = kSafeStopped then (default_ActuatorFeedback, d, trySendDisable d e)
      else let (f, _, d, e) = sendSpecial kDisable False None d e in (f, d, e))"

definition setRunMode :: "BxiActuatorDriver \<Rightarrow> bool" where
  "setRunMode d \<longleftrightarrow> bd_state d = kEnabled"

definition setZero :: "BxiActuatorDriver \<Rightarrow> env \<Rightarrow> ActuatorFeedback \<times> BxiActuatorDriver \<times> env" where
  "setZero d e = (let (f, _, d, e) = sendSpecial kSaveZero False None d e in (f, d, e))"

definition setAngleOffset :: "double \<Rightarrow> BxiActuatorDriver \<Rightarrow> actuator_error + BxiActuatorDriver" where
  "setAngleOffset offset d =
     (if \<not> isfinite offset then Inl InvalidArgument else Inr (d\<lparr>bd_offset_angle := offset\<rparr>))"

definition setAngleRange ::
  "double \<Rightarrow> double \<Rightarrow> BxiActuatorDriver \<Rightarrow> actuator_error + BxiActuatorDriver" where
  "setAngleRange lower upper d =
     (if \<not> isfinite lower \<or> \<not> isfinite upper \<or> upper \<le> lower then Inl InvalidArgument
      else Inr (d\<lparr>bd_lower := lower, bd_upper := upper\<rparr>))"

definition sendControl ::
  "double \<Rightarrow> double \<Rightarrow> double \<Rightarrow> double \<Rightarrow> double \<Rightarrow> BxiActuatorDriver \<Rightarrow> env
     \<Rightarrow> ActuatorFeedback \<times> BxiActuatorDriver \<times> env" where
  "sendControl p_ref v_ref kp kd tau_ff d e =
     (case encodeControlBlock d p_ref v_ref kp kd tau_ff of
        None \<Rightarrow> (default_ActuatorFeedback, d, e)
      | Some encoded \<Rightarrow>
          (let (f, _, d, e) = transact (motor_frame (bd_can_id d) encoded) None d e in (f, d, e)))"

definition latchCommunicationFault :: "BxiActuatorDriver \<Rightarrow> env \<Rightarrow> BxiActuatorDriver \<times> env" where
  "latchCommunicationFault d e = latchSafeStop d e"


section \<open>The wait for a reply\<close>

declare await_reply.simps [simp del]

lemma set_tl: "x \<in> set (tl xs) \<Longrightarrow> x \<in> set xs"
  by (cases xs) auto

lemma await_reply_spec:
  "await_reply d deadline ob e = (r, ob', e') \<Longrightarrow>
     tx_log e' = tx_log e \<and> sends e' = sends e \<and> set (rx e') \<subseteq> set (rx e) \<and>
     (case r of None \<Rightarrow> True
      | Some (decoded, response) \<Rightarrow>
          decodeMotorReply response (bd_can_id d) (driver_limits d) = Some decoded \<and>
          (\<exists>t. (t, Some response) \<in> set (rx e)) \<and> clk e' < deadline)"
proof (induction d deadline ob e rule: await_reply.induct)
  case (1 d deadline ob e)
  obtain now e1 where n: "steady_now e = (now, e1)" by fastforce
  have e1: "tx_log e1 = tx_log e" "sends e1 = sends e" "rx e1 = rx e"
    using n by (auto simp: steady_now_def split: list.splits)
  show ?case
  proof (cases "deadline \<le> now")
    case True
    with 1(2) n e1 show ?thesis by (subst (asm) await_reply.simps) auto
  next
    case False
    let ?t = "(deadline - now + 999999) div 1000000"
    obtain got e2 where g: "bus_recv ?t e1 = (got, e2)" by fastforce
    have e2: "tx_log e2 = tx_log e1" "sends e2 = sends e1" "rx e2 = tl (rx e1)"
      using g by (auto simp: bus_recv_def split: list.splits)
    show ?thesis
    proof (cases got)
      case None
      with 1(2) n False g e1 e2 show ?thesis by (subst (asm) await_reply.simps) (auto dest: set_tl)
    next
      case (Some response)
      have rx1: "\<exists>t. (t, Some response) \<in> set (rx e)"
      proof -
        obtain t es where "rx e1 = (t, Some response) # es"
          using bus_recv_received [of ?t e1 response] g Some by auto
        then show ?thesis using e1(3) by (metis list.set_intros(1))
      qed
      obtain at' e3 where a: "steady_now e2 = (at', e3)" by fastforce
      have e3: "tx_log e3 = tx_log e2" "sends e3 = sends e2" "rx e3 = rx e2" "clk e3 = at'"
        using a by (auto simp: steady_now_def split: list.splits)
      note unf = 1(2) [unfolded await_reply.simps [of d deadline ob e] n prod.case Let_def]
      show ?thesis
      proof (cases "deadline \<le> at'")
        case True
        with unf False g Some a e1 e2 e3 show ?thesis by (auto dest: set_tl)
      next
        case before: False
        show ?thesis
        proof (cases "decodeMotorReply response (bd_can_id d) (driver_limits d)")
          case None
          from 1(1) [OF n [symmetric] refl False g [symmetric, unfolded Some] refl a [symmetric] refl refl before None]
          show ?thesis using unf False g Some a before None e1 e2 e3
            by (auto split: option.splits dest: set_tl)
        next
          case (Some decoded)
          with unf False g \<open>got = Some response\<close> a before e1 e2 e3 rx1 show ?thesis by (auto dest: set_tl)
        qed
      qed
    qed
  qed
qed

abbreviation disable_frame :: "BxiActuatorDriver \<Rightarrow> CanFrame" where
  "disable_frame d \<equiv> motor_frame (bd_can_id d) (encodeSpecialCommand kDisable)"

lemma applyFeedback_fields [simp]:
  "bd_state (snd (applyFeedback d m)) = bd_state d"
  "bd_can_id (snd (applyFeedback d m)) = bd_can_id d"
  "bd_consecutive_timeouts (snd (applyFeedback d m)) = bd_consecutive_timeouts d"
  "bd_maximum_consecutive_timeouts (snd (applyFeedback d m)) = bd_maximum_consecutive_timeouts d"
  "af_valid (fst (applyFeedback d m))"
  by (simp_all add: applyFeedback_def updateTemperature_def convertFeedback_def Let_def)

lemma latchSafeStop_spec:
  "latchSafeStop d e = (d', e') \<Longrightarrow> bd_state d \<noteq> kSafeStopped \<Longrightarrow>
     d' = d\<lparr>bd_state := kSafeStopped\<rparr> \<and> (\<exists>b. tx_log e' = tx_log e @ [(disable_frame d, b)]) \<and> rx e' = rx e"
  by (auto simp: latchSafeStop_def Let_def trySendDisable_def)

text \<open>The four ways a transaction ends.\<close>

lemma transact_outcome:
  assumes "transact request ob d e = (f, ob', d', e')"
  obtains
    (stopped) "bd_state d = kSafeStopped" "f = default_ActuatorFeedback" "d' = d" "e' = e"
  | (send_failed) b where "bd_state d \<noteq> kSafeStopped" "f = default_ActuatorFeedback"
      "d' = d\<lparr>bd_state := kSafeStopped\<rparr>"
      "tx_log e' = tx_log e @ [(request, False), (disable_frame d, b)]"
  | (replied) decoded response t where "bd_state d \<noteq> kSafeStopped" "af_valid f"
      "d' = snd (applyFeedback (d\<lparr>bd_consecutive_timeouts := 0\<rparr>) decoded)"
      "(t, Some response) \<in> set (rx e)"
      "decodeMotorReply response (bd_can_id d) (driver_limits d) = Some decoded"
      "tx_log e' = tx_log e @ [(request, True)]"
  | (timeout) "bd_state d \<noteq> kSafeStopped" "\<not> af_valid f"
      "af_consecutive_timeouts f = bd_consecutive_timeouts d + 1"
      "bd_consecutive_timeouts d + 1 < bd_maximum_consecutive_timeouts d"
      "d' = d\<lparr>bd_consecutive_timeouts := bd_consecutive_timeouts d + 1\<rparr>"
      "tx_log e' = tx_log e @ [(request, True)]"
  | (timeout_latched) b where "bd_state d \<noteq> kSafeStopped" "\<not> af_valid f"
      "af_consecutive_timeouts f = bd_consecutive_timeouts d + 1"
      "bd_maximum_consecutive_timeouts d \<le> bd_consecutive_timeouts d + 1"
      "d' = d\<lparr>bd_consecutive_timeouts := bd_consecutive_timeouts d + 1, bd_state := kSafeStopped\<rparr>"
      "tx_log e' = tx_log e @ [(request, True), (disable_frame d, b)]"
proof (cases "bd_state d = kSafeStopped")
  case True
  with assms have "f = default_ActuatorFeedback \<and> d' = d \<and> e' = e" by (auto simp: transact_def Let_def)
  with stopped True show ?thesis by blast
next
  case live: False
  define ob1 where "ob1 = map_option (\<lambda>_. default_TransactionObservation) ob"
  obtain ob2 e1 where p: "begin_observation ob1 e = (ob2, e1)" by fastforce
  have e1: "tx_log e1 = tx_log e" "rx e1 = rx e"
    using p by (auto simp: begin_observation_def steady_now_def wall_now_def
        split: option.splits list.splits prod.splits)
  obtain sent e2 where s: "bus_send request e1 = (sent, e2)" by fastforce
  have e2: "tx_log e2 = tx_log e @ [(request, sent)]" "rx e2 = rx e"
    using s e1 by (auto simp: bus_send_def split: list.splits)
  obtain started e3 where st: "steady_now e2 = (started, e3)" by fastforce
  have e3: "tx_log e3 = tx_log e2" "rx e3 = rx e"
    using st e2 by (auto simp: steady_now_def split: list.splits)
  define dl where "dl = started + bd_response_timeout_ms d * 1000000"
  obtain r ob4 e4 where w: "await_reply d dl ob2 e3 = (r, ob4, e4)" by (metis prod_cases3)
  note ws = await_reply_spec [OF w]
  have body: "transact request ob d e =
      (if \<not> sent then (let (d, e) = latchSafeStop d e2 in (default_ActuatorFeedback, ob2, d, e))
       else case r of
          Some (decoded, response) \<Rightarrow>
            (let (result, ob, d) = reply_arrived decoded response ob4 d in (result, ob, d, e4))
        | None \<Rightarrow> reply_missing ob4 d e4)"
    unfolding transact_def ob1_def [symmetric] Let_def p s st prod.case dl_def [symmetric] w
    using live by simp
  show ?thesis
  proof (cases sent)
    case False
    obtain d2 e5 where l: "latchSafeStop d e2 = (d2, e5)" by fastforce
    then have eq: "f = default_ActuatorFeedback" "d' = d2" "e' = e5" using body assms False by auto
    obtain b where "tx_log e5 = tx_log e2 @ [(disable_frame d, b)]" "d2 = d\<lparr>bd_state := kSafeStopped\<rparr>"
      using latchSafeStop_spec [OF l live] by blast
    with eq e2 False show ?thesis by (intro send_failed [OF live, of b]) auto
  next
    case True
    show ?thesis
    proof (cases r)
      case (Some q)
      then obtain decoded response where q: "q = (decoded, response)" by (cases q) auto
      obtain result d2 where a: "applyFeedback (d\<lparr>bd_consecutive_timeouts := 0\<rparr>) decoded = (result, d2)"
        by fastforce
      then have v: "af_valid result" using applyFeedback_fields(5) by (metis fst_conv)
      obtain t where "(t, Some response) \<in> set (rx e)" using ws Some q e3 by auto
      moreover have "af_valid f" "d' = d2" "e' = e4"
        using body assms a v True Some q by (auto simp: reply_arrived_def)
      moreover have "tx_log e4 = tx_log e @ [(request, True)]" "decodeMotorReply response (bd_can_id d) (driver_limits d) = Some decoded"
        using ws e2 e3 Some q True by auto
      ultimately show ?thesis using a by (intro replied [OF live, of decoded t response]) auto
    next
      case None
      let ?d = "d\<lparr>bd_consecutive_timeouts := bd_consecutive_timeouts d + 1\<rparr>"
      have m: "reply_missing ob4 d e4 = (f, ob', d', e')" using body assms True None by simp
      have v: "\<not> af_valid default_ActuatorFeedback" by (simp add: default_ActuatorFeedback_def)
      have t4: "tx_log e4 = tx_log e @ [(request, True)]" using ws e2 e3 True None by simp
      show ?thesis
      proof (cases "bd_maximum_consecutive_timeouts d \<le> bd_consecutive_timeouts d + 1")
        case True
        obtain d2 e5 where l: "latchSafeStop ?d e4 = (d2, e5)" by fastforce
        have eq: "\<not> af_valid f" "af_consecutive_timeouts f = bd_consecutive_timeouts d + 1" "d' = d2" "e' = e5"
          using m l True v by (auto simp: reply_missing_def Let_def)
        obtain b where "tx_log e5 = tx_log e4 @ [(disable_frame d, b)]"
          "d2 = ?d\<lparr>bd_state := kSafeStopped\<rparr>"
          using latchSafeStop_spec [OF l] live by auto
        with eq t4 True show ?thesis by (intro timeout_latched [OF live, of b]) auto
      next
        case False
        then have "\<not> af_valid f" "af_consecutive_timeouts f = bd_consecutive_timeouts d + 1" "d' = ?d" "e' = e4"
          using m v by (auto simp: reply_missing_def Let_def)
        with t4 False show ?thesis by (intro timeout [OF live]) auto
      qed
    qed
  qed
qed



section \<open>Sequences of calls\<close>

text \<open>The calls a client can make, as data, so that the driver's contract speaks of every sequence.\<close>

datatype DriverCall =
  CallEnable | CallEnableObserved | CallInitialControl | CallDisable | CallSetZero
  | CallControl double double double double double
  | CallOffset double | CallRange double double | CallApply MitFeedback | CallLatch

fun driver_call :: "DriverCall \<Rightarrow> BxiActuatorDriver \<times> env \<Rightarrow> BxiActuatorDriver \<times> env" where
  "driver_call CallEnable (d, e) = snd (enable d e)"
| "driver_call CallEnableObserved (d, e) = snd (snd (enableObserved d e))"
| "driver_call CallInitialControl (d, e) = snd (snd (initialControlObserved d e))"
| "driver_call CallDisable (d, e) = snd (disable d e)"
| "driver_call CallSetZero (d, e) = snd (setZero d e)"
| "driver_call (CallControl p v kp kd tau) (d, e) = snd (sendControl p v kp kd tau d e)"
| "driver_call (CallOffset x) (d, e) = (case setAngleOffset x d of Inl _ \<Rightarrow> d | Inr d' \<Rightarrow> d', e)"
| "driver_call (CallRange x y) (d, e) = (case setAngleRange x y d of Inl _ \<Rightarrow> d | Inr d' \<Rightarrow> d', e)"
| "driver_call (CallApply m) (d, e) = (snd (applyFeedback d m), e)"
| "driver_call CallLatch (d, e) = latchCommunicationFault d e"

text \<open>Every call is one of: a transaction, possibly followed by a state change on a valid reply; a
  disable frame of a stopped driver; the latch; or a change of local data.\<close>

fun call_frame :: "BxiActuatorDriver \<Rightarrow> DriverCall \<Rightarrow> CanFrame option" where
  "call_frame d CallEnable = Some (motor_frame (bd_can_id d) (encodeSpecialCommand kEnable))"
| "call_frame d CallEnableObserved = Some (motor_frame (bd_can_id d) (encodeSpecialCommand kEnable))"
| "call_frame d CallInitialControl = map_option (motor_frame (bd_can_id d)) (encodeControlBlock d 0 0 0 0 0)"
| "call_frame d CallDisable = Some (disable_frame d)"
| "call_frame d CallSetZero = Some (motor_frame (bd_can_id d) (encodeSpecialCommand kSaveZero))"
| "call_frame d (CallControl p v kp kd tau) = map_option (motor_frame (bd_can_id d)) (encodeControlBlock d p v kp kd tau)"
| "call_frame d _ = None"

fun state_after_reply :: "DriverCall \<Rightarrow> ActuatorState \<Rightarrow> ActuatorState" where
  "state_after_reply CallEnable s = kEnabled"
| "state_after_reply CallEnableObserved s = kEnabled"
| "state_after_reply CallDisable s = kDisabled"
| "state_after_reply CallSetZero s = kDisabled"
| "state_after_reply _ s = s"

lemma driver_call_transact:
  assumes "bd_state d \<noteq> kSafeStopped" and "call_frame d c = Some fr"
  obtains ob f ob' d1 e1 where "transact fr ob d e = (f, ob', d1, e1)"
    and "driver_call c (d, e) =
      (if af_valid f then d1\<lparr>bd_state := state_after_reply c (bd_state d1)\<rparr> else d1, e1)"
proof -
  define ob where "ob = (case c of CallEnableObserved \<Rightarrow> Some default_TransactionObservation
    | CallInitialControl \<Rightarrow> Some default_TransactionObservation | _ \<Rightarrow> None)"
  obtain f ob' d1 e1 where t: "transact fr ob d e = (f, ob', d1, e1)" by (metis prod_cases4)
  have "driver_call c (d, e) =
      (if af_valid f then d1\<lparr>bd_state := state_after_reply c (bd_state d1)\<rparr> else d1, e1)"
    using assms t
    by (cases c) (auto simp: ob_def enable_def enableObserved_def disable_def setZero_def sendSpecial_def
        initialControlObserved_def sendControl_def Let_def)
  with t that show ?thesis by blast
qed

lemma driver_call_local:
  assumes "call_frame d c = None" and "c \<noteq> CallLatch" and "driver_call c (d, e) = (d', e')"
  shows "e' = e" and "bd_state d' = bd_state d" and "bd_can_id d' = bd_can_id d"
    and "bd_consecutive_timeouts d' = bd_consecutive_timeouts d"
    and "bd_maximum_consecutive_timeouts d' = bd_maximum_consecutive_timeouts d"
  using assms
  by (cases c; auto simp: initialControlObserved_def sendControl_def setAngleOffset_def
      setAngleRange_def split: if_splits)+

lemma transact_stopped:
  "bd_state d = kSafeStopped \<Longrightarrow> transact r ob d e =
     (default_ActuatorFeedback, map_option (\<lambda>_. default_TransactionObservation) ob, d, e)"
  by (simp add: transact_def Let_def)

lemma encodeControlBlock_stopped:
  "bd_state d = kSafeStopped \<Longrightarrow> encodeControlBlock d p v kp kd tau = None"
  by (simp add: encodeControlBlock_def)

lemma feedback_default_invalid [simp]: "\<not> af_valid default_ActuatorFeedback"
  by (simp add: default_ActuatorFeedback_def)

lemma driver_call_stopped:
  assumes "bd_state d = kSafeStopped" and "driver_call c (d, e) = (d', e')"
  shows "bd_state d' = kSafeStopped" and "bd_can_id d' = bd_can_id d"
    and "tx_log e' = tx_log e \<or> (\<exists>b. tx_log e' = tx_log e @ [(disable_frame d, b)])"
  using assms
  by (cases c; simp add: enable_def enableObserved_def disable_def setZero_def sendSpecial_def
      initialControlObserved_def sendControl_def transact_stopped encodeControlBlock_stopped
      trySendDisable_def latchCommunicationFault_def latchSafeStop_def setAngleOffset_def
      setAngleRange_def split: if_splits; fastforce)+

interpretation driver: quiet_latch driver_call
  "\<lambda>(d, e). bd_state d = kSafeStopped \<and> bd_can_id d = i" "\<lambda>(d, e). tx_log e"
  "\<lambda>(f, b). f = motor_frame i (encodeSpecialCommand kDisable)" for i
proof (unfold_locales, goal_cases)
  case (1 s c)
  then show ?case using driver_call_stopped(1,2) by (cases s; cases "driver_call c s") auto
next
  case (2 s c)
  obtain d e d' e' where p: "s = (d, e)" "driver_call c s = (d', e')" by (cases s; cases "driver_call c s")
  with 2 driver_call_stopped(3) [of d c e d' e'] show ?case
    by (auto intro: exI [of _ "[]"])
qed



section \<open>Properties\<close>

text \<open>A driver to try the properties on: motor 2, direction -1, three timeouts allowed.\<close>

definition sample_driver :: BxiActuatorDriver where
  "sample_driver = \<lparr>bd_can_id = 2, bd_motor_dir = -1, bd_offset_angle = Fin 0, bd_lower = Fin (-3),
     bd_upper = Fin 3, bd_default_kp = Fin 20, bd_default_kd = Fin 1, bd_spec = default_BxiSpec,
     bd_response_timeout_ms = 3, bd_maximum_consecutive_timeouts = 3,
     bd_temperature_sensor_fault_below_c = Fin (-20), bd_consecutive_timeouts = 0,
     bd_mos_sensor_fault = False, bd_motor_sensor_fault = False, bd_state = kDisabled\<rparr>"

definition silent_env :: env where
  "silent_env = \<lparr>clk = 0, ticks = [], walls = [], sends = [True, True, True, True, True, True], rx = [], tx_log = []\<rparr>"

text \<open>Property C2: once a driver is in safe-stop, no sequence of calls leaves it, and the only
  frames it sends from then on are disable frames for its own motor.\<close>

theorem safe_stop_is_final:
  assumes "bd_state d = kSafeStopped" and "fold driver_call cs (d, e) = (d', e')"
  shows "bd_state d' = kSafeStopped \<and>
    (\<exists>os. tx_log e' = tx_log e @ os \<and> (\<forall>(f, b) \<in> set os. f = motor_frame (bd_can_id d) (encodeSpecialCommand kDisable)))"
  using driver.latched_run [of "bd_can_id d" "(d, e)" cs] driver.output_run [of "bd_can_id d" "(d, e)" cs] assms
  by (simp add: list_all_iff)

theorem safe_stop_is_final_witness:
  "fold driver_call [CallEnable, CallDisable] (sample_driver\<lparr>bd_state := kSafeStopped\<rparr>, silent_env) =
     (sample_driver\<lparr>bd_state := kSafeStopped\<rparr>,
      silent_env\<lparr>sends := replicate 5 True, tx_log := [(motor_frame 2 (encodeSpecialCommand kDisable), True)]\<rparr>) \<and>
   bd_state (sample_driver\<lparr>bd_state := kSafeStopped\<rparr>) = kSafeStopped"
proof -
  have r: "fold driver_call [CallEnable, CallDisable] (sample_driver\<lparr>bd_state := kSafeStopped\<rparr>, silent_env) =
     (sample_driver\<lparr>bd_state := kSafeStopped\<rparr>,
      silent_env\<lparr>sends := replicate 5 True, tx_log := [(motor_frame 2 (encodeSpecialCommand kDisable), True)]\<rparr>)"
    by (simp add: enable_def sendSpecial_def disable_def trySendDisable_def bus_send_def silent_env_def
        sample_driver_def numeral_eq_Suc)
  show ?thesis using r safe_stop_is_final [OF _ r] by simp
qed

text \<open>What one call on a driver that is not stopped can do.\<close>

lemma driver_call_effect:
  assumes "driver_call c (d, e) = (d', e')" and "bd_state d \<noteq> kSafeStopped"
  obtains
    (replied) fr decoded response t where "call_frame d c = Some fr"
      "bd_state d' = state_after_reply c (bd_state d)" "bd_consecutive_timeouts d' = 0"
      "tx_log e' = tx_log e @ [(fr, True)]" "(t, Some response) \<in> set (rx e)"
      "decodeMotorReply response (bd_can_id d) (driver_limits d) = Some decoded"
  | (counted) fr where "call_frame d c = Some fr" "bd_state d' = bd_state d"
      "bd_consecutive_timeouts d' = bd_consecutive_timeouts d + 1"
      "bd_consecutive_timeouts d + 1 < bd_maximum_consecutive_timeouts d"
      "tx_log e' = tx_log e @ [(fr, True)]"
  | (latched) os b where "bd_state d' = kSafeStopped"
      "tx_log e' = tx_log e @ os @ [(disable_frame d, b)]"
      "os = [] \<and> c = CallLatch \<or> (\<exists>fr. call_frame d c = Some fr \<and> (os = [(fr, False)] \<or>
         os = [(fr, True)] \<and> bd_maximum_consecutive_timeouts d \<le> bd_consecutive_timeouts d + 1))"
  | (unsent) "call_frame d c = None" "bd_state d' = bd_state d" "tx_log e' = tx_log e"
      "bd_consecutive_timeouts d' = bd_consecutive_timeouts d"
proof (cases "call_frame d c")
  case None
  show ?thesis
  proof (cases "c = CallLatch")
    case True
    then have l: "latchSafeStop d e = (d', e')" using assms(1) by (simp add: latchCommunicationFault_def)
    obtain b where "tx_log e' = tx_log e @ [(disable_frame d, b)]"
      using latchSafeStop_spec [OF l assms(2)] by blast
    moreover have "bd_state d' = kSafeStopped" using latchSafeStop_spec [OF l assms(2)] by simp
    ultimately show ?thesis using latched [of "[]" b] True by simp
  next
    case False
    from driver_call_local [OF None False assms(1)] show ?thesis by (intro unsent [OF None]) auto
  qed
next
  case (Some fr)
  obtain ob f ob' d1 e1 where t: "transact fr ob d e = (f, ob', d1, e1)"
    and c: "driver_call c (d, e) =
      (if af_valid f then d1\<lparr>bd_state := state_after_reply c (bd_state d1)\<rparr> else d1, e1)"
    using driver_call_transact [OF assms(2) Some] .
  have e': "e' = e1" and d': "d' = (if af_valid f then d1\<lparr>bd_state := state_after_reply c (bd_state d1)\<rparr> else d1)"
    using c assms(1) by auto
  from t show ?thesis
  proof (cases rule: transact_outcome)
    case stopped
    with assms(2) show ?thesis by simp
  next
    case (send_failed b)
    then show ?thesis using d' e' Some by (intro latched [of "[(fr, False)]" b]) auto
  next
    case (replied decoded response t)
    then show ?thesis using d' e' by (intro that(1) [OF Some]) auto
  next
    case timeout
    then show ?thesis using d' e' by (intro counted [OF Some]) auto
  next
    case (timeout_latched b)
    then show ?thesis using d' e' Some by (intro latched [of "[(fr, True)]" b]) auto
  qed
qed

lemma latch_keeps:
  "latchSafeStop d e = (d', e') \<Longrightarrow> bd_can_id d' = bd_can_id d \<and>
     bd_maximum_consecutive_timeouts d' = bd_maximum_consecutive_timeouts d"
  by (auto simp: latchSafeStop_def Let_def split: if_splits)

lemma driver_call_keeps:
  assumes "driver_call c (d, e) = (d', e')"
  shows "bd_can_id d' = bd_can_id d \<and> bd_maximum_consecutive_timeouts d' = bd_maximum_consecutive_timeouts d"
proof (cases "bd_state d = kSafeStopped")
  case True
  with assms show ?thesis
    by (cases c; simp add: enable_def enableObserved_def disable_def setZero_def sendSpecial_def
      initialControlObserved_def sendControl_def transact_stopped encodeControlBlock_stopped
      trySendDisable_def latchCommunicationFault_def latchSafeStop_def setAngleOffset_def
      setAngleRange_def split: if_splits; fastforce)
next
  case False
  show ?thesis
  proof (cases "call_frame d c")
    case None
    then show ?thesis using driver_call_local [OF None _ assms] assms latch_keeps
      by (cases "c = CallLatch") (auto simp: latchCommunicationFault_def)
  next
    case (Some fr)
    obtain ob f ob' d1 e1 where t: "transact fr ob d e = (f, ob', d1, e1)"
      and c: "driver_call c (d, e) =
        (if af_valid f then d1\<lparr>bd_state := state_after_reply c (bd_state d1)\<rparr> else d1, e1)"
      using driver_call_transact [OF False Some] .
    from t have "bd_can_id d1 = bd_can_id d \<and> bd_maximum_consecutive_timeouts d1 = bd_maximum_consecutive_timeouts d"
      by (cases rule: transact_outcome) auto
    with c assms show ?thesis by (auto split: if_splits)
  qed
qed

text \<open>The driver's invariant: a driver that is not stopped has timeouts left.\<close>

definition timeouts_left :: "BxiActuatorDriver \<Rightarrow> bool" where
  "timeouts_left d \<longleftrightarrow> bd_maximum_consecutive_timeouts d \<noteq> 0 \<and>
     (bd_state d \<noteq> kSafeStopped \<longrightarrow> bd_consecutive_timeouts d < bd_maximum_consecutive_timeouts d)"

lemma timeouts_left_call:
  assumes "timeouts_left d" and "driver_call c (d, e) = (d', e')"
  shows "timeouts_left d'"
proof (cases "bd_state d = kSafeStopped")
  case True
  with driver_call_stopped(1) [OF True assms(2)] driver_call_keeps [OF assms(2)] assms(1) show ?thesis
    by (simp add: timeouts_left_def)
next
  case False
  note k = driver_call_keeps [OF assms(2)]
  from assms(2) False show ?thesis
  proof (cases rule: driver_call_effect)
    case (replied fr decoded response t)
    then show ?thesis using k assms(1) by (simp add: timeouts_left_def word_neq_0_conv)
  qed (use k assms(1) in \<open>auto simp: timeouts_left_def\<close>)
qed

lemma timeouts_left_run:
  "timeouts_left d \<Longrightarrow> fold driver_call cs (d, e) = (d', e') \<Longrightarrow> timeouts_left d'"
proof (induction cs arbitrary: d e)
  case (Cons c cs)
  obtain d1 e1 where 1: "driver_call c (d, e) = (d1, e1)" by fastforce
  then have "fold driver_call cs (d1, e1) = (d', e')" using Cons.prems(2) by simp
  then show ?case by (rule Cons.IH [OF timeouts_left_call [OF Cons.prems(1) 1]])
qed simp

lemma driver_run_can_id: "fold driver_call cs (d, e) = (d', e') \<Longrightarrow> bd_can_id d' = bd_can_id d"
proof (induction cs arbitrary: d e)
  case (Cons c cs)
  obtain d1 e1 where 1: "driver_call c (d, e) = (d1, e1)" by fastforce
  then have "fold driver_call cs (d1, e1) = (d', e')" using Cons.prems by simp
  then show ?case using Cons.IH driver_call_keeps [OF 1] by metis
qed simp

text \<open>Also: a driver that the constructor accepted is, after every sequence of
  calls, either in safe-stop or has fewer consecutive timeouts than its limit; the counter never
  reaches the limit, nor wraps, in an operating driver.\<close>

theorem timeout_limit_invariant:
  assumes "new_driver bus i dir off lo up kp kd spec tmo mx below = Inr d"
    and "fold driver_call cs (d, e) = (d', e')"
  shows "bd_state d' = kSafeStopped \<or>
    bd_consecutive_timeouts d' < bd_maximum_consecutive_timeouts d' \<and> bd_can_id d' = i \<and> 0 < i \<and> i \<le> 15"
proof -
  have d: "timeouts_left d" "bd_can_id d = i" "0 < i" "i \<le> 15"
    using assms(1) by (auto simp: new_driver_def timeouts_left_def kMaxSupportedMotorCanId_def word_neq_0_conv
        split: if_splits)
  with timeouts_left_run [OF d(1) assms(2)] driver_run_can_id [OF assms(2)] show ?thesis
    by (auto simp: timeouts_left_def)
qed


lemma default_BxiSpec_values:
  "default_BxiSpec = \<lparr>sp_p_min = Fin (-25/2), sp_p_max = Fin (25/2), sp_v_min = Fin (-45), sp_v_max = Fin 45,
     sp_kp_max = Fin 500, sp_kd_max = Fin 5, sp_t_min = Fin (-50), sp_t_max = Fin 50\<rparr>"
  using rnd_half_power [of 25 1] rnd_half_power [of "-25" 1] by (simp add: default_BxiSpec_def)

lemma sample_driver_new:
  "new_driver True 2 (-1) (Fin 0) (Fin (-3)) (Fin 3) (Fin 20) (Fin 1) default_BxiSpec 3 3 (Fin (-20)) = Inr sample_driver"
  by (simp add: new_driver_def kMaxSupportedMotorCanId_def sample_driver_def validateLimits_def spec_limits_def
      default_BxiSpec_values default_limits_values)

theorem timeout_limit_invariant_witness:
  "bd_state (fst (driver_call (CallOffset (Fin 1)) (sample_driver, silent_env))) = kDisabled \<and>
   bd_consecutive_timeouts (fst (driver_call (CallOffset (Fin 1)) (sample_driver, silent_env))) < 3"
  using timeout_limit_invariant [OF sample_driver_new, of "[CallOffset (Fin 1)]" silent_env]
  by (simp add: setAngleOffset_def sample_driver_def)

text \<open>Property C23: whichever call puts a driver into safe-stop, the last frame it tries to
  send in that call is a disable frame for its motor, and the reason is a failed send, a latch
  requested by the caller, or a count of timeouts that reached the limit.\<close>

theorem latch_attempts_disable:
  assumes "driver_call c (d, e) = (d', e')" and "bd_state d \<noteq> kSafeStopped" and "bd_state d' = kSafeStopped"
  shows "\<exists>os b. tx_log e' = tx_log e @ os @ [(motor_frame (bd_can_id d) (encodeSpecialCommand kDisable), b)] \<and>
    (c = CallLatch \<and> os = [] \<or>
     (\<exists>fr. call_frame d c = Some fr \<and> (os = [(fr, False)] \<or>
        os = [(fr, True)] \<and> bd_maximum_consecutive_timeouts d \<le> bd_consecutive_timeouts d + 1)))"
  using assms(1,2)
proof (cases rule: driver_call_effect)
  case (replied fr decoded response t)
  with assms(2,3) show ?thesis by (cases c) auto
next
  case (latched os b)
  then show ?thesis by blast
qed (use assms in auto)

theorem latch_attempts_disable_witness:
  "\<exists>os b. tx_log (snd (driver_call CallLatch (sample_driver, silent_env))) =
     tx_log silent_env @ os @ [(motor_frame 2 (encodeSpecialCommand kDisable), b)]"
proof -
  obtain d' e' where c: "driver_call CallLatch (sample_driver, silent_env) = (d', e')" by fastforce
  have "bd_state sample_driver \<noteq> kSafeStopped" "bd_can_id sample_driver = 2" by (simp_all add: sample_driver_def)
  moreover from this c have "bd_state d' = kSafeStopped"
    by (auto simp: latchCommunicationFault_def latchSafeStop_def Let_def)
  ultimately show ?thesis using latch_attempts_disable [OF c] c by auto
qed

lemma decodeMotorReply_Some:
  "decodeMotorReply r i l = Some m \<Longrightarrow>
     \<not> cf_extended r \<and> cf_dlc r = 8 \<and> cf_id r = defaultMasterId (word_of_int i) \<and> data8 r ! 0 = word_of_int i"
  by (auto simp: decodeMotorReply_def decodeFeedback_def split: if_splits sum.splits)

text \<open>Property C24: a driver becomes enabled only by an enable call whose frame went out
  and was answered by a standard eight-byte frame with the motor's reply identifier that names the
  same motor.\<close>

theorem enabling_needs_own_reply:
  assumes "driver_call c (d, e) = (d', e')" and "bd_state d \<noteq> kEnabled" and "bd_state d' = kEnabled"
  shows "(c = CallEnable \<or> c = CallEnableObserved) \<and> bd_state d = kDisabled \<and>
    tx_log e' = tx_log e @ [(motor_frame (bd_can_id d) (encodeSpecialCommand kEnable), True)] \<and>
    (\<exists>t r. (t, Some r) \<in> set (rx e) \<and> \<not> cf_extended r \<and> cf_dlc r = 8 \<and>
       cf_id r = defaultMasterId (word_of_int (bd_can_id d)) \<and> data8 r ! 0 = word_of_int (bd_can_id d))"
proof -
  have live: "bd_state d \<noteq> kSafeStopped" using driver_call_stopped(1) [OF _ assms(1)] assms(3) by auto
  then have dis: "bd_state d = kDisabled" using assms(2) by (cases "bd_state d") auto
  from assms(1) live show ?thesis
  proof (cases rule: driver_call_effect)
    case (replied fr decoded response t)
    then have "c = CallEnable \<or> c = CallEnableObserved" using assms(3) dis by (cases c) auto
    moreover from this replied(1) have "fr = motor_frame (bd_can_id d) (encodeSpecialCommand kEnable)" by auto
    ultimately show ?thesis using replied dis decodeMotorReply_Some [OF replied(6)] by blast
  qed (use assms dis in auto)
qed

lemma answered_enable:
  assumes "bd_state d = kDisabled" and "sends e = True # ss" and "ticks e = []"
    and "rx e = (t, Some r) # es" and "int t < bd_response_timeout_ms d * 1000000"
    and "decodeMotorReply r (bd_can_id d) (driver_limits d) = Some m"
  shows "bd_state (fst (driver_call CallEnable (d, e))) = kEnabled"
proof -
  have lt: "\<not> clk e + bd_response_timeout_ms d * 1000000 \<le> clk e"
    "\<not> clk e + bd_response_timeout_ms d * 1000000 \<le> clk e + int t" using assms(5) by linarith+
  obtain a b where ab: "applyFeedback (d\<lparr>bd_consecutive_timeouts := 0\<rparr>) m = (a, b)" by fastforce
  then have "af_valid a" using applyFeedback_fields(5) by (metis fst_conv)
  with assms lt ab show ?thesis
    by (simp add: enable_def sendSpecial_def transact_def begin_observation_def bus_send_def steady_now_def
        bus_recv_def await_reply.simps reply_arrived_def push_reply_def accept_reply_def)
qed

definition sample_reply :: CanFrame where
  "sample_reply = setData (feedback_payload 2 None) (default_CanFrame\<lparr>cf_id := 0x12, cf_extended := False\<rparr>)"

lemma sample_reply_decodes: "\<exists>m. decodeMotorReply sample_reply 2 (driver_limits sample_driver) = Some m"
  by (simp add: decodeMotorReply_def sample_reply_def default_CanFrame_def feedback_payload_def defaultMasterId_def
      data8_setData decodeFeedback_def driver_limits_def sample_driver_def spec_limits_def
      validateLimits_def default_BxiSpec_values default_limits_values)

theorem enabling_needs_own_reply_witness:
  "\<exists>t r. (t, Some r) \<in> set [(5, Some sample_reply)] \<and> cf_id r = defaultMasterId 2 \<and> data8 r ! 0 = 2 \<and>
     bd_state (fst (driver_call CallEnable (sample_driver, silent_env\<lparr>rx := [(5, Some sample_reply)]\<rparr>))) = kEnabled"
proof -
  let ?e = "silent_env\<lparr>rx := [(5, Some sample_reply)]\<rparr>"
  obtain d' e' where c: "driver_call CallEnable (sample_driver, ?e) = (d', e')" by fastforce
  obtain m where "decodeMotorReply sample_reply 2 (driver_limits sample_driver) = Some m"
    using sample_reply_decodes by blast
  then have "bd_state (fst (driver_call CallEnable (sample_driver, ?e))) = kEnabled"
    using answered_enable [of sample_driver ?e "replicate 5 True" 5 sample_reply "[]" m]
    by (simp add: sample_driver_def silent_env_def numeral_eq_Suc)
  with enabling_needs_own_reply [OF c] c show ?thesis by (simp add: sample_driver_def)
qed

section \<open>Saturation\<close>

lemma clamp_any:
  assumes "\<not> isnan v" and "isfinite lo" and "isfinite hi" and "lo \<le> hi"
  shows "isFiniteAndInRange (clamp v lo hi) lo hi"
  using assms by (cases v; cases lo; cases hi) (auto simp: clamp_def isFiniteAndInRange_def)

lemma direction_double: "dir = 1 \<or> dir = -1 \<Longrightarrow> dint dir = Fin (of_int dir)"
  by (auto intro!: dint_Fin)

lemma times_direction_not_nan:
  "(dir = 1 \<or> dir = -1) \<Longrightarrow> \<not> isnan v \<Longrightarrow> \<not> isnan (v * dint dir)"
  by (cases v) (auto simp: direction_double inf_of_sign_def rnd_def Let_def)

lemma clamp_not_nan: "isfinite v \<Longrightarrow> \<not> isnan (clamp v lo hi)"
  by (cases v; cases lo; cases hi) (auto simp: clamp_def)

lemma plus_finite_not_nan: "\<not> isnan a \<Longrightarrow> isfinite b \<Longrightarrow> \<not> isnan (a + b)"
  by (cases a; cases b) (auto simp: rnd_def Let_def)

lemma limits_ordered: "isfinite lo \<Longrightarrow> isfinite hi \<Longrightarrow> \<not> hi \<le> lo \<Longrightarrow> lo \<le> (hi :: double)"
  by (cases lo; cases hi) auto

lemma command_saturated:
  assumes "validateLimits (driver_limits d)" and "bd_motor_dir d = 1 \<or> bd_motor_dir d = -1"
    and "isfinite (bd_offset_angle d)"
    and "isfinite p" and "isfinite v" and "isfinite kp" and "isfinite kd" and "isfinite tau"
  shows "command_in_range (motor_command d p v kp kd tau) (driver_limits d)"
proof -
  note l = validateLimitsD [OF assms(1), unfolded driver_limits_def spec_limits_def default_limits_values, simplified]
  have n: "isfinite x \<Longrightarrow> \<not> isnan x" for x by (cases x) auto
  have t: "isfinite x \<Longrightarrow> \<not> isnan (x * dint (bd_motor_dir d))" for x
    using times_direction_not_nan [OF assms(2)] n by blast
  have "\<not> isnan (clamp p (bd_lower d) (bd_upper d) * dint (bd_motor_dir d) + bd_offset_angle d)"
    using plus_finite_not_nan [OF times_direction_not_nan [OF assms(2) clamp_not_nan [OF assms(4)]] assms(3)] .
  note p = clamp_any [OF this l(1,2) limits_ordered [OF l(1-3)]]
    and v = clamp_any [OF t [OF assms(5)] l(4,5) limits_ordered [OF l(4-6)]]
    and tau = clamp_any [OF t [OF assms(8)] l(13,14) limits_ordered [OF l(13-15)]]
  have kp: "isFiniteAndInRange (clamp kp (Fin 0) (sp_kp_max (bd_spec d))) (Fin 0) (sp_kp_max (bd_spec d))"
    using clamp_any [OF n [OF assms(6)] _ l(8)] limits_ordered [OF _ l(8,9)] by simp
  have kd: "isFiniteAndInRange (clamp kd (Fin 0) (sp_kd_max (bd_spec d))) (Fin 0) (sp_kd_max (bd_spec d))"
    using clamp_any [OF n [OF assms(7)] _ l(11)] limits_ordered [OF _ l(11,12)] by simp
  show ?thesis
    using p v kp kd tau
    unfolding command_in_range_def motor_command_def Let_def driver_limits_def spec_limits_def
        default_limits_values by simp
qed

lemma encodeCommand_accepts:
  "validateLimits l \<Longrightarrow> command_in_range c l \<Longrightarrow> \<exists>b. encodeCommand c l = Inr b"
proof -
  assume v: "validateLimits l" and r: "command_in_range c l"
  note q = valid_range_quantises [OF validateLimitsD(1-3) [OF v] in_rangeD(1) [OF r]]
    valid_range_quantises [OF validateLimitsD(4-6) [OF v] in_rangeD(2) [OF r]]
    valid_range_quantises [OF validateLimitsD(7-9) [OF v] in_rangeD(3) [OF r]]
    valid_range_quantises [OF validateLimitsD(10-12) [OF v] in_rangeD(4) [OF r]]
    valid_range_quantises [OF validateLimitsD(13-15) [OF v] in_rangeD(5) [OF r]]
  show ?thesis using v r by (simp add: encodeCommand_def q)
qed

text \<open>Property C35: an enabled driver with a valid configuration encodes every finite
  reference, whatever its size: the command is saturated to the motor's ranges and therefore never
  rejected by the codec. A driver that is not enabled, or a reference with a NaN or an infinity, gives
  no block.\<close>

theorem control_block_saturates:
  assumes "validateLimits (driver_limits d)" and "bd_motor_dir d = 1 \<or> bd_motor_dir d = -1"
    and "isfinite (bd_offset_angle d)"
  shows "encodeControlBlock d p v kp kd tau =
    (if bd_state d = kEnabled \<and> isfinite p \<and> isfinite v \<and> isfinite kp \<and> isfinite kd \<and> isfinite tau
     then Some (projr (encodeCommand (motor_command d p v kp kd tau) (driver_limits d))) else None) \<and>
    (isfinite p \<and> isfinite v \<and> isfinite kp \<and> isfinite kd \<and> isfinite tau \<longrightarrow>
       command_in_range (motor_command d p v kp kd tau) (driver_limits d))"
  using command_saturated [OF assms, of p v kp kd tau] encodeCommand_accepts [OF assms(1), of "motor_command d p v kp kd tau"]
  by (auto simp: encodeControlBlock_def split: sum.splits)



theorem control_block_saturates_witness:
  "encodeControlBlock (sample_driver\<lparr>bd_state := kEnabled\<rparr>) (Fin 100) 0 0 0 (Fin (-9000)) \<noteq> None"
proof -
  let ?d = "sample_driver\<lparr>bd_state := kEnabled\<rparr>"
  have "validateLimits (driver_limits ?d)"
    by (simp add: driver_limits_def sample_driver_def validateLimits_def spec_limits_def
        default_BxiSpec_values default_limits_values)
  then show ?thesis
    using control_block_saturates [of ?d "Fin 100" 0 0 0 "Fin (-9000)"]
    by (simp add: sample_driver_def zero_double_def)
qed

section \<open>A silent motor\<close>

definition silent :: "BxiActuatorDriver \<Rightarrow> env \<Rightarrow> bool" where
  "silent d e \<longleftrightarrow> list_all (\<lambda>(t, x). case x of None \<Rightarrow> True
     | Some r \<Rightarrow> decodeMotorReply r (bd_can_id d) (driver_limits d) = None) (rx e)"

lemma latch_rx: "latchSafeStop d e = (d', e') \<Longrightarrow> rx e' = rx e"
  by (auto simp: latchSafeStop_def trySendDisable_def Let_def split: if_splits)

lemma reply_missing_rx: "reply_missing ob d e = (f, ob', d', e') \<Longrightarrow> rx e' = rx e"
  by (auto simp: reply_missing_def Let_def split: if_splits prod.splits dest: latch_rx)

lemma transact_rx:
  assumes "transact fr ob d e = (f, ob', d', e')"
  shows "set (rx e') \<subseteq> set (rx e)"
proof -
  define ob1 where "ob1 = map_option (\<lambda>_. default_TransactionObservation) ob"
  obtain ob2 e1 where p: "begin_observation ob1 e = (ob2, e1)" by fastforce
  obtain sent e2 where s: "bus_send fr e1 = (sent, e2)" by fastforce
  obtain started e3 where st: "steady_now e2 = (started, e3)" by fastforce
  define dl where "dl = started + bd_response_timeout_ms d * 1000000"
  obtain r ob4 e4 where w: "await_reply d dl ob2 e3 = (r, ob4, e4)" by (metis prod_cases3)
  have r1: "rx e1 = rx e" using p by (auto simp: begin_observation_def split: option.splits prod.splits
      dest!: arg_cong [where f = "rx \<circ> snd"])
  have r2: "rx e2 = rx e1" "rx e3 = rx e2" using env_rx(3) [of fr e1] env_rx(1) [of e2] s st by auto
  have r3: "set (rx e4) \<subseteq> set (rx e3)" using await_reply_spec [OF w] by auto
  note unf = assms [unfolded transact_def ob1_def [symmetric] Let_def p s st prod.case dl_def [symmetric] w]
  show ?thesis
    using unf r1 r2 r3 latch_rx reply_missing_rx
    by (auto split: if_splits option.splits prod.splits)
qed

lemma control_call_silent:
  assumes "bd_state d = kEnabled" and "silent d e"
    and "encodeControlBlock d p v kp kd tau \<noteq> None"
    and "driver_call (CallControl p v kp kd tau) (d, e) = (d', e')"
  shows "bd_state d' = kSafeStopped \<or>
    d' = d\<lparr>bd_consecutive_timeouts := bd_consecutive_timeouts d + 1\<rparr> \<and> silent d' e' \<and>
    bd_consecutive_timeouts d + 1 < bd_maximum_consecutive_timeouts d"
proof -
  let ?c = "CallControl p v kp kd tau"
  obtain fr where fr: "call_frame d ?c = Some fr" using assms(3) by auto
  have live: "bd_state d \<noteq> kSafeStopped" using assms(1) by simp
  obtain ob f ob' d1 e1 where t: "transact fr ob d e = (f, ob', d1, e1)"
    and c: "driver_call ?c (d, e) =
      (if af_valid f then d1\<lparr>bd_state := state_after_reply ?c (bd_state d1)\<rparr> else d1, e1)"
    using driver_call_transact [OF live fr] .
  note sub = transact_rx [OF t]
  from t show ?thesis
  proof (cases rule: transact_outcome)
    case (replied decoded response t)
    with assms(2) show ?thesis by (auto simp: silent_def list_all_iff)
  next
    case timeout
    with sub assms(2,4) c show ?thesis by (auto simp: silent_def list_all_iff driver_limits_def)
  next
    case stopped
    with live show ?thesis by simp
  next
    case (send_failed b)
    then have "bd_state d1 = kSafeStopped" "\<not> af_valid f" by simp_all
    with c assms(4) show ?thesis by auto
  next
    case (timeout_latched b)
    then have "bd_state d1 = kSafeStopped" "\<not> af_valid f" by simp_all
    with c assms(4) show ?thesis by auto
  qed
qed

lemma encodeControlBlock_counter [simp]:
  "encodeControlBlock (d\<lparr>bd_consecutive_timeouts := n\<rparr>) = encodeControlBlock d"
  by (intro ext) (simp add: encodeControlBlock_def motor_command_def driver_limits_def)

lemma control_calls_silent:
  assumes "bd_state d = kEnabled" and "silent d e" and "encodeControlBlock d p v kp kd tau \<noteq> None"
    and "timeouts_left d"
    and "unat (bd_maximum_consecutive_timeouts d) - unat (bd_consecutive_timeouts d) \<le> n"
  shows "bd_state (fst (fold driver_call (replicate n (CallControl p v kp kd tau)) (d, e))) = kSafeStopped"
  using assms
proof (induction n arbitrary: d e)
  case 0
  then show ?case by (simp add: timeouts_left_def word_less_nat_alt)
next
  case (Suc n)
  let ?c = "CallControl p v kp kd tau"
  obtain d1 e1 where c: "driver_call ?c (d, e) = (d1, e1)" by fastforce
  show ?case
  proof (cases "bd_state d1 = kSafeStopped")
    case True
    then show ?thesis
      using driver.latched_run [of "bd_can_id d1" "(d1, e1)" "replicate n ?c"] c by (auto split: prod.splits)
  next
    case False
    with control_call_silent [OF Suc.prems(1-3) c]
    have d1: "d1 = d\<lparr>bd_consecutive_timeouts := bd_consecutive_timeouts d + 1\<rparr>" "silent d1 e1"
      and lt: "bd_consecutive_timeouts d + 1 < bd_maximum_consecutive_timeouts d" by auto
    have "unat (bd_consecutive_timeouts d + 1) = Suc (unat (bd_consecutive_timeouts d))"
      using Suc.prems(1,4) by (auto simp: timeouts_left_def intro: unat_succ_less)
    then have "bd_state (fst (fold driver_call (replicate n ?c) (d1, e1))) = kSafeStopped"
      using Suc.prems d1 timeouts_left_call [OF Suc.prems(4) c] by (intro Suc.IH) auto
    with c show ?thesis by simp
  qed
qed

text \<open>How much a wait for a reply can consume. The wait ends by its deadline: when every frame takes at least a
  nanosecond to arrive, it takes no more frames off the bus than its time-out has nanoseconds, and one, however
  many foreign frames keep coming.\<close>

definition takes_time :: "env \<Rightarrow> bool" where
  "takes_time e \<longleftrightarrow> list_all (\<lambda>(t, _). 0 < t) (rx e)"

lemma takes_time_drop: "takes_time e \<Longrightarrow> rx e' = drop k (rx e) \<Longrightarrow> takes_time e'"
  by (auto simp: takes_time_def list_all_iff dest: in_set_dropD)

lemma await_reply_consumes:
  "await_reply d deadline ob e = (r, ob', e') \<Longrightarrow> takes_time e \<Longrightarrow>
     \<exists>k \<le> nat (deadline - clk e) + 1. rx e' = drop k (rx e)"
proof (induction d deadline ob e rule: await_reply.induct)
  case (1 d deadline ob e)
  obtain now e1 where n: "steady_now e = (now, e1)" by fastforce
  have e1: "rx e1 = rx e" "clk e1 = now" "clk e \<le> now" using env_rx(1) [of e] env_clk(1,2) [of e] n by auto
  show ?case
  proof (cases "deadline \<le> now")
    case True
    then have "e' = e1" using 1(2) n by (subst (asm) await_reply.simps) auto
    then show ?thesis using e1(1) by (intro exI [of _ 0]) simp
  next
    case False
    let ?t = "(deadline - now + 999999) div 1000000"
    obtain got e2 where g: "bus_recv ?t e1 = (got, e2)" by fastforce
    have e2: "rx e2 = drop 1 (rx e)" using env_rx(4) [of ?t e1] g e1(1) by (simp add: drop_Suc)
    have one: "\<exists>k \<le> nat (deadline - clk e) + 1. drop 1 (rx e) = drop k (rx e)" by (intro exI [of _ 1]) simp
    show ?thesis
    proof (cases got)
      case None
      then have "e' = e2" using 1(2) n False g by (subst (asm) await_reply.simps) auto
      then show ?thesis using e2 one by simp
    next
      case (Some response)
      obtain t rest where "rx e1 = (t, Some response) # rest" using bus_recv_received [of ?t e1 response] g Some by auto
      then have c2: "clk e < clk e2" using g 1(3) e1 by (auto simp: bus_recv_def takes_time_def)
      obtain dq e3 where a: "steady_now e2 = (dq, e3)" by fastforce
      have e3: "rx e3 = rx e2" "clk e3 = dq" "clk e2 \<le> dq" using env_rx(1) [of e2] env_clk(1,2) [of e2] a by auto
      note unf = 1(2) [unfolded await_reply.simps [of d deadline ob e] n prod.case Let_def]
      show ?thesis
      proof (cases "\<not> deadline \<le> dq \<and> decodeMotorReply response (bd_can_id d) (driver_limits d) = None")
        case False
        then have "e' = e3" using unf \<open>\<not> deadline \<le> now\<close> g Some a by (auto split: option.splits if_splits)
        then show ?thesis using e2 e3 one by simp
      next
        case True
        then have again: "await_reply d deadline (push_reply dq response ob) e3 = (r, ob', e')"
          using unf \<open>\<not> deadline \<le> now\<close> g Some a by simp
        have tt: "takes_time e3" using takes_time_drop [OF 1(3), of e3 1] e2 e3 by simp
        have before: "\<not> deadline \<le> dq" and none: "decodeMotorReply response (bd_can_id d) (driver_limits d) = None"
          using True by simp_all
        note IH = 1(1) [OF n [symmetric] refl \<open>\<not> deadline \<le> now\<close> g [symmetric, unfolded Some] refl a [symmetric] refl refl
            before none again tt]
        from IH obtain k where k: "k \<le> nat (deadline - clk e3) + 1" "rx e' = drop k (rx e3)" by (elim exE conjE)
        have "Suc k \<le> nat (deadline - clk e) + 1" using k(1) c2 e3 True by linarith
        moreover have "rx e' = drop (Suc k) (rx e)" using k(2) e2 e3(1) by simp
        ultimately show ?thesis by blast
      qed
    qed
  qed
qed

lemma latch_response_timeout: "latchSafeStop d e = (d', e') \<Longrightarrow> bd_response_timeout_ms d' = bd_response_timeout_ms d \<and> rx e' = rx e"
  using env_rx(3) by (auto simp: latchSafeStop_def trySendDisable_def Let_def split: if_splits)

lemma reply_missing_keeps:
  assumes "reply_missing ob d e = (f, ob', d', e')"
  shows "bd_response_timeout_ms d' = bd_response_timeout_ms d \<and> rx e' = rx e"
proof -
  define d1 where "d1 = d\<lparr>bd_consecutive_timeouts := bd_consecutive_timeouts d + 1\<rparr>"
  obtain d2 e2 where l: "latchSafeStop d1 e = (d2, e2)" by fastforce
  have "(d', e') = (d2, e2) \<or> (d', e') = (d1, e)"
    using assms [unfolded reply_missing_def Let_def, folded d1_def, unfolded l prod.case] by (auto split: if_splits)
  then show ?thesis using latch_response_timeout [OF l] by (auto simp: d1_def)
qed

lemma reply_arrived_keeps:
  "reply_arrived m fr ob d = (f, ob', d') \<Longrightarrow> bd_response_timeout_ms d' = bd_response_timeout_ms d"
  by (auto simp: reply_arrived_def applyFeedback_def updateTemperature_def Let_def split: prod.splits)

lemma transact_consumes:
  assumes "transact fr ob d e = (f, ob', d', e')" and "takes_time e"
  shows "bd_response_timeout_ms d' = bd_response_timeout_ms d \<and>
    (\<exists>k \<le> nat (bd_response_timeout_ms d * 1000000) + 1. rx e' = drop k (rx e))"
proof -
  define ob1 where "ob1 = map_option (\<lambda>_. default_TransactionObservation) ob"
  obtain ob2 e1 where p: "begin_observation ob1 e = (ob2, e1)" by fastforce
  obtain sent e2 where s: "bus_send fr e1 = (sent, e2)" by fastforce
  obtain started e3 where st: "steady_now e2 = (started, e3)" by fastforce
  define dl where "dl = started + bd_response_timeout_ms d * 1000000"
  obtain r ob4 e4 where w: "await_reply d dl ob2 e3 = (r, ob4, e4)" by (metis prod_cases3)
  obtain ld le where l: "latchSafeStop d e2 = (ld, le)" by fastforce
  have r1: "rx e1 = rx e" using p by (auto simp: begin_observation_def split: option.splits prod.splits
      dest!: arg_cong [where f = "rx \<circ> snd"])
  have r2: "rx e2 = rx e" "rx e3 = rx e" "clk e3 = started" using env_rx(3) [of fr e1] env_rx(1) [of e2] env_clk(2) [of e2] s st r1 by auto
  have "takes_time e3" using assms(2) r2(2) by (simp add: takes_time_def)
  from await_reply_consumes [OF w this] obtain k where
    k: "k \<le> nat (bd_response_timeout_ms d * 1000000) + 1" "rx e4 = drop k (rx e)" using r2 by (auto simp: dl_def)
  note unf = assms(1) [unfolded transact_def ob1_def [symmetric] Let_def p s st prod.case dl_def [symmetric] w]
  consider "d' = d" "e' = e" | "d' = ld" "e' = le"
    | "bd_response_timeout_ms d' = bd_response_timeout_ms d" "rx e' = rx e4"
  proof (cases "bd_state d = kSafeStopped \<or> \<not> sent")
    case True
    then show ?thesis using unf l that(1,2) by (auto split: if_splits)
  next
    case False
    show ?thesis
    proof (cases r)
      case None
      then have "reply_missing ob4 d e4 = (f, ob', d', e')" using unf False by simp
      from reply_missing_keeps [OF this] show ?thesis using that(3) by simp
    next
      case (Some q)
      obtain g o'' d'' where a: "reply_arrived (fst q) (snd q) ob4 d = (g, o'', d'')" using prod_cases3 by blast
      then have "d' = d''" "e' = e4" using unf False Some by (auto split: prod.splits)
      then show ?thesis using that(3) reply_arrived_keeps [OF a] by simp
    qed
  qed
  then show ?thesis
  proof cases
    case 1
    then show ?thesis by (intro conjI exI [of _ 0]) simp_all
  next
    case 2
    then show ?thesis using latch_response_timeout [OF l] r2 by (intro conjI exI [of _ 0]) simp_all
  next
    case 3
    then show ?thesis using k by auto
  qed
qed

lemma control_calls_consume:
  assumes "takes_time e"
  shows "length (rx e) \<le> length (rx (snd (fold driver_call (replicate n (CallControl p v kp kd tau)) (d, e)))) +
    n * (nat (bd_response_timeout_ms d * 1000000) + 1)"
  using assms
proof (induction n arbitrary: d e)
  case 0
  then show ?case by simp
next
  case (Suc n)
  obtain d1 e1 where c: "driver_call (CallControl p v kp kd tau) (d, e) = (d1, e1)" by fastforce
  have k: "bd_response_timeout_ms d1 = bd_response_timeout_ms d \<and>
      (\<exists>k \<le> nat (bd_response_timeout_ms d * 1000000) + 1. rx e1 = drop k (rx e))"
  proof (cases "encodeControlBlock d p v kp kd tau")
    case None
    then show ?thesis using c by (intro conjI exI [of _ 0]) (simp_all add: sendControl_def)
  next
    case (Some b)
    obtain f ob' where "transact (motor_frame (bd_can_id d) b) None d e = (f, ob', d1, e1)"
      using c Some by (auto simp: sendControl_def split: prod.splits)
    from transact_consumes [OF this Suc.prems] show ?thesis .
  qed
  then obtain k where k1: "k \<le> nat (bd_response_timeout_ms d * 1000000) + 1" "rx e1 = drop k (rx e)" by blast
  have "takes_time e1" using takes_time_drop [OF Suc.prems k1(2)] .
  from Suc.IH [OF this, of d1] have "length (rx e1) \<le> length (rx (snd (fold driver_call (replicate n (CallControl p v kp kd tau)) (d1, e1)))) +
      n * (nat (bd_response_timeout_ms d * 1000000) + 1)" using k by simp
  then show ?case using c k1 by simp
qed

text \<open>Property C22: when the motor no longer answers (no frame on the bus is its reply), an
  enabled driver that keeps sending controls is in safe-stop after at most as many transactions as
  the timeout limit allows. Other traffic does not keep it waiting: when each frame takes time to arrive, the calls
  together take a bounded number of frames off the bus, by the reply time-out alone.\<close>

theorem silent_motor_is_stopped:
  assumes "bd_state d = kEnabled" and "timeouts_left d" and "silent d e"
    and "encodeControlBlock d p v kp kd tau \<noteq> None"
    and "unat (bd_maximum_consecutive_timeouts d) \<le> n"
  shows "bd_state (fst (fold driver_call (replicate n (CallControl p v kp kd tau)) (d, e))) = kSafeStopped \<and>
    (takes_time e \<longrightarrow> length (rx e) \<le>
       length (rx (snd (fold driver_call (replicate n (CallControl p v kp kd tau)) (d, e)))) +
         n * (nat (bd_response_timeout_ms d * 1000000) + 1))"
  using assms control_calls_silent [OF assms(1,3,4,2), of n] control_calls_consume by simp

theorem silent_motor_is_stopped_witness:
  "bd_state (fst (fold driver_call (replicate 3 (CallControl (Fin 1) 0 0 0 0))
     (sample_driver\<lparr>bd_state := kEnabled\<rparr>, silent_env))) = kSafeStopped"
proof -
  let ?d = "sample_driver\<lparr>bd_state := kEnabled\<rparr>"
  have h: "bd_state ?d = kEnabled" "timeouts_left ?d" "silent ?d silent_env"
    "unat (bd_maximum_consecutive_timeouts ?d) \<le> 3"
    by (simp_all add: sample_driver_def timeouts_left_def silent_def silent_env_def)
  have v: "validateLimits (driver_limits ?d)"
    by (simp add: driver_limits_def sample_driver_def validateLimits_def spec_limits_def
        default_BxiSpec_values default_limits_values)
  have "command_in_range (motor_command ?d (Fin 1) 0 0 0 0) (driver_limits ?d)"
    by (rule command_saturated [OF v]) (simp_all add: sample_driver_def zero_double_def)
  with v have "encodeControlBlock ?d (Fin 1) 0 0 0 0 \<noteq> None"
    using encodeCommand_accepts by (fastforce simp: encodeControlBlock_def sample_driver_def zero_double_def)
  from silent_motor_is_stopped [OF h(1-3) this h(4)] show ?thesis by blast
qed

section \<open>Temperatures\<close>

text \<open>Also: the reported temperature is NaN only if both sensors read below
  the fault threshold; otherwise it is at least the reading of every healthy sensor, so a single
  faulty sensor cannot hide an overheating one. The sequential path (which also keeps the fault
  flags) and the streamed conversion report the same feedback.\<close>

theorem reported_temperature_covers_sensors:
  assumes "isfinite (mf_mos_temperature m)" and "isfinite (mf_motor_temperature m)"
    and "isfinite (bd_temperature_sensor_fault_below_c d)"
  shows "fst (applyFeedback d m) = convertFeedback m (feedbackTransform d) \<and>
    (isnan (af_temperature (convertFeedback m (feedbackTransform d))) \<longleftrightarrow>
       bd_mos_sensor_fault (snd (applyFeedback d m)) \<and> bd_motor_sensor_fault (snd (applyFeedback d m))) \<and>
    (bd_mos_sensor_fault (snd (applyFeedback d m)) \<longleftrightarrow>
       mf_mos_temperature m < bd_temperature_sensor_fault_below_c d) \<and>
    (\<not> bd_mos_sensor_fault (snd (applyFeedback d m)) \<longrightarrow>
       mf_mos_temperature m \<le> af_temperature (convertFeedback m (feedbackTransform d))) \<and>
    (\<not> bd_motor_sensor_fault (snd (applyFeedback d m)) \<longrightarrow>
       mf_motor_temperature m \<le> af_temperature (convertFeedback m (feedbackTransform d)))"
  using assms
  by (auto simp: applyFeedback_def updateTemperature_def convertFeedback_def feedbackTransform_def
      reported_temperature_def Let_def dmax_def elim!: isfiniteE)

definition one_sensor_feedback :: MitFeedback where
  "one_sensor_feedback = \<lparr>mf_motor_id = 2, mf_position = Fin 0, mf_velocity = Fin 0, mf_torque = Fin 0,
     mf_mos_temperature = Fin (-30), mf_motor_temperature = Fin 60\<rparr>"

theorem reported_temperature_covers_sensors_witness:
  "bd_mos_sensor_fault (snd (applyFeedback sample_driver one_sensor_feedback)) \<and>
   \<not> bd_motor_sensor_fault (snd (applyFeedback sample_driver one_sensor_feedback)) \<and>
   Fin 60 \<le> af_temperature (convertFeedback one_sensor_feedback (feedbackTransform sample_driver))"
proof -
  have "\<not> bd_motor_sensor_fault (snd (applyFeedback sample_driver one_sensor_feedback))"
    by (simp add: applyFeedback_def updateTemperature_def Let_def one_sensor_feedback_def sample_driver_def)
  then show ?thesis
    using reported_temperature_covers_sensors [of one_sensor_feedback sample_driver]
    by (simp add: one_sensor_feedback_def sample_driver_def)
qed


end
