(* ===== verification/Stream_Config.thy ===== *)
theory Stream_Config
  imports Bxi_Actuator
begin

text \<open>
  The broadcast frame of a bus and the check of a stream's configuration
  (\<^verbatim>\<open>src/bus_streamer.cpp\<close>: \<^verbatim>\<open>buildBroadcastFrame\<close>, \<^verbatim>\<open>validate\<close>): one CAN FD frame on identifier 0x7FF
  whose eight-byte blocks are indexed by motor identifier.
\<close>

section \<open>The frame\<close>

definition write_at :: "nat \<Rightarrow> u8 list \<Rightarrow> u8 list \<Rightarrow> u8 list" where
  "write_at pos bytes data = take pos data @ bytes @ drop (pos + length bytes) data"

definition pad_blocks :: "nat \<Rightarrow> u8 list \<Rightarrow> u8 list \<Rightarrow> u8 list" where
  "pad_blocks block_count padding data = fold (\<lambda>block. write_at (block * 8) padding) [0..<block_count] data"

fun place_blocks :: "(int \<times> u8 list) list \<Rightarrow> nat \<Rightarrow> u8 list \<Rightarrow> u8 list option" where
  "place_blocks [] block_count data = Some data"
| "place_blocks ((motor_id, bytes) # blocks) block_count data =
     (if motor_id < 1 \<or> int block_count < motor_id then None
      else place_blocks blocks block_count (write_at (nat (motor_id - 1) * 8) bytes data))"

text \<open>Block counts are the value of a \<^verbatim>\<open>size_t\<close>, so the length in bytes wraps at 2^64. A count whose length
  wraps is accepted by \<^verbatim>\<open>validate\<close> and by \<^verbatim>\<open>buildBroadcastFrame\<close>, whose padding loop then leaves the
  array: that is undefined behaviour in the code, and the theorems assume a count below 2^61.\<close>

definition block_bytes :: "nat \<Rightarrow> nat" where
  "block_bytes block_count = unat ((of_nat block_count :: u64) * 8)"

lemma block_bytes_small [simp]: "n < 2 ^ 61 \<Longrightarrow> block_bytes n = n * 8"
proof -
  assume "n < 2 ^ 61"
  then have "n * 8 < 2 ^ 64" by simp
  moreover have "(of_nat n :: u64) * 8 = of_nat (n * 8)" by simp
  ultimately show ?thesis unfolding block_bytes_def by (simp only: unat_of_nat) simp
qed

definition buildBroadcastFrame :: "(int \<times> u8 list) list \<Rightarrow> nat \<Rightarrow> u8 list \<Rightarrow> CanFrame option" where
  "buildBroadcastFrame blocks block_count padding =
     (let len = block_bytes block_count
      in if block_count = 0 \<or> kCanFdMaxDataLength < len \<or> \<not> isValidCanFdDataLength len then None
         else let frame = default_CanFrame\<lparr>cf_id := 0x7FF, cf_extended := False, cf_dlc := of_nat len\<rparr>
         in map_option (\<lambda>data. frame\<lparr>cf_data := data\<rparr>)
              (place_blocks blocks block_count (pad_blocks block_count padding (cf_data frame))))"

text \<open>The block of a motor as the motor (and the emulator) cuts it out of the frame.\<close>

definition motor_block :: "int \<Rightarrow> u8 list \<Rightarrow> u8 list" where
  "motor_block motor_id data = take 8 (drop (nat (motor_id - 1) * 8) data)"

section \<open>Layout\<close>

lemma write_at_length [simp]: "pos + length bytes \<le> length data \<Longrightarrow> length (write_at pos bytes data) = length data"
  by (simp add: write_at_def)

lemma write_at_nth:
  assumes "pos + length bytes \<le> length data" and "j < length data"
  shows "write_at pos bytes data ! j =
    (if j < pos then data ! j else if j < pos + length bytes then bytes ! (j - pos) else data ! j)"
  using assms by (auto simp: write_at_def nth_append min_def)

lemma write_at_block:
  assumes "length bytes = 8" and "a * 8 + 8 \<le> length data"
  shows "take 8 (drop (b * 8) (write_at (a * 8) bytes data)) = (if a = b then bytes else take 8 (drop (b * 8) data))"
proof -
  have "take 8 (drop (b * 8) (write_at (a * 8) bytes data)) = take 8 (drop (b * 8) data)" if "a \<noteq> b"
  proof (rule nth_equalityI)
    show len: "length (take 8 (drop (b * 8) (write_at (a * 8) bytes data))) = length (take 8 (drop (b * 8) data))"
      using assms by simp
    fix i assume "i < length (take 8 (drop (b * 8) (write_at (a * 8) bytes data)))"
    then have i: "i < 8" "b * 8 + i < length data" using assms by auto
    have "b * 8 + i < a * 8 \<or> a * 8 + 8 \<le> b * 8 + i" using that i(1) by (cases "a < b") auto
    then have "write_at (a * 8) bytes data ! (b * 8 + i) = data ! (b * 8 + i)"
      using write_at_nth [of "a * 8" bytes data "b * 8 + i"] assms i by auto
    then show "take 8 (drop (b * 8) (write_at (a * 8) bytes data)) ! i = take 8 (drop (b * 8) data) ! i"
      using assms i by (simp only: nth_take) (simp add: nth_drop)
  qed
  moreover have "take 8 (drop (a * 8) (write_at (a * 8) bytes data)) = bytes"
    using assms by (simp add: write_at_def)
  ultimately show ?thesis by auto
qed

lemma pad_blocks_spec:
  assumes "length padding = 8" and "n * 8 \<le> length data"
  shows "length (pad_blocks n padding data) = length data \<and>
    (\<forall>b < n. take 8 (drop (b * 8) (pad_blocks n padding data)) = padding)"
  using assms(2)
proof (induction n)
  case 0
  then show ?case by (simp add: pad_blocks_def)
next
  case (Suc n)
  have s: "pad_blocks (Suc n) padding data = write_at (n * 8) padding (pad_blocks n padding data)"
    by (simp add: pad_blocks_def)
  have l: "length (pad_blocks n padding data) = length data" using Suc by simp
  show ?case
    unfolding s using Suc assms(1) l write_at_block [OF assms(1), of n "pad_blocks n padding data"]
    by (auto simp: less_Suc_eq)
qed

lemma place_blocks_Some:
  "place_blocks blocks n data \<noteq> None \<longleftrightarrow> list_all (\<lambda>(i, _). 1 \<le> i \<and> i \<le> int n) blocks"
  by (induction blocks n data rule: place_blocks.induct) auto

lemma place_blocks_spec:
  assumes "place_blocks blocks n data = Some out" and "n * 8 \<le> length data"
    and "list_all (\<lambda>(_, b). length b = 8) blocks" and "distinct (map fst blocks)"
  shows "length out = length data \<and> (\<forall>k < n. take 8 (drop (k * 8) out) =
    (case map_of blocks (int k + 1) of Some b \<Rightarrow> b | None \<Rightarrow> take 8 (drop (k * 8) data)))"
  using assms
proof (induction blocks n data arbitrary: rule: place_blocks.induct)
  case (1 n data)
  then show ?case by simp
next
  case (2 i b blocks n data)
  let ?d = "write_at (nat (i - 1) * 8) b data"
  have r: "1 \<le> i" "i \<le> int n" and p: "place_blocks blocks n ?d = Some out"
    using 2(2) by (auto split: if_splits)
  have lb: "length b = 8" using 2(4) by simp
  have "nat (i - 1) < n" using r by auto
  then have fit: "nat (i - 1) * 8 + 8 \<le> length data" using 2(3) by linarith
  have ld: "length ?d = length data" using fit lb by simp
  have IH: "length out = length ?d \<and> (\<forall>k < n. take 8 (drop (k * 8) out) =
    (case map_of blocks (int k + 1) of Some b \<Rightarrow> b | None \<Rightarrow> take 8 (drop (k * 8) ?d)))"
    using 2(1) [OF _ p] r 2(3-5) ld by auto
  have none: "map_of blocks i = None" using 2(5) by (auto simp: map_of_eq_None_iff)
  show ?case
  proof (intro conjI allI impI)
    show "length out = length data" using IH ld by simp
    fix k assume k: "k < n"
    have "take 8 (drop (k * 8) ?d) = (if nat (i - 1) = k then b else take 8 (drop (k * 8) data))"
      by (rule write_at_block [OF lb fit])
    moreover have "nat (i - 1) = k \<longleftrightarrow> i = int k + 1" using r by auto
    ultimately show "take 8 (drop (k * 8) out) = (case map_of ((i, b) # blocks) (int k + 1) of Some b \<Rightarrow> b
        | None \<Rightarrow> take 8 (drop (k * 8) data))"
      using IH k none by (auto split: option.splits)
  qed
qed


section \<open>Configuration\<close>

record StreamConfig =
  sc_group_safety :: bool
  sc_safety_drain_timeout :: ns
  sc_activation_origin_ns :: ns
  sc_control_trace :: bool
  sc_write_triggered :: bool
  sc_direct_feedback :: bool
  sc_write_grace :: ns
  sc_first_write_timeout :: ns
  sc_period :: ns
  sc_max_feedback_age :: ns
  sc_max_command_age :: ns
  sc_has_command_written :: bool
  sc_broadcast :: bool
  sc_padded_broadcast_blocks :: nat
  sc_forbidden_reply_ids :: "int list"
  sc_rx_poll_ms :: int
  sc_rx_ready_timeout :: ns
  sc_trace_cycles :: nat
  sc_trace_extended :: bool
  sc_trace_extended_multi_axis :: bool
  sc_send_priority :: int
  sc_receive_priority :: int
  sc_cpus :: "int list"

definition default_StreamConfig :: StreamConfig where
  "default_StreamConfig = \<lparr>sc_group_safety = False, sc_safety_drain_timeout = 100 * 1000000,
     sc_activation_origin_ns = 0, sc_control_trace = False, sc_write_triggered = False,
     sc_direct_feedback = False, sc_write_grace = 0, sc_first_write_timeout = 20 * 1000000,
     sc_period = 1 * 1000000, sc_max_feedback_age = 3 * 1000000, sc_max_command_age = 0,
     sc_has_command_written = False, sc_broadcast = False, sc_padded_broadcast_blocks = 0,
     sc_forbidden_reply_ids = [], sc_rx_poll_ms = 2, sc_rx_ready_timeout = 100 * 1000000,
     sc_trace_cycles = 0, sc_trace_extended = False, sc_trace_extended_multi_axis = False,
     sc_send_priority = 0, sc_receive_priority = 0, sc_cpus = []\<rparr>"

datatype StreamSetupError =
  IncompleteSetup | ExpandedTrace | ThreadPriority | FeedbackAge | CommandAge | WriteTrigger
  | MissingOrDuplicate | ForbiddenConfigured | PaddingWithoutBroadcast | BroadcastIds
  | BroadcastLength | PaddingNotEncodable

definition valid_priority :: "int \<Rightarrow> bool" where
  "valid_priority priority \<longleftrightarrow> 0 \<le> priority \<and> priority \<le> 98"

text \<open>The bound on CPU indices is glibc's \<^verbatim>\<open>CPU_SETSIZE\<close>.\<close>

definition validate ::
  "bool \<Rightarrow> bool \<Rightarrow> bool \<Rightarrow> bool \<Rightarrow> BxiActuatorDriver option list \<Rightarrow> StreamConfig
     \<Rightarrow> StreamSetupError + nat \<times> u8 list" where
  "validate tx_bus rx_bus stop_all hook drivers c =
     (if \<not> tx_bus \<or> \<not> rx_bus \<or> \<not> stop_all \<or> \<not> hook \<or> drivers = [] \<or> sc_period c \<le> 0 \<or> sc_rx_poll_ms c \<le> 0
      then Inl IncompleteSetup
      else if sc_trace_extended c \<and> (\<not> sc_broadcast c \<or>
        (length drivers \<noteq> 1 \<and> \<not> sc_trace_extended_multi_axis c)) then Inl ExpandedTrace
      else if \<not> valid_priority (sc_send_priority c) \<or> \<not> valid_priority (sc_receive_priority c) \<or>
        list_ex (\<lambda>cpu. cpu < 0 \<or> 1024 \<le> cpu) (sc_cpus c) then Inl ThreadPriority
      else if sc_max_feedback_age c < 2 * sc_period c then Inl FeedbackAge
      else if sc_max_command_age c \<noteq> 0 \<and> (sc_max_command_age c < 2 * sc_period c \<or>
        (\<not> sc_write_triggered c \<and> \<not> sc_has_command_written c)) then Inl CommandAge
      else if sc_write_triggered c \<and> (sc_write_grace c \<le> 0 \<or>
        sc_max_feedback_age c \<le> sc_period c + sc_write_grace c \<or>
        sc_max_command_age c \<le> sc_period c + sc_write_grace c \<or> sc_first_write_timeout c \<le> 0)
      then Inl WriteTrigger
      else if list_ex (\<lambda>d. d = None) drivers \<or> \<not> distinct (map (\<lambda>d. bd_can_id (the d)) drivers)
      then Inl MissingOrDuplicate
      else let ids = map (\<lambda>d. bd_can_id (the d)) drivers
      in if list_ex (\<lambda>i. i \<in> set ids) (sc_forbidden_reply_ids c) then Inl ForbiddenConfigured
      else if \<not> sc_broadcast c then
        (if sc_padded_broadcast_blocks c \<noteq> 0 then Inl PaddingWithoutBroadcast else Inr (0, replicate 8 0))
      else let block_count = (if sc_padded_broadcast_blocks c \<noteq> 0 then sc_padded_broadcast_blocks c
                              else length drivers)
      in if sc_padded_broadcast_blocks c = 0 \<and>
        (Min (set ids) \<noteq> 1 \<or> unat (word_of_int (Max (set ids)) :: u64) \<noteq> length drivers)
      then Inl BroadcastIds
      else if block_count < unat (word_of_int (Max (set ids)) :: u64) \<or>
        \<not> isValidCanFdDataLength (block_bytes block_count) \<or>
        kCanFdMaxDataLength < block_bytes block_count then Inl BroadcastLength
      else case encodeCommand default_MitCommand default_MitLimits of
             Inl _ \<Rightarrow> Inl PaddingNotEncodable
           | Inr padding \<Rightarrow> Inr (block_count, padding))"

lemma default_command_in_range: "command_in_range default_MitCommand default_MitLimits"
  by (simp add: command_in_range_def isFiniteAndInRange_def default_MitCommand_def default_limits_values
      zero_double_def)

lemma padding_block: "\<exists>b. encodeCommand default_MitCommand default_MitLimits = Inr b \<and> length b = 8"
  using encodeCommand_sane [OF default_limits_sane default_command_in_range] by simp

lemma small_id_cast:
  "1 \<le> i \<and> i \<le> uint kMaxSupportedMotorCanId \<Longrightarrow> int (unat (word_of_int i :: u64)) = i"
  by (simp add: kMaxSupportedMotorCanId_def unat_eq_nat_uint uint_word_of_int)

lemma validate_broadcast:
  assumes "validate tx_ok rx_ok st hk (map Some ds) c = Inr (bc, pad)" and "sc_broadcast c"
    and "bc < 2 ^ 61" and range: "\<forall>d \<in> set ds. 1 \<le> bd_can_id d \<and> bd_can_id d \<le> uint kMaxSupportedMotorCanId"
  shows "ds \<noteq> []" and "distinct (map bd_can_id ds)" and "\<forall>d \<in> set ds. bd_can_id d \<le> int bc"
    and "bc * 8 \<le> kCanFdMaxDataLength" and "isValidCanFdDataLength (bc * 8)"
    and "encodeCommand default_MitCommand default_MitLimits = Inr pad"
    and "sc_padded_broadcast_blocks c = 0 \<Longrightarrow> bc = length ds \<and> (\<forall>d \<in> set ds. 1 \<le> bd_can_id d)"
proof -
  obtain b where b: "encodeCommand default_MitCommand default_MitLimits = Inr b" using padding_block by blast
  define ids where "ids = bd_can_id ` set ds"
  have i: "map (\<lambda>d. bd_can_id (the d)) (map Some ds) = map bd_can_id ds" by simp
  note v = assms(1) [unfolded validate_def Let_def i b]
  have bb: "block_bytes bc = bc * 8" using assms(3) by simp
  show n: "ds \<noteq> []" and "distinct (map bd_can_id ds)" and "bc * 8 \<le> kCanFdMaxDataLength"
    and "isValidCanFdDataLength (bc * 8)" and "encodeCommand default_MitCommand default_MitLimits = Inr pad"
    using v assms(2) b bb by (auto split: if_splits)
  have f: "finite ids" "ids \<noteq> {}" using n by (simp_all add: ids_def)
  have "Max ids \<in> ids" by (rule Max_in [OF f])
  then have "1 \<le> Max ids \<and> Max ids \<le> uint kMaxSupportedMotorCanId" using range by (auto simp: ids_def)
  then have m: "int (unat (word_of_int (Max ids) :: u64)) = Max ids" by (rule small_id_cast)
  have "\<not> bc < unat (word_of_int (Max ids) :: u64)"
    using v assms(2) by (auto simp: ids_def simp del: Max_less_iff Max_le_iff split: if_splits)
  then have mx: "Max ids \<le> int bc" using m by linarith
  show "\<forall>d \<in> set ds. bd_can_id d \<le> int bc"
    using order_trans [OF Max_ge [OF f(1)] mx] by (simp add: ids_def)
  assume "sc_padded_broadcast_blocks c = 0"
  then have "bc = length ds" "Min ids = 1" using v assms(2) by (auto simp: ids_def split: if_splits)
  then show "bc = length ds \<and> (\<forall>d \<in> set ds. 1 \<le> bd_can_id d)"
    using Min_le [OF f(1)] by (force simp: ids_def)
qed

text \<open>Property C36: in every validated broadcast configuration of fewer than 2^61 blocks (the
  loader sets 0 or 3; from 2^61 on \<^verbatim>\<open>size_t\<close> wraps), over drivers with the identifiers their constructor
  allows, one block per driver always gives a frame, with a valid CAN FD length; each configured motor finds exactly its own block at
  its position, and the positions of no configured motor hold the padding block, which is the
  encoding of the zero-gain, zero-torque command.\<close>

theorem broadcast_reaches_every_motor:
  assumes "validate tx_ok rx_ok st hk (map Some ds) c = Inr (bc, pad)" and "sc_broadcast c" and "bc < 2 ^ 61"
    and "\<forall>d \<in> set ds. 1 \<le> bd_can_id d \<and> bd_can_id d \<le> uint kMaxSupportedMotorCanId" and "length bs = length ds" and "\<forall>b \<in> set bs. length b = 8"
  shows "\<exists>f. buildBroadcastFrame (zip (map bd_can_id ds) bs) bc pad = Some f \<and>
    cf_id f = 0x7FF \<and> \<not> cf_extended f \<and> unat (cf_dlc f) = bc * 8 \<and> isValidCanFdDataLength (bc * 8) \<and>
    length (cf_data f) = 64 \<and>
    (\<forall>i < length ds. motor_block (bd_can_id (ds ! i)) (cf_data f) = bs ! i) \<and>
    (\<forall>m. 1 \<le> m \<and> m \<le> int bc \<and> m \<notin> bd_can_id ` set ds \<longrightarrow> motor_block m (cf_data f) = pad) \<and>
    encodeCommand default_MitCommand default_MitLimits = Inr pad"
proof -
  note v = validate_broadcast [OF assms(1,2,3,4)]
  let ?blocks = "zip (map bd_can_id ds) bs"
  have pad8: "length pad = 8" using padding_block v(6) by auto
  obtain d where "d \<in> set ds" using v(1) by (cases ds) auto
  then have bc0: "bc \<noteq> 0" using v(3) assms(4) by fastforce
  have len: "bc * 8 \<le> 64" using v(4) by (simp add: kCanFdMaxDataLength_def)
  let ?data = "pad_blocks bc pad (replicate 64 0)"
  have pd: "length ?data = 64 \<and> (\<forall>b < bc. take 8 (drop (b * 8) ?data) = pad)"
    using pad_blocks_spec [OF pad8, of bc "replicate 64 0"] len by simp
  have sub: "set ?blocks \<subseteq> set (map bd_can_id ds) \<times> set bs" by (auto dest: set_zip_leftD set_zip_rightD)
  have "list_all (\<lambda>(i, _). 1 \<le> i \<and> i \<le> int bc) ?blocks"
    using sub v(3) assms(4) by (fastforce simp: list_all_iff)
  then obtain out where out: "place_blocks ?blocks bc ?data = Some out"
    using place_blocks_Some [of ?blocks bc ?data] by blast
  have mf: "map fst ?blocks = map bd_can_id ds" using assms(5) by simp
  have sp: "length out = 64 \<and> (\<forall>k < bc. take 8 (drop (k * 8) out) =
      (case map_of ?blocks (int k + 1) of Some b \<Rightarrow> b | None \<Rightarrow> take 8 (drop (k * 8) ?data)))"
    using place_blocks_spec [OF out] pd len assms(6) v(2) mf sub by (auto simp: list_all_iff)
  have blk: "motor_block m out = (case map_of ?blocks m of Some b \<Rightarrow> b | None \<Rightarrow> pad)"
    if "1 \<le> m" "m \<le> int bc" for m
  proof -
    define k where "k = nat (m - 1)"
    have k: "k < bc" "m = int k + 1" using that by (auto simp: k_def)
    show ?thesis using sp pd k(1) unfolding motor_block_def k_def [symmetric] k(2) by (auto split: option.splits)
  qed
  have own: "motor_block (bd_can_id (ds ! i)) out = bs ! i" if "i < length ds" for i
  proof -
    have "map_of ?blocks (bd_can_id (ds ! i)) = Some (bs ! i)"
      using that assms(5) v(2) map_of_zip_nth [of "map bd_can_id ds" bs i] by simp
    moreover have "1 \<le> bd_can_id (ds ! i)" "bd_can_id (ds ! i) \<le> int bc" using that assms(4) v(3) by auto
    ultimately show ?thesis using blk by simp
  qed
  have other: "motor_block m out = pad" if "1 \<le> m" "m \<le> int bc" "m \<notin> bd_can_id ` set ds" for m
  proof -
    have "map_of ?blocks m = None" using that(3) mf by (simp add: map_of_eq_None_iff set_map [symmetric] del: set_map)
    then show ?thesis using blk that by simp
  qed
  have "buildBroadcastFrame ?blocks bc pad = Some (default_CanFrame\<lparr>cf_id := 0x7FF, cf_extended := False,
      cf_dlc := of_nat (bc * 8), cf_data := out\<rparr>)"
    using out bc0 v(4,5) assms(3) by (simp add: buildBroadcastFrame_def Let_def default_CanFrame_def)
  moreover have "unat (of_nat (bc * 8) :: u8) = bc * 8"
    unfolding unat_of_nat by (rule mod_less) (use len in simp)
  ultimately show ?thesis using own other sp v(5,6) by (auto simp: default_CanFrame_def)
qed

definition pair_drivers :: "BxiActuatorDriver list" where
  "pair_drivers = [sample_driver\<lparr>bd_can_id := 1\<rparr>, sample_driver]"

lemma pair_validates:
  assumes "encodeCommand default_MitCommand default_MitLimits = Inr pad"
  shows "validate True True True True (map Some pair_drivers) (default_StreamConfig\<lparr>sc_broadcast := True\<rparr>) = Inr (2, pad)"
  using assms
  by (simp add: validate_def Let_def pair_drivers_def default_StreamConfig_def sample_driver_def valid_priority_def
      isValidCanFdDataLength_def kCanFdMaxDataLength_def)

theorem broadcast_reaches_every_motor_witness:
  "\<exists>pad f. buildBroadcastFrame (zip [1, 2] [replicate 8 4, replicate 8 5]) 2 pad = Some f \<and>
     motor_block 1 (cf_data f) = replicate 8 4 \<and> motor_block 2 (cf_data f) = replicate 8 5"
proof -
  obtain pad where "encodeCommand default_MitCommand default_MitLimits = Inr pad" using padding_block by blast
  from broadcast_reaches_every_motor [OF pair_validates [OF this], of "[replicate 8 4, replicate 8 5]"]
  show ?thesis by (fastforce simp: pair_drivers_def sample_driver_def default_StreamConfig_def All_less_Suc kMaxSupportedMotorCanId_def)
qed

end
