(* ===== verification/Stream_Receive.thy ===== *)
theory Stream_Receive
  imports Stream_Config
begin

text \<open>
  The receive thread of a bus stream (\<^verbatim>\<open>receiveLoop\<close> of \<^verbatim>\<open>src/bus_streamer.cpp\<close>): each received frame
  is matched with a configured motor or with a motor that must be absent, stored in the motor's reply
  slot, published for the control side, checked for temperature, traced and counted. The two clock
  reads of a frame come from the environment.
\<close>

section \<open>State\<close>

datatype StreamFault =
  kNone | kFeedbackStale | kSendFailed | kEncodeFailed | kForbiddenReply | kOwnerRequested
  | kCommandStale | kCommandSnapshotUnavailable | kStartupTimeout | kTemperature | kNotificationFailed

record ReplySlot =
  rs_decoded :: MitFeedback
  rs_received_at :: ns
  rs_rx_kernel_realtime_ns :: ns
  rs_rx_userspace_realtime_ns :: ns
  rs_sequence :: u64

record PublishedFeedback =
  pf_feedback :: ActuatorFeedback
  pf_sequence :: u64
  pf_received_ns :: ns
  pf_published_ns :: ns

definition default_PublishedFeedback :: PublishedFeedback where
  "default_PublishedFeedback = \<lparr>pf_feedback = default_ActuatorFeedback, pf_sequence = 0, pf_received_ns = 0,
     pf_published_ns = 0\<rparr>"

record StreamRxRecord =
  rr_axis :: nat
  rr_received_ns :: ns
  rr_rx_kernel_realtime_ns :: ns
  rr_rx_userspace_realtime_ns :: ns
  rr_rx_hardware_raw_ns :: ns
  rr_motor_position :: double
  rr_motor_velocity :: double
  rr_motor_torque :: double
  rr_sequence :: u64
  rr_published_ns :: ns

text \<open>
  What the receive thread reads and writes. The snapshot of an axis is the value last published in it
  (\<open>None\<close> before the first publication); \<open>rxs_storage\<close> says whether there is write storage;
  \<open>rxs_notified\<close> counts the wake-ups of the send thread.
\<close>

record RxState =
  rxs_can_ids :: "int list"
  rxs_reply_ids :: "u32 list"
  rxs_limits :: "MitLimits list"
  rxs_slots :: "ReplySlot list"
  rxs_storage :: bool
  rxs_transforms :: "FeedbackTransform list"
  rxs_cache :: "PublishedFeedback list"
  rxs_snapshots :: "PublishedFeedback option list"
  rxs_received_ns :: "ns list"
  rxs_fault :: StreamFault
  rxs_fault_axis :: int
  rxs_temperature_fault_c :: double
  rxs_temperature_fault_received_ns :: ns
  rxs_forbidden_replies :: u64
  rxs_forbidden_reply_id :: int
  rxs_frames :: u64
  rxs_ignored :: u64
  rxs_notified :: nat
  rxs_origin :: ns
  rxs_rows :: "StreamRxRecord list"
  rxs_row_count :: nat

section \<open>One frame\<close>

definition store_slot :: "nat \<Rightarrow> MitFeedback \<Rightarrow> ns \<Rightarrow> CanFrame \<Rightarrow> RxState \<Rightarrow> RxState" where
  "store_slot i decoded received_at frame s =
     s\<lparr>rxs_slots := (rxs_slots s)[i := \<lparr>rs_decoded = decoded, rs_received_at = received_at,
        rs_rx_kernel_realtime_ns = cf_rx_kernel_realtime_ns frame,
        rs_rx_userspace_realtime_ns = cf_rx_userspace_realtime_ns frame,
        rs_sequence = rs_sequence (rxs_slots s ! i) + 1\<rparr>]\<rparr>"

definition notify_rx :: "StreamConfig \<Rightarrow> RxState \<Rightarrow> RxState" where
  "notify_rx c s = (if sc_write_triggered c then s\<lparr>rxs_notified := rxs_notified s + 1\<rparr> else s)"

definition temperature_fault :: "double \<Rightarrow> bool" where
  "temperature_fault t \<longleftrightarrow> \<not> isfinite t \<or> dlit 80 < t"

definition check_temperature :: "StreamConfig \<Rightarrow> nat \<Rightarrow> PublishedFeedback \<Rightarrow> RxState \<Rightarrow> RxState" where
  "check_temperature c i pub s =
     (if temperature_fault (af_temperature (pf_feedback pub))
      then notify_rx c (if rxs_fault s = kNone
        then s\<lparr>rxs_temperature_fault_c := af_temperature (pf_feedback pub),
               rxs_temperature_fault_received_ns := pf_received_ns pub,
               rxs_fault_axis := int i, rxs_fault := kTemperature\<rparr>
        else s)
      else s)"

definition publish_reply ::
  "StreamConfig \<Rightarrow> nat \<Rightarrow> MitFeedback \<Rightarrow> ns \<Rightarrow> CanFrame \<Rightarrow> RxState \<Rightarrow> env \<Rightarrow> RxState \<times> env" where
  "publish_reply c i decoded received_at frame s e =
     (if \<not> rxs_storage s then (s, e)
      else let (published_at, e) = steady_now e;
               pub = \<lparr>pf_feedback = (convertFeedback decoded (rxs_transforms s ! i))
                        \<lparr>af_rx_kernel_realtime_ns := cf_rx_kernel_realtime_ns frame,
                         af_rx_userspace_realtime_ns := cf_rx_userspace_realtime_ns frame\<rparr>,
                      pf_sequence = pf_sequence (rxs_cache s ! i) + 1,
                      pf_received_ns = received_at, pf_published_ns = published_at\<rparr>;
               s = s\<lparr>rxs_cache := (rxs_cache s)[i := pub], rxs_snapshots := (rxs_snapshots s)[i := Some pub],
                     rxs_received_ns := (rxs_received_ns s)[i := received_at]\<rparr>
           in (check_temperature c i pub s, e))"

definition trace_reply ::
  "nat \<Rightarrow> MitFeedback \<Rightarrow> ns \<Rightarrow> CanFrame \<Rightarrow> RxState \<Rightarrow> env \<Rightarrow> RxState \<times> env" where
  "trace_reply i decoded received_at frame s e =
     (let (s, e) =
        (if rxs_row_count s < length (rxs_rows s)
         then let (published_at, e) = (if rxs_storage s then (pf_published_ns (rxs_cache s ! i), e) else steady_now e);
                  row = \<lparr>rr_axis = i, rr_received_ns = received_at - rxs_origin s,
                    rr_rx_kernel_realtime_ns = cf_rx_kernel_realtime_ns frame,
                    rr_rx_userspace_realtime_ns = cf_rx_userspace_realtime_ns frame,
                    rr_rx_hardware_raw_ns = cf_rx_hardware_raw_ns frame,
                    rr_motor_position = mf_position decoded, rr_motor_velocity = mf_velocity decoded,
                    rr_motor_torque = mf_torque decoded,
                    rr_sequence = (if rxs_storage s then pf_sequence (rxs_cache s ! i)
                                   else rs_sequence (rxs_slots s ! i)),
                    rr_published_ns = published_at\<rparr>
              in (s\<lparr>rxs_rows := (rxs_rows s)[rxs_row_count s := row]\<rparr>, e)
         else (s, e))
      in (s\<lparr>rxs_row_count := rxs_row_count s + 1\<rparr>, e))"

text \<open>The axis whose reply identifier a frame carries: the loop stops at the first match.\<close>

definition matching_axis :: "CanFrame \<Rightarrow> u32 list \<Rightarrow> nat option" where
  "matching_axis frame reply_ids = first_failure (\<lambda>r. \<not> (cf_extended frame \<or> cf_id frame \<noteq> r)) 0 reply_ids"

definition own_reply :: "CanFrame \<Rightarrow> RxState \<Rightarrow> (nat \<times> MitFeedback) option" where
  "own_reply frame s =
     (case matching_axis frame (rxs_reply_ids s) of None \<Rightarrow> None
      | Some i \<Rightarrow> map_option (\<lambda>d. (i, d)) (decodeMotorReply frame (rxs_can_ids s ! i) (rxs_limits s ! i)))"

definition forbidden_reply :: "StreamConfig \<Rightarrow> CanFrame \<Rightarrow> int option" where
  "forbidden_reply c frame =
     find (\<lambda>i. decodeMotorReply frame i default_MitLimits \<noteq> None) (sc_forbidden_reply_ids c)"

definition count_forbidden :: "StreamConfig \<Rightarrow> int \<Rightarrow> RxState \<Rightarrow> RxState" where
  "count_forbidden c i s =
     (let s = s\<lparr>rxs_forbidden_replies := rxs_forbidden_replies s + 1, rxs_forbidden_reply_id := i\<rparr>
      in notify_rx c (if rxs_fault s = kNone
           then s\<lparr>rxs_fault_axis := -1, rxs_fault := kForbiddenReply\<rparr> else s))"

definition receive_frame :: "StreamConfig \<Rightarrow> CanFrame \<Rightarrow> RxState \<times> env \<Rightarrow> RxState \<times> env" where
  "receive_frame c frame = (\<lambda>(s, e).
     let s = s\<lparr>rxs_frames := rxs_frames s + 1\<rparr>; (received_at, e) = steady_now e
     in case own_reply frame s of
       Some (i, decoded) \<Rightarrow>
         (let (s, e) = publish_reply c i decoded received_at frame (store_slot i decoded received_at frame s) e
          in trace_reply i decoded received_at frame s e)
     | None \<Rightarrow>
         (case forbidden_reply c frame of
            Some i \<Rightarrow> (count_forbidden c i s, e)
          | None \<Rightarrow> (s\<lparr>rxs_ignored := rxs_ignored s + 1\<rparr>, e)))"

text \<open>The loop: \<^verbatim>\<open>recv\<close> either times out or delivers a frame, until the stream is stopped.\<close>

definition receive_run :: "StreamConfig \<Rightarrow> CanFrame option list \<Rightarrow> RxState \<times> env \<Rightarrow> RxState \<times> env" where
  "receive_run c frames = fold (\<lambda>f s. case f of None \<Rightarrow> s | Some frame \<Rightarrow> receive_frame c frame s) frames"


section \<open>What a frame changes\<close>

definition rx_shape :: "nat \<Rightarrow> RxState \<Rightarrow> bool" where
  "rx_shape n s \<longleftrightarrow> length (rxs_can_ids s) = n \<and> length (rxs_limits s) = n \<and> length (rxs_slots s) = n \<and>
     rxs_reply_ids s = map (\<lambda>i. defaultMasterId (word_of_int i)) (rxs_can_ids s) \<and>
     length (rxs_transforms s) = n \<and> length (rxs_cache s) = n \<and> length (rxs_snapshots s) = n \<and>
     length (rxs_received_ns s) = n"

lemma notify_rx_fields [simp]:
  "rxs_slots (notify_rx c s) = rxs_slots s" "rxs_fault (notify_rx c s) = rxs_fault s"
  "rxs_fault_axis (notify_rx c s) = rxs_fault_axis s" "rxs_frames (notify_rx c s) = rxs_frames s"
  "rxs_ignored (notify_rx c s) = rxs_ignored s" "rxs_forbidden_replies (notify_rx c s) = rxs_forbidden_replies s"
  "rxs_can_ids (notify_rx c s) = rxs_can_ids s" "rxs_reply_ids (notify_rx c s) = rxs_reply_ids s"
  "rxs_limits (notify_rx c s) = rxs_limits s" "rxs_storage (notify_rx c s) = rxs_storage s"
  "rxs_snapshots (notify_rx c s) = rxs_snapshots s" "rxs_cache (notify_rx c s) = rxs_cache s"
  "rxs_transforms (notify_rx c s) = rxs_transforms s" "rxs_received_ns (notify_rx c s) = rxs_received_ns s"
  "rxs_temperature_fault_c (notify_rx c s) = rxs_temperature_fault_c s"
  by (simp_all add: notify_rx_def)

lemma check_temperature_fields [simp]:
  "rxs_slots (check_temperature c i p s) = rxs_slots s" "rxs_frames (check_temperature c i p s) = rxs_frames s"
  "rxs_ignored (check_temperature c i p s) = rxs_ignored s"
  "rxs_forbidden_replies (check_temperature c i p s) = rxs_forbidden_replies s"
  "rxs_can_ids (check_temperature c i p s) = rxs_can_ids s" "rxs_reply_ids (check_temperature c i p s) = rxs_reply_ids s"
  "rxs_limits (check_temperature c i p s) = rxs_limits s" "rxs_storage (check_temperature c i p s) = rxs_storage s"
  "rxs_snapshots (check_temperature c i p s) = rxs_snapshots s" "rxs_cache (check_temperature c i p s) = rxs_cache s"
  "rxs_transforms (check_temperature c i p s) = rxs_transforms s"
  "rxs_received_ns (check_temperature c i p s) = rxs_received_ns s"
  by (simp_all add: check_temperature_def)

lemma check_temperature_fault:
  "rxs_fault (check_temperature c i p s) =
     (if temperature_fault (af_temperature (pf_feedback p)) \<and> rxs_fault s = kNone then kTemperature else rxs_fault s)"
  "rxs_fault_axis (check_temperature c i p s) =
     (if temperature_fault (af_temperature (pf_feedback p)) \<and> rxs_fault s = kNone then int i else rxs_fault_axis s)"
  by (simp_all add: check_temperature_def)

lemma trace_reply_fields:
  assumes "trace_reply i m t f s e = (s', e')"
  shows "rxs_slots s' = rxs_slots s" "rxs_fault s' = rxs_fault s" "rxs_fault_axis s' = rxs_fault_axis s"
    "rxs_frames s' = rxs_frames s" "rxs_ignored s' = rxs_ignored s"
    "rxs_forbidden_replies s' = rxs_forbidden_replies s" "rxs_can_ids s' = rxs_can_ids s"
    "rxs_reply_ids s' = rxs_reply_ids s" "rxs_limits s' = rxs_limits s" "rxs_storage s' = rxs_storage s"
    "rxs_snapshots s' = rxs_snapshots s" "rxs_cache s' = rxs_cache s" "rxs_transforms s' = rxs_transforms s"
    "rxs_received_ns s' = rxs_received_ns s"
  using assms by (auto simp: trace_reply_def Let_def split: if_splits prod.splits)

text \<open>The effect of one frame, by what the frame is.\<close>

lemma receive_own:
  assumes "own_reply f (s\<lparr>rxs_frames := rxs_frames s + 1\<rparr>) = Some (i, m)" and "receive_frame c f (s, e) = (s', e')"
  shows "\<exists>t. rxs_slots s' = (rxs_slots s)[i := \<lparr>rs_decoded = m, rs_received_at = t,
        rs_rx_kernel_realtime_ns = cf_rx_kernel_realtime_ns f,
        rs_rx_userspace_realtime_ns = cf_rx_userspace_realtime_ns f,
        rs_sequence = rs_sequence (rxs_slots s ! i) + 1\<rparr>]"
    and "rxs_frames s' = rxs_frames s + 1" and "rxs_ignored s' = rxs_ignored s"
    and "rxs_forbidden_replies s' = rxs_forbidden_replies s"
    and "rxs_can_ids s' = rxs_can_ids s" and "rxs_reply_ids s' = rxs_reply_ids s" and "rxs_limits s' = rxs_limits s"
    and "rxs_storage s' = rxs_storage s" and "rxs_transforms s' = rxs_transforms s"
    and "length (rxs_cache s') = length (rxs_cache s)" and "length (rxs_snapshots s') = length (rxs_snapshots s)"
    and "length (rxs_received_ns s') = length (rxs_received_ns s)"
    and "rxs_fault s' = (if rxs_storage s \<and> rxs_fault s = kNone \<and>
        temperature_fault (af_temperature (convertFeedback m (rxs_transforms s ! i))) then kTemperature else rxs_fault s)"
    and "rxs_fault_axis s' = (if rxs_storage s \<and> rxs_fault s = kNone \<and>
        temperature_fault (af_temperature (convertFeedback m (rxs_transforms s ! i))) then int i else rxs_fault_axis s)"
proof -
  obtain t e1 where t: "steady_now e = (t, e1)" by fastforce
  let ?s = "s\<lparr>rxs_frames := rxs_frames s + 1\<rparr>"
  obtain s2 e2 where p: "publish_reply c i m t f (store_slot i m t f ?s) e1 = (s2, e2)" by fastforce
  have tr: "trace_reply i m t f s2 e2 = (s', e')" using assms t p by (simp add: receive_frame_def)
  note [simp] = trace_reply_fields [OF tr]
  have s2: "rxs_slots s2 = rxs_slots (store_slot i m t f ?s)" "rxs_frames s2 = rxs_frames s + 1"
    "rxs_ignored s2 = rxs_ignored s" "rxs_forbidden_replies s2 = rxs_forbidden_replies s"
    "rxs_can_ids s2 = rxs_can_ids s" "rxs_reply_ids s2 = rxs_reply_ids s" "rxs_limits s2 = rxs_limits s"
    "rxs_storage s2 = rxs_storage s" "rxs_transforms s2 = rxs_transforms s"
    "length (rxs_cache s2) = length (rxs_cache s)" "length (rxs_snapshots s2) = length (rxs_snapshots s)"
    "length (rxs_received_ns s2) = length (rxs_received_ns s)"
    using p by (auto simp: publish_reply_def store_slot_def Let_def split: if_splits prod.splits)
  have f2: "rxs_fault s2 = (if rxs_storage s \<and> rxs_fault s = kNone \<and>
        temperature_fault (af_temperature (convertFeedback m (rxs_transforms s ! i))) then kTemperature else rxs_fault s)"
    "rxs_fault_axis s2 = (if rxs_storage s \<and> rxs_fault s = kNone \<and>
        temperature_fault (af_temperature (convertFeedback m (rxs_transforms s ! i))) then int i else rxs_fault_axis s)"
    using p by (auto simp: publish_reply_def store_slot_def Let_def check_temperature_fault split: if_splits prod.splits)
  show "\<exists>t. rxs_slots s' = (rxs_slots s)[i := \<lparr>rs_decoded = m, rs_received_at = t,
        rs_rx_kernel_realtime_ns = cf_rx_kernel_realtime_ns f,
        rs_rx_userspace_realtime_ns = cf_rx_userspace_realtime_ns f,
        rs_sequence = rs_sequence (rxs_slots s ! i) + 1\<rparr>]"
    by (intro exI [of _ t]) (simp add: s2 store_slot_def)
  show "rxs_frames s' = rxs_frames s + 1" and "rxs_ignored s' = rxs_ignored s"
    and "rxs_forbidden_replies s' = rxs_forbidden_replies s"
    and "rxs_can_ids s' = rxs_can_ids s" and "rxs_reply_ids s' = rxs_reply_ids s" and "rxs_limits s' = rxs_limits s"
    and "rxs_storage s' = rxs_storage s" and "rxs_transforms s' = rxs_transforms s"
    and "length (rxs_cache s') = length (rxs_cache s)" and "length (rxs_snapshots s') = length (rxs_snapshots s)"
    and "length (rxs_received_ns s') = length (rxs_received_ns s)"
    and "rxs_fault s' = (if rxs_storage s \<and> rxs_fault s = kNone \<and>
        temperature_fault (af_temperature (convertFeedback m (rxs_transforms s ! i))) then kTemperature else rxs_fault s)"
    and "rxs_fault_axis s' = (if rxs_storage s \<and> rxs_fault s = kNone \<and>
        temperature_fault (af_temperature (convertFeedback m (rxs_transforms s ! i))) then int i else rxs_fault_axis s)"
    using s2 f2 by simp_all
qed


lemma receive_forbidden:
  assumes "own_reply f (s\<lparr>rxs_frames := rxs_frames s + 1\<rparr>) = None" and "forbidden_reply c f = Some i"
    and "receive_frame c f (s, e) = (s', e')"
  shows "rxs_slots s' = rxs_slots s" and "rxs_frames s' = rxs_frames s + 1" and "rxs_ignored s' = rxs_ignored s"
    and "rxs_forbidden_replies s' = rxs_forbidden_replies s + 1" and "rxs_forbidden_reply_id s' = i"
    and "rxs_can_ids s' = rxs_can_ids s" and "rxs_reply_ids s' = rxs_reply_ids s" and "rxs_limits s' = rxs_limits s"
    and "rxs_storage s' = rxs_storage s" and "rxs_transforms s' = rxs_transforms s" and "rxs_cache s' = rxs_cache s"
    and "rxs_snapshots s' = rxs_snapshots s" and "rxs_received_ns s' = rxs_received_ns s"
    and "rxs_fault s' = (if rxs_fault s = kNone then kForbiddenReply else rxs_fault s)"
    and "rxs_fault_axis s' = (if rxs_fault s = kNone then -1 else rxs_fault_axis s)"
  using assms by (auto simp: receive_frame_def count_forbidden_def Let_def notify_rx_def split: if_splits prod.splits)

lemma receive_other:
  assumes "own_reply f (s\<lparr>rxs_frames := rxs_frames s + 1\<rparr>) = None" and "forbidden_reply c f = None"
    and "receive_frame c f (s, e) = (s', e')"
  shows "s' = s\<lparr>rxs_frames := rxs_frames s + 1, rxs_ignored := rxs_ignored s + 1\<rparr>"
  using assms by (auto simp: receive_frame_def Let_def split: prod.splits)

lemma own_reply_Some:
  assumes "own_reply f s = Some (i, m)" and "rx_shape n s"
  shows "i < n" and "decodeMotorReply f (rxs_can_ids s ! i) (rxs_limits s ! i) = Some m"
proof -
  obtain j where j: "matching_axis f (rxs_reply_ids s) = Some j"
    and d: "map_option (\<lambda>d. (j, d)) (decodeMotorReply f (rxs_can_ids s ! j) (rxs_limits s ! j)) = Some (i, m)"
    using assms(1) by (auto simp: own_reply_def split: option.splits)
  have "j < length (rxs_reply_ids s)" using first_failure_Some [OF j [unfolded matching_axis_def]] by simp
  then show "i < n" "decodeMotorReply f (rxs_can_ids s ! i) (rxs_limits s ! i) = Some m"
    using d assms(2) by (auto simp: rx_shape_def)
qed

lemma own_reply_frames [simp]: "own_reply f (s\<lparr>rxs_frames := x\<rparr>) = own_reply f s"
  by (simp add: own_reply_def split: option.split)

lemma receive_shape:
  assumes "rx_shape n s" and "receive_frame c f (s, e) = (s', e')"
  shows "rx_shape n s'"
proof (cases "own_reply f s")
  case (Some q)
  then obtain i m where q: "own_reply f (s\<lparr>rxs_frames := rxs_frames s + 1\<rparr>) = Some (i, m)" by (cases q) auto
  from receive_own [OF q assms(2)] assms(1) show ?thesis by (auto simp: rx_shape_def)
next
  case None
  then have n: "own_reply f (s\<lparr>rxs_frames := rxs_frames s + 1\<rparr>) = None" by simp
  show ?thesis
  proof (cases "forbidden_reply c f")
    case (Some i)
    from receive_forbidden [OF n Some assms(2)] assms(1) show ?thesis by (simp add: rx_shape_def)
  next
    case None
    from receive_other [OF n None assms(2)] assms(1) show ?thesis by (simp add: rx_shape_def)
  qed
qed

text \<open>Every frame is counted once.\<close>

definition accounted :: "RxState \<Rightarrow> bool" where
  "accounted s \<longleftrightarrow> rxs_frames s = sum_list (map rs_sequence (rxs_slots s)) + rxs_forbidden_replies s + rxs_ignored s"

lemma sum_list_bump:
  "i < length xs \<Longrightarrow> sum_list (map g (xs[i := x])) + g (xs ! i) = sum_list (map g xs) + (g x :: 'b::comm_monoid_add)"
proof (induction xs arbitrary: i)
  case (Cons y ys)
  show ?case
  proof (cases i)
    case (Suc j)
    with Cons have "sum_list (map g (ys[j := x])) + g (ys ! j) = sum_list (map g ys) + g x" by simp
    with Suc show ?thesis by (simp add: ac_simps)
  qed (simp add: ac_simps)
qed simp

lemma accounted_receive:
  assumes "accounted s" and "rx_shape n s" and "receive_frame c f (s, e) = (s', e')"
  shows "accounted s'"
proof (cases "own_reply f s")
  case (Some q)
  then obtain i m where q: "own_reply f (s\<lparr>rxs_frames := rxs_frames s + 1\<rparr>) = Some (i, m)" by (cases q) auto
  then have i: "i < length (rxs_slots s)" using own_reply_Some(1) [of f s i m n] assms(2) by (simp add: rx_shape_def)
  note r = receive_own [OF q assms(3)]
  obtain t where t: "rxs_slots s' = (rxs_slots s)[i := \<lparr>rs_decoded = m, rs_received_at = t,
        rs_rx_kernel_realtime_ns = cf_rx_kernel_realtime_ns f,
        rs_rx_userspace_realtime_ns = cf_rx_userspace_realtime_ns f,
        rs_sequence = rs_sequence (rxs_slots s ! i) + 1\<rparr>]" using r(1) by blast
  have "sum_list (map rs_sequence (rxs_slots s')) + rs_sequence (rxs_slots s ! i)
      = (sum_list (map rs_sequence (rxs_slots s)) + 1) + rs_sequence (rxs_slots s ! i)"
    unfolding t sum_list_bump [OF i, of rs_sequence] by (simp add: ac_simps)
  then have "sum_list (map rs_sequence (rxs_slots s')) = sum_list (map rs_sequence (rxs_slots s)) + 1"
    by (rule add_right_imp_eq)
  with r assms(1) show ?thesis by (simp add: accounted_def)
next
  case None
  then have n: "own_reply f (s\<lparr>rxs_frames := rxs_frames s + 1\<rparr>) = None" by simp
  show ?thesis
  proof (cases "forbidden_reply c f")
    case (Some i)
    from receive_forbidden [OF n Some assms(3)] assms(1) show ?thesis by (simp add: accounted_def)
  next
    case None
    from receive_other [OF n None assms(3)] assms(1) show ?thesis by (simp add: accounted_def)
  qed
qed

lemma receive_fault_kept:
  assumes "rxs_fault s \<noteq> kNone" and "receive_frame c f (s, e) = (s', e')"
  shows "rxs_fault s' = rxs_fault s \<and> rxs_fault_axis s' = rxs_fault_axis s"
proof (cases "own_reply f s")
  case (Some q)
  then obtain i m where q: "own_reply f (s\<lparr>rxs_frames := rxs_frames s + 1\<rparr>) = Some (i, m)" by (cases q) auto
  from receive_own(13,14) [OF q assms(2)] assms(1) show ?thesis by simp
next
  case None
  then have n: "own_reply f (s\<lparr>rxs_frames := rxs_frames s + 1\<rparr>) = None" by simp
  show ?thesis
  proof (cases "forbidden_reply c f")
    case (Some i)
    from receive_forbidden [OF n Some assms(2)] assms(1) show ?thesis by simp
  next
    case None
    from receive_other [OF n None assms(2)] assms(1) show ?thesis by simp
  qed
qed

interpretation rx_latch: latch "receive_frame c"
  "\<lambda>(s, e). rxs_fault s = flt \<and> rxs_fault_axis s = axis \<and> flt \<noteq> kNone" for c flt axis
proof (unfold_locales, goal_cases)
  case (1 s f)
  obtain r e r' e' where p: "s = (r, e)" "receive_frame c f s = (r', e')"
    by (cases s; cases "receive_frame c f s")
  with 1 receive_fault_kept [of r c f e r' e'] show ?case by auto
qed

lemma receive_run_frames: "receive_run c fs s = fold (receive_frame c) (List.map_filter (\<lambda>f. f) fs) s"
  unfolding receive_run_def
  by (induction fs arbitrary: s) (auto simp: List.map_filter_def split: option.split)

text \<open>Property C38: from a fresh start, whatever frames arrive, every received frame is counted exactly
  once: as a reply in the slot of one configured motor, as a reply of a motor that must be absent,
  or as ignored.\<close>

theorem rx_frames_accounted:
  assumes "rx_shape n s" and "accounted s" and "receive_run c fs (s, e) = (s', e')"
  shows "rxs_frames s' = sum_list (map rs_sequence (rxs_slots s')) + rxs_forbidden_replies s' + rxs_ignored s' \<and>
    rx_shape n s'"
proof -
  have "rx_shape n s \<Longrightarrow> accounted s \<Longrightarrow> fold (receive_frame c) gs (s, e) = (s', e') \<Longrightarrow>
      accounted s' \<and> rx_shape n s'" for gs s e
  proof (induction gs arbitrary: s e)
    case (Cons g gs)
    obtain s1 e1 where r: "receive_frame c g (s, e) = (s1, e1)" by fastforce
    have "fold (receive_frame c) gs (s1, e1) = (s', e')" using Cons.prems(3) r by simp
    then show ?case
      using Cons.IH receive_shape [OF Cons.prems(1) r] accounted_receive [OF Cons.prems(2,1) r] by blast
  qed simp
  with assms show ?thesis by (auto simp: receive_run_frames accounted_def)
qed

text \<open>Also: a reply slot changes only by a frame of its own motor: a standard eight-byte
  frame with that motor's reply identifier whose payload names the motor. Then exactly that slot
  takes the decoded reply and its sequence advances by one; all other slots stay as they are.\<close>

theorem rx_slot_only_own_reply:
  assumes "rx_shape n s" and "receive_frame c f (s, e) = (s', e')" and "i < n"
    and "rxs_slots s' ! i \<noteq> rxs_slots s ! i"
  shows "\<not> cf_extended f \<and> cf_dlc f = 8 \<and> cf_id f = defaultMasterId (word_of_int (rxs_can_ids s ! i)) \<and>
    data8 f ! 0 = word_of_int (rxs_can_ids s ! i) \<and>
    decodeMotorReply f (rxs_can_ids s ! i) (rxs_limits s ! i) = Some (rs_decoded (rxs_slots s' ! i)) \<and>
    rs_sequence (rxs_slots s' ! i) = rs_sequence (rxs_slots s ! i) + 1 \<and>
    (\<forall>j < n. j \<noteq> i \<longrightarrow> rxs_slots s' ! j = rxs_slots s ! j)"
proof (cases "own_reply f s")
  case (Some q)
  then obtain k m where q: "own_reply f (s\<lparr>rxs_frames := rxs_frames s + 1\<rparr>) = Some (k, m)" by (cases q) auto
  then have q': "own_reply f s = Some (k, m)" by simp
  note k = own_reply_Some [OF q' assms(1)]
  obtain t where t: "rxs_slots s' = (rxs_slots s)[k := \<lparr>rs_decoded = m, rs_received_at = t,
        rs_rx_kernel_realtime_ns = cf_rx_kernel_realtime_ns f,
        rs_rx_userspace_realtime_ns = cf_rx_userspace_realtime_ns f,
        rs_sequence = rs_sequence (rxs_slots s ! k) + 1\<rparr>]" using receive_own(1) [OF q assms(2)] by blast
  have l: "length (rxs_slots s) = n" using assms(1) by (simp add: rx_shape_def)
  have "k = i" using assms(4) t by (metis nth_list_update_neq)
  with k t l decodeMotorReply_Some [OF k(2)] show ?thesis by auto
next
  case None
  then have n: "own_reply f (s\<lparr>rxs_frames := rxs_frames s + 1\<rparr>) = None" by simp
  show ?thesis
  proof (cases "forbidden_reply c f")
    case (Some j)
    from receive_forbidden(1) [OF n Some assms(2)] assms(4) show ?thesis by simp
  next
    case None
    from receive_other [OF n None assms(2)] assms(4) show ?thesis by simp
  qed
qed

text \<open>Also: a reply that reads too hot or has no healthy sensor (with direct feedback), and
  any reply of a motor that must be absent, raises the receive fault; the first fault keeps its kind
  and axis for the rest of the stream.\<close>

theorem rx_fault_first_and_final:
  assumes "receive_frame c f (s, e) = (s1, e1)" and "receive_run c fs (s1, e1) = (s', e')"
    and "(\<exists>i m. own_reply f s = Some (i, m) \<and> rxs_storage s \<and>
            temperature_fault (af_temperature (convertFeedback m (rxs_transforms s ! i)))) \<or>
         own_reply f s = None \<and> forbidden_reply c f \<noteq> None"
  shows "rxs_fault s' \<noteq> kNone \<and> rxs_fault s' = rxs_fault s1 \<and> rxs_fault_axis s' = rxs_fault_axis s1 \<and>
    (rxs_fault s \<noteq> kNone \<longrightarrow> rxs_fault s' = rxs_fault s)"
proof -
  have f: "rxs_fault s1 \<noteq> kNone"
  proof (cases "own_reply f s")
    case (Some q)
    then obtain i m where q: "own_reply f (s\<lparr>rxs_frames := rxs_frames s + 1\<rparr>) = Some (i, m)" by (cases q) auto
    from receive_own(13) [OF q assms(1)] assms(3) q show ?thesis by (auto split: if_splits)
  next
    case None
    then obtain j where j: "forbidden_reply c f = Some j" using assms(3) by auto
    from None have n: "own_reply f (s\<lparr>rxs_frames := rxs_frames s + 1\<rparr>) = None" by simp
    from receive_forbidden(14) [OF n j assms(1)] show ?thesis by (simp split: if_splits)
  qed
  have "rxs_fault s \<noteq> kNone \<Longrightarrow> rxs_fault s1 = rxs_fault s" using receive_fault_kept [OF _ assms(1)] by blast
  with f rx_latch.latched_run [of "rxs_fault s1" "rxs_fault_axis s1" "(s1, e1)" c "List.map_filter (\<lambda>f. f) fs"] assms(2)
  show ?thesis by (auto simp: receive_run_frames)
qed

section \<open>Witnesses\<close>

definition sample_rx :: "int \<Rightarrow> RxState" where
  "sample_rx i = \<lparr>rxs_can_ids = [i], rxs_reply_ids = [defaultMasterId (word_of_int i)], rxs_limits = [default_MitLimits],
     rxs_slots = [\<lparr>rs_decoded = one_sensor_feedback, rs_received_at = 0, rs_rx_kernel_realtime_ns = 0,
       rs_rx_userspace_realtime_ns = 0, rs_sequence = 0\<rparr>],
     rxs_storage = True, rxs_transforms = [feedbackTransform sample_driver], rxs_cache = [default_PublishedFeedback],
     rxs_snapshots = [None], rxs_received_ns = [0], rxs_fault = kNone, rxs_fault_axis = -1,
     rxs_temperature_fault_c = 0, rxs_temperature_fault_received_ns = 0, rxs_forbidden_replies = 0,
     rxs_forbidden_reply_id = 0, rxs_frames = 0, rxs_ignored = 0, rxs_notified = 0, rxs_origin = 0,
     rxs_rows = [], rxs_row_count = 0\<rparr>"

lemma sample_rx_shape: "rx_shape 1 (sample_rx i)" "accounted (sample_rx i)"
  by (simp_all add: rx_shape_def accounted_def sample_rx_def)

lemma sample_reply_default: "\<exists>m. decodeMotorReply sample_reply 2 default_MitLimits = Some m"
  by (simp add: decodeMotorReply_def sample_reply_def default_CanFrame_def feedback_payload_def defaultMasterId_def
      data8_setData decodeFeedback_def validateLimits_def default_limits_values)

lemma sample_reply_own: "\<exists>m. own_reply sample_reply (sample_rx 2) = Some (0, m)"
  using sample_reply_default
  by (auto simp: own_reply_def matching_axis_def sample_rx_def sample_reply_def default_CanFrame_def defaultMasterId_def)

lemma sample_reply_foreign: "own_reply sample_reply (sample_rx 1) = None"
  by (simp add: own_reply_def matching_axis_def sample_rx_def sample_reply_def default_CanFrame_def defaultMasterId_def)

theorem rx_frames_accounted_witness:
  "\<exists>s' e'. receive_run default_StreamConfig [Some sample_reply, None] (sample_rx 2, silent_env) = (s', e') \<and>
     rxs_frames s' = sum_list (map rs_sequence (rxs_slots s')) + rxs_forbidden_replies s' + rxs_ignored s'"
proof -
  obtain s' e' where r: "receive_run default_StreamConfig [Some sample_reply, None] (sample_rx 2, silent_env) = (s', e')"
    by fastforce
  from rx_frames_accounted [OF sample_rx_shape r] r show ?thesis by blast
qed

theorem rx_slot_only_own_reply_witness:
  "\<exists>s' e'. receive_frame default_StreamConfig sample_reply (sample_rx 2, silent_env) = (s', e') \<and>
     rs_sequence (rxs_slots s' ! 0) = 1 \<and> data8 sample_reply ! 0 = 2"
proof -
  obtain s' e' where r: "receive_frame default_StreamConfig sample_reply (sample_rx 2, silent_env) = (s', e')" by fastforce
  obtain m where "own_reply sample_reply ((sample_rx 2)\<lparr>rxs_frames := rxs_frames (sample_rx 2) + 1\<rparr>) = Some (0, m)"
    using sample_reply_own by auto
  from receive_own(1) [OF this r] have "rs_sequence (rxs_slots s' ! 0) = 1" by (auto simp: sample_rx_def)
  then have "rxs_slots s' ! 0 \<noteq> rxs_slots (sample_rx 2) ! 0" by (auto simp: sample_rx_def)
  from rx_slot_only_own_reply [OF sample_rx_shape(1) r _ this] r show ?thesis by (auto simp: sample_rx_def)
qed

theorem rx_fault_first_and_final_witness:
  "\<exists>s' e'. receive_frame (default_StreamConfig\<lparr>sc_forbidden_reply_ids := [2]\<rparr>) sample_reply (sample_rx 1, silent_env) = (s', e') \<and>
     rxs_fault s' \<noteq> kNone"
proof -
  let ?c = "default_StreamConfig\<lparr>sc_forbidden_reply_ids := [2]\<rparr>"
  obtain s' e' where r: "receive_frame ?c sample_reply (sample_rx 1, silent_env) = (s', e')" by fastforce
  have "forbidden_reply ?c sample_reply \<noteq> None" using sample_reply_default by (auto simp: forbidden_reply_def)
  with rx_fault_first_and_final [OF r, of "[]" s' e'] r sample_reply_foreign show ?thesis by (simp add: receive_run_def)
qed

end
