(* ===== verification/Write_Schedule.thy ===== *)
theory Write_Schedule
  imports Prelude
begin

text \<open>
  The timing policy of write-triggered transmission (\<^verbatim>\<open>write_schedule.hpp\<close>): when a published batch may
  be sent, when the last one is sent again, and what a transmission records.
\<close>

section \<open>Model\<close>

record WriteSchedule =
  ws_period_ns :: ns
  ws_grace_ns :: ns
  ws_sequence :: u64
  ws_sent_sequence :: u64
  ws_published_ns :: ns
  ws_last_send_ns :: ns
  ws_resend_ns :: ns
  ws_last_was_resend :: bool

definition new_schedule :: "ns \<Rightarrow> ns \<Rightarrow> WriteSchedule" where
  "new_schedule period grace = \<lparr>ws_period_ns = period, ws_grace_ns = grace, ws_sequence = 0,
     ws_sent_sequence = 0, ws_published_ns = 0, ws_last_send_ns = 0, ws_resend_ns = 0,
     ws_last_was_resend = False\<rparr>"

definition published :: "u64 \<Rightarrow> ns \<Rightarrow> WriteSchedule \<Rightarrow> WriteSchedule" where
  "published sq t w = w\<lparr>ws_sequence := sq, ws_published_ns := t,
     ws_resend_ns := t + ws_period_ns w + ws_grace_ns w\<rparr>"

definition pending :: "WriteSchedule \<Rightarrow> bool" where
  "pending w \<longleftrightarrow> ws_sequence w \<noteq> ws_sent_sequence w"

text \<open>Integer division of the sources' language rounds towards zero.\<close>

definition half :: "ns \<Rightarrow> ns" where
  "half p = (if 0 \<le> p then p div 2 else - ((- p) div 2))"

definition earliestSend :: "WriteSchedule \<Rightarrow> ns" where
  "earliestSend w = ws_last_send_ns w + half (ws_period_ns w)"

definition held :: "ns \<Rightarrow> WriteSchedule \<Rightarrow> bool" where
  "held now w \<longleftrightarrow> ws_last_send_ns w \<noteq> 0 \<and> now < earliestSend w"

definition resendDue :: "ns \<Rightarrow> WriteSchedule \<Rightarrow> bool" where
  "resendDue now w \<longleftrightarrow> \<not> pending w \<and> ws_resend_ns w \<le> now"

definition sent :: "ns \<Rightarrow> bool \<Rightarrow> WriteSchedule \<Rightarrow> WriteSchedule" where
  "sent t resend w =
     (let w = w\<lparr>ws_last_send_ns := t, ws_last_was_resend := resend, ws_sent_sequence := ws_sequence w\<rparr>
      in if resend then w\<lparr>ws_resend_ns := t + ws_period_ns w\<rparr> else w)"

section \<open>Runs under the policy\<close>

text \<open>
  The events of a sender that follows the policy: publications, first transmissions of a pending
  batch (or, before any publication, of the bootstrap command) and repeated transmissions that are
  due, each at its time, none while held.
\<close>

datatype ScheduleEvent = Publish u64 ns | First ns | Again ns

fun event_time :: "ScheduleEvent \<Rightarrow> ns" where
  "event_time (Publish sq t) = t"
| "event_time (First t) = t"
| "event_time (Again t) = t"

fun allowed :: "ScheduleEvent \<Rightarrow> WriteSchedule \<Rightarrow> bool" where
  "allowed (Publish sq t) w \<longleftrightarrow> True"
| "allowed (First t) w \<longleftrightarrow> 0 < t \<and> (pending w \<or> ws_sequence w = 0) \<and> \<not> held t w"
| "allowed (Again t) w \<longleftrightarrow> 0 < t \<and> resendDue t w \<and> \<not> held t w"

fun schedule_event :: "ScheduleEvent \<Rightarrow> WriteSchedule \<Rightarrow> WriteSchedule" where
  "schedule_event (Publish sq t) w = published sq t w"
| "schedule_event (First t) w = sent t False w"
| "schedule_event (Again t) w = sent t True w"

fun obeys :: "ScheduleEvent list \<Rightarrow> WriteSchedule \<Rightarrow> bool" where
  "obeys [] w \<longleftrightarrow> True"
| "obeys (v # vs) w \<longleftrightarrow> allowed v w \<and> obeys vs (schedule_event v w)"

fun send_times :: "ScheduleEvent list \<Rightarrow> ns list" where
  "send_times [] = []"
| "send_times (Publish sq t # vs) = send_times vs"
| "send_times (First t # vs) = t # send_times vs"
| "send_times (Again t # vs) = t # send_times vs"

fun spaced :: "ns \<Rightarrow> ns list \<Rightarrow> bool" where
  "spaced d (s # t # ts) \<longleftrightarrow> s + d \<le> t \<and> spaced d (t # ts)"
| "spaced d _ \<longleftrightarrow> True"

lemmas schedule_defs = published_def sent_def pending_def earliestSend_def held_def resendDue_def Let_def

lemma schedule_event_config [simp]:
  "ws_period_ns (schedule_event v w) = ws_period_ns w" "ws_grace_ns (schedule_event v w) = ws_grace_ns w"
  by (cases v; simp add: schedule_defs)+

lemma spaced_cons: "spaced d (t # ts) \<longleftrightarrow> (ts = [] \<or> t + d \<le> hd ts) \<and> spaced d ts"
  by (cases ts) auto

lemma first_send_after:
  "obeys vs w \<Longrightarrow> ws_last_send_ns w \<noteq> 0 \<Longrightarrow> send_times vs \<noteq> [] \<Longrightarrow> earliestSend w \<le> hd (send_times vs)"
proof (induction vs arbitrary: w)
  case (Cons v vs)
  show ?case
  proof (cases v)
    case (Publish sq t)
    with Cons.prems Cons.IH [of "published sq t w"] show ?thesis by (simp add: schedule_defs)
  qed (use Cons.prems in \<open>auto simp: schedule_defs\<close>)
qed simp

lemma sends_spaced: "obeys vs w \<Longrightarrow> spaced (half (ws_period_ns w)) (send_times vs)"
proof (induction vs arbitrary: w)
  case (Cons v vs)
  have IH: "spaced (half (ws_period_ns w)) (send_times vs)"
    using Cons.IH [of "schedule_event v w"] Cons.prems by simp
  show ?case
  proof (cases v)
    case (Publish sq t)
    with IH show ?thesis by simp
  next
    case (First t)
    with Cons.prems have "0 < t" "obeys vs (sent t False w)" by auto
    then have "send_times vs = [] \<or> t + half (ws_period_ns w) \<le> hd (send_times vs)"
      using first_send_after [of vs "sent t False w"] by (auto simp: schedule_defs)
    with IH First show ?thesis by (simp add: spaced_cons)
  next
    case (Again t)
    with Cons.prems have "0 < t" "obeys vs (sent t True w)" by auto
    then have "send_times vs = [] \<or> t + half (ws_period_ns w) \<le> hd (send_times vs)"
      using first_send_after [of vs "sent t True w"] by (auto simp: schedule_defs)
    with IH Again show ?thesis by (simp add: spaced_cons)
  qed
qed simp

text \<open>Property C29: a sender that follows the policy never transmits twice within half a period,
  however publications and repetitions interleave.\<close>

theorem write_sends_spaced:
  assumes "obeys vs (new_schedule period grace)"
  shows "spaced (half period) (send_times vs)"
  using sends_spaced [OF assms] by (simp add: new_schedule_def)

theorem write_sends_spaced_witness:
  "spaced (half 10) (send_times [Publish 1 100, First 101, Publish 2 103, First 106, Again 116])"
  by (rule write_sends_spaced [of _ _ 3]) (simp add: schedule_defs new_schedule_def half_def)

end
