(* ===== verification/Stream_Send.thy ===== *)
theory Stream_Send
  imports Stream_Receive Write_Schedule
begin

text \<open>
  The periodic send thread of a bus stream (\<^verbatim>\<open>sendLoop\<close> of \<^verbatim>\<open>src/bus_streamer.cpp\<close>). One cycle is one
  function, composed of the phases of the loop body in their order: taking the reply slots, applying
  feedback and checking its age, the faults found by the receive thread, the age of the owner's
  command, the skip rules, the commands, their encoding, the transmission and the bookkeeping. What
  other threads can change between two reads (the stop flags, the slots, the command time stamp) is
  input: the flags are scripts that the reads consume, everything else arrives with the cycle.
\<close>

section \<open>Data\<close>

record StreamCommand =
  cm_position :: double
  cm_velocity :: double
  cm_kp :: double
  cm_kd :: double
  cm_effort :: double
  cm_sequence :: u64
  cm_published_ns :: ns

definition default_StreamCommand :: StreamCommand where
  "default_StreamCommand = \<lparr>cm_position = 0, cm_velocity = 0, cm_kp = 0, cm_kd = 0, cm_effort = 0,
     cm_sequence = 0, cm_published_ns = 0\<rparr>"

record StreamFeedback =
  sf_feedback :: ActuatorFeedback
  sf_updated :: bool
  sf_age_ms :: double
  sf_sequence :: u64
  sf_received_ns :: ns

datatype StreamCycleOutcome =
  kSent | kSkippedLate | kSkippedBurst | kExpiredAfterHook | kPartial | kStopped

record StreamStats =
  ss_cycles :: u64
  ss_skipped_cycles :: u64
  ss_partial_cycles :: u64
  ss_frames_sent :: u64
  ss_replies :: "u64 list"
  ss_cycles_without_new_reply :: "u64 list"
  ss_max_age_ms :: "double list"
  ss_max_command_age_ms :: double
  ss_command_stale_zero_gain_frames :: nat
  ss_command_stale_expected_frames :: nat
  ss_resends :: u64
  ss_command_snapshot_failures :: u64
  ss_command_coalesced :: u64
  ss_minimum_interval_holds :: u64
  ss_writes_after_resend :: u64
  ss_resend_command_holds :: u64
  ss_new_command_holds :: u64
  ss_bootstrap_command_holds :: u64
  ss_max_hold_ns :: ns
  ss_feedback_stale_at_stop :: bool
  ss_received_fault_at_stop :: StreamFault
  ss_forbidden_replies :: u64
  ss_forbidden_reply_id :: int
  ss_stopped_externally :: bool
  ss_fault :: StreamFault
  ss_fault_axis :: int

text \<open>The send thread's variables. \<open>tx_runs\<close> and \<open>tx_stops\<close> are what its successive reads of the running
  flag and of the other threads' stop flag will find; a run script that is used up reads as stopped.\<close>

record TxState =
  tx_drivers :: "BxiActuatorDriver list"
  tx_can_ids :: "int list"
  tx_block_count :: nat
  tx_padding :: "u8 list"
  tx_feedback :: "StreamFeedback list"
  tx_commands :: "StreamCommand list"
  tx_latest :: "ReplySlot list"
  tx_seen_sequence :: "u64 list"
  tx_last_reply :: "ns list"
  tx_has_reply :: "bool list"
  tx_first_send :: ns
  tx_last_send :: ns
  tx_sent_any :: bool
  tx_sent_previous_cycle :: bool
  tx_stop_all :: bool
  tx_runs :: "bool list"
  tx_stops :: "bool list"
  tx_stats :: StreamStats
  tx_outcome :: StreamCycleOutcome

text \<open>What a cycle finds: the reply slots and forbidden replies under the lock, the receive fault, the
  owner's last command time, and the owner's hook.\<close>

record CycleInput =
  ci_slots :: "ReplySlot list"
  ci_forbidden_replies :: u64
  ci_forbidden_reply_id :: int
  ci_rx_fault :: StreamFault
  ci_rx_fault_axis :: int
  ci_command_written_ns :: ns
  ci_hook :: "StreamFeedback list \<Rightarrow> StreamCommand list \<Rightarrow> bool \<times> StreamCommand list"

datatype LoopExit = Continue | Break

section \<open>Flags and faults\<close>

definition running :: "TxState \<Rightarrow> bool \<times> TxState" where
  "running s = (case tx_runs s of [] \<Rightarrow> (False, s) | b # bs \<Rightarrow> (b, s\<lparr>tx_runs := bs\<rparr>))"

definition stop_requested :: "TxState \<Rightarrow> bool \<times> TxState" where
  "stop_requested s = (case tx_stops s of [] \<Rightarrow> (tx_stop_all s, s)
     | b # bs \<Rightarrow> (tx_stop_all s \<or> b, s\<lparr>tx_stop_all := tx_stop_all s \<or> b, tx_stops := bs\<rparr>))"

definition fault :: "StreamFault \<Rightarrow> int \<Rightarrow> TxState \<Rightarrow> TxState" where
  "fault kind axis s =
     s\<lparr>tx_stats := (tx_stats s)\<lparr>ss_fault := kind, ss_fault_axis := axis\<rparr>, tx_stop_all := True\<rparr>"

definition toMilliseconds :: "ns \<Rightarrow> double" where
  "toMilliseconds d = dint d / dlit 1000000"

definition latch_driver :: "nat \<Rightarrow> TxState \<times> env \<Rightarrow> TxState \<times> env" where
  "latch_driver i = (\<lambda>(s, e). let (d, e) = latchCommunicationFault (tx_drivers s ! i) e
     in (s\<lparr>tx_drivers := (tx_drivers s)[i := d]\<rparr>, e))"

definition external_stop :: "TxState \<Rightarrow> TxState" where
  "external_stop s = s\<lparr>tx_stats := (tx_stats s)\<lparr>ss_stopped_externally := True\<rparr>\<rparr>"

section \<open>Feedback\<close>

text \<open>The slots that changed since they were last seen.\<close>

definition take_slots :: "CycleInput \<Rightarrow> TxState \<Rightarrow> bool list \<times> TxState" where
  "take_slots inp s =
     (let n = length (tx_drivers s);
          fresh = map (\<lambda>i. rs_sequence (ci_slots inp ! i) \<noteq> tx_seen_sequence s ! i) [0..<n]
      in (fresh, s\<lparr>tx_latest := map (\<lambda>i. if fresh ! i then ci_slots inp ! i else tx_latest s ! i) [0..<n],
                   tx_seen_sequence := map (\<lambda>i. if fresh ! i then rs_sequence (ci_slots inp ! i)
                                                else tx_seen_sequence s ! i) [0..<n]\<rparr>))"

definition apply_axis :: "bool \<Rightarrow> nat \<Rightarrow> TxState \<Rightarrow> TxState" where
  "apply_axis is_fresh i s =
     (let s = s\<lparr>tx_feedback := (tx_feedback s)[i := (tx_feedback s ! i)\<lparr>sf_updated := is_fresh\<rparr>]\<rparr>
      in if is_fresh then
        (let slot = tx_latest s ! i;
             (applied, d) = applyFeedback (tx_drivers s ! i) (rs_decoded slot);
             applied = applied\<lparr>af_rx_kernel_realtime_ns := rs_rx_kernel_realtime_ns slot,
                               af_rx_userspace_realtime_ns := rs_rx_userspace_realtime_ns slot\<rparr>
         in s\<lparr>tx_drivers := (tx_drivers s)[i := d],
              tx_feedback := (tx_feedback s)[i := (tx_feedback s ! i)\<lparr>sf_feedback := applied,
                sf_sequence := tx_seen_sequence s ! i, sf_received_ns := rs_received_at slot\<rparr>],
              tx_last_reply := (tx_last_reply s)[i := rs_received_at slot],
              tx_has_reply := (tx_has_reply s)[i := True],
              tx_stats := (tx_stats s)\<lparr>ss_replies := (ss_replies (tx_stats s))[i := tx_seen_sequence s ! i]\<rparr>\<rparr>)
      else if tx_sent_previous_cycle s then
        s\<lparr>tx_stats := (tx_stats s)\<lparr>ss_cycles_without_new_reply := (ss_cycles_without_new_reply (tx_stats s))
            [i := ss_cycles_without_new_reply (tx_stats s) ! i + 1]\<rparr>\<rparr>
      else s)"

definition reply_age :: "ns \<Rightarrow> nat \<Rightarrow> TxState \<Rightarrow> ns" where
  "reply_age now i s = now - (if tx_has_reply s ! i then tx_last_reply s ! i else tx_first_send s)"

definition check_axis_age :: "StreamConfig \<Rightarrow> ns \<Rightarrow> nat \<Rightarrow> bool \<times> TxState \<times> env \<Rightarrow> bool \<times> TxState \<times> env" where
  "check_axis_age c now i = (\<lambda>(faulted, s, e).
     if \<not> tx_sent_any s then (faulted, s, e)
     else let age = reply_age now i s; age_ms = toMilliseconds age;
              s = s\<lparr>tx_feedback := (tx_feedback s)[i := (tx_feedback s ! i)\<lparr>sf_age_ms := age_ms\<rparr>],
                    tx_stats := (tx_stats s)\<lparr>ss_max_age_ms := (ss_max_age_ms (tx_stats s))
                      [i := dmax (ss_max_age_ms (tx_stats s) ! i) age_ms]\<rparr>\<rparr>
     in if \<not> faulted \<and> sc_max_feedback_age c < age
        then (let (s, e) = latch_driver i (s, e) in (True, fault kFeedbackStale (int i) s, e))
        else (faulted, s, e))"

definition feedback_axis ::
  "StreamConfig \<Rightarrow> ns \<Rightarrow> bool list \<Rightarrow> nat \<Rightarrow> bool \<times> TxState \<times> env \<Rightarrow> bool \<times> TxState \<times> env" where
  "feedback_axis c now fresh i = (\<lambda>(faulted, s, e).
     check_axis_age c now i (faulted, apply_axis (fresh ! i) i s, e))"

definition received_faults :: "StreamConfig \<Rightarrow> CycleInput \<Rightarrow> bool \<times> TxState \<Rightarrow> bool \<times> TxState" where
  "received_faults c inp = (\<lambda>(faulted, s).
     let (faulted, s) = (if \<not> faulted \<and> sc_direct_feedback c \<and> ci_rx_fault inp = kTemperature
           then (True, fault kTemperature (ci_rx_fault_axis inp) s) else (faulted, s))
     in if \<not> faulted \<and> 0 < ci_forbidden_replies inp
        then (True, fault kForbiddenReply (-1) (s\<lparr>tx_stats := (tx_stats s)
               \<lparr>ss_forbidden_replies := ci_forbidden_replies inp, ss_forbidden_reply_id := ci_forbidden_reply_id inp\<rparr>\<rparr>))
        else (faulted, s))"

definition feedback_phase :: "StreamConfig \<Rightarrow> CycleInput \<Rightarrow> ns \<Rightarrow> TxState \<times> env \<Rightarrow> bool \<times> TxState \<times> env" where
  "feedback_phase c inp now = (\<lambda>(s, e).
     let (fresh, s) = take_slots inp s;
         (faulted, s, e) = fold (feedback_axis c now fresh) [0..<length (tx_drivers s)] (False, s, e);
         (faulted, s) = received_faults c inp (faulted, s)
     in (faulted, s, e))"

section \<open>Commands\<close>

definition command_age_check :: "StreamConfig \<Rightarrow> CycleInput \<Rightarrow> ns \<Rightarrow> TxState \<Rightarrow> bool \<times> TxState" where
  "command_age_check c inp now s =
     (let last_command_ns = (if 0 < sc_max_command_age c then ci_command_written_ns inp else 0)
      in if last_command_ns = 0 then (False, s)
         else let age = now - last_command_ns
         in (sc_max_command_age c < age,
             s\<lparr>tx_stats := (tx_stats s)\<lparr>ss_max_command_age_ms :=
                 dmax (ss_max_command_age_ms (tx_stats s)) (toMilliseconds age)\<rparr>\<rparr>))"

definition zero_gain_command :: "StreamFeedback \<Rightarrow> StreamCommand" where
  "zero_gain_command f = default_StreamCommand\<lparr>cm_position := af_position (sf_feedback f)\<rparr>"

fun encode_blocks ::
  "BxiActuatorDriver list \<Rightarrow> int list \<Rightarrow> StreamCommand list \<Rightarrow> nat \<Rightarrow> nat + (int \<times> u8 list) list" where
  "encode_blocks (d # ds) (i # ids) (cmd # cmds) k =
     (case encodeControlBlock d (cm_position cmd) (cm_velocity cmd) (cm_kp cmd) (cm_kd cmd) (cm_effort cmd) of
        None \<Rightarrow> Inl k
      | Some block \<Rightarrow> (case encode_blocks ds ids cmds (Suc k) of Inl j \<Rightarrow> Inl j | Inr bs \<Rightarrow> Inr ((i, block) # bs)))"
| "encode_blocks _ _ _ k = Inr []"

section \<open>Transmission\<close>

definition may_send :: "StreamConfig \<Rightarrow> ns \<Rightarrow> bool \<Rightarrow> TxState \<times> env \<Rightarrow> bool \<times> TxState \<times> env" where
  "may_send c target command_stale = (\<lambda>(s, e).
     let (run, s) = running s
     in if \<not> run then (False, s, e)
     else let (stop, s) = stop_requested s
     in if stop then (False, s, e)
     else if command_stale then (True, s, e)
     else let (now, e) = steady_now e in (now < target + sc_period c, s, e))"

record SendResult =
  sr_frames :: nat
  sr_window_closed :: bool
  sr_faulted :: bool
  sr_send_time :: ns

definition send_broadcast ::
  "StreamConfig \<Rightarrow> ns \<Rightarrow> bool \<Rightarrow> (int \<times> u8 list) list \<Rightarrow> TxState \<times> env \<Rightarrow> SendResult \<times> TxState \<times> env" where
  "send_broadcast c target command_stale blocks = (\<lambda>(s, e).
     let (ok, s, e) = may_send c target command_stale (s, e)
     in if \<not> ok then (\<lparr>sr_frames = 0, sr_window_closed = True, sr_faulted = False, sr_send_time = 0\<rparr>, s, e)
     else let (send_time, e) = steady_now e;
              (success, e) = (case buildBroadcastFrame blocks (tx_block_count s) (tx_padding s) of
                 None \<Rightarrow> (False, e) | Some frame \<Rightarrow> bus_send frame e)
     in if \<not> success then
          (let (s, e) = fold latch_driver [0..<length (tx_drivers s)] (s, e)
           in (\<lparr>sr_frames = 0, sr_window_closed = False, sr_faulted = True, sr_send_time = send_time\<rparr>,
               fault kSendFailed (-1) s, e))
        else (\<lparr>sr_frames = 1, sr_window_closed = False, sr_faulted = False, sr_send_time = send_time\<rparr>, s, e))"

fun send_unicast ::
  "StreamConfig \<Rightarrow> ns \<Rightarrow> bool \<Rightarrow> (int \<times> u8 list) list \<Rightarrow> nat \<Rightarrow> ns \<Rightarrow> TxState \<times> env \<Rightarrow> SendResult \<times> TxState \<times> env" where
  "send_unicast c target command_stale [] i send_time (s, e) =
     (\<lparr>sr_frames = i, sr_window_closed = False, sr_faulted = False, sr_send_time = send_time\<rparr>, s, e)"
| "send_unicast c target command_stale ((can_id, block) # blocks) i send_time (s, e) =
     (let (ok, s, e) = may_send c target command_stale (s, e)
      in if \<not> ok then (\<lparr>sr_frames = i, sr_window_closed = True, sr_faulted = False, sr_send_time = send_time\<rparr>, s, e)
      else let (send_time, e) = (if i = 0 then steady_now e else (send_time, e));
               (success, e) = bus_send (motor_frame can_id block) e
      in if \<not> success then
           (let (s, e) = latch_driver i (s, e)
            in (\<lparr>sr_frames = i, sr_window_closed = False, sr_faulted = True, sr_send_time = send_time\<rparr>,
                fault kSendFailed (int i) s, e))
         else send_unicast c target command_stale blocks (Suc i) send_time (s, e))"

definition transmit ::
  "StreamConfig \<Rightarrow> ns \<Rightarrow> bool \<Rightarrow> (int \<times> u8 list) list \<Rightarrow> TxState \<times> env \<Rightarrow> SendResult \<times> TxState \<times> env" where
  "transmit c target command_stale blocks se =
     (if sc_broadcast c then send_broadcast c target command_stale blocks se
      else send_unicast c target command_stale blocks 0 0 se)"

section \<open>The cycle\<close>

definition bump_skipped :: "StreamCycleOutcome \<Rightarrow> TxState \<Rightarrow> TxState" where
  "bump_skipped outcome s =
     s\<lparr>tx_outcome := outcome, tx_stats := (tx_stats s)\<lparr>ss_skipped_cycles := ss_skipped_cycles (tx_stats s) + 1\<rparr>\<rparr>"

text \<open>What the cycle records about its transmission before it decides how to go on.\<close>

definition record_send :: "StreamConfig \<Rightarrow> bool \<Rightarrow> SendResult \<Rightarrow> TxState \<Rightarrow> TxState" where
  "record_send c command_stale r s =
     (let st = tx_stats s;
          st = st\<lparr>ss_frames_sent := ss_frames_sent st + of_nat (sr_frames r)\<rparr>;
          st = (if command_stale then st\<lparr>ss_command_stale_zero_gain_frames := sr_frames r,
                  ss_command_stale_expected_frames := (if sc_broadcast c then 1 else length (tx_drivers s))\<rparr> else st);
          s = s\<lparr>tx_stats := st\<rparr>
      in if 0 < sr_frames r
         then s\<lparr>tx_first_send := (if tx_sent_any s then tx_first_send s else sr_send_time r), tx_sent_any := True,
                tx_last_send := sr_send_time r\<rparr>
         else s)"

definition conclude :: "bool \<Rightarrow> SendResult \<Rightarrow> TxState \<times> env \<Rightarrow> LoopExit \<times> TxState \<times> env" where
  "conclude command_stale r = (\<lambda>(s, e).
     if sr_faulted r then (Break, s\<lparr>tx_outcome := kStopped\<rparr>, e)
     else if command_stale then
       (Break, (if sr_window_closed r then external_stop s else fault kCommandStale (-1) s)\<lparr>tx_outcome := kStopped\<rparr>, e)
     else if sr_window_closed r then
       (let (stop, s) = stop_requested s
        in if stop then (Break, external_stop (s\<lparr>tx_outcome := kStopped\<rparr>), e)
        else if sr_frames r = 0
        then (Continue, (bump_skipped kExpiredAfterHook s)\<lparr>tx_sent_previous_cycle := False\<rparr>, e)
        else (Continue, s\<lparr>tx_outcome := kPartial, tx_sent_previous_cycle := True,
               tx_stats := (tx_stats s)\<lparr>ss_partial_cycles := ss_partial_cycles (tx_stats s) + 1\<rparr>\<rparr>, e))
     else (Continue, s\<lparr>tx_outcome := kSent, tx_sent_previous_cycle := True,
             tx_stats := (tx_stats s)\<lparr>ss_cycles := ss_cycles (tx_stats s) + 1\<rparr>\<rparr>, e))"

definition command_phase ::
  "StreamConfig \<Rightarrow> CycleInput \<Rightarrow> ns \<Rightarrow> bool \<Rightarrow> TxState \<times> env \<Rightarrow> LoopExit \<times> TxState \<times> env" where
  "command_phase c inp target command_stale = (\<lambda>(s, e).
     let (hook_ok, commands, e) =
       (if command_stale then (True, map zero_gain_command (tx_feedback s), e)
        else let (_, e) = steady_now e; (ok, commands) = ci_hook inp (tx_feedback s) (tx_commands s)
             in (ok, commands, e));
         s = s\<lparr>tx_commands := commands\<rparr>
     in if \<not> hook_ok then (Break, fault kOwnerRequested (-1) (s\<lparr>tx_outcome := kStopped\<rparr>), e)
     else case encode_blocks (tx_drivers s) (tx_can_ids s) commands 0 of
       Inl i \<Rightarrow> (Break, (fault kEncodeFailed (int i) s)\<lparr>tx_outcome := kStopped\<rparr>, e)
     | Inr blocks \<Rightarrow>
         (let (r, s, e) = transmit c target command_stale blocks (s, e)
          in conclude command_stale r (record_send c command_stale r s, e)))"

definition sleep_until :: "ns \<Rightarrow> env \<Rightarrow> env" where
  "sleep_until target e = e\<lparr>clk := max (clk e) target\<rparr>"

definition send_cycle ::
  "StreamConfig \<Rightarrow> ns \<Rightarrow> CycleInput \<Rightarrow> TxState \<times> env \<Rightarrow> LoopExit \<times> TxState \<times> env" where
  "send_cycle c target inp = (\<lambda>(s, e).
     let (run, s) = running s
     in if \<not> run then (Break, s, e)
     else let e = sleep_until target e; (run, s) = running s
     in if \<not> run then (Break, s, e)
     else let (stop, s) = stop_requested s
     in if stop then (Break, external_stop s, e)
     else let (now, e) = steady_now e; (faulted, s, e) = feedback_phase c inp now (s, e)
     in if faulted then (Break, s\<lparr>tx_outcome := kStopped\<rparr>, e)
     else let (command_stale, s) = command_age_check c inp now s;
              late = (target + sc_period c \<le> now)
     in if \<not> command_stale \<and> (late \<or> (tx_sent_any s \<and> now - tx_last_send s < half (sc_period c)))
        then (Continue, (bump_skipped (if late then kSkippedLate else kSkippedBurst) s)
               \<lparr>tx_sent_previous_cycle := False\<rparr>, e)
        else command_phase c inp target command_stale (s, e))"

text \<open>After the loop the thread records the replies that arrived and reports that it is done.\<close>

definition send_epilogue :: "ReplySlot list \<Rightarrow> TxState \<Rightarrow> TxState" where
  "send_epilogue slots s = s\<lparr>tx_stats := (tx_stats s)\<lparr>ss_replies := map rs_sequence slots\<rparr>\<rparr>"

text \<open>The loop over the cycles of a stream, each with what it finds.\<close>

fun send_loop ::
  "StreamConfig \<Rightarrow> ns \<Rightarrow> nat \<Rightarrow> CycleInput list \<Rightarrow> TxState \<times> env \<Rightarrow> TxState \<times> env" where
  "send_loop c start k [] se = se"
| "send_loop c start k (inp # inps) se =
     (case send_cycle c (start + int k * sc_period c) inp se of
        (Break, se) \<Rightarrow> se
      | (Continue, se) \<Rightarrow> send_loop c start (Suc k) inps se)"


section \<open>What each phase sends\<close>

text \<open>Frames a phase adds to the log: those of a given set, and frames that can only take a motor out of
  operation.\<close>

definition sends_only :: "CanFrame set \<Rightarrow> (CanFrame \<times> bool) list \<Rightarrow> (CanFrame \<times> bool) list \<Rightarrow> bool" where
  "sends_only A l l' \<longleftrightarrow> (\<exists>os. l' = l @ os \<and>
     list_all (\<lambda>(f, b). f \<in> A \<or> (\<exists>i. f = motor_frame i (encodeSpecialCommand kDisable))) os)"

abbreviation only_disables :: "(CanFrame \<times> bool) list \<Rightarrow> (CanFrame \<times> bool) list \<Rightarrow> bool" where
  "only_disables \<equiv> sends_only {}"

lemma sends_only_refl [simp]: "sends_only A l l"
  by (simp add: sends_only_def)

lemma sends_only_trans: "sends_only A a b \<Longrightarrow> sends_only A b c \<Longrightarrow> sends_only A a c"
  by (auto simp: sends_only_def)

lemma sends_only_mono: "sends_only A a b \<Longrightarrow> A \<subseteq> B \<Longrightarrow> sends_only B a b"
  unfolding sends_only_def by (auto elim!: list.pred_mono_strong)

lemmas only_disables_trans = sends_only_trans [where A = "{}"]

lemma sends_only_send: "f \<in> A \<Longrightarrow> bus_send f e = (b, e') \<Longrightarrow> sends_only A (tx_log e) (tx_log e')"
  using env_log(4) [of f e] by (auto simp: sends_only_def)

lemma latch_only_disables: "latchCommunicationFault d e = (d', e') \<Longrightarrow> only_disables (tx_log e) (tx_log e')"
  by (auto simp: latchCommunicationFault_def latchSafeStop_def trySendDisable_def Let_def sends_only_def
      split: if_splits)

text \<open>Everything but the drivers' state is left alone by latching.\<close>

lemma latch_driver_spec:
  assumes "latch_driver i (s, e) = (s', e')"
  shows "only_disables (tx_log e) (tx_log e')" and "\<exists>ds. s' = s\<lparr>tx_drivers := ds\<rparr> \<and> length ds = length (tx_drivers s)"
  using assms latch_only_disables
  by (auto simp: latch_driver_def split: prod.splits intro: exI [of _ "(tx_drivers s)[i := x]" for x])

lemma latch_drivers_spec:
  "fold latch_driver is (s, e) = (s', e') \<Longrightarrow> only_disables (tx_log e) (tx_log e') \<and>
     (\<exists>ds. s' = s\<lparr>tx_drivers := ds\<rparr> \<and> length ds = length (tx_drivers s))"
proof (induction "is" arbitrary: s e)
  case Nil
  then show ?case by (auto intro: exI [of _ "tx_drivers s"])
next
  case (Cons i ids)
  obtain s1 e1 where l: "latch_driver i (s, e) = (s1, e1)" by fastforce
  then have "fold latch_driver ids (s1, e1) = (s', e')" using Cons.prems by simp
  from Cons.IH [OF this] latch_driver_spec [OF l] show ?case
    by (auto intro: only_disables_trans)
qed

lemma running_spec:
  "running s = (b, s') \<Longrightarrow> \<exists>bs. s' = s\<lparr>tx_runs := bs\<rparr>"
  by (auto simp: running_def split: list.splits intro: exI [of _ "tx_runs s"])

lemma stop_requested_spec:
  "stop_requested s = (b, s') \<Longrightarrow> (\<exists>bs. s' = s\<lparr>tx_stop_all := b, tx_stops := bs\<rparr>) \<and> (tx_stop_all s \<longrightarrow> b)"
  by (auto simp: stop_requested_def split: list.splits intro: exI [of _ "tx_stops s"])

lemma fault_simps [simp]:
  "tx_stop_all (fault k a s)" "ss_fault (tx_stats (fault k a s)) = k" "ss_fault_axis (tx_stats (fault k a s)) = a"
  "tx_drivers (fault k a s) = tx_drivers s" "tx_last_send (fault k a s) = tx_last_send s"
  "tx_sent_any (fault k a s) = tx_sent_any s"
  by (simp_all add: fault_def)

lemma may_send_spec:
  assumes "may_send c target stale (s, e) = (ok, s', e')"
  shows "tx_log e' = tx_log e" and "clk e \<le> clk e'" and "\<exists>bs cs x. s' = s\<lparr>tx_runs := bs, tx_stop_all := x, tx_stops := cs\<rparr>"
    and "ok \<Longrightarrow> \<not> tx_stop_all s'"
proof -
  obtain r s1 where r: "running s = (r, s1)" by fastforce
  obtain b s2 where b: "stop_requested s1 = (b, s2)" by fastforce
  obtain t e1 where t: "steady_now e = (t, e1)" by fastforce
  have e1: "tx_log e1 = tx_log e" "clk e \<le> clk e1" using env_log(1) [of e] env_clk(1) [of e] t by auto
  obtain bs where s1: "s1 = s\<lparr>tx_runs := bs\<rparr>" using running_spec [OF r] by blast
  obtain cs where s2: "s2 = s1\<lparr>tx_stop_all := b, tx_stops := cs\<rparr>" using stop_requested_spec [OF b] by blast
  note m = assms [unfolded may_send_def Let_def r b t prod.case]
  show "tx_log e' = tx_log e" "clk e \<le> clk e'" using m e1 by (auto split: if_splits)
  show "\<exists>bs cs x. s' = s\<lparr>tx_runs := bs, tx_stop_all := x, tx_stops := cs\<rparr>"
  proof (cases r)
    case True
    then have "s' = s2" using m by (auto split: if_splits)
    then show ?thesis using s1 s2 by auto
  next
    case False
    then have "s' = s1" using m by simp
    then show ?thesis using s1 by (intro exI [of _ bs] exI [of _ "tx_stops s"] exI [of _ "tx_stop_all s"]) simp
  qed
  show "ok \<Longrightarrow> \<not> tx_stop_all s'" using m s2 by (auto split: if_splits)
qed

text \<open>The part of the state that a transmission leaves alone, and the frames that a cycle's blocks make.\<close>

definition tx_core :: "TxState \<Rightarrow> int list \<times> nat \<times> u8 list \<times> StreamFeedback list \<times> ns \<times> ns \<times> bool \<times> nat" where
  "tx_core s = (tx_can_ids s, tx_block_count s, tx_padding s, tx_feedback s, tx_first_send s, tx_last_send s,
     tx_sent_any s, length (tx_drivers s))"

definition block_frames :: "StreamConfig \<Rightarrow> nat \<Rightarrow> u8 list \<Rightarrow> (int \<times> u8 list) list \<Rightarrow> CanFrame set" where
  "block_frames c n pad blocks = (if sc_broadcast c then {f. buildBroadcastFrame blocks n pad = Some f}
     else set (map (\<lambda>(i, b). motor_frame i b) blocks))"

lemma tx_core_simps [simp]:
  "tx_core (fault k a s) = tx_core s" "tx_core (s\<lparr>tx_runs := bs\<rparr>) = tx_core s"
  "tx_core (s\<lparr>tx_outcome := out\<rparr>) = tx_core s" "tx_core (s\<lparr>tx_stats := st\<rparr>) = tx_core s"
  "tx_core (s\<lparr>tx_runs := bs, tx_stop_all := x, tx_stops := cs\<rparr>) = tx_core s"
  "tx_core (s\<lparr>tx_stop_all := x, tx_stops := cs\<rparr>) = tx_core s"
  "length ds = length (tx_drivers s) \<Longrightarrow> tx_core (s\<lparr>tx_drivers := ds\<rparr>) = tx_core s"
  by (simp_all add: tx_core_def fault_def)

lemma may_send_core: "may_send c target stale (s, e) = (ok, s', e') \<Longrightarrow> tx_core s' = tx_core s"
  using may_send_spec(3) by fastforce

lemma latch_driver_core: "latch_driver i (s, e) = (s', e') \<Longrightarrow> tx_core s' = tx_core s"
  using latch_driver_spec(2) by fastforce

lemma latch_drivers_core: "fold latch_driver is (s, e) = (s', e') \<Longrightarrow> tx_core s' = tx_core s"
  using latch_drivers_spec by fastforce

lemma steady_now_spec: "steady_now e = (t, e') \<Longrightarrow> tx_log e' = tx_log e \<and> clk e \<le> clk e' \<and> clk e' = t"
  using env_log(1) [of e] env_clk(1,2) [of e] by auto

lemma bus_send_clk: "bus_send f e = (b, e') \<Longrightarrow> clk e' = clk e"
  using env_clk(4) [of f e] by auto

lemma latch_driver_clk: "latch_driver i (s, e) = (s', e') \<Longrightarrow> clk e' = clk e"
  by (auto simp: latch_driver_def latchCommunicationFault_def latchSafeStop_def trySendDisable_def Let_def env_clk
      split: prod.splits if_splits)

lemma send_unicast_spec:
  "send_unicast c target stale blocks i t (s, e) = (r, s', e') \<Longrightarrow> t0 \<le> clk e \<Longrightarrow> (0 < i \<longrightarrow> t0 \<le> t) \<Longrightarrow>
     set (map (\<lambda>(i, b). motor_frame i b) blocks) \<subseteq> A \<Longrightarrow>
     tx_core s' = tx_core s \<and> sends_only A (tx_log e) (tx_log e') \<and> (0 < sr_frames r \<longrightarrow> t0 \<le> sr_send_time r)"
proof (induction c target stale blocks i t "(s, e)" arbitrary: s e rule: send_unicast.induct)
  case (1 c target stale i t s e)
  then show ?case by auto
next
  case (2 c target stale can_id block blocks i t s e)
  obtain ok s1 e1 where m: "may_send c target stale (s, e) = (ok, s1, e1)" using prod_cases3 by blast
  note ms = may_send_spec [OF m] may_send_core [OF m]
  show ?case
  proof (cases ok)
    case False
    then show ?thesis using 2(2,4) m ms by auto
  next
    case True
    obtain t1 e2 where t1: "(if i = 0 then steady_now e1 else (t, e1)) = (t1, e2)" by fastforce
    have e2: "tx_log e2 = tx_log e1" "clk e1 \<le> clk e2" "t0 \<le> t1"
      using t1 steady_now_spec [of e1 t1 e2] ms(2) 2(3,4) by (auto split: if_splits)
    obtain b e3 where b: "bus_send (motor_frame can_id block) e2 = (b, e3)" by fastforce
    have sd: "sends_only A (tx_log e) (tx_log e3)" using sends_only_send [OF _ b, of A] 2(5) ms(1) e2 by auto
    show ?thesis
    proof (cases b)
      case True
      have "send_unicast c target stale blocks (Suc i) t1 (s1, e3) = (r, s', e')"
        using 2(2) m \<open>ok\<close> t1 b True by simp
      from 2(1) [OF m [symmetric] refl refl _ t1 [symmetric] refl b [symmetric] refl _ this] True \<open>ok\<close> sd ms e2 2(3,5)
      show ?thesis using bus_send_clk [OF b] by (auto intro: sends_only_trans)
    next
      case False
      obtain s2 e4 where l: "latch_driver i (s1, e3) = (s2, e4)" by fastforce
      have r: "r = \<lparr>sr_frames = i, sr_window_closed = False, sr_faulted = True, sr_send_time = t1\<rparr>"
        "s' = fault kSendFailed (int i) s2" "e' = e4" using 2(2) m \<open>ok\<close> t1 b False l by auto
      have "sends_only A (tx_log e3) (tx_log e4)"
        using sends_only_mono [OF latch_driver_spec(1) [OF l]] by simp
      then show ?thesis using r sd ms latch_driver_core [OF l] e2 by (auto intro: sends_only_trans)
    qed
  qed
qed

lemma send_broadcast_spec:
  assumes "send_broadcast c target stale blocks (s, e) = (r, s', e')"
    and A: "\<And>f. buildBroadcastFrame blocks (tx_block_count s) (tx_padding s) = Some f \<Longrightarrow> f \<in> A"
  shows "tx_core s' = tx_core s \<and> sends_only A (tx_log e) (tx_log e') \<and> (0 < sr_frames r \<longrightarrow> clk e \<le> sr_send_time r)"
proof -
  obtain ok s1 e1 where m: "may_send c target stale (s, e) = (ok, s1, e1)" using prod_cases3 by blast
  note ms = may_send_spec [OF m] may_send_core [OF m]
  obtain t e2 where t: "steady_now e1 = (t, e2)" by fastforce
  note ts = steady_now_spec [OF t]
  obtain b e3 where b: "(case buildBroadcastFrame blocks (tx_block_count s1) (tx_padding s1) of
      None \<Rightarrow> (False, e2) | Some frame \<Rightarrow> bus_send frame e2) = (b, e3)" by fastforce
  obtain s2 e4 where l: "fold latch_driver [0..<length (tx_drivers s1)] (s1, e3) = (s2, e4)" by fastforce
  have pads: "tx_block_count s1 = tx_block_count s" "tx_padding s1 = tx_padding s"
    using ms(5) by (auto simp: tx_core_def)
  have sd: "sends_only A (tx_log e) (tx_log e3)"
    using b A sends_only_send [of _ A e2 b e3] ms(1) ts by (auto simp: pads split: option.splits)
  have "sends_only A (tx_log e3) (tx_log e4)"
    using latch_drivers_spec [OF l] by (auto intro: sends_only_mono)
  note le = sends_only_trans [OF sd this]
  note eq = assms(1) [unfolded send_broadcast_def Let_def m t b l prod.case]
  consider "\<not> ok" | "ok" "b" | "ok" "\<not> b" by blast
  then show ?thesis
  proof cases
    case 1
    then show ?thesis using eq ms by auto
  next
    case 2
    then show ?thesis using eq ms ts sd by auto
  next
    case 3
    then have "e' = e4" "s' = fault kSendFailed (-1) s2" "sr_frames r = 0" using eq by auto
    then show ?thesis using le ms latch_drivers_core [OF l] by simp
  qed
qed

lemma transmit_spec:
  assumes "transmit c target stale blocks (s, e) = (r, s', e')"
  shows "tx_core s' = tx_core s"
    and "sends_only (block_frames c (tx_block_count s) (tx_padding s) blocks) (tx_log e) (tx_log e')"
    and "0 < sr_frames r \<Longrightarrow> clk e \<le> sr_send_time r"
  using assms send_broadcast_spec [of c target stale blocks s e r s' e'
      "block_frames c (tx_block_count s) (tx_padding s) blocks"]
    send_unicast_spec [of c target stale blocks 0 0 s e r s' e' "clk e"
      "block_frames c (tx_block_count s) (tx_padding s) blocks"]
  by (auto simp: transmit_def block_frames_def split: if_splits)

section \<open>The command phase\<close>

text \<open>The commands a cycle encodes, and the frames these can become.\<close>

definition cycle_commands :: "CycleInput \<Rightarrow> bool \<Rightarrow> TxState \<Rightarrow> StreamCommand list" where
  "cycle_commands inp stale s = (if stale then map zero_gain_command (tx_feedback s)
     else snd (ci_hook inp (tx_feedback s) (tx_commands s)))"

definition command_frames :: "StreamConfig \<Rightarrow> TxState \<Rightarrow> StreamCommand list \<Rightarrow> CanFrame set" where
  "command_frames c s commands = {f. \<exists>blocks. encode_blocks (tx_drivers s) (tx_can_ids s) commands 0 = Inr blocks \<and>
     f \<in> block_frames c (tx_block_count s) (tx_padding s) blocks}"

lemma record_send_last:
  "tx_last_send (record_send c stale r s) = (if 0 < sr_frames r then sr_send_time r else tx_last_send s)"
  "tx_sent_any (record_send c stale r s) = (0 < sr_frames r \<or> tx_sent_any s)"
  by (auto simp: record_send_def Let_def)

lemma conclude_spec:
  assumes "conclude stale r (s, e) = (x, s', e')"
  shows "e' = e" and "tx_last_send s' = tx_last_send s" and "x = Continue \<Longrightarrow> \<not> stale \<and> \<not> sr_faulted r"
    and "stale \<Longrightarrow> \<not> sr_faulted r \<Longrightarrow> sr_window_closed r \<or> (tx_stop_all s' \<and> ss_fault (tx_stats s') = kCommandStale)"
proof -
  obtain b s1 where b: "stop_requested s = (b, s1)" by fastforce
  have s1: "tx_last_send s1 = tx_last_send s" using stop_requested_spec [OF b] by auto
  note c = assms [unfolded conclude_def prod.case b Let_def]
  show "e' = e" "tx_last_send s' = tx_last_send s" "x = Continue \<Longrightarrow> \<not> stale \<and> \<not> sr_faulted r"
    using c s1 by (auto simp: external_stop_def bump_skipped_def split: if_splits)
  show "stale \<Longrightarrow> \<not> sr_faulted r \<Longrightarrow> sr_window_closed r \<or> (tx_stop_all s' \<and> ss_fault (tx_stats s') = kCommandStale)"
    using c by (auto split: if_splits)
qed

lemma command_phase_spec:
  assumes "command_phase c inp target stale (s, e) = (x, s', e')"
  shows "sends_only (command_frames c s (cycle_commands inp stale s)) (tx_log e) (tx_log e')"
    and "tx_last_send s' = tx_last_send s \<or> clk e \<le> tx_last_send s'"
    and "x = Continue \<Longrightarrow> \<not> stale"
    and "\<not> stale \<Longrightarrow> \<not> fst (ci_hook inp (tx_feedback s) (tx_commands s)) \<Longrightarrow>
      x = Break \<and> tx_log e' = tx_log e \<and> tx_stop_all s' \<and> ss_fault (tx_stats s') = kOwnerRequested"
proof -
  obtain ok cmds e1 where h: "(if stale then (True, map zero_gain_command (tx_feedback s), e)
        else let (_, e) = steady_now e; (ok, commands) = ci_hook inp (tx_feedback s) (tx_commands s)
             in (ok, commands, e)) = (ok, cmds, e1)" using prod_cases3 by blast
  have cmds: "cmds = cycle_commands inp stale s" and e1: "tx_log e1 = tx_log e" "clk e \<le> clk e1"
    and ok: "\<not> stale \<Longrightarrow> ok = fst (ci_hook inp (tx_feedback s) (tx_commands s))"
    using h steady_now_spec [of e] by (auto simp: cycle_commands_def split: if_splits prod.splits)
  let ?s = "s\<lparr>tx_commands := cmds\<rparr>"
  note eq = assms [unfolded command_phase_def prod.case Let_def, unfolded h [unfolded Let_def] prod.case]
  have "sends_only (command_frames c s (cycle_commands inp stale s)) (tx_log e) (tx_log e') \<and>
    (tx_last_send s' = tx_last_send s \<or> clk e \<le> tx_last_send s') \<and> (x = Continue \<longrightarrow> \<not> stale)"
  proof (cases "ok \<and> (\<exists>blocks. encode_blocks (tx_drivers ?s) (tx_can_ids ?s) cmds 0 = Inr blocks)")
    case False
    then show ?thesis using eq e1 by (auto simp: fault_def split: if_splits sum.splits)
  next
    case True
    then obtain blocks where b: "encode_blocks (tx_drivers ?s) (tx_can_ids ?s) cmds 0 = Inr blocks" and ok by blast
    obtain r s1 e2 where t: "transmit c target stale blocks (?s, e1) = (r, s1, e2)" using prod_cases3 by blast
    note ts = transmit_spec [OF t]
    have cn: "conclude stale r (record_send c stale r s1, e2) = (x, s', e')" using eq b t \<open>ok\<close> by simp
    note cs = conclude_spec [OF this]
    have "sends_only (command_frames c s (cycle_commands inp stale s)) (tx_log e1) (tx_log e2)"
      using b cmds by (intro sends_only_mono [OF ts(2)]) (auto simp: command_frames_def)
    moreover have "tx_last_send s1 = tx_last_send s" using ts(1) by (simp add: tx_core_def)
    ultimately show ?thesis using cs e1 ts(3) by (auto simp: record_send_last)
  qed
  then show "sends_only (command_frames c s (cycle_commands inp stale s)) (tx_log e) (tx_log e')"
    "tx_last_send s' = tx_last_send s \<or> clk e \<le> tx_last_send s'" "x = Continue \<Longrightarrow> \<not> stale" by auto
  show "\<not> stale \<Longrightarrow> \<not> fst (ci_hook inp (tx_feedback s) (tx_commands s)) \<Longrightarrow>
      x = Break \<and> tx_log e' = tx_log e \<and> tx_stop_all s' \<and> ss_fault (tx_stats s') = kOwnerRequested"
    using eq ok e1 by (auto split: if_splits)
qed

section \<open>The feedback phase\<close>

text \<open>How the stream's motors are addressed.\<close>

definition wire :: "TxState \<Rightarrow> int list \<times> nat \<times> u8 list" where
  "wire s = (tx_can_ids s, tx_block_count s, tx_padding s)"

lemma apply_axis_simps [simp]:
  "wire (apply_axis b i s) = wire s"
  "tx_sent_any (apply_axis b i s) = tx_sent_any s" "tx_first_send (apply_axis b i s) = tx_first_send s"
  "tx_last_send (apply_axis b i s) = tx_last_send s" "length (tx_drivers (apply_axis b i s)) = length (tx_drivers s)"
  "tx_latest (apply_axis b i s) = tx_latest s" "tx_can_ids (apply_axis b i s) = tx_can_ids s"
  "tx_stop_all (apply_axis b i s) = tx_stop_all s"
  "tx_has_reply (apply_axis b i s) = (if b then (tx_has_reply s)[i := True] else tx_has_reply s)"
  "tx_last_reply (apply_axis b i s) = (if b then (tx_last_reply s)[i := rs_received_at (tx_latest s ! i)] else tx_last_reply s)"
  by (auto simp: apply_axis_def wire_def Let_def split: prod.splits)

text \<open>What the age check leaves alone.\<close>

definition fb_core :: "TxState \<Rightarrow> (int list \<times> nat \<times> u8 list) \<times> bool \<times> ns \<times> ns \<times> nat \<times> ReplySlot list \<times> bool list \<times> ns list" where
  "fb_core s = (wire s, tx_sent_any s, tx_first_send s, tx_last_send s, length (tx_drivers s), tx_latest s, tx_has_reply s,
     tx_last_reply s)"

lemma fb_core_fault [simp]: "fb_core (fault k a s) = fb_core s"
  by (simp add: fb_core_def wire_def fault_def)

lemma latch_driver_fb: "latch_driver i (s, e) = (s', e') \<Longrightarrow> fb_core s' = fb_core s"
  using latch_driver_spec(2) by (fastforce simp: fb_core_def wire_def)

lemma latch_driver_state:
  "latch_driver i (s, e) = (s', e') \<Longrightarrow> i < length (tx_drivers s) \<Longrightarrow> bd_state (tx_drivers s' ! i) = kSafeStopped"
  by (auto simp: latch_driver_def latchCommunicationFault_def latchSafeStop_def Let_def split: prod.splits if_splits)

lemma apply_axis_other: "j \<noteq> i \<Longrightarrow> tx_drivers (apply_axis b i s) ! j = tx_drivers s ! j"
  by (auto simp: apply_axis_def Let_def split: prod.splits)

lemma apply_axis_fault [simp]:
  "ss_fault (tx_stats (apply_axis b i s)) = ss_fault (tx_stats s)"
  "ss_fault_axis (tx_stats (apply_axis b i s)) = ss_fault_axis (tx_stats s)"
  by (auto simp: apply_axis_def Let_def split: prod.splits)

text \<open>The verdict on one axis: either nothing but statistics changed, or this axis is the one that stopped
  the stream.\<close>

definition stale_verdict :: "nat \<Rightarrow> TxState \<Rightarrow> bool" where
  "stale_verdict i s \<longleftrightarrow> tx_stop_all s \<and> ss_fault (tx_stats s) = kFeedbackStale \<and> ss_fault_axis (tx_stats s) = int i \<and>
     bd_state (tx_drivers s ! i) = kSafeStopped"

lemma check_axis_age_spec:
  assumes "check_axis_age c now i (fl, s, e) = (fl', s', e')" and "i < length (tx_drivers s)"
  shows "fb_core s' = fb_core s" and "only_disables (tx_log e) (tx_log e')" and "clk e' = clk e"
    and "fl' = (fl \<or> (tx_sent_any s \<and> sc_max_feedback_age c < reply_age now i s))"
    and "\<not> fl \<Longrightarrow> fl' \<Longrightarrow> stale_verdict i s'"
    and "fl \<Longrightarrow> stale_verdict j s' = stale_verdict j s"
proof -
  let ?s = "s\<lparr>tx_feedback := (tx_feedback s)[i := (tx_feedback s ! i)\<lparr>sf_age_ms := toMilliseconds (reply_age now i s)\<rparr>],
                    tx_stats := (tx_stats s)\<lparr>ss_max_age_ms := (ss_max_age_ms (tx_stats s))
                      [i := dmax (ss_max_age_ms (tx_stats s) ! i) (toMilliseconds (reply_age now i s))]\<rparr>\<rparr>"
  obtain s1 e1 where l: "latch_driver i (?s, e) = (s1, e1)" by fastforce
  have core: "fb_core ?s = fb_core s" by (simp add: fb_core_def wire_def)
  have v: "stale_verdict j ?s = stale_verdict j s" by (simp add: stale_verdict_def)
  note eq = assms(1) [unfolded check_axis_age_def prod.case Let_def, unfolded l prod.case]
  have r: "(fl', s', e') = (if tx_sent_any s then if \<not> fl \<and> sc_max_feedback_age c < reply_age now i s
        then (True, fault kFeedbackStale (int i) s1, e1) else (fl, ?s, e) else (fl, s, e))"
    unfolding eq [symmetric] by (cases "tx_sent_any s") (simp_all only: simp_thms if_True if_False)
  consider "\<not> tx_sent_any s" | "tx_sent_any s" "\<not> (\<not> fl \<and> sc_max_feedback_age c < reply_age now i s)"
    | "tx_sent_any s" "\<not> fl" "sc_max_feedback_age c < reply_age now i s" by blast
  then have "fb_core s' = fb_core s \<and> only_disables (tx_log e) (tx_log e') \<and> clk e' = clk e \<and>
    fl' = (fl \<or> (tx_sent_any s \<and> sc_max_feedback_age c < reply_age now i s)) \<and>
    (\<not> fl \<longrightarrow> fl' \<longrightarrow> stale_verdict i s') \<and> (fl \<longrightarrow> stale_verdict j s' = stale_verdict j s)"
  proof cases
    case 1
    then have "(fl', s', e') = (fl, s, e)" using r by (simp only: if_False)
    then show ?thesis using 1 by simp
  next
    case 2
    then have "(fl', s', e') = (fl, ?s, e)" using r by (simp only: if_True if_False)
    then have "fl' = fl" "s' = ?s" "e' = e" by blast+
    then show ?thesis using 2 core v by (simp only: sends_only_refl) blast
  next
    case 3
    then have "(fl', s', e') = (True, fault kFeedbackStale (int i) s1, e1)" using r by (simp only: simp_thms if_True)
    then show ?thesis
      using 3 latch_driver_fb [OF l] latch_driver_spec(1) [OF l] latch_driver_clk [OF l] latch_driver_state [OF l] core assms(2)
      by (simp add: stale_verdict_def)
  qed
  then show "fb_core s' = fb_core s" "only_disables (tx_log e) (tx_log e')" "clk e' = clk e"
    "fl' = (fl \<or> (tx_sent_any s \<and> sc_max_feedback_age c < reply_age now i s))"
    "\<not> fl \<Longrightarrow> fl' \<Longrightarrow> stale_verdict i s'" "fl \<Longrightarrow> stale_verdict j s' = stale_verdict j s" by blast+
qed

text \<open>The age of an axis' last reply, from the slots as the cycle finds them.\<close>

definition axis_age :: "ns \<Rightarrow> bool list \<Rightarrow> TxState \<Rightarrow> nat \<Rightarrow> ns" where
  "axis_age now fresh s i = now - (if fresh ! i then rs_received_at (tx_latest s ! i)
     else if tx_has_reply s ! i then tx_last_reply s ! i else tx_first_send s)"

definition shaped :: "TxState \<Rightarrow> bool" where
  "shaped s \<longleftrightarrow> length (tx_has_reply s) = length (tx_drivers s) \<and> length (tx_last_reply s) = length (tx_drivers s)"

lemma feedback_fold_spec:
  assumes "shaped s"
  shows "k \<le> length (tx_drivers s) \<Longrightarrow> fold (feedback_axis c now fresh) [0..<k] (False, s, e) = (fl, s', e') \<Longrightarrow>
    tx_sent_any s' = tx_sent_any s \<and> tx_first_send s' = tx_first_send s \<and> tx_last_send s' = tx_last_send s \<and>
    tx_latest s' = tx_latest s \<and> wire s' = wire s \<and> shaped s' \<and> length (tx_drivers s') = length (tx_drivers s) \<and>
    (\<forall>j. k \<le> j \<longrightarrow> tx_has_reply s' ! j = tx_has_reply s ! j \<and> tx_last_reply s' ! j = tx_last_reply s ! j) \<and>
    only_disables (tx_log e) (tx_log e') \<and> clk e' = clk e \<and>
    fl = (tx_sent_any s \<and> (\<exists>j<k. sc_max_feedback_age c < axis_age now fresh s j)) \<and>
    (fl \<longrightarrow> (\<exists>j<k. (\<forall>i<j. axis_age now fresh s i \<le> sc_max_feedback_age c) \<and>
       sc_max_feedback_age c < axis_age now fresh s j \<and> stale_verdict j s'))"
proof (induction k arbitrary: fl s' e')
  case 0
  then show ?case using assms by simp
next
  case (Suc k)
  obtain f1 s1 e1 where f: "fold (feedback_axis c now fresh) [0..<k] (False, s, e) = (f1, s1, e1)"
    using prod_cases3 by blast
  note IH = Suc.IH [OF _ f]
  let ?a = "apply_axis (fresh ! k) k s1"
  have st: "check_axis_age c now k (f1, ?a, e1) = (fl, s', e')"
    using Suc.prems(2) f feedback_axis_def [of c now fresh k] by simp
  have k: "k < length (tx_drivers ?a)" "k < length (tx_drivers s)" using Suc.prems(1) IH by auto
  note cs = check_axis_age_spec [OF st k(1)]
  have "length (tx_has_reply s1) = length (tx_drivers s)" "length (tx_last_reply s1) = length (tx_drivers s)"
    using IH k(2) by (auto simp: shaped_def)
  then have age: "reply_age now k ?a = axis_age now fresh s k"
    using IH k(2) by (simp add: reply_age_def axis_age_def)
  have core: "fb_core s' = fb_core ?a" by (rule cs)
  have v: "stale_verdict j ?a = stale_verdict j s1" if "j < k" for j
    using that by (simp add: stale_verdict_def apply_axis_other)
  have fl: "fl = (tx_sent_any s \<and> (\<exists>j<Suc k. sc_max_feedback_age c < axis_age now fresh s j))"
    using cs(4) IH k(2) age by (auto simp: less_Suc_eq)
  have ih: "f1 = (tx_sent_any s \<and> (\<exists>j<k. sc_max_feedback_age c < axis_age now fresh s j))"
    using IH [OF less_imp_le [OF k(2)]] by blast
  have "\<exists>j<Suc k. (\<forall>i<j. axis_age now fresh s i \<le> sc_max_feedback_age c) \<and>
       sc_max_feedback_age c < axis_age now fresh s j \<and> stale_verdict j s'" if fl
  proof (cases f1)
    case True
    with IH k(2) obtain j where "j < k" "\<forall>i<j. axis_age now fresh s i \<le> sc_max_feedback_age c"
      "sc_max_feedback_age c < axis_age now fresh s j" "stale_verdict j s1" by auto
    then show ?thesis using cs(6) [OF True] v by (intro exI [of _ j]) auto
  next
    case False
    then have "stale_verdict k s'" "sc_max_feedback_age c < axis_age now fresh s k" using cs(4,5) that age by auto
    moreover have "\<forall>i<k. axis_age now fresh s i \<le> sc_max_feedback_age c"
      using False ih fl that by (meson not_le)
    ultimately show ?thesis by blast
  qed
  then show ?case using IH k(2) core cs(2,3) fl by (auto simp: fb_core_def shaped_def intro: only_disables_trans)
qed

text \<open>The age of an axis' last reply once the cycle has looked at its slot.\<close>

definition found_age :: "CycleInput \<Rightarrow> ns \<Rightarrow> TxState \<Rightarrow> nat \<Rightarrow> ns" where
  "found_age inp now s i = now - (if rs_sequence (ci_slots inp ! i) \<noteq> tx_seen_sequence s ! i
       then rs_received_at (ci_slots inp ! i)
     else if tx_has_reply s ! i then tx_last_reply s ! i else tx_first_send s)"

lemma received_faults_spec:
  assumes "received_faults c inp (fl, s) = (fl', s')"
  shows "fl \<Longrightarrow> fl' \<and> s' = s" and "fb_core s' = fb_core s"
    and "fl' = (fl \<or> (sc_direct_feedback c \<and> ci_rx_fault inp = kTemperature) \<or> 0 < ci_forbidden_replies inp)"
  using assms by (auto simp: received_faults_def Let_def fb_core_def wire_def fault_def split: if_splits)

lemma feedback_phase_spec:
  assumes "shaped s" and "feedback_phase c inp now (s, e) = (fl, s', e')"
  defines "stale \<equiv> \<lambda>j. sc_max_feedback_age c < found_age inp now s j"
  shows "only_disables (tx_log e) (tx_log e')" and "clk e' = clk e" and "tx_sent_any s' = tx_sent_any s"
    and "tx_last_send s' = tx_last_send s" and "wire s' = wire s"
    and "tx_sent_any s \<Longrightarrow> j < length (tx_drivers s) \<Longrightarrow> stale j \<Longrightarrow>
      fl \<and> (\<exists>k\<le>j. (\<forall>i<k. \<not> stale i) \<and> stale k \<and> stale_verdict k s')"
proof -
  obtain fresh s1 where t: "take_slots inp s = (fresh, s1)" by fastforce
  have s1: "tx_sent_any s1 = tx_sent_any s" "tx_first_send s1 = tx_first_send s" "tx_last_send s1 = tx_last_send s"
    "tx_drivers s1 = tx_drivers s" "shaped s1" "wire s1 = wire s"
    using t assms(1) by (auto simp: take_slots_def Let_def shaped_def wire_def)
  have age: "axis_age now fresh s1 i = found_age inp now s i" if "i < length (tx_drivers s)" for i
    using t that by (auto simp: take_slots_def Let_def axis_age_def found_age_def)
  obtain f2 s2 e2 where f: "fold (feedback_axis c now fresh) [0..<length (tx_drivers s1)] (False, s1, e) = (f2, s2, e2)"
    using prod_cases3 by blast
  note fs = feedback_fold_spec [OF s1(5) order.refl f]
  have r: "received_faults c inp (f2, s2) = (fl, s')" "e' = e2"
    using assms(2) t f by (auto simp: feedback_phase_def split: prod.splits)
  note rs = received_faults_spec [OF r(1)]
  show "only_disables (tx_log e) (tx_log e')" "clk e' = clk e" "tx_sent_any s' = tx_sent_any s"
    "tx_last_send s' = tx_last_send s" "wire s' = wire s"
    using fs r(2) s1 rs(2) by (auto simp: fb_core_def)
  show "fl \<and> (\<exists>k\<le>j. (\<forall>i<k. \<not> stale i) \<and> stale k \<and> stale_verdict k s')"
    if j: "tx_sent_any s" "j < length (tx_drivers s)" "stale j"
  proof -
    have sj: "sc_max_feedback_age c < axis_age now fresh s1 j" using j age by (simp add: stale_def)
    have f2: f2 using fs s1 j(1,2) sj by auto
    then obtain k where k: "k < length (tx_drivers s1)" "\<forall>i<k. axis_age now fresh s1 i \<le> sc_max_feedback_age c"
      "sc_max_feedback_age c < axis_age now fresh s1 k" "stale_verdict k s2" using fs by blast
    have "k \<le> j" using k(2) sj by (meson not_le)
    moreover have "\<forall>i<k. \<not> stale i" "stale k" using k age s1(4) by (auto simp: stale_def not_less)
    ultimately show ?thesis using rs(1) [OF f2] k(4) by blast
  qed
qed

text \<open>A feedback phase without a verdict: nothing is sent, and each axis' driver and position are what its fresh
  reply makes of them.\<close>

lemma map_update_same: "(map f xs)[i := f (xs ! i)] = map f xs"
  by (cases "i < length xs") (auto intro!: nth_equalityI simp: nth_list_update)

lemma check_axis_quiet:
  assumes "check_axis_age c now i (fl, s, e) = (False, s', e')"
  shows "\<not> fl" and "e' = e" and "tx_drivers s' = tx_drivers s" and "tx_latest s' = tx_latest s"
    and "map sf_feedback (tx_feedback s') = map sf_feedback (tx_feedback s)"
  using assms by (auto simp: check_axis_age_def Let_def map_update map_update_same split: if_splits prod.splits)

lemma feedback_fold_quiet:
  "fold (feedback_axis c now fresh) is (fl, s, e) = (False, s', e') \<Longrightarrow> \<not> fl \<and> e' = e"
proof (induction "is" arbitrary: fl s e)
  case Nil
  then show ?case by simp
next
  case (Cons i ids)
  obtain f1 s1 e1 where f: "check_axis_age c now i (fl, apply_axis (fresh ! i) i s, e) = (f1, s1, e1)"
    using prod_cases3 by blast
  then have g: "fold (feedback_axis c now fresh) ids (f1, s1, e1) = (False, s', e')"
    using Cons.prems by (simp add: feedback_axis_def [of c now fresh i])
  from Cons.IH [OF g] f check_axis_quiet [of c now i fl "apply_axis (fresh ! i) i s" e s1 e1] show ?case by simp
qed

definition axis_driver :: "bool \<Rightarrow> ReplySlot \<Rightarrow> BxiActuatorDriver \<Rightarrow> BxiActuatorDriver" where
  "axis_driver is_fresh slot d = (if is_fresh then snd (applyFeedback d (rs_decoded slot)) else d)"

definition axis_position :: "bool \<Rightarrow> ReplySlot \<Rightarrow> BxiActuatorDriver \<Rightarrow> ActuatorFeedback \<Rightarrow> double" where
  "axis_position is_fresh slot d f = af_position (if is_fresh then fst (applyFeedback d (rs_decoded slot)) else f)"

lemma apply_axis_own:
  assumes "i < length (tx_drivers s)" and "length (tx_feedback s) = length (tx_drivers s)"
  shows "tx_drivers (apply_axis b i s) ! i = axis_driver b (tx_latest s ! i) (tx_drivers s ! i)"
    and "af_position (sf_feedback (tx_feedback (apply_axis b i s) ! i)) =
      axis_position b (tx_latest s ! i) (tx_drivers s ! i) (sf_feedback (tx_feedback s ! i))"
    and "j \<noteq> i \<Longrightarrow> tx_feedback (apply_axis b i s) ! j = tx_feedback s ! j"
    and "length (tx_feedback (apply_axis b i s)) = length (tx_feedback s)"
  using assms by (auto simp: apply_axis_def axis_driver_def axis_position_def Let_def split: prod.splits)

lemma feedback_fold_found:
  assumes "length (tx_feedback s) = length (tx_drivers s)"
  shows "k \<le> length (tx_drivers s) \<Longrightarrow> fold (feedback_axis c now fresh) [0..<k] (False, s, e) = (False, s', e') \<Longrightarrow>
    tx_latest s' = tx_latest s \<and> length (tx_drivers s') = length (tx_drivers s) \<and>
    length (tx_feedback s') = length (tx_drivers s) \<and>
    (\<forall>i < length (tx_drivers s).
      tx_drivers s' ! i = axis_driver (i < k \<and> fresh ! i) (tx_latest s ! i) (tx_drivers s ! i) \<and>
      af_position (sf_feedback (tx_feedback s' ! i)) =
        axis_position (i < k \<and> fresh ! i) (tx_latest s ! i) (tx_drivers s ! i) (sf_feedback (tx_feedback s ! i)))"
proof (induction k arbitrary: s' e')
  case 0
  then show ?case using assms by (simp add: axis_driver_def axis_position_def)
next
  case (Suc k)
  obtain f1 s1 e1 where f: "fold (feedback_axis c now fresh) [0..<k] (False, s, e) = (f1, s1, e1)"
    using prod_cases3 by blast
  let ?a = "apply_axis (fresh ! k) k s1"
  have st: "check_axis_age c now k (f1, ?a, e1) = (False, s', e')"
    using Suc.prems(2) f feedback_axis_def [of c now fresh k] by simp
  note q = check_axis_quiet [OF st]
  have k: "k < length (tx_drivers s)" using Suc.prems(1) by simp
  have "fold (feedback_axis c now fresh) [0..<k] (False, s, e) = (False, s1, e1)" using f q(1) by simp
  note IH = Suc.IH [OF less_imp_le [OF k] this]
  have kk: "k < length (tx_drivers s1)" "length (tx_feedback s1) = length (tx_drivers s1)" using IH k by simp_all
  note own = apply_axis_own [OF kk, where b = "fresh ! k"]
  have len: "length (tx_feedback s') = length (tx_feedback ?a)" using q(5) by (rule map_eq_imp_length_eq)
  have fb: "sf_feedback (tx_feedback s' ! i) = sf_feedback (tx_feedback ?a ! i)" if "i < length (tx_drivers s)" for i
    using that q(5) len own(4) IH by (metis nth_map)
  have "tx_drivers s' ! i = axis_driver (i < Suc k \<and> fresh ! i) (tx_latest s ! i) (tx_drivers s ! i) \<and>
      af_position (sf_feedback (tx_feedback s' ! i)) =
        axis_position (i < Suc k \<and> fresh ! i) (tx_latest s ! i) (tx_drivers s ! i) (sf_feedback (tx_feedback s ! i))"
    if i: "i < length (tx_drivers s)" for i
  proof (cases "i = k")
    case True
    then show ?thesis using IH q(3) fb [OF i] own(1,2) i by (simp add: axis_driver_def axis_position_def)
  next
    case False
    then have "(i < Suc k) = (i < k)" by auto
    then show ?thesis using IH q(3) fb [OF i] own(3) [OF False] apply_axis_other [OF False, of "fresh ! k" s1] i False
      by simp
  qed
  then show ?case using IH q(3,4) len own(4) by simp
qed

text \<open>A driver that still encodes after its feedback encodes as it did before.\<close>

lemma axis_driver_encodes:
  assumes "encodeControlBlock (axis_driver b slot d) p v kp kd t = Some block"
  shows "encodeControlBlock d p v kp kd t = Some block"
  using assms
  by (auto simp: axis_driver_def applyFeedback_def updateTemperature_def encodeControlBlock_def motor_command_def
      driver_limits_def Let_def split: if_splits sum.splits)

text \<open>The position of an axis once the cycle has looked at its slot.\<close>

definition found_position :: "CycleInput \<Rightarrow> TxState \<Rightarrow> nat \<Rightarrow> double" where
  "found_position inp s i = axis_position (rs_sequence (ci_slots inp ! i) \<noteq> tx_seen_sequence s ! i)
     (ci_slots inp ! i) (tx_drivers s ! i) (sf_feedback (tx_feedback s ! i))"

lemma feedback_phase_quiet:
  assumes "feedback_phase c inp now (s, e) = (False, s', e')"
  shows "e' = e" and "length (tx_feedback s) = length (tx_drivers s) \<Longrightarrow>
    length (tx_drivers s') = length (tx_drivers s) \<and> length (tx_feedback s') = length (tx_drivers s) \<and>
    (\<forall>i < length (tx_drivers s). (\<exists>b slot. tx_drivers s' ! i = axis_driver b slot (tx_drivers s ! i)) \<and>
      af_position (sf_feedback (tx_feedback s' ! i)) = found_position inp s i)"
proof -
  obtain fresh s1 where t: "take_slots inp s = (fresh, s1)" by fastforce
  have s1: "tx_drivers s1 = tx_drivers s" "tx_feedback s1 = tx_feedback s"
    using t by (auto simp: take_slots_def Let_def)
  obtain f2 s2 e2 where f: "fold (feedback_axis c now fresh) [0..<length (tx_drivers s1)] (False, s1, e) = (f2, s2, e2)"
    using prod_cases3 by blast
  have r: "received_faults c inp (f2, s2) = (False, s')" "e' = e2"
    using assms t f by (auto simp: feedback_phase_def split: prod.splits)
  then have f2: "\<not> f2" "s' = s2" by (auto simp: received_faults_def Let_def split: if_splits)
  then have f: "fold (feedback_axis c now fresh) [0..<length (tx_drivers s1)] (False, s1, e) = (False, s2, e2)" using f by simp
  show "e' = e" using feedback_fold_quiet [OF f] r(2) by simp
  assume l: "length (tx_feedback s) = length (tx_drivers s)"
  have pos: "axis_position (fresh ! i) (tx_latest s1 ! i) (tx_drivers s ! i) (sf_feedback (tx_feedback s ! i)) = found_position inp s i"
    if "i < length (tx_drivers s)" for i
    using t that by (auto simp: take_slots_def Let_def found_position_def axis_position_def)
  have "length (tx_feedback s1) = length (tx_drivers s1)" using l s1 by simp
  note found = feedback_fold_found [OF this order.refl f, unfolded s1]
  show "length (tx_drivers s') = length (tx_drivers s) \<and> length (tx_feedback s') = length (tx_drivers s) \<and>
    (\<forall>i < length (tx_drivers s). (\<exists>b slot. tx_drivers s' ! i = axis_driver b slot (tx_drivers s ! i)) \<and>
      af_position (sf_feedback (tx_feedback s' ! i)) = found_position inp s i)"
    using found pos unfolding f2(2) by auto
qed

section \<open>The cycle\<close>

text \<open>The time a cycle works with.\<close>

definition cycle_now :: "ns \<Rightarrow> env \<Rightarrow> ns" where
  "cycle_now target e = fst (steady_now (sleep_until target e))"

lemma command_age_check_spec:
  assumes "command_age_check c inp now s = (b, s')"
  shows "b = (0 < sc_max_command_age c \<and> ci_command_written_ns inp \<noteq> 0 \<and> ci_command_written_ns inp + sc_max_command_age c < now)"
    and "\<exists>st. s' = s\<lparr>tx_stats := st\<rparr>"
proof -
  have "fst (command_age_check c inp now s) = (0 < sc_max_command_age c \<and> ci_command_written_ns inp \<noteq> 0 \<and>
      ci_command_written_ns inp + sc_max_command_age c < now)"
    by (auto simp: command_age_check_def Let_def)
  then show "b = (0 < sc_max_command_age c \<and> ci_command_written_ns inp \<noteq> 0 \<and>
      ci_command_written_ns inp + sc_max_command_age c < now)" using assms by simp
  have "snd (command_age_check c inp now s) = s\<lparr>tx_stats := tx_stats (snd (command_age_check c inp now s))\<rparr>"
    by (simp add: command_age_check_def Let_def)
  then show "\<exists>st. s' = s\<lparr>tx_stats := st\<rparr>" using assms by (metis snd_conv)
qed

text \<open>The ways a cycle can go.\<close>

lemma send_cycle_cases:
  assumes "send_cycle c target inp (s, e) = (x, s', e')" and "shaped s"
  obtains (left) "x = Break" "tx_log e' = tx_log e" "tx_last_send s' = tx_last_send s"
      "(\<exists>bs. tx_runs s = True # True # bs \<Longrightarrow> tx_stop_all s \<or> (\<exists>bs. tx_stops s = True # bs))"
  | (faulted) now s1 e1 s2 e2 where "clk e \<le> now" "fb_core s1 = fb_core s" "shaped s1" "tx_seen_sequence s1 = tx_seen_sequence s"
      "tx_log e1 = tx_log e" "feedback_phase c inp now (s1, e1) = (True, s2, e2)" "x = Break" "s' = s2\<lparr>tx_outcome := kStopped\<rparr>" "e' = e2"
      "now = cycle_now target e"
  | (went_on) now s1 e1 s2 e2 stale st where "clk e \<le> now" "fb_core s1 = fb_core s" "shaped s1" "tx_seen_sequence s1 = tx_seen_sequence s"
      "tx_log e1 = tx_log e" "clk e1 = now"
      "feedback_phase c inp now (s1, e1) = (False, s2, e2)"
      "stale = (0 < sc_max_command_age c \<and> ci_command_written_ns inp \<noteq> 0 \<and> ci_command_written_ns inp + sc_max_command_age c < now)"
      "x = Continue \<and> \<not> stale \<and> e' = e2 \<and> tx_last_send s' = tx_last_send s \<and> tx_sent_any s' = tx_sent_any s \<or>
       (stale \<or> \<not> tx_sent_any s \<or> half (sc_period c) \<le> now - tx_last_send s) \<and>
       command_phase c inp target stale (s2\<lparr>tx_stats := st\<rparr>, e2) = (x, s', e')"
      "now = cycle_now target e" "tx_drivers s1 = tx_drivers s" "tx_feedback s1 = tx_feedback s"
proof -
  obtain r1 s1 where r1: "running s = (r1, s1)" by fastforce
  obtain r2 s2 where r2: "running s1 = (r2, s2)" by fastforce
  obtain b s3 where b: "stop_requested s2 = (b, s3)" by fastforce
  obtain now e1 where n: "steady_now (sleep_until target e) = (now, e1)" by fastforce
  obtain fl s4 e2 where f: "feedback_phase c inp now (s3, e1) = (fl, s4, e2)" using prod_cases3 by blast
  obtain stale s5 where ca: "command_age_check c inp now s4 = (stale, s5)" by fastforce
  note ns = steady_now_spec [OF n]
  obtain bs where s1: "s1 = s\<lparr>tx_runs := bs\<rparr>" using running_spec [OF r1] by blast
  obtain bs' where s2: "s2 = s1\<lparr>tx_runs := bs'\<rparr>" using running_spec [OF r2] by blast
  obtain cs where s3: "s3 = s2\<lparr>tx_stop_all := b, tx_stops := cs\<rparr>" using stop_requested_spec [OF b] by blast
  obtain st where s5: "s5 = s4\<lparr>tx_stats := st\<rparr>" using command_age_check_spec(2) [OF ca] by blast
  have c3: "fb_core s3 = fb_core s" "shaped s3" "tx_seen_sequence s3 = tx_seen_sequence s"
    using s1 s2 s3 assms(2) by (auto simp: fb_core_def wire_def shaped_def)
  note fs = feedback_phase_spec [OF c3(2) f]
  have nw: "now = cycle_now target e" using n by (simp add: cycle_now_def)
  have c4: "tx_drivers s3 = tx_drivers s" "tx_feedback s3 = tx_feedback s" using s1 s2 s3 by simp_all
  have e1: "clk e \<le> now" "tx_log e1 = tx_log e" "clk e1 = now" using ns by (auto simp: sleep_until_def)
  note eq = assms(1) [unfolded send_cycle_def prod.case Let_def, unfolded r1 prod.case, unfolded r2 prod.case, unfolded b prod.case,
      unfolded n prod.case, unfolded f prod.case, unfolded ca prod.case]
  show thesis
  proof (cases "r1 \<and> r2 \<and> \<not> b")
    case False
    show ?thesis
    proof (rule left)
      have "\<exists>t e0. (x, s', e') = (Break, t, e0) \<and> tx_last_send t = tx_last_send s \<and> tx_log e0 = tx_log e"
        using eq False s1 s2 s3 by (auto simp: external_stop_def sleep_until_def split: if_splits)
      then show "x = Break" "tx_log e' = tx_log e" "tx_last_send s' = tx_last_send s" by auto
      show "\<exists>bs. tx_runs s = True # True # bs \<Longrightarrow> tx_stop_all s \<or> (\<exists>bs. tx_stops s = True # bs)"
        using False r1 r2 b by (auto simp: running_def stop_requested_def split: list.splits)
    qed
  next
    case True
    show ?thesis
    proof (cases fl)
      case fl: True
      show ?thesis using eq True fl f c3 e1 nw by (intro faulted [of now s3 e1 s4 e2]) simp_all
    next
      case fl: False
      have z: "tx_sent_any s5 = tx_sent_any s" "tx_last_send s5 = tx_last_send s"
        using s5 fs(3,4) c3(1) by (auto simp: fb_core_def)
      show ?thesis
        using eq True fl f c3 e1 command_age_check_spec(1) [OF ca] s5 z nw c4
        by (intro went_on [of now s3 e1 s4 e2 stale st]) (auto simp: bump_skipped_def not_less split: if_splits)
    qed
  qed
qed

text \<open>Property C20: once a stream has sent, a cycle that finds some axis whose last reply (or, with
  no reply yet, the first send) is older than the limit ends the loop and sends nothing but disable frames; the
  axis it names in the fault and whose driver it latches is itself too old and is the first such axis, and the
  stop is raised for every bus.\<close>

theorem stale_feedback_stops:
  assumes "shaped s" and "tx_sent_any s" and "j < length (tx_drivers s)"
    and "sc_max_feedback_age c < found_age inp (cycle_now target e) s j"
    and "tx_runs s = True # True # bs" and "\<not> tx_stop_all s" and "tx_stops s = False # cs"
    and "send_cycle c target inp (s, e) = (x, s', e')"
  shows "x = Break \<and> only_disables (tx_log e) (tx_log e') \<and>
    (\<exists>k\<le>j. sc_max_feedback_age c < found_age inp (cycle_now target e) s k \<and>
       (\<forall>i<k. found_age inp (cycle_now target e) s i \<le> sc_max_feedback_age c) \<and> stale_verdict k s')"
  using assms(8,1)
proof (cases rule: send_cycle_cases)
  case left
  then show ?thesis using assms by auto
next
  case (faulted now s1 e1 s2 e2)
  have a: "\<And>i. found_age inp now s1 i = found_age inp now s i" "tx_sent_any s1" "j < length (tx_drivers s1)"
    using faulted(2,4) assms(2,3) by (auto simp: fb_core_def found_age_def)
  have now: "cycle_now target e = now" using faulted(10) by simp
  have "sc_max_feedback_age c < found_age inp now s1 j" using assms(4) now a(1) by simp
  from feedback_phase_spec(6) [OF faulted(3,6) a(2,3) this]
  obtain k where k: "k \<le> j" "\<forall>i<k. found_age inp now s i \<le> sc_max_feedback_age c"
    "sc_max_feedback_age c < found_age inp now s k" "stale_verdict k s2" by (auto simp: a(1) not_less)
  have "stale_verdict k s'" using k(4) faulted(8) by (simp add: stale_verdict_def)
  moreover have "only_disables (tx_log e) (tx_log e')" using feedback_phase_spec(1) [OF faulted(3,6)] faulted(5,9) by simp
  ultimately show ?thesis using k(1-3) faulted(7) unfolding now by blast
next
  case (went_on now s1 e1 s2 e2 stale st)
  have a: "found_age inp now s1 j = found_age inp now s j" "tx_sent_any s1" "j < length (tx_drivers s1)"
    using went_on(2,4) assms(2,3) by (auto simp: fb_core_def found_age_def)
  have "sc_max_feedback_age c < found_age inp now s1 j" using assms(4) went_on(10) a(1) by simp
  from feedback_phase_spec(6) [OF went_on(3,7) a(2,3) this] show ?thesis by simp
qed

text \<open>A transmission that puts frames on the bus without failing records a time within the cycle.\<close>

lemma send_unicast_progress:
  "send_unicast c target stale blocks i t (s, e) = (r, s', e') \<Longrightarrow> \<not> sr_faulted r \<Longrightarrow> (0 < i \<longrightarrow> t \<le> clk e) \<Longrightarrow>
     i \<le> sr_frames r \<and> (sr_frames r = i \<longrightarrow> tx_log e' = tx_log e) \<and> (0 < sr_frames r \<longrightarrow> sr_send_time r \<le> clk e')"
proof (induction c target stale blocks i t "(s, e)" arbitrary: s e rule: send_unicast.induct)
  case (1 c target stale i t s e)
  then show ?case by auto
next
  case (2 c target stale can_id block blocks i t s e)
  obtain ok s1 e1 where m: "may_send c target stale (s, e) = (ok, s1, e1)" using prod_cases3 by blast
  note ms = may_send_spec(1,2) [OF m]
  obtain t1 e2 where t1: "(if i = 0 then steady_now e1 else (t, e1)) = (t1, e2)" by fastforce
  have e2: "t1 \<le> clk e2" using t1 steady_now_spec [of e1 t1 e2] ms(2) 2(4) by (auto split: if_splits)
  obtain b e3 where b: "bus_send (motor_frame can_id block) e2 = (b, e3)" by fastforce
  show ?case
  proof (cases "ok \<and> b")
    case True
    have "send_unicast c target stale blocks (Suc i) t1 (s1, e3) = (r, s', e')" using 2(2) m t1 b True by simp
    from 2(1) [OF m [symmetric] refl refl _ t1 [symmetric] refl b [symmetric] refl _ this 2(3)] True
    show ?thesis using e2 bus_send_clk [OF b] by auto
  next
    case False
    then have "\<not> ok" using 2(2,3) m t1 b by (auto split: prod.splits)
    then have "r = \<lparr>sr_frames = i, sr_window_closed = True, sr_faulted = False, sr_send_time = t\<rparr>" "e' = e1"
      using 2(2) m by auto
    then show ?thesis using ms 2(4) by auto
  qed
qed

lemma send_broadcast_progress:
  assumes "send_broadcast c target stale blocks (s, e) = (r, s', e')" and "\<not> sr_faulted r"
  shows "(sr_frames r = 0 \<longrightarrow> tx_log e' = tx_log e) \<and> (0 < sr_frames r \<longrightarrow> sr_send_time r \<le> clk e')"
proof -
  obtain ok s1 e1 where m: "may_send c target stale (s, e) = (ok, s1, e1)" using prod_cases3 by blast
  note ms = may_send_spec(1,2) [OF m]
  obtain t e2 where t: "steady_now e1 = (t, e2)" by fastforce
  note ts = steady_now_spec [OF t]
  obtain b e3 where b: "(case buildBroadcastFrame blocks (tx_block_count s1) (tx_padding s1) of
      None \<Rightarrow> (False, e2) | Some frame \<Rightarrow> bus_send frame e2) = (b, e3)" by fastforce
  have "clk e3 = clk e2" using b bus_send_clk by (auto split: option.splits)
  then show ?thesis using assms ms ts m t b by (auto simp: send_broadcast_def Let_def split: if_splits prod.splits)
qed

lemma transmit_progress:
  assumes "transmit c target stale blocks (s, e) = (r, s', e')" and "\<not> sr_faulted r"
  shows "sr_frames r = 0 \<Longrightarrow> tx_log e' = tx_log e" and "0 < sr_frames r \<Longrightarrow> sr_send_time r \<le> clk e'"
  using assms send_broadcast_progress [of c target stale blocks s e r s' e']
    send_unicast_progress [of c target stale blocks 0 0 s e r s' e']
  by (auto simp: transmit_def split: if_splits)

lemma conclude_sent_any: "conclude stale r (s, e) = (x, s', e') \<Longrightarrow> tx_sent_any s' = tx_sent_any s"
  using stop_requested_spec [of s]
  by (fastforce simp: conclude_def Let_def external_stop_def bump_skipped_def split: if_splits prod.splits)

lemma command_phase_progress:
  assumes "command_phase c inp target stale (s, e) = (Continue, s', e')"
  shows "tx_log e' = tx_log e \<and> tx_last_send s' = tx_last_send s \<or>
    tx_sent_any s' \<and> clk e \<le> tx_last_send s' \<and> tx_last_send s' \<le> clk e'"
proof -
  obtain ok cmds e1 where h: "(if stale then (True, map zero_gain_command (tx_feedback s), e)
        else let (_, e) = steady_now e; (ok, commands) = ci_hook inp (tx_feedback s) (tx_commands s)
             in (ok, commands, e)) = (ok, cmds, e1)" using prod_cases3 by blast
  have e1: "tx_log e1 = tx_log e" "clk e \<le> clk e1" using h steady_now_spec [of e] by (auto split: if_splits prod.splits)
  let ?s = "s\<lparr>tx_commands := cmds\<rparr>"
  note eq = assms [unfolded command_phase_def prod.case Let_def, unfolded h [unfolded Let_def] prod.case]
  obtain blocks where b: "encode_blocks (tx_drivers ?s) (tx_can_ids ?s) cmds 0 = Inr blocks" and ok
    using eq by (auto split: if_splits sum.splits)
  obtain r s1 e2 where t: "transmit c target stale blocks (?s, e1) = (r, s1, e2)" using prod_cases3 by blast
  have cn: "conclude stale r (record_send c stale r s1, e2) = (Continue, s', e')" using eq b t \<open>ok\<close> by simp
  note cs = conclude_spec(1-3) [OF cn] and ts = transmit_spec(1,3) [OF t]
  have nf: "\<not> sr_faulted r" using cs(3) by simp
  note tp = transmit_progress [OF t nf]
  have "tx_last_send s1 = tx_last_send s" using ts(1) by (simp add: tx_core_def)
  then show ?thesis
    using cs(1,2) conclude_sent_any [OF cn] e1 tp ts(2) by (cases "sr_frames r = 0") (auto simp: record_send_last)
qed

text \<open>Property C30: a cycle that lets the loop continue either sends nothing at all and leaves the
  recorded time of the last transmission alone, or records a time within this cycle as its own; a recorded time
  is at least half a period after the one before, however late the thread was woken. So a stalled thread does not
  catch up in a burst.\<close>

theorem periodic_sends_spaced:
  assumes "shaped s" and "send_cycle c target inp (s, e) = (Continue, s', e')" and "tx_log e' \<noteq> tx_log e"
  shows "tx_sent_any s' \<and> clk e \<le> tx_last_send s' \<and> tx_last_send s' \<le> clk e' \<and>
    (tx_sent_any s \<longrightarrow> tx_last_send s + half (sc_period c) \<le> tx_last_send s')"
  using assms(2,1)
proof (cases rule: send_cycle_cases)
  case left
  then show ?thesis by simp
next
  case (faulted now s1 e1 s2 e2)
  then show ?thesis by simp
next
  case (went_on now s1 e1 s2 e2 stale st)
  note fq = feedback_phase_quiet(1) [OF went_on(7)] and fs = feedback_phase_spec(4) [OF went_on(3,7)]
  have log: "tx_log e2 = tx_log e" "clk e2 = now" using fq went_on(5,6) by simp_all
  then have c: "stale \<or> \<not> tx_sent_any s \<or> half (sc_period c) \<le> now - tx_last_send s"
    "command_phase c inp target stale (s2\<lparr>tx_stats := st\<rparr>, e2) = (Continue, s', e')" using went_on(9) assms(3) by auto
  note cp = command_phase_progress [OF c(2)] and ns = command_phase_spec(3) [OF c(2) refl]
  show ?thesis using cp ns c(1) log assms(3) went_on(1) by auto
qed

text \<open>The frames of a zero-gain cycle: every axis' block is its own driver's encoding of the position it was just
  found at with zero velocity, zero gains and zero torque.\<close>

definition zero_gain_frames :: "StreamConfig \<Rightarrow> CycleInput \<Rightarrow> TxState \<Rightarrow> CanFrame set" where
  "zero_gain_frames c inp s = {f. \<exists>bs. length bs = length (tx_drivers s) \<and>
     (\<forall>i < length (tx_drivers s). encodeControlBlock (tx_drivers s ! i) (found_position inp s i) 0 0 0 0 = Some (bs ! i)) \<and>
     f \<in> block_frames c (tx_block_count s) (tx_padding s) (zip (tx_can_ids s) bs)}"

lemma encode_blocks_zip:
  "encode_blocks ds ids cmds k = Inr blocks \<Longrightarrow> length ids = length ds \<Longrightarrow> length cmds = length ds \<Longrightarrow>
     \<exists>bs. length bs = length ds \<and> blocks = zip ids bs \<and> (\<forall>i < length ds. encodeControlBlock (ds ! i) (cm_position (cmds ! i))
       (cm_velocity (cmds ! i)) (cm_kp (cmds ! i)) (cm_kd (cmds ! i)) (cm_effort (cmds ! i)) = Some (bs ! i))"
proof (induction ds ids cmds k arbitrary: blocks rule: encode_blocks.induct)
  case (1 d ds i ids cmd cmds k)
  obtain b rest where b: "encodeControlBlock d (cm_position cmd) (cm_velocity cmd) (cm_kp cmd) (cm_kd cmd) (cm_effort cmd) = Some b"
    "encode_blocks ds ids cmds (Suc k) = Inr rest" "blocks = (i, b) # rest"
    using 1(2) by (auto split: option.splits sum.splits)
  from 1(1) [OF b(1,2)] 1(3,4) obtain bs where "length bs = length ds" "rest = zip ids bs"
    "\<forall>i < length ds. encodeControlBlock (ds ! i) (cm_position (cmds ! i))
       (cm_velocity (cmds ! i)) (cm_kp (cmds ! i)) (cm_kd (cmds ! i)) (cm_effort (cmds ! i)) = Some (bs ! i)" by auto
  then show ?case using b(1,3) by (intro exI [of _ "b # bs"]) (auto simp: nth_Cons split: nat.splits)
qed auto

text \<open>Property C21: when the owner's last command is older than its limit, the cycle ends the loop
  and every control frame it still sends carries, for each motor, its own driver's encoding of the position the
  motor was just found at with zero velocity, zero gains and zero torque.\<close>

theorem stale_command_zero_gain:
  assumes "shaped s" and "length (tx_can_ids s) = length (tx_drivers s)" and "length (tx_feedback s) = length (tx_drivers s)"
    and "0 < sc_max_command_age c" and "ci_command_written_ns inp \<noteq> 0"
    and "ci_command_written_ns inp + sc_max_command_age c < cycle_now target e"
    and "send_cycle c target inp (s, e) = (x, s', e')"
  shows "x = Break \<and> sends_only (zero_gain_frames c inp s) (tx_log e) (tx_log e')"
  using assms(7,1)
proof (cases rule: send_cycle_cases)
  case left
  then show ?thesis by simp
next
  case (faulted now s1 e1 s2 e2)
  then show ?thesis using feedback_phase_spec(1) [OF faulted(3,6)] by (auto intro: sends_only_mono)
next
  case (went_on now s1 e1 s2 e2 stale st)
  have stale using went_on(8,10) assms(4-6) by auto
  then have c: "command_phase c inp target True (s2\<lparr>tx_stats := st\<rparr>, e2) = (x, s', e')" using went_on(9) by auto
  note cs = command_phase_spec [OF c] and fs = feedback_phase_spec [OF went_on(3,7)]
  have w: "tx_can_ids s2 = tx_can_ids s" "tx_block_count s2 = tx_block_count s" "tx_padding s2 = tx_padding s"
    using fs(5) went_on(2) by (auto simp: wire_def fb_core_def)
  have fp: "found_position inp s1 i = found_position inp s i" for i
    using went_on(4,11,12) by (simp add: found_position_def)
  have "length (tx_feedback s1) = length (tx_drivers s1)" using went_on(11,12) assms(3) by simp
  note fq = feedback_phase_quiet(2) [OF went_on(7) this, unfolded fp went_on(11)]
  have "command_frames c (s2\<lparr>tx_stats := st\<rparr>) (cycle_commands inp True (s2\<lparr>tx_stats := st\<rparr>)) \<subseteq> zero_gain_frames c inp s"
  proof
    fix f assume "f \<in> command_frames c (s2\<lparr>tx_stats := st\<rparr>) (cycle_commands inp True (s2\<lparr>tx_stats := st\<rparr>))"
    then obtain blocks where b: "encode_blocks (tx_drivers s2) (tx_can_ids s) (map zero_gain_command (tx_feedback s2)) 0 = Inr blocks"
      "f \<in> block_frames c (tx_block_count s) (tx_padding s) blocks" using w by (auto simp: command_frames_def cycle_commands_def)
    have "length (tx_can_ids s) = length (tx_drivers s2)"
      "length (map zero_gain_command (tx_feedback s2)) = length (tx_drivers s2)" using fq assms(2) by simp_all
    from encode_blocks_zip [OF b(1) this] obtain bs where bs: "length bs = length (tx_drivers s)" "blocks = zip (tx_can_ids s) bs"
      "\<forall>i < length (tx_drivers s). encodeControlBlock (tx_drivers s2 ! i) (found_position inp s i) 0 0 0 0 = Some (bs ! i)"
      using fq by (auto simp: zero_gain_command_def default_StreamCommand_def)
    have "encodeControlBlock (tx_drivers s ! i) (found_position inp s i) 0 0 0 0 = Some (bs ! i)"
      if i: "i < length (tx_drivers s)" for i
    proof -
      obtain a slot where "tx_drivers s2 ! i = axis_driver a slot (tx_drivers s ! i)" using fq i by blast
      then show ?thesis using bs(3) i axis_driver_encodes by metis
    qed
    then show "f \<in> zero_gain_frames c inp s" using bs(1,2) b(2) by (auto simp: zero_gain_frames_def)
  qed
  from sends_only_mono [OF cs(1) this] fs(1) have "sends_only (zero_gain_frames c inp s) (tx_log e1) (tx_log e')"
    by (auto intro: sends_only_trans sends_only_mono)
  moreover have "x = Break" using cs(3) by (cases x) auto
  ultimately show ?thesis using went_on(5) by simp
qed

section \<open>A concrete stream\<close>

definition sample_enabled :: BxiActuatorDriver where
  "sample_enabled = sample_driver\<lparr>bd_state := kEnabled\<rparr>"

definition sample_slot :: ReplySlot where
  "sample_slot = \<lparr>rs_decoded = one_sensor_feedback, rs_received_at = 0, rs_rx_kernel_realtime_ns = 0,
     rs_rx_userspace_realtime_ns = 0, rs_sequence = 1\<rparr>"

definition sample_stats :: StreamStats where
  "sample_stats = \<lparr>ss_cycles = 0, ss_skipped_cycles = 0, ss_partial_cycles = 0, ss_frames_sent = 0, ss_replies = [0],
     ss_cycles_without_new_reply = [0], ss_max_age_ms = [0], ss_max_command_age_ms = 0,
     ss_command_stale_zero_gain_frames = 0, ss_command_stale_expected_frames = 0, ss_resends = 0,
     ss_command_snapshot_failures = 0, ss_command_coalesced = 0, ss_minimum_interval_holds = 0,
     ss_writes_after_resend = 0, ss_resend_command_holds = 0, ss_new_command_holds = 0,
     ss_bootstrap_command_holds = 0, ss_max_hold_ns = 0, ss_feedback_stale_at_stop = False,
     ss_received_fault_at_stop = kNone, ss_forbidden_replies = 0, ss_forbidden_reply_id = 0,
     ss_stopped_externally = False, ss_fault = kNone, ss_fault_axis = -1\<rparr>"

text \<open>One axis that answered at time 0, after a first send at time 0.\<close>

definition sample_tx :: TxState where
  "sample_tx = \<lparr>tx_drivers = [sample_enabled], tx_can_ids = [2], tx_block_count = 0, tx_padding = [],
     tx_feedback = [\<lparr>sf_feedback = default_ActuatorFeedback, sf_updated = False, sf_age_ms = 0, sf_sequence = 1,
       sf_received_ns = 0\<rparr>], tx_commands = [default_StreamCommand], tx_latest = [sample_slot],
     tx_seen_sequence = [1], tx_last_reply = [0], tx_has_reply = [True], tx_first_send = 0, tx_last_send = 0,
     tx_sent_any = True, tx_sent_previous_cycle = True, tx_stop_all = False,
     tx_runs = [True, True, True, True], tx_stops = [False, False], tx_stats = sample_stats, tx_outcome = kSent\<rparr>"

definition sample_input :: CycleInput where
  "sample_input = \<lparr>ci_slots = [sample_slot], ci_forbidden_replies = 0, ci_forbidden_reply_id = 0, ci_rx_fault = kNone,
     ci_rx_fault_axis = -1, ci_command_written_ns = 1, ci_hook = (\<lambda>fb cmds. (True, cmds))\<rparr>"

lemma sample_block: "\<exists>b. encodeControlBlock sample_enabled (Fin 0) (Fin 0) (Fin 0) (Fin 0) (Fin 0) = Some b"
proof -
  have v: "validateLimits (driver_limits sample_enabled)"
    by (simp add: driver_limits_def sample_enabled_def sample_driver_def validateLimits_def spec_limits_def
        default_BxiSpec_values default_limits_values)
  then have "command_in_range (motor_command sample_enabled (Fin 0) (Fin 0) (Fin 0) (Fin 0) (Fin 0)) (driver_limits sample_enabled)"
    by (intro command_saturated) (simp_all add: sample_enabled_def sample_driver_def)
  from encodeCommand_accepts [OF v this] show ?thesis
    by (auto simp: encodeControlBlock_def sample_enabled_def split: sum.splits)
qed

lemmas sample_defs = sample_tx_def sample_input_def sample_slot_def default_StreamConfig_def shaped_def silent_env_def

theorem stale_feedback_stops_witness:
  "\<exists>s' e'. send_cycle default_StreamConfig 0 sample_input (sample_tx, silent_env\<lparr>clk := 4000000\<rparr>) = (Break, s', e') \<and>
     stale_verdict 0 s'"
proof -
  obtain x s' e' where r: "send_cycle default_StreamConfig 0 sample_input (sample_tx, silent_env\<lparr>clk := 4000000\<rparr>) = (x, s', e')"
    using prod_cases3 by blast
  from stale_feedback_stops [OF _ _ _ _ _ _ _ r, of 0] r show ?thesis
    by (simp add: sample_defs found_age_def cycle_now_def sleep_until_def steady_now_def)
qed

lemma sample_cycle_sends:
  "\<exists>s' e'. send_cycle default_StreamConfig 1000000 sample_input (sample_tx, silent_env) = (Continue, s', e') \<and>
     tx_log e' \<noteq> []"
proof -
  obtain b where b: "encodeControlBlock sample_enabled 0 0 0 0 0 = Some b" using sample_block by (auto simp: zero_double_def)
  show ?thesis
    using b by (simp add: sample_defs send_cycle_def running_def stop_requested_def sleep_until_def steady_now_def
        feedback_phase_def take_slots_def feedback_axis_def apply_axis_def check_axis_age_def reply_age_def
        received_faults_def command_age_check_def half_def command_phase_def transmit_def may_send_def bus_send_def
        record_send_def conclude_def Let_def default_StreamCommand_def)
qed

theorem periodic_sends_spaced_witness:
  "\<exists>s' e'. send_cycle default_StreamConfig 1000000 sample_input (sample_tx, silent_env) = (Continue, s', e') \<and>
     tx_log e' \<noteq> [] \<and> tx_last_send sample_tx + half (sc_period default_StreamConfig) \<le> tx_last_send s'"
proof -
  obtain s' e' where r: "send_cycle default_StreamConfig 1000000 sample_input (sample_tx, silent_env) = (Continue, s', e')"
    "tx_log e' \<noteq> []" using sample_cycle_sends by blast
  from periodic_sends_spaced [OF _ r(1)] r show ?thesis by (simp add: sample_tx_def shaped_def silent_env_def)
qed

theorem stale_command_zero_gain_witness:
  "\<exists>s' e'. send_cycle (default_StreamConfig\<lparr>sc_max_command_age := 1000000\<rparr>) 2000000 sample_input
       (sample_tx, silent_env\<lparr>clk := 2000000\<rparr>) = (Break, s', e') \<and>
     sends_only (zero_gain_frames (default_StreamConfig\<lparr>sc_max_command_age := 1000000\<rparr>) sample_input sample_tx)
       [] (tx_log e')"
proof -
  let ?c = "default_StreamConfig\<lparr>sc_max_command_age := 1000000\<rparr>"
  obtain x s' e' where r: "send_cycle ?c 2000000 sample_input (sample_tx, silent_env\<lparr>clk := 2000000\<rparr>) = (x, s', e')"
    using prod_cases3 by blast
  from stale_command_zero_gain [OF _ _ _ _ _ _ r] r show ?thesis by (simp add: sample_defs cycle_now_def sleep_until_def steady_now_def)
qed

end
