(* ===== verification/Group_Safety.thy ===== *)
theory Group_Safety
  imports Stream_Send
begin

unbundle bit_operations_syntax

text \<open>
  The group safety request of a write-triggered stream (\<^verbatim>\<open>GroupSafety\<close> of \<^verbatim>\<open>bus_streamer.hpp\<close>, and
  \<^verbatim>\<open>captureFeedback\<close>, \<^verbatim>\<open>collectFeedbackStale\<close>, \<^verbatim>\<open>performGroupSafety\<close> of \<^verbatim>\<open>src/bus_streamer.cpp\<close>): any thread
  may ask for the group to be stopped; the send thread answers with one zero-gain broadcast frame, at most
  once per activation. What the send thread reads from other threads (feedback snapshots, reception times,
  requests) is a script that the reads consume.
\<close>

section \<open>Data\<close>

datatype SafetySource = kHwFault | kModeStop | kWatchdog | kFeedbackStaleSource

fun source_bits :: "SafetySource \<Rightarrow> u32" where
  "source_bits kHwFault = 1" | "source_bits kModeStop = 2"
| "source_bits kWatchdog = 4" | "source_bits kFeedbackStaleSource = 8"

datatype SafetyResult = kUnattempted | kProcessing | kCannotGenerate | kSafetySendFailed | kSucceeded | kIncomplete

datatype SafetyFailure =
  kNoFailure | kFeedbackRead | kInvalidFeedback | kPosition | kDriver | kEncode | kFrame
  | kNoErrorObservation | kDrainTimeout

record FeedbackCapture =
  fc_evaluated_ns :: ns
  fc_stale_mask :: u32
  fc_missing_mask :: u32
  fc_unknown_mask :: u32
  fc_received_ns :: "ns list"
  fc_age_ns :: "ns list"
  fc_wait_ns :: "ns list"
  fc_position :: "double list"
  fc_sequence :: "u64 list"
  fc_material_received_ns :: "ns list"
  fc_acquired_ns :: "ns list"
  fc_material_age_ns :: "ns list"
  fc_material :: "u8 list"
  fc_read_failed :: "bool list"
  fc_material_unknown :: "bool list"
  fc_base :: "u8 list"

definition zeros3 :: "'a::zero list" where
  "zeros3 = [0, 0, 0]"

definition default_FeedbackCapture :: FeedbackCapture where
  "default_FeedbackCapture = \<lparr>fc_evaluated_ns = 0, fc_stale_mask = 0, fc_missing_mask = 0, fc_unknown_mask = 0,
     fc_received_ns = zeros3, fc_age_ns = zeros3, fc_wait_ns = zeros3, fc_position = zeros3, fc_sequence = zeros3,
     fc_material_received_ns = zeros3, fc_acquired_ns = zeros3, fc_material_age_ns = zeros3, fc_material = zeros3,
     fc_read_failed = [False, False, False], fc_material_unknown = [False, False, False], fc_base = zeros3\<rparr>"

record FeedbackStaleRecord =
  fr_capacity :: nat
  fr_detected :: bool
  fr_attempted :: bool
  fr_detection :: FeedbackCapture
  fr_attempt :: FeedbackCapture
  fr_primary_axis :: int
  fr_acquired_ns :: "ns list"
  fr_material_age_ns :: "ns list"
  fr_material_unknown :: "bool list"
  fr_read_failed :: "bool list"

definition default_FeedbackStaleRecord :: FeedbackStaleRecord where
  "default_FeedbackStaleRecord = \<lparr>fr_capacity = 1, fr_detected = False, fr_attempted = False,
     fr_detection = default_FeedbackCapture, fr_attempt = default_FeedbackCapture, fr_primary_axis = -1,
     fr_acquired_ns = zeros3, fr_material_age_ns = [-1, -1, -1], fr_material_unknown = [True, True, True],
     fr_read_failed = [False, False, False]\<rparr>"

record GroupSafety =
  gs_epoch :: u64
  gs_axes :: nat
  gs_record_capacity :: nat
  gs_sources :: u32
  gs_detected_ns :: ns
  gs_registered_ns :: ns
  gs_error_observed_ns :: ns
  gs_attempted_ns :: ns
  gs_completed_ns :: ns
  gs_mode_stop_observed_ns :: ns
  gs_result :: SafetyResult
  gs_abandoned :: bool
  gs_drain_timed_out :: bool
  gs_requests :: u64
  gs_position :: "double list"
  gs_material :: "u8 list"
  gs_feedback_sequence :: "u64 list"
  gs_feedback_received_ns :: "ns list"
  gs_failure :: SafetyFailure
  gs_failure_axis :: int
  gs_send_attempted :: bool
  gs_send_success :: bool
  gs_notification_failed :: bool
  gs_terminal_fault :: StreamFault
  gs_feedback_stopped :: bool
  gs_feedback_stale :: FeedbackStaleRecord
  gs_watchdog_sequence :: u64
  gs_watchdog_published_ns :: ns

definition default_GroupSafety :: GroupSafety where
  "default_GroupSafety = \<lparr>gs_epoch = 0, gs_axes = 0, gs_record_capacity = 1, gs_sources = 0, gs_detected_ns = 0,
     gs_registered_ns = 0, gs_error_observed_ns = 0, gs_attempted_ns = 0, gs_completed_ns = 0,
     gs_mode_stop_observed_ns = 0, gs_result = kUnattempted, gs_abandoned = False, gs_drain_timed_out = False,
     gs_requests = 0, gs_position = zeros3, gs_material = zeros3, gs_feedback_sequence = zeros3,
     gs_feedback_received_ns = zeros3, gs_failure = kNoFailure, gs_failure_axis = -1, gs_send_attempted = False,
     gs_send_success = False, gs_notification_failed = False, gs_terminal_fault = kOwnerRequested,
     gs_feedback_stopped = False, gs_feedback_stale = default_FeedbackStaleRecord, gs_watchdog_sequence = 0,
     gs_watchdog_published_ns = 0\<rparr>"

text \<open>\<open>reset\<close> keeps the two capacities only.\<close>

definition reset_safety :: "u64 \<Rightarrow> nat \<Rightarrow> GroupSafety \<Rightarrow> GroupSafety" where
  "reset_safety new_epoch count g = \<lparr>gs_epoch = new_epoch, gs_axes = count,
     gs_record_capacity = gs_record_capacity g, gs_sources = 0, gs_detected_ns = 0, gs_registered_ns = 0,
     gs_error_observed_ns = 0, gs_attempted_ns = 0, gs_completed_ns = 0, gs_mode_stop_observed_ns = 0,
     gs_result = kUnattempted, gs_abandoned = False, gs_drain_timed_out = False, gs_requests = 0,
     gs_position = zeros3, gs_material = zeros3, gs_feedback_sequence = zeros3, gs_feedback_received_ns = zeros3,
     gs_failure = kNoFailure, gs_failure_axis = -1, gs_send_attempted = False, gs_send_success = False,
     gs_notification_failed = False, gs_terminal_fault = kOwnerRequested, gs_feedback_stopped = False,
     gs_feedback_stale = default_FeedbackStaleRecord\<lparr>fr_capacity := fr_capacity (gs_feedback_stale g)\<rparr>,
     gs_watchdog_sequence = 0, gs_watchdog_published_ns = 0\<rparr>"

text \<open>The time of a compare-and-exchange from zero.\<close>

definition set_once :: "ns \<Rightarrow> ns \<Rightarrow> ns" where
  "set_once new old = (if old = 0 then new else old)"

definition request :: "u64 \<Rightarrow> SafetySource \<Rightarrow> ns \<Rightarrow> ns \<Rightarrow> GroupSafety \<Rightarrow> bool \<times> GroupSafety" where
  "request request_epoch source detected registered g =
     (if request_epoch \<noteq> gs_epoch g then (False, g)
      else (True, g\<lparr>gs_requests := gs_requests g + 1, gs_detected_ns := set_once detected (gs_detected_ns g),
                    gs_registered_ns := set_once registered (gs_registered_ns g),
                    gs_sources := gs_sources g OR source_bits source\<rparr>))"

definition observeError :: "ns \<Rightarrow> GroupSafety \<Rightarrow> GroupSafety" where
  "observeError now g = g\<lparr>gs_error_observed_ns := set_once now (gs_error_observed_ns g)\<rparr>"

definition requested :: "GroupSafety \<Rightarrow> bool" where
  "requested g \<longleftrightarrow> gs_sources g \<noteq> 0"

definition has_source :: "SafetySource \<Rightarrow> GroupSafety \<Rightarrow> bool" where
  "has_source source g \<longleftrightarrow> gs_sources g AND source_bits source \<noteq> 0"

definition ready :: "GroupSafety \<Rightarrow> bool" where
  "ready g \<longleftrightarrow> requested g \<and> (\<not> has_source kHwFault g \<or> gs_error_observed_ns g \<noteq> 0)"

definition finished :: "GroupSafety \<Rightarrow> bool" where
  "finished g \<longleftrightarrow> gs_result g \<noteq> kUnattempted \<and> gs_result g \<noteq> kProcessing"

text \<open>
  The state of a write-triggered send thread: its drivers and addressing, the safety record, the storage it
  works on, its statistics, the variables of its loop, and the scripts of what it will read.
\<close>

record PublishedCommand =
  pc_command :: StreamCommand
  pc_sequence :: u64
  pc_published_ns :: ns

datatype SafetyEvent =
  EvRequest u64 SafetySource ns ns | EvObserveError ns | EvAbandon

text \<open>What a wait for the event and timer descriptors comes to: arming the timer failed, the poll failed, it was
  interrupted, or it returned (with an error on a descriptor or its read), each after some time.\<close>

datatype PollResult = TimerFailed | PollFailed | Interrupted nat | Woken bool nat

record WriteTx =
  wt_drivers :: "BxiActuatorDriver list"
  wt_can_ids :: "int list"
  wt_block_count :: nat
  wt_padding :: "u8 list"
  wt_safety :: GroupSafety
  wt_feedback :: "PublishedFeedback list"
  wt_last_valid :: "PublishedFeedback list"
  wt_has_last_valid :: "bool list"
  wt_material_read_failed :: "bool list"
  wt_material_acquired_ns :: "ns list"
  wt_first_stream_send_ns :: ns
  wt_seen_feedback :: "u64 list"
  wt_cache :: "PublishedCommand list"
  wt_commands :: "StreamCommand list"
  wt_blocks :: "(int \<times> u8 list) list"
  wt_stats :: StreamStats
  wt_schedule :: WriteSchedule
  wt_bootstrap_due :: ns
  wt_first_send :: ns
  wt_retry_due :: ns
  wt_hold_start :: ns
  wt_observed_version :: u64
  wt_last_send_kind :: nat
  wt_snapshot_failed :: bool
  wt_notification_failed :: bool
  wt_stop_all :: bool
  wt_events :: "SafetyEvent list list"
  wt_feedback_reads :: "(bool \<times> PublishedFeedback option) list"
  wt_received_reads :: "ns list"
  wt_runs :: "bool list"
  wt_stops :: "bool list"
  wt_versions :: "u64 list"
  wt_batches :: "PublishedCommand list option list"
  wt_rx_faults :: "(StreamFault \<times> int) list"
  wt_armed :: "ns list"
  wt_polls :: "PollResult list"

section \<open>What other threads do\<close>

fun safety_event :: "SafetyEvent \<Rightarrow> GroupSafety \<Rightarrow> GroupSafety" where
  "safety_event (EvRequest epoch source detected registered) g = snd (request epoch source detected registered g)"
| "safety_event (EvObserveError now) g = observeError now g"
| "safety_event EvAbandon g = g\<lparr>gs_drain_timed_out := True, gs_abandoned := True\<rparr>"

definition update_safety :: "(GroupSafety \<Rightarrow> GroupSafety) \<Rightarrow> WriteTx \<Rightarrow> WriteTx" where
  "update_safety f s = s\<lparr>wt_safety := f (wt_safety s)\<rparr>"

definition read_snapshot :: "WriteTx \<Rightarrow> (bool \<times> PublishedFeedback option) \<times> WriteTx" where
  "read_snapshot s = (case wt_feedback_reads s of [] \<Rightarrow> ((False, None), s)
     | r # rs \<Rightarrow> (r, s\<lparr>wt_feedback_reads := rs\<rparr>))"

definition read_received :: "WriteTx \<Rightarrow> ns \<times> WriteTx" where
  "read_received s = (case wt_received_reads s of [] \<Rightarrow> (0, s) | r # rs \<Rightarrow> (r, s\<lparr>wt_received_reads := rs\<rparr>))"

section \<open>Capturing the feedback\<close>

definition keep_material :: "nat \<Rightarrow> PublishedFeedback \<Rightarrow> ns \<Rightarrow> WriteTx \<Rightarrow> WriteTx" where
  "keep_material axis value acquired s = s\<lparr>wt_last_valid := (wt_last_valid s)[axis := value],
     wt_has_last_valid := (wt_has_last_valid s)[axis := True],
     wt_material_acquired_ns := (wt_material_acquired_ns s)[axis := acquired]\<rparr>"

definition usable :: "PublishedFeedback \<Rightarrow> bool" where
  "usable v \<longleftrightarrow> af_valid (pf_feedback v) \<and> isfinite (af_position (pf_feedback v))"

definition record_material :: "nat \<Rightarrow> WriteTx \<Rightarrow> FeedbackCapture \<Rightarrow> FeedbackCapture" where
  "record_material axis s cap =
     (if wt_has_last_valid s ! axis then
        (let material = wt_last_valid s ! axis
         in cap\<lparr>fc_position := (fc_position cap)[axis := af_position (pf_feedback material)],
                fc_sequence := (fc_sequence cap)[axis := pf_sequence material],
                fc_material_received_ns := (fc_material_received_ns cap)[axis := pf_received_ns material],
                fc_acquired_ns := (fc_acquired_ns cap)[axis := wt_material_acquired_ns s ! axis],
                fc_material := (fc_material cap)[axis := (if pf_sequence material \<noteq> 0 then 2 else 1) OR 4 OR 8]\<rparr>)
      else cap)"

definition capture_axis :: "nat \<Rightarrow> FeedbackCapture \<times> WriteTx \<times> env \<Rightarrow> FeedbackCapture \<times> WriteTx \<times> env" where
  "capture_axis axis = (\<lambda>(cap, s, e).
     let ((published, got), s) = read_snapshot s;
         read = (\<not> published \<or> got \<noteq> None);
         s = s\<lparr>wt_material_read_failed := (wt_material_read_failed s)[axis := \<not> read]\<rparr>;
         cap = cap\<lparr>fc_read_failed := (fc_read_failed cap)[axis := \<not> read]\<rparr>;
         value = (if \<not> published then wt_feedback s ! axis
                  else case got of Some v \<Rightarrow> v | None \<Rightarrow> default_PublishedFeedback);
         (acquired, e) = steady_now e;
         eligible = (\<not> published \<or> (wt_first_stream_send_ns s \<noteq> 0 \<and> wt_first_stream_send_ns s \<le> pf_received_ns value));
         s = (if read \<and> eligible \<and> usable value then keep_material axis value acquired s else s);
         cap = record_material axis s cap;
         (received, s) = read_received s
     in (cap\<lparr>fc_received_ns := (fc_received_ns cap)[axis := received]\<rparr>, s, e))"

definition judge_axis :: "StreamConfig \<Rightarrow> ns \<Rightarrow> nat \<Rightarrow> FeedbackCapture \<Rightarrow> FeedbackCapture" where
  "judge_axis c first axis cap =
     (let bit = push_bit axis 1; received = fc_received_ns cap ! axis; now = fc_evaluated_ns cap;
          material_time = fc_material_received_ns cap ! axis;
          unknown = (material_time = 0 \<or> now < material_time);
          cap = cap\<lparr>fc_age_ns := (fc_age_ns cap)[axis := -1], fc_wait_ns := (fc_wait_ns cap)[axis := -1],
                    fc_material_unknown := (fc_material_unknown cap)[axis := unknown],
                    fc_material_age_ns := (fc_material_age_ns cap)[axis := (if unknown then -1 else now - material_time)]\<rparr>
      in if first = 0 then cap\<lparr>fc_missing_mask := fc_missing_mask cap OR bit\<rparr>
         else let in_stream = (received \<noteq> 0 \<and> first \<le> received);
                  cap = (if in_stream then cap else cap\<lparr>fc_missing_mask := fc_missing_mask cap OR bit\<rparr>);
                  base = (if in_stream then received else first)
         in if now < base
            then cap\<lparr>fc_unknown_mask := fc_unknown_mask cap OR bit, fc_base := (fc_base cap)[axis := 3]\<rparr>
            else let age = now - base;
                     cap = cap\<lparr>fc_base := (fc_base cap)[axis := (if in_stream then 1 else 2)]\<rparr>;
                     cap = (if in_stream then cap\<lparr>fc_age_ns := (fc_age_ns cap)[axis := age]\<rparr>
                            else cap\<lparr>fc_wait_ns := (fc_wait_ns cap)[axis := age]\<rparr>)
            in if sc_max_feedback_age c \<le> age then cap\<lparr>fc_stale_mask := fc_stale_mask cap OR bit\<rparr> else cap)"

definition captureFeedback ::
  "StreamConfig \<Rightarrow> ns \<Rightarrow> WriteTx \<times> env \<Rightarrow> FeedbackCapture \<times> WriteTx \<times> env" where
  "captureFeedback c evaluated_ns = (\<lambda>(s, e).
     let n = min (length (wt_drivers s)) 3;
         (cap, s, e) = fold capture_axis [0..<n] (default_FeedbackCapture, s, e);
         (now, e) = (if evaluated_ns \<noteq> 0 then (evaluated_ns, e) else steady_now e);
         cap = cap\<lparr>fc_evaluated_ns := now\<rparr>
     in (fold (judge_axis c (wt_first_stream_send_ns s)) [0..<n] cap, s, e))"

definition set_feedback_stale :: "StreamStats \<Rightarrow> StreamStats" where
  "set_feedback_stale st = st\<lparr>ss_feedback_stale_at_stop := True\<rparr>"

definition primary_axis :: "nat \<Rightarrow> u32 \<Rightarrow> int \<Rightarrow> int" where
  "primary_axis n stale_mask old = (case find (\<lambda>axis. stale_mask AND push_bit axis 1 \<noteq> 0) [0..<n] of
     Some axis \<Rightarrow> int axis | None \<Rightarrow> old)"

definition note_stale :: "FeedbackCapture \<Rightarrow> nat \<Rightarrow> GroupSafety \<Rightarrow> GroupSafety" where
  "note_stale cap n g = g\<lparr>gs_feedback_stale := (gs_feedback_stale g)\<lparr>fr_detected := True, fr_detection := cap,
       fr_primary_axis := primary_axis n (fc_stale_mask cap) (fr_primary_axis (gs_feedback_stale g))\<rparr>,
     gs_feedback_stopped := True,
     gs_terminal_fault := (if requested g then gs_terminal_fault g else kFeedbackStale)\<rparr>"

definition collectFeedbackStale :: "StreamConfig \<Rightarrow> ns \<Rightarrow> WriteTx \<times> env \<Rightarrow> WriteTx \<times> env" where
  "collectFeedbackStale c evaluated_ns = (\<lambda>(s, e).
     if finished (wt_safety s) then (s, e)
     else let (cap, s, e) = captureFeedback c evaluated_ns (s, e)
     in if fc_stale_mask cap = 0 \<or> fr_detected (gs_feedback_stale (wt_safety s)) then (s, e)
     else let g = note_stale cap (length (wt_drivers s)) (wt_safety s); (registered, e) = steady_now e;
              g = snd (request (gs_epoch g) kFeedbackStaleSource (fc_evaluated_ns cap) registered g)
     in (s\<lparr>wt_safety := g, wt_stats := set_feedback_stale (wt_stats s)\<rparr>, e))"

section \<open>Answering a request\<close>

text \<open>What the answer starts from when feedback was found stale: the last usable value, if there is one that
  belongs to this stream.\<close>

definition stale_material :: "nat \<Rightarrow> PublishedFeedback \<Rightarrow> WriteTx \<times> env \<Rightarrow> PublishedFeedback \<times> WriteTx \<times> env" where
  "stale_material axis v = (\<lambda>(s, e).
     let (s, e) = (if (pf_sequence v = 0 \<or> wt_first_stream_send_ns s \<le> pf_received_ns v) \<and> usable v
                   then let (acquired, e) = steady_now e in (keep_material axis v acquired s, e) else (s, e));
         v = (if wt_has_last_valid s ! axis then wt_last_valid s ! axis
              else if pf_sequence v \<noteq> 0 \<and> pf_received_ns v < wt_first_stream_send_ns s
              then v\<lparr>pf_feedback := (pf_feedback v)\<lparr>af_valid := False\<rparr>\<rparr> else v);
         attempted = gs_attempted_ns (wt_safety s);
         unknown = (pf_received_ns v = 0 \<or> attempted < pf_received_ns v);
         s = update_safety (\<lambda>g. let r = gs_feedback_stale g in
               g\<lparr>gs_material := (gs_material g)[axis := (if pf_sequence v \<noteq> 0 then 2 else 1)],
                 gs_feedback_stale := r\<lparr>fr_acquired_ns := (fr_acquired_ns r)[axis := wt_material_acquired_ns s ! axis],
                   fr_material_unknown := (fr_material_unknown r)[axis := unknown],
                   fr_material_age_ns := (fr_material_age_ns r)[axis := (if unknown then -1 else attempted - pf_received_ns v)]\<rparr>\<rparr>) s
     in (v, s, e))"

text \<open>Reading one axis: its value, or that the snapshot could not be read.\<close>

definition safety_feedback :: "nat \<Rightarrow> WriteTx \<times> env \<Rightarrow> PublishedFeedback option \<times> WriteTx \<times> env" where
  "safety_feedback axis = (\<lambda>(s, e).
     let ((version, got), s) = read_snapshot s
     in case (version, got) of
       (True, None) \<Rightarrow> (None, update_safety (\<lambda>g. g\<lparr>gs_feedback_stale := (gs_feedback_stale g)
           \<lparr>fr_read_failed := (fr_read_failed (gs_feedback_stale g))[axis := True]\<rparr>\<rparr>) s, e)
     | _ \<Rightarrow>
         (let v = (case (version, got) of (True, Some v) \<Rightarrow> v | _ \<Rightarrow> wt_feedback s ! axis);
              s = update_safety (\<lambda>g. g\<lparr>gs_material := (gs_material g)[axis := (if version then 2 else 1)]\<rparr>) s;
              (v, s, e) = (if fr_detected (gs_feedback_stale (wt_safety s)) then stale_material axis v (s, e) else (v, s, e))
          in (Some v, update_safety (\<lambda>g. g\<lparr>gs_position := (gs_position g)[axis := af_position (pf_feedback v)],
                gs_feedback_sequence := (gs_feedback_sequence g)[axis := pf_sequence v],
                gs_feedback_received_ns := (gs_feedback_received_ns g)[axis := pf_received_ns v]\<rparr>) s, e)))"

definition mark_material :: "nat \<Rightarrow> u8 \<Rightarrow> WriteTx \<Rightarrow> WriteTx" where
  "mark_material axis bits = update_safety (\<lambda>g. g\<lparr>gs_material := (gs_material g)[axis := (gs_material g ! axis) OR bits]\<rparr>)"

definition encodeSafety :: "BxiActuatorDriver \<Rightarrow> double \<Rightarrow> u8 list option" where
  "encodeSafety d p = encodeControlBlock d p 0 0 0 0"

text \<open>One axis of the answer: its block, or the failure that ends the attempt.\<close>

definition safety_axis :: "nat \<Rightarrow> WriteTx \<times> env \<Rightarrow> (SafetyFailure + u8 list) \<times> WriteTx \<times> env" where
  "safety_axis axis se =
     (case safety_feedback axis se of
        (None, s, e) \<Rightarrow> (Inl kFeedbackRead, s, e)
      | (Some v, s, e) \<Rightarrow>
          (if \<not> af_valid (pf_feedback v) then (Inl kInvalidFeedback, s, e)
           else let s = mark_material axis 4 s
           in if \<not> isfinite (af_position (pf_feedback v)) then (Inl kPosition, s, e)
           else let s = mark_material axis 8 s
           in if bd_state (wt_drivers s ! axis) \<noteq> kEnabled then (Inl kDriver, s, e)
           else case encodeSafety (wt_drivers s ! axis) (af_position (pf_feedback v)) of
             None \<Rightarrow> (Inl kEncode, s, e)
           | Some block \<Rightarrow> (Inr block, s, e)))"

fun safety_blocks :: "nat list \<Rightarrow> WriteTx \<times> env \<Rightarrow> (SafetyFailure \<times> nat) option \<times> WriteTx \<times> env" where
  "safety_blocks [] (s, e) = (None, s, e)"
| "safety_blocks (axis # axs) (s, e) =
     (case safety_axis axis (s, e) of
        (Inl f, s, e) \<Rightarrow> (Some (f, axis), s, e)
      | (Inr block, s, e) \<Rightarrow>
          safety_blocks axs (s\<lparr>wt_blocks := (wt_blocks s)[axis := (wt_can_ids s ! axis, block)]\<rparr>, e))"

definition finish :: "SafetyResult \<Rightarrow> SafetyFailure \<Rightarrow> int \<Rightarrow> WriteTx \<times> env \<Rightarrow> WriteTx \<times> env" where
  "finish result failure axis = (\<lambda>(s, e). let (now, e) = steady_now e in
     (update_safety (\<lambda>g. g\<lparr>gs_failure := failure, gs_failure_axis := axis, gs_completed_ns := now, gs_result := result\<rparr>) s, e))"

definition safety_send :: "CanFrame \<Rightarrow> WriteTx \<times> env \<Rightarrow> WriteTx \<times> env" where
  "safety_send frame = (\<lambda>(s, e).
     let (ok, e) = bus_send frame e;
         s = update_safety (\<lambda>g. g\<lparr>gs_send_attempted := True, gs_send_success := ok\<rparr>) s;
         s = (if ok then s\<lparr>wt_stats := (wt_stats s)\<lparr>ss_frames_sent := ss_frames_sent (wt_stats s) + 1,
                ss_cycles := ss_cycles (wt_stats s) + 1\<rparr>\<rparr> else s);
         (s, e) = finish (if ok then kSucceeded else kSafetySendFailed) kNoFailure (-1) (s, e)
     in (if has_source kWatchdog (wt_safety s)
         then s\<lparr>wt_stats := (wt_stats s)\<lparr>ss_command_stale_expected_frames := 1,
                ss_command_stale_zero_gain_frames := (if ok then 1 else 0)\<rparr>\<rparr> else s, e))"

definition safety_attempt :: "StreamConfig \<Rightarrow> WriteTx \<times> env \<Rightarrow> WriteTx \<times> env" where
  "safety_attempt c = (\<lambda>(s, e).
     let n = length (wt_drivers s)
     in if n \<noteq> gs_axes (wt_safety s) \<or> n < 2 \<or> 3 < n \<or> wt_block_count s \<noteq> n \<or> \<not> sc_broadcast c
        then finish kCannotGenerate kFrame (-1) (s, e)
        else case safety_blocks [0..<n] (s, e) of
          (Some (f, axis), s, e) \<Rightarrow> finish kCannotGenerate f (int axis) (s, e)
        | (None, s, e) \<Rightarrow>
            (case buildBroadcastFrame (wt_blocks s) (wt_block_count s) (wt_padding s) of
               None \<Rightarrow> finish kCannotGenerate kFrame (-1) (s, e)
             | Some frame \<Rightarrow> safety_send frame (s, e)))"

definition capture_attempt :: "StreamConfig \<Rightarrow> WriteTx \<times> env \<Rightarrow> WriteTx \<times> env" where
  "capture_attempt c = (\<lambda>(s, e).
     if fr_detected (gs_feedback_stale (wt_safety s)) then
       (let (cap, s, e) = captureFeedback c 0 (s, e)
        in (update_safety (\<lambda>g. g\<lparr>gs_feedback_stale := (gs_feedback_stale g)
              \<lparr>fr_attempt := cap, fr_attempted := True\<rparr>\<rparr>) s, e))
     else (s, e))"

definition performGroupSafety :: "StreamConfig \<Rightarrow> WriteTx \<times> env \<Rightarrow> WriteTx \<times> env" where
  "performGroupSafety c = (\<lambda>(s, e).
     let g = wt_safety s
     in if finished g then (s, e)
     else if gs_abandoned g then
       (let (now, e) = steady_now e
        in (update_safety (\<lambda>g. g\<lparr>gs_failure := (if ready g then kDrainTimeout else kNoErrorObservation),
              gs_completed_ns := now, gs_result := kIncomplete\<rparr>) s, e))
     else if \<not> ready g \<or> gs_result g \<noteq> kUnattempted then (s, e)
     else let s = update_safety (\<lambda>g. g\<lparr>gs_result := kProcessing\<rparr>) s;
              (s, e) = capture_attempt c (s, e);
              (now, e) = steady_now e;
              s = update_safety (\<lambda>g. g\<lparr>gs_attempted_ns := now, gs_notification_failed := wt_notification_failed s\<rparr>) s
     in safety_attempt c (s, e))"

section \<open>What the parts leave alone\<close>

text \<open>The addressing of the group and what decides whether a request is answered.\<close>

definition sg_core ::
  "WriteTx \<Rightarrow> (BxiActuatorDriver list \<times> int list \<times> nat \<times> u8 list \<times> (int \<times> u8 list) list \<times> ns \<times> WriteSchedule) \<times> SafetyResult \<times> u32 \<times> ns \<times> bool \<times> nat \<times> u64 \<times> bool" where
  "sg_core s = ((wt_drivers s, wt_can_ids s, wt_block_count s, wt_padding s, wt_blocks s, wt_first_stream_send_ns s,
     wt_schedule s),
     gs_result (wt_safety s), gs_sources (wt_safety s), gs_error_observed_ns (wt_safety s), gs_abandoned (wt_safety s),
     gs_axes (wt_safety s), gs_epoch (wt_safety s), gs_send_attempted (wt_safety s))"

lemma read_snapshot_core: "read_snapshot s = (r, s') \<Longrightarrow> sg_core s' = sg_core s \<and> wt_safety s' = wt_safety s"
  by (auto simp: read_snapshot_def sg_core_def split: list.splits)

lemma read_received_core: "read_received s = (r, s') \<Longrightarrow> sg_core s' = sg_core s \<and> wt_safety s' = wt_safety s"
  by (auto simp: read_received_def sg_core_def split: list.splits)

lemma keep_material_core [simp]:
  "sg_core (keep_material axis v t s) = sg_core s" "wt_safety (keep_material axis v t s) = wt_safety s"
  by (simp_all add: keep_material_def sg_core_def)

lemma capture_axis_core:
  assumes "capture_axis axis (cap, s, e) = (cap', s', e')"
  shows "sg_core s' = sg_core s \<and> wt_safety s' = wt_safety s \<and> tx_log e' = tx_log e \<and> clk e \<le> clk e'"
proof -
  obtain p got s1 where r: "read_snapshot s = ((p, got), s1)" using prod_cases3 by (metis surj_pair)
  let ?s1 = "s1\<lparr>wt_material_read_failed := (wt_material_read_failed s1)[axis := \<not> (\<not> p \<or> got \<noteq> None)]\<rparr>"
  let ?v = "if \<not> p then wt_feedback ?s1 ! axis else case got of Some v \<Rightarrow> v | None \<Rightarrow> default_PublishedFeedback"
  obtain t e1 where t: "steady_now e = (t, e1)" by fastforce
  define s2 where "s2 = (if (\<not> p \<or> got \<noteq> None) \<and> (\<not> p \<or> (wt_first_stream_send_ns ?s1 \<noteq> 0 \<and>
      wt_first_stream_send_ns ?s1 \<le> pf_received_ns ?v)) \<and> usable ?v then keep_material axis ?v t ?s1 else ?s1)"
  obtain x s3 where x: "read_received s2 = (x, s3)" by fastforce
  have "s' = s3" "e' = e1"
    using assms r t x unfolding capture_axis_def s2_def [symmetric] Let_def by (auto simp: s2_def)
  moreover have "sg_core ?s1 = sg_core s1" by (simp add: sg_core_def)
  then have "sg_core s2 = sg_core s1 \<and> wt_safety s2 = wt_safety s1" unfolding s2_def by (auto split: if_splits)
  ultimately show ?thesis using read_snapshot_core [OF r] read_received_core [OF x] steady_now_spec [OF t] by simp
qed

lemma capture_fold_core:
  "fold capture_axis axs (cap, s, e) = (cap', s', e') \<Longrightarrow>
     sg_core s' = sg_core s \<and> wt_safety s' = wt_safety s \<and> tx_log e' = tx_log e \<and> clk e \<le> clk e'"
proof (induction axs arbitrary: cap s e)
  case Nil
  then show ?case by simp
next
  case (Cons a axs)
  obtain cap1 s1 e1 where c: "capture_axis a (cap, s, e) = (cap1, s1, e1)" using prod_cases3 by blast
  then have "fold capture_axis axs (cap1, s1, e1) = (cap', s', e')" using Cons.prems by simp
  from Cons.IH [OF this] capture_axis_core [OF c] show ?case by simp
qed

lemma captureFeedback_core:
  assumes "captureFeedback c ev (s, e) = (cap, s', e')"
  shows "sg_core s' = sg_core s \<and> wt_safety s' = wt_safety s \<and> tx_log e' = tx_log e \<and> clk e \<le> clk e'"
proof -
  obtain cap1 s1 e1 where f: "fold capture_axis [0..<min (length (wt_drivers s)) 3] (default_FeedbackCapture, s, e) = (cap1, s1, e1)"
    using prod_cases3 by blast
  obtain t e2 where t: "(if ev \<noteq> 0 then (ev, e1) else steady_now e1) = (t, e2)" by fastforce
  have "s' = s1" "e' = e2" using assms f t by (auto simp: captureFeedback_def Let_def)
  moreover have "tx_log e2 = tx_log e1" "clk e1 \<le> clk e2" using t steady_now_spec by (auto split: if_splits)
  ultimately show ?thesis using capture_fold_core [OF f] by simp
qed

lemma update_safety_core:
  assumes "\<And>g. gs_result (f g) = gs_result g" "\<And>g. gs_sources (f g) = gs_sources g"
    "\<And>g. gs_error_observed_ns (f g) = gs_error_observed_ns g" "\<And>g. gs_abandoned (f g) = gs_abandoned g"
    "\<And>g. gs_axes (f g) = gs_axes g" "\<And>g. gs_epoch (f g) = gs_epoch g" "\<And>g. gs_send_attempted (f g) = gs_send_attempted g"
  shows "sg_core (update_safety f s) = sg_core s"
  by (simp add: assms update_safety_def sg_core_def)

lemma mark_material_core [simp]: "sg_core (mark_material axis bits s) = sg_core s"
  unfolding mark_material_def by (rule update_safety_core) simp_all

lemma stale_material_core:
  assumes "stale_material axis v (s, e) = (v', s', e')"
  shows "sg_core s' = sg_core s \<and> tx_log e' = tx_log e"
proof -
  obtain s1 e1 where k: "(if (pf_sequence v = 0 \<or> wt_first_stream_send_ns s \<le> pf_received_ns v) \<and> usable v
                   then let (acquired, e) = steady_now e in (keep_material axis v acquired s, e) else (s, e)) = (s1, e1)"
    by fastforce
  have "sg_core s1 = sg_core s" "tx_log e1 = tx_log e"
    using k steady_now_spec by (auto split: if_splits prod.splits)
  moreover have "sg_core s' = sg_core s1" "e' = e1"
    using assms [unfolded stale_material_def prod.case Let_def, unfolded k [unfolded Let_def] prod.case]
    by (auto intro!: update_safety_core)
  ultimately show ?thesis by simp
qed

lemma safety_feedback_core:
  assumes "safety_feedback axis (s, e) = (r, s', e')"
  shows "sg_core s' = sg_core s \<and> tx_log e' = tx_log e"
proof -
  obtain p got s1 where rs: "read_snapshot s = ((p, got), s1)" using prod_cases3 by (metis surj_pair)
  note c1 = read_snapshot_core [OF rs]
  show ?thesis
  proof (cases "p \<and> got = None")
    case True
    then show ?thesis
      using assms rs c1 by (auto simp: safety_feedback_def Let_def intro!: update_safety_core [THEN trans])
  next
    case False
    define v where "v = (case (p, got) of (True, Some v) \<Rightarrow> v | _ \<Rightarrow> wt_feedback s1 ! axis)"
    define s2 where "s2 = update_safety (\<lambda>g. g\<lparr>gs_material := (gs_material g)[axis := (if p then 2 else 1)]\<rparr>) s1"
    obtain v3 s3 e3 where m: "(if fr_detected (gs_feedback_stale (wt_safety s2)) then stale_material axis v (s2, e)
        else (v, s2, e)) = (v3, s3, e3)" using prod_cases3 by blast
    have c2: "sg_core s2 = sg_core s1" unfolding s2_def by (rule update_safety_core) simp_all
    have c3: "sg_core s3 = sg_core s2" "tx_log e3 = tx_log e"
      using m stale_material_core [of axis v s2 e v3 s3 e3] by (auto split: if_splits)
    have eq: "(r, s', e') = (Some v3, update_safety (\<lambda>g. g\<lparr>gs_position := (gs_position g)[axis := af_position (pf_feedback v3)],
                gs_feedback_sequence := (gs_feedback_sequence g)[axis := pf_sequence v3],
                gs_feedback_received_ns := (gs_feedback_received_ns g)[axis := pf_received_ns v3]\<rparr>) s3, e3)"
      using assms False m unfolding safety_feedback_def rs prod.case Let_def v_def s2_def
      by (auto split: option.splits bool.splits)
    then have "sg_core s' = sg_core s3" "e' = e3" by (auto intro!: update_safety_core)
    then show ?thesis using c1 c2 c3 by simp
  qed
qed

lemma safety_axis_spec:
  assumes "safety_axis axis (s, e) = (r, s', e')"
  shows "sg_core s' = sg_core s" and "tx_log e' = tx_log e"
    and "r = Inr b \<Longrightarrow> bd_state (wt_drivers s ! axis) = kEnabled \<and>
      (\<exists>p. isfinite p \<and> encodeSafety (wt_drivers s ! axis) p = Some b)"
proof -
  obtain v s1 e1 where f: "safety_feedback axis (s, e) = (v, s1, e1)" using prod_cases3 by blast
  note fc = safety_feedback_core [OF f]
  have d: "wt_drivers s1 = wt_drivers s" using fc by (simp add: sg_core_def)
  have md: "wt_drivers (mark_material axis k t) = wt_drivers t" for k t by (simp add: mark_material_def update_safety_def)
  note eq = assms [unfolded safety_axis_def f prod.case Let_def]
  show "sg_core s' = sg_core s" "tx_log e' = tx_log e"
    using eq fc by (auto split: option.splits if_splits)
  show "bd_state (wt_drivers s ! axis) = kEnabled \<and> (\<exists>p. isfinite p \<and> encodeSafety (wt_drivers s ! axis) p = Some b)" if "r = Inr b"
    using eq that by (auto simp: md d split: option.splits if_splits)
qed

definition safety_block_for :: "WriteTx \<Rightarrow> nat \<Rightarrow> int \<times> u8 list \<Rightarrow> bool" where
  "safety_block_for s axis ib \<longleftrightarrow> fst ib = wt_can_ids s ! axis \<and> bd_state (wt_drivers s ! axis) = kEnabled \<and>
     (\<exists>p. isfinite p \<and> encodeSafety (wt_drivers s ! axis) p = Some (snd ib))"

lemma safety_block_for_cong:
  "wt_can_ids s = wt_can_ids t \<Longrightarrow> wt_drivers s = wt_drivers t \<Longrightarrow> safety_block_for s = safety_block_for t"
  by (auto simp: safety_block_for_def fun_eq_iff)

lemma safety_blocks_spec:
  "safety_blocks axs (s, e) = (r, s', e') \<Longrightarrow> distinct axs \<Longrightarrow> (\<forall>a \<in> set axs. a < length (wt_blocks s)) \<Longrightarrow>
     (\<exists>bs. sg_core s' = sg_core (s\<lparr>wt_blocks := bs\<rparr>) \<and> length bs = length (wt_blocks s) \<and>
        (\<forall>j. j \<notin> set axs \<longrightarrow> bs ! j = wt_blocks s ! j) \<and>
        (r = None \<longrightarrow> (\<forall>a \<in> set axs. safety_block_for s a (bs ! a)))) \<and> tx_log e' = tx_log e"
proof (induction axs "(s, e)" arbitrary: s e rule: safety_blocks.induct)
  case (1 s e)
  then show ?case by (auto intro: exI [of _ "wt_blocks s"])
next
  case (2 a axs s e)
  obtain x s1 e1 where x: "safety_axis a (s, e) = (x, s1, e1)" using prod_cases3 by blast
  note ax = safety_axis_spec [OF x]
  have s1: "wt_blocks s1 = wt_blocks s" "wt_can_ids s1 = wt_can_ids s" "wt_drivers s1 = wt_drivers s"
    using ax(1) by (auto simp: sg_core_def)
  show ?case
  proof (cases x)
    case (Inl f)
    then have "r \<noteq> None" "s' = s1" "e' = e1" using 2(2) x by auto
    then show ?thesis using ax s1 by (auto simp: sg_core_def intro!: exI [of _ "wt_blocks s"])
  next
    case (Inr b)
    let ?s = "s1\<lparr>wt_blocks := (wt_blocks s1)[a := (wt_can_ids s1 ! a, b)]\<rparr>"
    have "safety_blocks axs (?s, e1) = (r, s', e')" using 2(2) x Inr by simp
    from 2(1) [OF x [symmetric] Inr refl this] 2(3,4) s1(1) obtain bs where
      bs: "sg_core s' = sg_core (?s\<lparr>wt_blocks := bs\<rparr>)" "length bs = length (wt_blocks s)"
      "\<forall>j. j \<notin> set axs \<longrightarrow> bs ! j = wt_blocks ?s ! j" "r = None \<longrightarrow> (\<forall>a \<in> set axs. safety_block_for ?s a (bs ! a))"
      and l: "tx_log e' = tx_log e1" by auto
    have eq: "safety_block_for ?s = safety_block_for s" by (rule safety_block_for_cong) (use s1 in simp_all)
    have "bs ! a = (wt_can_ids s ! a, b)" using bs(3) 2(3,4) s1 by simp
    then have a: "safety_block_for s a (bs ! a)" using ax(3) [OF Inr] by (auto simp: safety_block_for_def)
    have "sg_core s' = sg_core (s\<lparr>wt_blocks := bs\<rparr>)" using bs(1) ax(1) by (simp add: sg_core_def)
    moreover have "\<forall>j. j \<notin> set (a # axs) \<longrightarrow> bs ! j = wt_blocks s ! j" using bs(3) s1(1) by simp
    ultimately show ?thesis using bs(2,4) a eq l ax(2) by (intro conjI exI [of _ bs]) auto
  qed
qed

section \<open>One answer per activation\<close>

datatype SafetyCall = Other SafetyEvent | Collect ns | Perform

fun safety_call :: "StreamConfig \<Rightarrow> SafetyCall \<Rightarrow> WriteTx \<times> env \<Rightarrow> WriteTx \<times> env" where
  "safety_call c (Other ev) (s, e) = (update_safety (safety_event ev) s, e)"
| "safety_call c (Collect ev) (s, e) = collectFeedbackStale c ev (s, e)"
| "safety_call c Perform (s, e) = performGroupSafety c (s, e)"

text \<open>The frame that answers a request: one broadcast whose every block is a zero-gain command of an enabled
  driver at a finite position.\<close>

definition safety_frame :: "StreamConfig \<Rightarrow> WriteTx \<Rightarrow> CanFrame \<Rightarrow> bool" where
  "safety_frame c s f \<longleftrightarrow> (\<exists>bs. buildBroadcastFrame bs (wt_block_count s) (wt_padding s) = Some f \<and>
     length bs = length (wt_drivers s) \<and> (\<forall>a < length (wt_drivers s). safety_block_for s a (bs ! a)))"

lemma finish_spec:
  "finish res f a (s, e) = (s', e') \<Longrightarrow> gs_result (wt_safety s') = res \<and> tx_log e' = tx_log e \<and>
     gs_send_attempted (wt_safety s') = gs_send_attempted (wt_safety s) \<and> gs_send_success (wt_safety s') = gs_send_success (wt_safety s) \<and>
     wt_drivers s' = wt_drivers s \<and> wt_can_ids s' = wt_can_ids s \<and> wt_block_count s' = wt_block_count s \<and>
     wt_padding s' = wt_padding s \<and> length (wt_blocks s') = length (wt_blocks s) \<and> wt_schedule s' = wt_schedule s"
  using steady_now_spec [of e] by (auto simp: finish_def update_safety_def split: prod.splits)

text \<open>What stays the same through every call: how the group is addressed, and the schedule.\<close>

definition group_wire :: "WriteTx \<Rightarrow> BxiActuatorDriver list \<times> int list \<times> nat \<times> u8 list \<times> nat \<times> WriteSchedule" where
  "group_wire s = (wt_drivers s, wt_can_ids s, wt_block_count s, wt_padding s, length (wt_blocks s), wt_schedule s)"

lemma update_safety_wire: "group_wire (update_safety f s) = group_wire s"
  by (simp add: group_wire_def update_safety_def)

lemma core_wire: "sg_core s' = sg_core s \<Longrightarrow> group_wire s' = group_wire s"
  by (simp add: sg_core_def group_wire_def)

lemma safety_send_spec:
  assumes "safety_send f (s, e) = (s', e')"
  shows "\<exists>ok. tx_log e' = tx_log e @ [(f, ok)] \<and> gs_result (wt_safety s') = (if ok then kSucceeded else kSafetySendFailed) \<and>
     gs_send_attempted (wt_safety s') \<and> group_wire s' = group_wire s"
proof -
  obtain ok e1 where b: "bus_send f e = (ok, e1)" by fastforce
  let ?s = "update_safety (\<lambda>g. g\<lparr>gs_send_attempted := True, gs_send_success := ok\<rparr>) s"
  let ?t = "if ok then ?s\<lparr>wt_stats := (wt_stats ?s)\<lparr>ss_frames_sent := ss_frames_sent (wt_stats ?s) + 1,
                ss_cycles := ss_cycles (wt_stats ?s) + 1\<rparr>\<rparr> else ?s"
  obtain s2 e2 where f: "finish (if ok then kSucceeded else kSafetySendFailed) kNoFailure (-1) (?t, e1) = (s2, e2)" by fastforce
  have "wt_safety s' = wt_safety s2" "group_wire s' = group_wire s2" "e' = e2"
    using assms [unfolded safety_send_def prod.case Let_def b, unfolded f prod.case] by (auto simp: group_wire_def)
  moreover have "tx_log e1 = tx_log e @ [(f, ok)]" using env_log(4) [of f e] b by simp
  ultimately show ?thesis using finish_spec [OF f] by (auto simp: group_wire_def update_safety_def)
qed

lemma safety_attempt_spec:
  assumes "safety_attempt c (s, e) = (s', e')" and "length (wt_blocks s) = length (wt_drivers s)"
  shows "finished (wt_safety s') \<and> group_wire s' = group_wire s \<and>
    (tx_log e' = tx_log e \<and> gs_result (wt_safety s') = kCannotGenerate \<or>
     (\<exists>f ok. tx_log e' = tx_log e @ [(f, ok)] \<and> safety_frame c s f \<and>
        gs_result (wt_safety s') = (if ok then kSucceeded else kSafetySendFailed)))"
proof -
  let ?n = "length (wt_drivers s)"
  note eq = assms(1) [unfolded safety_attempt_def prod.case Let_def]
  show ?thesis
  proof (cases "?n \<noteq> gs_axes (wt_safety s) \<or> ?n < 2 \<or> 3 < ?n \<or> wt_block_count s \<noteq> ?n \<or> \<not> sc_broadcast c")
    case True
    then have "finish kCannotGenerate kFrame (-1) (s, e) = (s', e')" using eq by simp
    from finish_spec [OF this] show ?thesis by (auto simp: finished_def group_wire_def)
  next
    case False
    obtain r s1 e1 where b: "safety_blocks [0..<?n] (s, e) = (r, s1, e1)" using prod_cases3 by blast
    from safety_blocks_spec [OF b] assms(2) obtain bs where
      bs: "sg_core s1 = sg_core (s\<lparr>wt_blocks := bs\<rparr>)" "length bs = ?n"
        "r = None \<longrightarrow> (\<forall>a < ?n. safety_block_for s a (bs ! a))" and l: "tx_log e1 = tx_log e" by auto
    have w: "group_wire s1 = group_wire s" "wt_blocks s1 = bs" "wt_block_count s1 = wt_block_count s" "wt_padding s1 = wt_padding s"
      using bs(1,2) assms(2) by (auto simp: sg_core_def group_wire_def)
    note eq' = eq [unfolded if_not_P [OF False] b prod.case]
    show ?thesis
    proof (cases "r = None \<and> (\<exists>f. buildBroadcastFrame (wt_blocks s1) (wt_block_count s1) (wt_padding s1) = Some f)")
      case True
      then obtain f where f: "r = None" "buildBroadcastFrame (wt_blocks s1) (wt_block_count s1) (wt_padding s1) = Some f" by blast
      then have "safety_send f (s1, e1) = (s', e')" using eq' by simp
      from safety_send_spec [OF this] obtain ok where ok: "tx_log e' = tx_log e1 @ [(f, ok)]"
        "gs_result (wt_safety s') = (if ok then kSucceeded else kSafetySendFailed)" "group_wire s' = group_wire s1" by blast
      have "safety_frame c s f" using f(2) w bs f(1) by (auto simp: safety_frame_def)
      then show ?thesis using ok w l by (auto simp: finished_def)
    next
      case False
      then obtain k a where "finish kCannotGenerate k a (s1, e1) = (s', e')"
        using eq' by (auto split: option.splits prod.splits)
      from finish_spec [OF this] show ?thesis using w l by (auto simp: finished_def group_wire_def)
    qed
  qed
qed

lemma capture_attempt_wire:
  assumes "capture_attempt c (s, e) = (s', e')"
  shows "group_wire s' = group_wire s" and "tx_log e' = tx_log e"
proof -
  obtain cap s2 e3 where cap: "captureFeedback c 0 (s, e) = (cap, s2, e3)" using prod_cases3 by blast
  have cc: "sg_core s2 = sg_core s" "tx_log e3 = tx_log e" using captureFeedback_core [OF cap] by auto
  with core_wire [OF cc(1)] show "group_wire s' = group_wire s" "tx_log e' = tx_log e"
    using assms cap update_safety_wire by (auto simp: capture_attempt_def split: if_splits)
qed

text \<open>Performing: nothing, giving up after the owner's drain timeout, or one attempt.\<close>

lemma performGroupSafety_spec:
  assumes "performGroupSafety c (s, e) = (s', e')" and "length (wt_blocks s) = length (wt_drivers s)"
  shows "group_wire s' = group_wire s \<and>
    (s' = s \<and> e' = e \<and> (finished (wt_safety s) \<or> \<not> ready (wt_safety s) \<or> gs_result (wt_safety s) = kProcessing) \<or>
     \<not> finished (wt_safety s) \<and> finished (wt_safety s') \<and>
     (tx_log e' = tx_log e \<and> gs_result (wt_safety s') = kIncomplete \<and> gs_abandoned (wt_safety s) \<or>
      ready (wt_safety s) \<and> tx_log e' = tx_log e \<and> gs_result (wt_safety s') = kCannotGenerate \<or>
      ready (wt_safety s) \<and> (\<exists>f ok. tx_log e' = tx_log e @ [(f, ok)] \<and> safety_frame c s f \<and>
        gs_result (wt_safety s') = (if ok then kSucceeded else kSafetySendFailed))))"
proof -
  let ?g = "wt_safety s"
  note eq = assms(1) [unfolded performGroupSafety_def prod.case Let_def]
  consider "finished ?g" | "\<not> finished ?g" "gs_abandoned ?g"
    | "\<not> finished ?g" "\<not> gs_abandoned ?g" "\<not> ready ?g \<or> gs_result ?g \<noteq> kUnattempted"
    | "\<not> finished ?g" "\<not> gs_abandoned ?g" "ready ?g" "gs_result ?g = kUnattempted" by blast
  then show ?thesis
  proof cases
    case 1
    have "(s, e) = (s', e')" using eq [unfolded if_P [OF 1]] .
    then show ?thesis using 1 by simp
  next
    case 2
    obtain t e1 where t: "steady_now e = (t, e1)" by fastforce
    let ?p = "(update_safety (\<lambda>g. g\<lparr>gs_failure := (if ready g then kDrainTimeout else kNoErrorObservation),
              gs_completed_ns := t, gs_result := kIncomplete\<rparr>) s, e1)"
    have p: "?p = (s', e')" using eq [unfolded if_not_P [OF 2(1)] if_P [OF 2(2)] t prod.case] .
    have "gs_result (wt_safety (fst ?p)) = kIncomplete \<and> group_wire (fst ?p) = group_wire s \<and> tx_log (snd ?p) = tx_log e"
      using steady_now_spec [OF t] by (simp only: fst_conv snd_conv) (simp add: group_wire_def update_safety_def)
    then show ?thesis unfolding p using 2 by (simp add: finished_def)
  next
    case 3
    have "(s, e) = (s', e')" using eq [unfolded if_not_P [OF 3(1)] if_not_P [OF 3(2)] if_P [OF 3(3)]] .
    then show ?thesis using 3 by (auto simp: finished_def)
  next
    case 4
    let ?s = "update_safety (\<lambda>g. g\<lparr>gs_result := kProcessing\<rparr>) s"
    obtain s1 e1 where k: "capture_attempt c (?s, e) = (s1, e1)" by fastforce
    obtain t e2 where t: "steady_now e1 = (t, e2)" by fastforce
    let ?t = "update_safety (\<lambda>g. g\<lparr>gs_attempted_ns := t, gs_notification_failed := wt_notification_failed s1\<rparr>) s1"
    have nr: "\<not> (\<not> ready ?g \<or> gs_result ?g \<noteq> kUnattempted)" using 4 by simp
    have a: "safety_attempt c (?t, e2) = (s', e')"
      using eq [unfolded if_not_P [OF 4(1)] if_not_P [OF 4(2)] if_not_P [OF nr] k prod.case t] .
    have w: "group_wire s1 = group_wire s" "tx_log e1 = tx_log e"
      using capture_attempt_wire [OF k] by (simp_all add: update_safety_wire)
    have wt: "group_wire ?t = group_wire s" using w(1) by (simp add: update_safety_wire)
    then have "length (wt_blocks ?t) = length (wt_drivers ?t)" using assms(2) by (simp add: group_wire_def)
    note sp = safety_attempt_spec [OF a this]
    have f: "safety_frame c ?t f = safety_frame c s f" for f
      using wt safety_block_for_cong [of ?t s] by (simp add: group_wire_def safety_frame_def)
    show ?thesis using sp 4(1,3) wt w(2) steady_now_spec [OF t] f by auto
  qed
qed

lemma request_simps [simp]:
  "gs_result (snd (request ep src d r g)) = gs_result g" "gs_abandoned (snd (request ep src d r g)) = gs_abandoned g"
  "gs_error_observed_ns (snd (request ep src d r g)) = gs_error_observed_ns g"
  "gs_epoch (snd (request ep src d r g)) = gs_epoch g" "gs_axes (snd (request ep src d r g)) = gs_axes g"
  by (auto simp: request_def)

lemma request_sources:
  "gs_sources (snd (request ep src d r g)) = (if ep = gs_epoch g then gs_sources g OR source_bits src else gs_sources g)"
  by (simp add: request_def)

lemma requested_mono: "requested g \<Longrightarrow> requested (snd (request ep src d r g))"
  by (auto simp: requested_def request_sources or_eq_0_iff)

lemma collect_spec:
  assumes "collectFeedbackStale c ev (s, e) = (s', e')"
  shows "group_wire s' = group_wire s" and "tx_log e' = tx_log e \<and> clk e \<le> clk e'"
    and "wt_safety s' = wt_safety s \<or> \<not> finished (wt_safety s) \<and> (\<exists>cap t. wt_safety s' =
      snd (request (gs_epoch (wt_safety s)) kFeedbackStaleSource (fc_evaluated_ns cap) t
        (note_stale cap (length (wt_drivers s)) (wt_safety s))))"
proof -
  obtain cap s1 e1 where cap: "captureFeedback c ev (s, e) = (cap, s1, e1)" using prod_cases3 by blast
  have cc: "sg_core s1 = sg_core s" "wt_safety s1 = wt_safety s" "tx_log e1 = tx_log e" "wt_drivers s1 = wt_drivers s" "clk e \<le> clk e1"
    using captureFeedback_core [OF cap] by (auto simp: sg_core_def)
  obtain t e2 where t: "steady_now e1 = (t, e2)" by fastforce
  note eq = assms [unfolded collectFeedbackStale_def prod.case cap Let_def t]
  have ep: "gs_epoch (note_stale cap n g) = gs_epoch g" for n g by (simp add: note_stale_def)
  consider "finished (wt_safety s)" "(s, e) = (s', e')" | "\<not> finished (wt_safety s)" "(s1, e1) = (s', e')"
    | "\<not> finished (wt_safety s)" "(s1\<lparr>wt_safety := snd (request (gs_epoch (wt_safety s1)) kFeedbackStaleSource (fc_evaluated_ns cap) t
        (note_stale cap (length (wt_drivers s1)) (wt_safety s1))), wt_stats := set_feedback_stale (wt_stats s1)\<rparr>, e2) = (s', e')"
    using eq [unfolded ep] by (cases "finished (wt_safety s)";
      cases "fc_stale_mask cap = 0 \<or> fr_detected (gs_feedback_stale (wt_safety s1))") simp_all
  then have "group_wire s' = group_wire s \<and> (tx_log e' = tx_log e \<and> clk e \<le> clk e') \<and> (wt_safety s' = wt_safety s \<or> \<not> finished (wt_safety s) \<and> (\<exists>cap t. wt_safety s' =
      snd (request (gs_epoch (wt_safety s)) kFeedbackStaleSource (fc_evaluated_ns cap) t
        (note_stale cap (length (wt_drivers s)) (wt_safety s)))))"
  proof cases
    case 3
    have w: "group_wire (fst (s', e')) = group_wire s1" "tx_log (snd (s', e')) = tx_log e1" "clk e1 \<le> clk (snd (s', e'))"
      "wt_safety (fst (s', e')) = snd (request (gs_epoch (wt_safety s)) kFeedbackStaleSource (fc_evaluated_ns cap) t
        (note_stale cap (length (wt_drivers s)) (wt_safety s)))"
      using steady_now_spec [OF t] unfolding 3(2) [symmetric] cc(2,4) [symmetric] by (simp_all add: group_wire_def)
    then show ?thesis using 3(1) cc core_wire [OF cc(1)] by auto
  qed (use cc core_wire [OF cc(1)] in auto)
  then show "group_wire s' = group_wire s" "tx_log e' = tx_log e \<and> clk e \<le> clk e'"
    "wt_safety s' = wt_safety s \<or> \<not> finished (wt_safety s) \<and> (\<exists>cap t. wt_safety s' =
      snd (request (gs_epoch (wt_safety s)) kFeedbackStaleSource (fc_evaluated_ns cap) t
        (note_stale cap (length (wt_drivers s)) (wt_safety s))))" by blast+
qed

lemma event_result [simp]: "gs_result (safety_event ev g) = gs_result g"
  by (cases ev) (simp_all add: observeError_def)

lemma note_stale_simps [simp]:
  "gs_result (note_stale cap n g) = gs_result g" "gs_sources (note_stale cap n g) = gs_sources g"
  "gs_error_observed_ns (note_stale cap n g) = gs_error_observed_ns g" "gs_epoch (note_stale cap n g) = gs_epoch g"
  by (simp_all add: note_stale_def)

lemma collect_result: "collectFeedbackStale c ev (s, e) = (s', e') \<Longrightarrow> gs_result (wt_safety s') = gs_result (wt_safety s)"
  using collect_spec(3) [of c ev s e s' e'] by auto

text \<open>Every call keeps the addressing; only performing sends, and it sends once and is then finished.\<close>

lemma safety_call_spec:
  assumes "safety_call c call (s, e) = (s', e')" and "length (wt_blocks s) = length (wt_drivers s)"
  shows "group_wire s' = group_wire s"
    and "tx_log e' = tx_log e \<and> (gs_result (wt_safety s') = gs_result (wt_safety s) \<or>
        \<not> finished (wt_safety s) \<and> gs_result (wt_safety s') \<in> {kIncomplete, kCannotGenerate}) \<or>
      \<not> finished (wt_safety s) \<and> (\<exists>f ok. tx_log e' = tx_log e @ [(f, ok)] \<and> safety_frame c s f \<and>
        gs_result (wt_safety s') = (if ok then kSucceeded else kSafetySendFailed))"
proof -
  show "group_wire s' = group_wire s"
  proof (cases call)
    case (Other ev)
    then show ?thesis using assms(1) update_safety_wire by auto
  next
    case (Collect ev)
    then show ?thesis using assms(1) collect_spec(1) by simp
  next
    case Perform
    then show ?thesis using assms performGroupSafety_spec by simp
  qed
  show "tx_log e' = tx_log e \<and> (gs_result (wt_safety s') = gs_result (wt_safety s) \<or>
        \<not> finished (wt_safety s) \<and> gs_result (wt_safety s') \<in> {kIncomplete, kCannotGenerate}) \<or>
      \<not> finished (wt_safety s) \<and> (\<exists>f ok. tx_log e' = tx_log e @ [(f, ok)] \<and> safety_frame c s f \<and>
        gs_result (wt_safety s') = (if ok then kSucceeded else kSafetySendFailed))"
  proof (cases call)
    case (Other ev)
    have "gs_result (wt_safety (update_safety (safety_event ev) s)) = gs_result (wt_safety s)"
      by (simp only: update_safety_def WriteTx.select_convs WriteTx.update_convs) simp
    then show ?thesis using assms(1) Other by auto
  next
    case (Collect ev)
    then show ?thesis using assms(1) collect_spec(2) collect_result by simp
  next
    case Perform
    then have "performGroupSafety c (s, e) = (s', e')" using assms(1) by simp
    from performGroupSafety_spec [OF this assms(2)] show ?thesis by blast
  qed
qed

text \<open>An answered request is a latch that sends nothing more.\<close>

interpretation group_latch: quiet_latch "safety_call c"
  "\<lambda>(s, e). finished (wt_safety s) \<and> gs_result (wt_safety s) = res \<and> length (wt_blocks s) = length (wt_drivers s)"
  "\<lambda>(s, e). tx_log e" "\<lambda>_. False" for c res
proof (unfold_locales, goal_cases)
  case (1 s k)
  obtain t e t' e' where p: "s = (t, e)" "safety_call c k s = (t', e')" by (cases s; cases "safety_call c k s")
  with 1 safety_call_spec [of c k t e t' e'] show ?case by (auto simp: group_wire_def finished_def)
next
  case (2 s k)
  obtain t e t' e' where p: "s = (t, e)" "safety_call c k s = (t', e')" by (cases s; cases "safety_call c k s")
  with 2 safety_call_spec(2) [of c k t e t' e'] show ?case by (auto intro: exI [of _ "[]"])
qed

lemma safety_frame_cong: "group_wire s = group_wire t \<Longrightarrow> safety_frame c s f = safety_frame c t f"
  using safety_block_for_cong [of s t] by (simp add: group_wire_def safety_frame_def)

text \<open>Property C10: under any interleaving of requests and error observations from other threads,
  the owner's drain timeout, feedback collection and attempts, a request that was not answered before leads
  to at most one frame: none, or exactly one broadcast of zero-gain commands of enabled drivers at finite
  positions, and the recorded result says whether it was sent.\<close>

theorem group_safety_answers_once:
  assumes "length (wt_blocks s) = length (wt_drivers s)" and "\<not> finished (wt_safety s)"
    and "fold (safety_call c) calls (s, e) = (s', e')"
  shows "(tx_log e' = tx_log e \<and> gs_result (wt_safety s') \<notin> {kSucceeded, kSafetySendFailed}) \<or>
    (\<exists>f ok. tx_log e' = tx_log e @ [(f, ok)] \<and> safety_frame c s f \<and>
       gs_result (wt_safety s') = (if ok then kSucceeded else kSafetySendFailed))"
  using assms
proof (induction calls arbitrary: s e)
  case Nil
  then show ?case by (auto simp: finished_def)
next
  case (Cons k calls)
  obtain s1 e1 where k: "safety_call c k (s, e) = (s1, e1)" by fastforce
  then have f: "fold (safety_call c) calls (s1, e1) = (s', e')" using Cons.prems(3) by simp
  note sp = safety_call_spec [OF k Cons.prems(1)]
  have len: "length (wt_blocks s1) = length (wt_drivers s1)" using sp(1) Cons.prems(1) by (simp add: group_wire_def)
  show ?case
  proof (cases "finished (wt_safety s1)")
    case True
    have r: "gs_result (wt_safety s') = gs_result (wt_safety s1)" "tx_log e' = tx_log e1"
      using group_latch.latched_run [of "gs_result (wt_safety s1)" "(s1, e1)" c calls]
        group_latch.output_run [of "gs_result (wt_safety s1)" "(s1, e1)" c calls] True len f by auto
    have "gs_result (wt_safety s1) \<noteq> gs_result (wt_safety s)"
      using True Cons.prems(2) by (auto simp: finished_def)
    with sp(2) have "tx_log e1 = tx_log e \<and> gs_result (wt_safety s1) \<in> {kIncomplete, kCannotGenerate} \<or>
      (\<exists>f ok. tx_log e1 = tx_log e @ [(f, ok)] \<and> safety_frame c s f \<and>
        gs_result (wt_safety s1) = (if ok then kSucceeded else kSafetySendFailed))" by blast
    then show ?thesis
    proof (rule disjE)
      assume "tx_log e1 = tx_log e \<and> gs_result (wt_safety s1) \<in> {kIncomplete, kCannotGenerate}"
      then show ?thesis unfolding r by (intro disjI1) fastforce
    qed (unfold r, rule disjI2)
  next
    case False
    then have "tx_log e1 = tx_log e" using sp(2) by (auto simp: finished_def split: if_splits)
    then show ?thesis using Cons.IH [OF len False f] safety_frame_cong [OF sp(1)] by simp
  qed
qed

section \<open>The request as a state machine\<close>

text \<open>What the other parts may assume of a request: idle, waiting for the error to be observed after a hardware
  fault, pending, answered.\<close>

datatype SafetyPhase = Idle | AwaitingError | Pending | Answered SafetyResult

definition phase :: "GroupSafety \<Rightarrow> SafetyPhase" where
  "phase g = (if finished g then Answered (gs_result g) else if \<not> requested g then Idle
     else if ready g then Pending else AwaitingError)"

inductive phase_step :: "SafetyPhase \<Rightarrow> SafetyPhase \<Rightarrow> bool" where
  stay: "phase_step p p"
| asked: "p \<in> {AwaitingError, Pending} \<Longrightarrow> phase_step Idle p"
| hardware_fault: "phase_step Pending AwaitingError"
| error_observed: "phase_step AwaitingError Pending"
| answered: "r \<in> {kCannotGenerate, kSafetySendFailed, kSucceeded} \<Longrightarrow> phase_step Pending (Answered r)"
| given_up: "p \<in> {Idle, AwaitingError, Pending} \<Longrightarrow> phase_step p (Answered kIncomplete)"

inductive_simps phase_step_from_answered: "phase_step (Answered r) p"
inductive_simps phase_step_to_idle: "phase_step p Idle"

lemma phase_open: "\<not> finished g \<Longrightarrow> phase g \<in> {Idle, AwaitingError, Pending}"
  by (auto simp: phase_def)

lemma phase_grows:
  assumes "gs_result g' = gs_result g" and "requested g \<Longrightarrow> requested g'"
  shows "phase_step (phase g) (phase g')"
  using assms phase_step.intros unfolding phase_def finished_def by (auto simp: ready_def)

lemma phase_event: "phase_step (phase g) (phase (safety_event ev g))"
proof (rule phase_grows)
  show "requested g \<Longrightarrow> requested (safety_event ev g)"
    by (cases ev) (simp_all add: requested_mono, simp_all add: requested_def observeError_def)
qed simp

text \<open>Property C17: every call is a step of the abstract request: an answered request never
  changes again, a request is never withdrawn, only a pending one (for a hardware fault: after the error was
  observed) is answered with an attempt, and everything else ends in \<open>kIncomplete\<close>.\<close>

theorem group_safety_refines_phases:
  assumes "length (wt_blocks s) = length (wt_drivers s)" and "safety_call c call (s, e) = (s', e')"
  shows "phase_step (phase (wt_safety s)) (phase (wt_safety s'))"
proof (cases call)
  case (Other ev)
  then have "wt_safety s' = safety_event ev (wt_safety s)" using assms(2) by (auto simp: update_safety_def)
  then show ?thesis by (simp add: phase_event)
next
  case (Collect ev)
  then have c: "collectFeedbackStale c ev (s, e) = (s', e')" using assms(2) by simp
  have "requested (note_stale cap n g) = requested g" for cap n g by (simp add: requested_def)
  then show ?thesis using collect_spec(3) [OF c] collect_result [OF c] requested_mono by (intro phase_grows) metis+
next
  case Perform
  then have "performGroupSafety c (s, e) = (s', e')" using assms(2) by simp
  from performGroupSafety_spec [OF this assms(1)]
  consider "s' = s" | "\<not> finished (wt_safety s)" "gs_result (wt_safety s') = kIncomplete"
    | "\<not> finished (wt_safety s)" "ready (wt_safety s)" "gs_result (wt_safety s') \<in> {kCannotGenerate, kSafetySendFailed, kSucceeded}"
    by (auto split: if_splits)
  then show ?thesis
  proof cases
    case 1
    then show ?thesis by (simp add: stay)
  next
    case 2
    then have "phase (wt_safety s') = Answered kIncomplete" by (simp add: phase_def finished_def)
    then show ?thesis using given_up [OF phase_open [OF 2(1)]] by simp
  next
    case 3
    then have "phase (wt_safety s') = Answered (gs_result (wt_safety s'))" "phase (wt_safety s) = Pending"
      by (auto simp: phase_def finished_def ready_def)
    then show ?thesis using answered [OF 3(3)] by simp
  qed
qed

section \<open>Which feedback is stale\<close>

text \<open>When an axis is stale at a time: a reply of this stream, or the first send if there is none, is at least
  the limit old. A reply or first send in the future is unknown, not stale.\<close>

definition axis_stale :: "StreamConfig \<Rightarrow> ns \<Rightarrow> ns \<Rightarrow> ns \<Rightarrow> bool" where
  "axis_stale c first received now \<longleftrightarrow> first \<noteq> 0 \<and>
     (let base = (if received \<noteq> 0 \<and> first \<le> received then received else first)
      in base \<le> now \<and> sc_max_feedback_age c \<le> now - base)"

lemma bit_or_push: "bit (x OR 2 ^ a :: u32) j \<longleftrightarrow> bit x j \<or> (j = a \<and> a < 32)"
  by (auto simp: bit_or_iff bit_exp_iff)

lemma judge_axis_keeps:
  "fc_received_ns (judge_axis c first a cap) = fc_received_ns cap"
  "fc_evaluated_ns (judge_axis c first a cap) = fc_evaluated_ns cap"
  by (simp_all add: judge_axis_def Let_def)

lemma judge_axis_stale:
  assumes "a < 32"
  shows "bit (fc_stale_mask (judge_axis c first a cap)) j \<longleftrightarrow>
    bit (fc_stale_mask cap) j \<or> (j = a \<and> axis_stale c first (fc_received_ns cap ! a) (fc_evaluated_ns cap))"
  using assms by (auto simp: judge_axis_def axis_stale_def Let_def bit_or_push)

lemma judge_fold:
  assumes "\<forall>a \<in> set axs. a < 32"
  shows "bit (fc_stale_mask (fold (judge_axis c first) axs cap)) j \<longleftrightarrow>
    bit (fc_stale_mask cap) j \<or> (j \<in> set axs \<and> axis_stale c first (fc_received_ns cap ! j) (fc_evaluated_ns cap))"
  using assms by (induction axs arbitrary: cap) (auto simp: judge_axis_stale judge_axis_keeps)

lemma judge_fold_keeps:
  "fc_received_ns (fold (judge_axis c first) axs cap) = fc_received_ns cap"
  "fc_evaluated_ns (fold (judge_axis c first) axs cap) = fc_evaluated_ns cap"
  by (induction axs arbitrary: cap) (simp_all add: judge_axis_keeps)

lemma record_material_mask [simp]: "fc_stale_mask (record_material a s cap) = fc_stale_mask cap"
  by (simp add: record_material_def Let_def)

lemma capture_axis_mask: "fc_stale_mask (fst (capture_axis a (cap, s, e))) = fc_stale_mask cap"
  by (simp add: capture_axis_def Let_def split: prod.split)

lemma capture_fold_mask:
  "fold capture_axis axs (cap, s, e) = (cap', s', e') \<Longrightarrow>
     fc_stale_mask cap' = fc_stale_mask cap"
proof (induction axs arbitrary: cap s e)
  case Nil
  then show ?case by simp
next
  case (Cons a axs)
  obtain cap1 s1 e1 where k: "capture_axis a (cap, s, e) = (cap1, s1, e1)" using prod_cases3 by blast
  then have "fold capture_axis axs (cap1, s1, e1) = (cap', s', e')" using Cons.prems by simp
  from Cons.IH [OF this] k capture_axis_mask [of a cap s e] show ?case by simp
qed

text \<open>Also: the stale mask of a capture has exactly the bits of the axes of the group
  whose base time (their last reply in this stream, else the first send) is not in the future and at least
  the age limit old; no bit above the axes is ever set, and nothing is stale before the first send.\<close>

theorem capture_marks_stale_axes:
  assumes "captureFeedback c ev (s, e) = (cap, s', e')"
  shows "bit (fc_stale_mask cap) j \<longleftrightarrow> j < min (length (wt_drivers s)) 3 \<and>
    axis_stale c (wt_first_stream_send_ns s) (fc_received_ns cap ! j) (fc_evaluated_ns cap)"
proof -
  let ?n = "min (length (wt_drivers s)) 3"
  obtain cap1 s1 e1 where f: "fold capture_axis [0..<?n] (default_FeedbackCapture, s, e) = (cap1, s1, e1)"
    using prod_cases3 by blast
  obtain t e2 where t: "(if ev \<noteq> 0 then (ev, e1) else steady_now e1) = (t, e2)" by fastforce
  have m: "fc_stale_mask cap1 = 0" "wt_first_stream_send_ns s1 = wt_first_stream_send_ns s"
    using capture_fold_mask [OF f] capture_fold_core [OF f] by (auto simp: sg_core_def default_FeedbackCapture_def)
  have cap: "cap = fold (judge_axis c (wt_first_stream_send_ns s1)) [0..<?n] (cap1\<lparr>fc_evaluated_ns := t\<rparr>)"
    using assms f t by (auto simp: captureFeedback_def Let_def)
  show ?thesis
    unfolding cap using m by (subst judge_fold) (auto simp: judge_fold_keeps)
qed

section \<open>A concrete group\<close>

definition sample_safety :: GroupSafety where
  "sample_safety = reset_safety 1 2 default_GroupSafety"

definition sample_schedule :: WriteSchedule where
  "sample_schedule = new_schedule 1000000 0"

definition sample_published :: PublishedFeedback where
  "sample_published = default_PublishedFeedback\<lparr>pf_feedback := default_ActuatorFeedback\<lparr>af_valid := True, af_position := Fin 0\<rparr>\<rparr>"

definition sample_group :: WriteTx where
  "sample_group = \<lparr>wt_drivers = [sample_enabled\<lparr>bd_can_id := 1\<rparr>, sample_enabled], wt_can_ids = [1, 2], wt_block_count = 2,
     wt_padding = replicate 8 0, wt_safety = sample_safety, wt_feedback = [sample_published, sample_published],
     wt_last_valid = replicate 3 default_PublishedFeedback, wt_has_last_valid = [False, False, False],
     wt_material_read_failed = [False, False, False], wt_material_acquired_ns = zeros3, wt_first_stream_send_ns = 0,
     wt_seen_feedback = [0, 0], wt_cache = [], wt_commands = [default_StreamCommand, default_StreamCommand],
     wt_blocks = [(1, replicate 8 0), (2, replicate 8 0)], wt_stats = sample_stats, wt_schedule = sample_schedule,
     wt_bootstrap_due = 0, wt_first_send = 0, wt_retry_due = 0, wt_hold_start = 0, wt_observed_version = 0,
     wt_last_send_kind = 0, wt_snapshot_failed = False, wt_notification_failed = False, wt_stop_all = False,
     wt_events = [], wt_feedback_reads = [], wt_received_reads = [], wt_runs = [], wt_stops = [], wt_versions = [],
     wt_batches = [], wt_rx_faults = [], wt_armed = [], wt_polls = []\<rparr>"

lemma sample_group_simps:
  "length (wt_blocks sample_group) = length (wt_drivers sample_group)" "\<not> finished (wt_safety sample_group)"
  "gs_sources (wt_safety sample_group) = 0" "gs_epoch (wt_safety sample_group) = 1"
  by (simp_all add: sample_group_def sample_safety_def reset_safety_def finished_def)

theorem group_safety_answers_once_witness:
  "\<exists>s' e'. fold (safety_call (default_StreamConfig\<lparr>sc_broadcast := True\<rparr>)) [Other (EvRequest 1 kModeStop 5 6), Perform, Perform]
       (sample_group, silent_env) = (s', e') \<and>
     (tx_log e' = [] \<and> gs_result (wt_safety s') \<notin> {kSucceeded, kSafetySendFailed} \<or> (\<exists>f ok. tx_log e' = [(f, ok)]))"
proof -
  obtain s' e' where r: "fold (safety_call (default_StreamConfig\<lparr>sc_broadcast := True\<rparr>))
      [Other (EvRequest 1 kModeStop 5 6), Perform, Perform] (sample_group, silent_env) = (s', e')" by fastforce
  have "tx_log silent_env = []" by (simp add: silent_env_def)
  with group_safety_answers_once [OF sample_group_simps(1,2) r] have "tx_log e' = [] \<and> gs_result (wt_safety s') \<notin> {kSucceeded, kSafetySendFailed} \<or> (\<exists>f ok. tx_log e' = [(f, ok)])"
    by auto
  with r show ?thesis by blast
qed

theorem group_safety_refines_phases_witness:
  "phase (wt_safety sample_group) = Idle \<and>
   (\<exists>s' e'. safety_call default_StreamConfig (Other (EvRequest 1 kHwFault 5 6)) (sample_group, silent_env) = (s', e') \<and>
      phase (wt_safety s') = AwaitingError \<and> phase_step Idle (phase (wt_safety s')))"
proof -
  let ?g = "snd (request 1 kHwFault 5 6 (wt_safety sample_group))"
  let ?s = "update_safety (safety_event (EvRequest 1 kHwFault 5 6)) sample_group"
  have i: "phase (wt_safety sample_group) = Idle"
    using sample_group_simps by (simp add: phase_def requested_def)
  have g: "wt_safety ?s = ?g" by (simp add: update_safety_def)
  have "gs_sources ?g = 1" using sample_group_simps(3,4) by (simp add: request_sources)
  moreover have "gs_error_observed_ns (wt_safety sample_group) = 0"
    by (simp add: sample_group_def sample_safety_def reset_safety_def)
  moreover have "\<not> finished ?g" using sample_group_simps(2) by (simp add: finished_def)
  ultimately have "phase ?g = AwaitingError"
    by (simp add: phase_def requested_def ready_def has_source_def)
  with group_safety_refines_phases [OF sample_group_simps(1),
      of default_StreamConfig "Other (EvRequest 1 kHwFault 5 6)" silent_env ?s silent_env] i g
  show ?thesis by simp
qed

lemma sample_capture:
  "\<exists>cap s' e'. captureFeedback default_StreamConfig 1000000000 (sample_group\<lparr>wt_first_stream_send_ns := 1\<rparr>, silent_env) = (cap, s', e') \<and>
     fc_evaluated_ns cap = 1000000000 \<and> fc_received_ns cap ! 0 = 0"
proof -
  have n: "[0..<min (length (wt_drivers sample_group)) 3] = [0, 1]" by (simp add: sample_group_def upt_conv_Cons)
  have m: "fc_received_ns (record_material a s cap) = fc_received_ns cap" for a s cap
    by (simp add: record_material_def Let_def)
  have k: "wt_received_reads (keep_material a v t s) = wt_received_reads s" "wt_feedback_reads (keep_material a v t s) = wt_feedback_reads s"
    for a v t s by (simp_all add: keep_material_def)
  have e: "fc_evaluated_ns (fold (judge_axis c first) axs cap) = fc_evaluated_ns cap"
    "fc_received_ns (fold (judge_axis c first) axs cap) = fc_received_ns cap" for c first axs cap
    by (simp_all add: judge_fold_keeps)
  show ?thesis
    using n unfolding captureFeedback_def
    by (simp add: Let_def e capture_axis_def read_snapshot_def read_received_def steady_now_def silent_env_def m k
        sample_group_def default_FeedbackCapture_def zeros3_def judge_axis_keeps)
qed

theorem capture_marks_stale_axes_witness:
  "\<exists>cap s' e'. captureFeedback default_StreamConfig 1000000000 (sample_group\<lparr>wt_first_stream_send_ns := 1\<rparr>, silent_env) = (cap, s', e') \<and>
     bit (fc_stale_mask cap) 0"
proof -
  obtain cap s' e' where r: "captureFeedback default_StreamConfig 1000000000 (sample_group\<lparr>wt_first_stream_send_ns := 1\<rparr>, silent_env) = (cap, s', e')"
    "fc_evaluated_ns cap = 1000000000" "fc_received_ns cap ! 0 = 0" using sample_capture by blast
  from capture_marks_stale_axes [OF r(1), of 0] r show ?thesis
    by (auto simp: axis_stale_def sample_group_def default_StreamConfig_def)
qed

end
