(* ===== verification/Stream_Write.thy ===== *)
theory Stream_Write
  imports Group_Safety
begin

text \<open>
  The write-triggered send thread of a bus stream (\<^verbatim>\<open>sendWriteLoop\<close> of \<^verbatim>\<open>src/bus_streamer.cpp\<close>) and the
  publication of command batches for it. One iteration of its loop is one function, in the order of the
  code: a pending group safety request, the stop flags, the command snapshot, the reasons to stop, the age of
  the feedback, the due and hold rules, encoding, transmission, bookkeeping, and the wait.
\<close>

section \<open>Reads of shared state\<close>

definition sync :: "WriteTx \<Rightarrow> WriteTx" where
  "sync s = (case wt_events s of [] \<Rightarrow> s
     | es # rest \<Rightarrow> update_safety (fold safety_event es) (s\<lparr>wt_events := rest\<rparr>))"

definition running_w :: "WriteTx \<Rightarrow> bool \<times> WriteTx" where
  "running_w s = (case wt_runs s of [] \<Rightarrow> (False, s) | b # bs \<Rightarrow> (b, s\<lparr>wt_runs := bs\<rparr>))"

definition stop_w :: "WriteTx \<Rightarrow> bool \<times> WriteTx" where
  "stop_w s = (case wt_stops s of [] \<Rightarrow> (wt_stop_all s, s)
     | b # bs \<Rightarrow> (wt_stop_all s \<or> b, s\<lparr>wt_stop_all := wt_stop_all s \<or> b, wt_stops := bs\<rparr>))"

definition version_w :: "WriteTx \<Rightarrow> u64 \<times> WriteTx" where
  "version_w s = (case wt_versions s of [] \<Rightarrow> (wt_observed_version s, s) | v # vs \<Rightarrow> (v, s\<lparr>wt_versions := vs\<rparr>))"

definition read_batch :: "WriteTx \<Rightarrow> PublishedCommand list option \<times> WriteTx" where
  "read_batch s = (case wt_batches s of [] \<Rightarrow> (None, s) | b # bs \<Rightarrow> (b, s\<lparr>wt_batches := bs\<rparr>))"

definition rx_fault_w :: "WriteTx \<Rightarrow> (StreamFault \<times> int) \<times> WriteTx" where
  "rx_fault_w s = (case wt_rx_faults s of [] \<Rightarrow> ((kNone, -1), s) | f # fs \<Rightarrow> (f, s\<lparr>wt_rx_faults := fs\<rparr>))"

definition armed_w :: "WriteTx \<Rightarrow> ns \<times> WriteTx" where
  "armed_w s = (case wt_armed s of [] \<Rightarrow> (0, s) | a # as \<Rightarrow> (a, s\<lparr>wt_armed := as\<rparr>))"

definition poll_w :: "WriteTx \<Rightarrow> PollResult \<times> WriteTx" where
  "poll_w s = (case wt_polls s of [] \<Rightarrow> (Woken False 0, s) | p # ps \<Rightarrow> (p, s\<lparr>wt_polls := ps\<rparr>))"

definition pass_time :: "nat \<Rightarrow> env \<Rightarrow> env" where
  "pass_time t e = e\<lparr>clk := clk e + int t\<rparr>"

definition update_stats :: "(StreamStats \<Rightarrow> StreamStats) \<Rightarrow> WriteTx \<Rightarrow> WriteTx" where
  "update_stats f s = s\<lparr>wt_stats := f (wt_stats s)\<rparr>"

definition fault_w :: "StreamFault \<Rightarrow> int \<Rightarrow> WriteTx \<Rightarrow> WriteTx" where
  "fault_w kind axis s =
     (update_stats (\<lambda>st. st\<lparr>ss_fault := kind, ss_fault_axis := axis\<rparr>) s)\<lparr>wt_stop_all := True\<rparr>"

definition latch_w :: "nat \<Rightarrow> WriteTx \<times> env \<Rightarrow> WriteTx \<times> env" where
  "latch_w i = (\<lambda>(s, e). let (d, e) = latchCommunicationFault (wt_drivers s ! i) e
     in (s\<lparr>wt_drivers := (wt_drivers s)[i := d]\<rparr>, e))"

section \<open>Publication of commands\<close>

text \<open>The owner's side: what \<open>publishCommandBatch\<close> decides from the flags it reads, and whether waking the send
  thread failed. The batch itself goes through the atomic snapshot.\<close>

datatype CommandPublishResult = kNotPublished | kSnapshotPublished | kSnapshotPublishedNotifyFailed

definition publishCommandBatch :: "StreamConfig \<Rightarrow> ns \<Rightarrow> bool \<Rightarrow> bool \<Rightarrow> bool \<Rightarrow> CommandPublishResult" where
  "publishCommandBatch c armed_ns tx_running stop_all notification_failed =
     (if \<not> sc_write_triggered c \<or> armed_ns = 0 \<or> \<not> tx_running \<or> stop_all then kNotPublished
      else if notification_failed then kSnapshotPublishedNotifyFailed else kSnapshotPublished)"

definition publishCommands :: "StreamConfig \<Rightarrow> ns \<Rightarrow> bool \<Rightarrow> bool \<Rightarrow> bool \<Rightarrow> bool" where
  "publishCommands c armed_ns tx_running stop_all notification_failed \<longleftrightarrow>
     publishCommandBatch c armed_ns tx_running stop_all notification_failed = kSnapshotPublished"

definition armWrites :: "StreamConfig \<Rightarrow> env \<Rightarrow> ns \<times> env" where
  "armWrites c e = (if sc_activation_origin_ns c \<noteq> 0 then (sc_activation_origin_ns c, e) else steady_now e)"

section \<open>A pending safety request\<close>

definition watchdog_request :: "StreamConfig \<Rightarrow> WriteTx \<times> env \<Rightarrow> WriteTx \<times> env" where
  "watchdog_request c = (\<lambda>(s, e).
     let w = wt_schedule s
     in if ws_sequence w = 0 then (s, e)
     else let (now, e) = steady_now e
     in if now < ws_published_ns w + sc_max_command_age c \<or> has_source kWatchdog (wt_safety s) then (s, e)
     else let (detected, e) = steady_now e; (registered, e) = steady_now e
     in (update_safety (\<lambda>g. snd (request (gs_epoch g) kWatchdog detected registered
           (g\<lparr>gs_watchdog_sequence := ws_sequence w, gs_watchdog_published_ns := ws_published_ns w\<rparr>))) s, e))"

definition safety_poll :: "WriteTx \<times> env \<Rightarrow> WriteTx \<times> env" where
  "safety_poll = (\<lambda>(s, e). case poll_w s of
     (Woken False t, s) \<Rightarrow> (s, pass_time t e)
   | (Woken True t, s) \<Rightarrow> (s\<lparr>wt_notification_failed := True\<rparr>, pass_time t e)
   | (_, s) \<Rightarrow> (s\<lparr>wt_notification_failed := True\<rparr>, e))"

definition safety_iteration :: "StreamConfig \<Rightarrow> WriteTx \<times> env \<Rightarrow> LoopExit \<times> WriteTx \<times> env" where
  "safety_iteration c se =
     (let (s, e) = performGroupSafety c (watchdog_request c (collectFeedbackStale c 0 se))
      in if finished (wt_safety s) then
           (let (s, e) = (if fr_detected (gs_feedback_stale (wt_safety s))
                          then fold latch_w [0..<length (wt_drivers s)] (s, e) else (s, e));
                g = wt_safety s
            in (Break, fault_w (gs_terminal_fault g)
                  (if gs_terminal_fault g = kFeedbackStale then fr_primary_axis (gs_feedback_stale g) else -1) s, e))
         else (Continue, safety_poll (s, e)))"

section \<open>The command snapshot\<close>

definition accept_packet :: "PublishedCommand list \<Rightarrow> WriteTx \<Rightarrow> WriteTx" where
  "accept_packet batch s =
     (let packet = hd batch; w = wt_schedule s
      in if pc_sequence packet = ws_sequence w then s
         else let s = update_stats (\<lambda>st. if ws_last_was_resend w \<and> ws_last_send_ns w \<le> pc_published_ns packet \<and>
                    pc_published_ns packet < earliestSend w
                  then st\<lparr>ss_writes_after_resend := ss_writes_after_resend st + 1\<rparr> else st) s;
                  s = update_stats (\<lambda>st. if ws_sequence w \<noteq> 0 \<and> ws_sequence w + 1 < pc_sequence packet
                  then st\<lparr>ss_command_coalesced := ss_command_coalesced st + (pc_sequence packet - ws_sequence w - 1)\<rparr>
                  else st) s
         in s\<lparr>wt_cache := batch, wt_schedule := published (pc_sequence packet) (pc_published_ns packet) w\<rparr>)"

definition take_batch :: "StreamConfig \<Rightarrow> ns \<Rightarrow> WriteTx \<Rightarrow> WriteTx" where
  "take_batch c now s =
     (let (version, s) = version_w s
      in if version = wt_observed_version s \<and> \<not> wt_snapshot_failed s then s
         else case read_batch s of
           (Some batch, s) \<Rightarrow>
             (accept_packet batch (s\<lparr>wt_snapshot_failed := False\<rparr>))\<lparr>wt_observed_version := version, wt_retry_due := 0\<rparr>
         | (None, s) \<Rightarrow>
             (update_stats (\<lambda>st. st\<lparr>ss_command_snapshot_failures := ss_command_snapshot_failures st + 1\<rparr>)
               (s\<lparr>wt_snapshot_failed := True\<rparr>))\<lparr>wt_retry_due := now + max 1 (sc_period c div 20)\<rparr>)"

section \<open>Reasons to stop\<close>

definition base_reason :: "bool \<Rightarrow> bool \<Rightarrow> bool \<Rightarrow> StreamFault \<times> int \<Rightarrow> StreamFault \<times> int" where
  "base_reason stale snapshot_failed startup_expired rxf =
     (if stale then (if snapshot_failed then kCommandSnapshotUnavailable else kCommandStale, -1)
      else if fst rxf \<noteq> kNone then rxf
      else if startup_expired then (kStartupTimeout, -1) else (kNone, -1))"

record FeedbackCheck =
  fk_reason :: "StreamFault \<times> int"
  fk_due :: ns

definition feedback_axis_w ::
  "StreamConfig \<Rightarrow> ns \<Rightarrow> nat \<Rightarrow> FeedbackCheck \<times> WriteTx \<Rightarrow> FeedbackCheck \<times> WriteTx" where
  "feedback_axis_w c now i = (\<lambda>(k, s).
     let ((_, got), s) = read_snapshot s;
         s = (case got of Some v \<Rightarrow> s\<lparr>wt_feedback := (wt_feedback s)[i := v]\<rparr> | None \<Rightarrow> s);
         (received, s) = read_received s;
         base = (if received \<noteq> 0 then received else wt_first_send s);
         (k, s) = (if base = 0 then (k, s)
           else let k = k\<lparr>fk_due := min (fk_due k) (base + sc_max_feedback_age c)\<rparr>;
                    s = update_stats (\<lambda>st. st\<lparr>ss_max_age_ms := (ss_max_age_ms st)
                          [i := dmax (ss_max_age_ms st ! i) (dint (now - base) / dlit 1000000)]\<rparr>) s
           in if \<not> sc_group_safety c \<and> base + sc_max_feedback_age c \<le> now
              then (if fst (fk_reason k) = kNone then k\<lparr>fk_reason := (kFeedbackStale, int i)\<rparr> else k,
                    update_stats set_feedback_stale s)
              else (k, s))
     in (k, update_stats (\<lambda>st. st\<lparr>ss_replies := (ss_replies st)[i := pf_sequence (wt_feedback s ! i)]\<rparr>) s))"

definition is_zero_stop :: "StreamFault \<Rightarrow> bool" where
  "is_zero_stop r \<longleftrightarrow> r = kCommandStale \<or> r = kCommandSnapshotUnavailable \<or> r = kStartupTimeout"

section \<open>Transmission\<close>

definition hold :: "ns \<Rightarrow> bool \<Rightarrow> WriteTx \<Rightarrow> WriteTx" where
  "hold now active s =
     (if wt_hold_start s \<noteq> 0 then s
      else let s = update_stats (\<lambda>st. st\<lparr>ss_minimum_interval_holds := ss_minimum_interval_holds st + 1\<rparr>) (s\<lparr>wt_hold_start := now\<rparr>)
      in if active \<and> pending (wt_schedule s) then
           update_stats (\<lambda>st. if wt_last_send_kind s = 3 then st\<lparr>ss_resend_command_holds := ss_resend_command_holds st + 1\<rparr>
             else if wt_last_send_kind s = 2 then st\<lparr>ss_new_command_holds := ss_new_command_holds st + 1\<rparr>
             else st\<lparr>ss_bootstrap_command_holds := ss_bootstrap_command_holds st + 1\<rparr>) s
         else s)"

definition note_fresh :: "nat \<Rightarrow> WriteTx \<Rightarrow> WriteTx" where
  "note_fresh i s =
     (let seq = pf_sequence (wt_feedback s ! i);
          s = (if ws_last_send_ns (wt_schedule s) \<noteq> 0 \<and> wt_seen_feedback s ! i = seq
               then update_stats (\<lambda>st. st\<lparr>ss_cycles_without_new_reply := (ss_cycles_without_new_reply st)
                      [i := ss_cycles_without_new_reply st ! i + 1]\<rparr>) s else s)
      in s\<lparr>wt_seen_feedback := (wt_seen_feedback s)[i := seq]\<rparr>)"

definition end_hold :: "ns \<Rightarrow> WriteTx \<Rightarrow> WriteTx" where
  "end_hold now s = (if wt_hold_start s \<noteq> 0
     then update_stats (\<lambda>st. st\<lparr>ss_max_hold_ns := max (ss_max_hold_ns st) (now - wt_hold_start s)\<rparr>) s else s)\<lparr>wt_hold_start := 0\<rparr>"

definition write_commands :: "bool \<Rightarrow> WriteTx \<Rightarrow> StreamCommand list" where
  "write_commands cached s = map (\<lambda>i. if cached then pc_command (wt_cache s ! i)
     else default_StreamCommand\<lparr>cm_position := af_position (pf_feedback (wt_feedback s ! i))\<rparr>) [0..<length (wt_drivers s)]"

text \<open>The frame of one motor as this loop builds it: unlike the periodic loop it leaves the frame's default
  extended identifier in place.\<close>

definition write_unicast_frame :: "int \<Rightarrow> u8 list \<Rightarrow> CanFrame" where
  "write_unicast_frame can_id bytes = setData bytes (default_CanFrame\<lparr>cf_id := word_of_int can_id\<rparr>)"

text \<open>In a validated broadcast configuration the frame always exists; dereferencing a missing one is undefined
  in the program, and the model then sends nothing.\<close>

definition write_frame :: "StreamConfig \<Rightarrow> nat \<Rightarrow> WriteTx \<Rightarrow> CanFrame option" where
  "write_frame c i s = (if sc_broadcast c then buildBroadcastFrame (wt_blocks s) (wt_block_count s) (wt_padding s)
     else Some (write_unicast_frame (wt_can_ids s ! i) (snd (wt_blocks s ! i))))"

record WriteResult =
  wr_sent :: nat
  wr_send_at :: ns
  wr_failed :: bool

definition command_expired :: "StreamConfig \<Rightarrow> WriteTx \<Rightarrow> ns \<Rightarrow> bool" where
  "command_expired c s now \<longleftrightarrow> ws_published_ns (wt_schedule s) + sc_max_command_age c \<le> now"

text \<open>The checks before a frame; the result says whether the loop over the frames goes on.\<close>

definition frame_allowed :: "StreamConfig \<Rightarrow> bool \<Rightarrow> bool \<Rightarrow> nat \<Rightarrow> WriteTx \<times> env \<Rightarrow> bool \<times> WriteTx \<times> env" where
  "frame_allowed c zero_stop active n_sent = (\<lambda>(s, e).
     let (run, s) = running_w s
     in if \<not> run then (False, s, e)
     else let (stop, s) = stop_w s
     in if stop then (False, s, e)
     else let s = (if sc_group_safety c then sync s else s)
     in if sc_group_safety c \<and> requested (wt_safety s) then (False, s, e)
     else if zero_stop then (True, s, e)
     else let (version, s) = (if active \<and> n_sent = 0 then version_w s else (wt_observed_version s, s))
     in if version \<noteq> wt_observed_version s then (False, s, e)
     else let (rxf, s) = rx_fault_w s
     in if fst rxf \<noteq> kNone then (False, s, e)
     else if \<not> active then (True, s, e)
     else let (now, e) = steady_now e in (\<not> command_expired c s now, s, e))"

fun write_frames ::
  "StreamConfig \<Rightarrow> bool \<Rightarrow> bool \<Rightarrow> nat list \<Rightarrow> WriteResult \<Rightarrow> WriteTx \<times> env \<Rightarrow> WriteResult \<times> WriteTx \<times> env" where
  "write_frames c zero_stop active [] r (s, e) = (r, s, e)"
| "write_frames c zero_stop active (i # axs) r (s, e) =
     (case frame_allowed c zero_stop active (wr_sent r) (s, e) of
        (False, s, e) \<Rightarrow> (r, s, e)
      | (True, s, e) \<Rightarrow>
          (case write_frame c i s of
             None \<Rightarrow> (r, s, e)
           | Some frame \<Rightarrow>
               (let (before, e) = steady_now e
                in if \<not> zero_stop \<and> active \<and> command_expired c s before then (r, s, e)
                else let r = (if wr_send_at r = 0 then r\<lparr>wr_send_at := before\<rparr> else r);
                         (ok, e) = bus_send frame e
                in if \<not> ok then
                     (let (s, e) = (if sc_broadcast c then fold latch_w [0..<length (wt_drivers s)] (s, e) else latch_w i (s, e))
                      in (r\<lparr>wr_failed := True\<rparr>, fault_w kSendFailed (if sc_broadcast c then -1 else int i) s, e))
                   else write_frames c zero_stop active axs (r\<lparr>wr_sent := Suc (wr_sent r)\<rparr>) (s, e))))"

definition send_kind :: "bool \<Rightarrow> bool \<Rightarrow> bool \<Rightarrow> nat" where
  "send_kind zero_stop active resend = (if zero_stop then 4 else if \<not> active then 1 else if resend then 3 else 2)"

definition record_write :: "StreamConfig \<Rightarrow> bool \<Rightarrow> bool \<Rightarrow> bool \<Rightarrow> nat \<Rightarrow> WriteResult \<Rightarrow> WriteTx \<Rightarrow> WriteTx" where
  "record_write c zero_stop active resend frames r s =
     (let s = update_stats (\<lambda>st. st\<lparr>ss_frames_sent := ss_frames_sent st + of_nat (wr_sent r)\<rparr>) s
      in if wr_sent r = 0 then s
         else let s = (if wt_first_send s = 0 then s\<lparr>wt_first_send := wr_send_at r, wt_first_stream_send_ns := wr_send_at r\<rparr> else s);
                  s = s\<lparr>wt_schedule := sent (wr_send_at r) resend (wt_schedule s),
                        wt_last_send_kind := send_kind zero_stop active resend,
                        wt_bootstrap_due := wr_send_at r + sc_period c\<rparr>
         in update_stats (\<lambda>st. let st = (if resend then st\<lparr>ss_resends := ss_resends st + 1\<rparr> else st)
              in if wr_sent r = frames then st\<lparr>ss_cycles := ss_cycles st + 1\<rparr>
                 else st\<lparr>ss_partial_cycles := ss_partial_cycles st + 1\<rparr>) s)"

definition conclude_write :: "bool \<Rightarrow> StreamFault \<Rightarrow> nat \<Rightarrow> WriteResult \<Rightarrow> WriteTx \<times> env \<Rightarrow> LoopExit \<times> WriteTx \<times> env" where
  "conclude_write zero_stop reason frames r = (\<lambda>(s, e).
     if zero_stop then
       (let s = update_stats (\<lambda>st. st\<lparr>ss_command_stale_zero_gain_frames := wr_sent r, ss_command_stale_expected_frames := frames\<rparr>) s
        in if wr_failed r then (Break, s, e)
        else let (run, s) = running_w s; (stop, s) = (if run then stop_w s else (True, s))
        in (Break, if run \<and> \<not> stop then fault_w reason (-1) s
                   else update_stats (\<lambda>st. st\<lparr>ss_stopped_externally := True\<rparr>) s, e))
     else (if wr_failed r then Break else Continue, s, e))"

definition send_batch ::
  "StreamConfig \<Rightarrow> ns \<Rightarrow> bool \<Rightarrow> bool \<Rightarrow> bool \<Rightarrow> StreamFault \<Rightarrow> WriteTx \<times> env \<Rightarrow> LoopExit \<times> WriteTx \<times> env" where
  "send_batch c now zero_stop active resend reason = (\<lambda>(s, e).
     let s = end_hold now (fold note_fresh [0..<length (wt_drivers s)] s);
         commands = write_commands (active \<and> \<not> zero_stop) s;
         s = s\<lparr>wt_commands := commands\<rparr>
     in case encode_blocks (wt_drivers s) (wt_can_ids s) commands 0 of
       Inl i \<Rightarrow> (Break, fault_w kEncodeFailed (int i) s, e)
     | Inr blocks \<Rightarrow>
         (let s = s\<lparr>wt_blocks := blocks\<rparr>;
              frames = (if sc_broadcast c then 1 else length (wt_drivers s));
              (r, s, e) = write_frames c zero_stop active [0..<frames] \<lparr>wr_sent = 0, wr_send_at = 0, wr_failed = False\<rparr> (s, e)
          in conclude_write zero_stop reason frames r (record_write c zero_stop active resend frames r s, e)))"

section \<open>Waiting\<close>

definition wait_deadline :: "StreamConfig \<Rightarrow> ns \<Rightarrow> bool \<Rightarrow> bool \<Rightarrow> ns \<Rightarrow> WriteTx \<Rightarrow> ns" where
  "wait_deadline c feedback_due active resend armed s =
     (let w = wt_schedule s
      in if active then
           min (min feedback_due (ws_published_ns w + sc_max_command_age c))
             (if wt_snapshot_failed s then wt_retry_due s
              else if pending w \<or> resend then earliestSend w else ws_resend_ns w)
         else let d = min feedback_due (wt_bootstrap_due s);
                  d = (if wt_snapshot_failed s then min d (wt_retry_due s) else d)
              in if armed \<noteq> 0 then min d (armed + sc_first_write_timeout c) else d)"

definition wait_w :: "ns \<Rightarrow> WriteTx \<times> env \<Rightarrow> LoopExit \<times> WriteTx \<times> env" where
  "wait_w deadline = (\<lambda>(s, e).
     let (now, e) = steady_now e; deadline = max deadline (now + 1)
     in case poll_w s of
       (TimerFailed, s) \<Rightarrow> (Break, fault_w kNotificationFailed (-1) s, e)
     | (PollFailed, s) \<Rightarrow> (Break, fault_w kNotificationFailed (-1) s, e)
     | (Interrupted t, s) \<Rightarrow> (Continue, s, pass_time t e)
     | (Woken failed t, s) \<Rightarrow>
         (Continue, if failed then s\<lparr>wt_notification_failed := True\<rparr> else s, pass_time t e))"

section \<open>The iteration\<close>

text \<open>After the checks: stop with a reason, send a batch that is due and not held, or wait.\<close>

definition write_act ::
  "StreamConfig \<Rightarrow> ns \<Rightarrow> bool \<Rightarrow> ns \<Rightarrow> FeedbackCheck \<Rightarrow> WriteTx \<times> env \<Rightarrow> LoopExit \<times> WriteTx \<times> env" where
  "write_act c now active armed k = (\<lambda>(s, e).
     let reason = fst (fk_reason k); axis = snd (fk_reason k); zero_stop = is_zero_stop reason;
         s = (if reason \<noteq> kNone then let ((f, _), s) = rx_fault_w s
                in update_stats (\<lambda>st. st\<lparr>ss_received_fault_at_stop := f\<rparr>) s else s)
     in if reason \<noteq> kNone \<and> \<not> zero_stop then
          (let (s, e) = (if reason = kFeedbackStale \<and> 0 \<le> axis then latch_w (nat axis) (s, e) else (s, e))
           in (Break, fault_w reason axis s, e))
        else let w = wt_schedule s;
                 resend = (active \<and> \<not> wt_snapshot_failed s \<and> resendDue now w);
                 due = (zero_stop \<or> (\<not> active \<and> wt_bootstrap_due s \<le> now) \<or>
                        (active \<and> \<not> wt_snapshot_failed s \<and> (pending w \<or> resend)))
        in if due \<and> (zero_stop \<or> \<not> held now w) then send_batch c now zero_stop active resend reason (s, e)
           else let s = (if due then hold now active s else s)
           in wait_w (wait_deadline c (fk_due k) active resend armed s) (s, e))"

text \<open>A group answers a reason to send zero gains through its safety request; stale feedback found on the way is
  such a request too.\<close>

definition group_checks :: "StreamConfig \<Rightarrow> ns \<Rightarrow> StreamFault \<Rightarrow> WriteTx \<times> env \<Rightarrow> bool \<times> WriteTx \<times> env" where
  "group_checks c now reason = (\<lambda>(s, e).
     if \<not> sc_group_safety c then (False, s, e)
     else let (s, e) = (if reason = kNone \<or> is_zero_stop reason then collectFeedbackStale c 0 (s, e) else (s, e))
     in if fr_detected (gs_feedback_stale (wt_safety s)) \<and> reason = kNone then (True, s, e)
     else if is_zero_stop reason then
       (let (registered, e) = steady_now e; w = wt_schedule s
        in (True, update_safety (\<lambda>g. snd (request (gs_epoch g) kWatchdog now registered
              (g\<lparr>gs_terminal_fault := reason, gs_watchdog_sequence := ws_sequence w,
                 gs_watchdog_published_ns := ws_published_ns w\<rparr>))) s, e))
     else (False, s, e))"

definition note_command_age :: "bool \<Rightarrow> ns \<Rightarrow> WriteTx \<Rightarrow> WriteTx" where
  "note_command_age active now s = (if active then update_stats (\<lambda>st. st\<lparr>ss_max_command_age_ms :=
     dmax (ss_max_command_age_ms st) (dint (now - ws_published_ns (wt_schedule s)) / dlit 1000000)\<rparr>) s else s)"

definition write_checked :: "StreamConfig \<Rightarrow> ns \<Rightarrow> WriteTx \<times> env \<Rightarrow> LoopExit \<times> WriteTx \<times> env" where
  "write_checked c now = (\<lambda>(s, e).
     let s = take_batch c now s;
         active = (ws_sequence (wt_schedule s) \<noteq> 0);
         (armed, s) = (if sc_activation_origin_ns c \<noteq> 0 then (sc_activation_origin_ns c, s) else armed_w s);
         startup_expired = (\<not> active \<and> armed \<noteq> 0 \<and> armed + sc_first_write_timeout c \<le> now);
         stale = (active \<and> command_expired c s now);
         (rxf, s) = (if stale then ((kNone, -1), s) else rx_fault_w s);
         k = \<lparr>fk_reason = base_reason stale (wt_snapshot_failed s) startup_expired rxf,
              fk_due = now + sc_max_feedback_age c\<rparr>;
         (k, s) = fold (feedback_axis_w c now) [0..<length (wt_drivers s)] (k, s);
         s = note_command_age active now s;
         (again, s, e) = group_checks c now (fst (fk_reason k)) (s, e)
     in if again then (Continue, s, e) else write_act c now active armed k (s, e))"

definition write_iteration :: "StreamConfig \<Rightarrow> WriteTx \<times> env \<Rightarrow> LoopExit \<times> WriteTx \<times> env" where
  "write_iteration c = (\<lambda>(s, e).
     let s = (if sc_group_safety c then sync s else s)
     in if sc_group_safety c \<and> requested (wt_safety s) then safety_iteration c (s, e)
     else let (run, s) = running_w s
     in if \<not> run then (Break, s, e)
     else let (now, e) = steady_now e; (stop, s) = stop_w s
     in if stop then (Break, update_stats (\<lambda>st. st\<lparr>ss_stopped_externally := True\<rparr>) s, e)
     else if wt_notification_failed s then (Break, fault_w kNotificationFailed (-1) s, e)
     else write_checked c now (s, e))"

text \<open>The preparation before the loop, and the loop for a number of iterations.\<close>

definition seed_axis :: "nat \<Rightarrow> WriteTx \<times> env \<Rightarrow> WriteTx \<times> env" where
  "seed_axis axis = (\<lambda>(s, e). let v = wt_feedback s ! axis
     in if usable v then let (t, e) = steady_now e in (keep_material axis v t s, e) else (s, e))"

definition write_prologue :: "StreamConfig \<Rightarrow> WriteTx \<times> env \<Rightarrow> WriteTx \<times> env" where
  "write_prologue c = (\<lambda>(s, e).
     let (_, e) = steady_now e; (due, e) = steady_now e;
         s = s\<lparr>wt_schedule := new_schedule (sc_period c) (sc_write_grace c), wt_bootstrap_due := due, wt_first_send := 0,
               wt_retry_due := 0, wt_hold_start := 0, wt_observed_version := 0, wt_last_send_kind := 0,
               wt_snapshot_failed := False\<rparr>
     in if sc_group_safety c then fold seed_axis [0..<length (wt_drivers s)] (s, e) else (s, e))"

fun write_loop :: "StreamConfig \<Rightarrow> nat \<Rightarrow> WriteTx \<times> env \<Rightarrow> LoopExit \<times> WriteTx \<times> env" where
  "write_loop c 0 (s, e) = (Continue, s, e)"
| "write_loop c (Suc n) (s, e) =
     (case write_iteration c (s, e) of
        (Break, s, e) \<Rightarrow> (Break, s, e)
      | (Continue, s, e) \<Rightarrow> write_loop c n (s, e))"

section \<open>What leaves the schedule alone\<close>

text \<open>Only the arrival of a batch and a recorded transmission move the schedule.\<close>

lemma update_schedule [state_simps]:
  "wt_schedule (update_safety f s) = wt_schedule s" "wt_schedule (update_stats g s) = wt_schedule s"
  "wt_schedule (fault_w k a s) = wt_schedule s"
  by (simp_all add: update_safety_def update_stats_def fault_w_def)

lemma reads_schedule [state_simps]:
  "wt_schedule (sync s) = wt_schedule s" "wt_schedule (snd (running_w s)) = wt_schedule s"
  "wt_schedule (snd (stop_w s)) = wt_schedule s" "wt_schedule (snd (version_w s)) = wt_schedule s"
  "wt_schedule (snd (read_batch s)) = wt_schedule s" "wt_schedule (snd (rx_fault_w s)) = wt_schedule s"
  "wt_schedule (snd (armed_w s)) = wt_schedule s" "wt_schedule (snd (poll_w s)) = wt_schedule s"
  "wt_schedule (snd (read_snapshot s)) = wt_schedule s" "wt_schedule (snd (read_received s)) = wt_schedule s"
  by (auto simp: sync_def running_w_def stop_w_def version_w_def read_batch_def rx_fault_w_def armed_w_def poll_w_def
      read_snapshot_def read_received_def update_safety_def split: list.splits)

lemma reads_schedule_eq:
  "running_w s = (b, s') \<Longrightarrow> wt_schedule s' = wt_schedule s" "stop_w s = (b, s') \<Longrightarrow> wt_schedule s' = wt_schedule s"
  "version_w s = (v, s') \<Longrightarrow> wt_schedule s' = wt_schedule s" "read_batch s = (bt, s') \<Longrightarrow> wt_schedule s' = wt_schedule s"
  "rx_fault_w s = (f, s') \<Longrightarrow> wt_schedule s' = wt_schedule s" "armed_w s = (a, s') \<Longrightarrow> wt_schedule s' = wt_schedule s"
  "poll_w s = (p, s') \<Longrightarrow> wt_schedule s' = wt_schedule s"
  using reads_schedule [of s] by auto

lemma latch_w_schedule: "latch_w i (s, e) = (s', e') \<Longrightarrow> wt_schedule s' = wt_schedule s"
  by (auto simp: latch_w_def split: prod.splits)

lemma latches_schedule: "fold latch_w is (s, e) = (s', e') \<Longrightarrow> wt_schedule s' = wt_schedule s"
proof (induction "is" arbitrary: s e)
  case (Cons i ids)
  obtain s1 e1 where l: "latch_w i (s, e) = (s1, e1)" by fastforce
  then show ?case using Cons.IH [of s1 e1] Cons.prems latch_w_schedule [OF l] by simp
qed simp

lemma collect_schedule: "collectFeedbackStale c ev (s, e) = (s', e') \<Longrightarrow> wt_schedule s' = wt_schedule s"
  using collect_spec(1) by (fastforce simp: group_wire_def)

lemma keep_note_schedule [state_simps]:
  "wt_schedule (hold now a s) = wt_schedule s" "wt_schedule (note_fresh i s) = wt_schedule s"
  "wt_schedule (end_hold now s) = wt_schedule s" "wt_schedule (note_command_age a now s) = wt_schedule s"
  by (simp_all add: hold_def note_fresh_def end_hold_def note_command_age_def update_stats_def Let_def)

lemma note_fresh_fold [state_simps]: "wt_schedule (fold note_fresh is s) = wt_schedule s"
  by (induction "is" arbitrary: s) (simp_all add: state_simps)

lemma feedback_axis_schedule: "wt_schedule (snd (feedback_axis_w c now i (k, s))) = wt_schedule s"
proof -
  obtain p got s1 where r: "read_snapshot s = ((p, got), s1)" using prod_cases3 by (metis surj_pair)
  define s2 where "s2 = (case got of Some v \<Rightarrow> s1\<lparr>wt_feedback := (wt_feedback s1)[i := v]\<rparr> | None \<Rightarrow> s1)"
  obtain x s3 where x: "read_received s2 = (x, s3)" by fastforce
  have "wt_schedule s1 = wt_schedule s" using reads_schedule(9) [of s] r by simp
  moreover have "wt_schedule s2 = wt_schedule s1" by (simp add: s2_def split: option.splits)
  moreover have "wt_schedule s3 = wt_schedule s2" using reads_schedule(10) [of s2] x by simp
  moreover have "wt_schedule (snd (feedback_axis_w c now i (k, s))) = wt_schedule s3"
    using r x by (simp add: feedback_axis_w_def s2_def [symmetric] Let_def update_schedule)
  ultimately show ?thesis by simp
qed

lemma feedback_fold_schedule: "wt_schedule (snd (fold (feedback_axis_w c now) is (k, s))) = wt_schedule s"
proof (induction "is" arbitrary: k s)
  case (Cons i ids)
  obtain k1 s1 where f: "feedback_axis_w c now i (k, s) = (k1, s1)" by fastforce
  show ?case using Cons.IH [of k1 s1] feedback_axis_schedule [of c now i k s] f by simp
qed simp

lemma frame_allowed_schedule:
  assumes "frame_allowed c z a n (s, e) = (ok, s', e')"
  shows "wt_schedule s' = wt_schedule s" and "clk e \<le> clk e'" and "tx_log e' = tx_log e"
proof -
  obtain r s1 where r: "running_w s = (r, s1)" by fastforce
  obtain b s2 where b: "stop_w s1 = (b, s2)" by fastforce
  define s3 where "s3 = (if sc_group_safety c then sync s2 else s2)"
  obtain v s4 where v: "(if a \<and> n = 0 then version_w s3 else (wt_observed_version s3, s3)) = (v, s4)" by fastforce
  obtain f s5 where f: "rx_fault_w s4 = (f, s5)" by fastforce
  obtain t e1 where t: "steady_now e = (t, e1)" by fastforce
  have sch: "wt_schedule s1 = wt_schedule s" "wt_schedule s2 = wt_schedule s" "wt_schedule s3 = wt_schedule s"
    "wt_schedule s4 = wt_schedule s" "wt_schedule s5 = wt_schedule s"
  proof -
    show 1: "wt_schedule s1 = wt_schedule s" using reads_schedule_eq(1) [OF r] .
    show 2: "wt_schedule s2 = wt_schedule s" using reads_schedule_eq(2) [OF b] 1 by simp
    show 3: "wt_schedule s3 = wt_schedule s" using 2 by (simp add: s3_def state_simps)
    show 4: "wt_schedule s4 = wt_schedule s" using v 3 reads_schedule_eq(3) [of s3 v s4] by (auto split: if_splits)
    show "wt_schedule s5 = wt_schedule s" using reads_schedule_eq(5) [OF f] 4 by simp
  qed
  have e1: "clk e \<le> clk e1" "tx_log e1 = tx_log e" using steady_now_spec [OF t] by simp_all
  have "\<exists>q ee. (s', e') = (q, ee) \<and> q \<in> {s1, s2, s3, s4, s5} \<and> ee \<in> {e, e1}"
    using assms [unfolded frame_allowed_def prod.case Let_def, unfolded r prod.case, unfolded b prod.case,
      folded s3_def, unfolded v prod.case, unfolded f prod.case, unfolded t prod.case]
    by (auto split: if_splits)
  then show "wt_schedule s' = wt_schedule s" "clk e \<le> clk e'" "tx_log e' = tx_log e" using sch e1 by auto
qed

section \<open>Transmissions follow the policy\<close>

text \<open>Frames that were sent are counted, at a time within the call.\<close>

lemma write_frames_progress:
  "write_frames c z a axs r (s, e) = (r', s', e') \<Longrightarrow> wr_send_at r \<le> clk e \<Longrightarrow> \<not> wr_failed r' \<Longrightarrow>
     wr_sent r \<le> wr_sent r' \<and> (wr_sent r' = wr_sent r \<longrightarrow> tx_log e' = tx_log e) \<and> wr_send_at r' \<le> clk e'"
proof (induction c z a axs r "(s, e)" arbitrary: s e rule: write_frames.induct)
  case (1 c z a r s e)
  then show ?case by auto
next
  case (2 c z a i axs r s e)
  obtain ok s1 e1 where f: "frame_allowed c z a (wr_sent r) (s, e) = (ok, s1, e1)" using prod_cases3 by blast
  note fs = frame_allowed_schedule [OF f]
  show ?case
  proof (cases "ok \<and> (\<exists>fr. write_frame c i s1 = Some fr)")
    case False
    then have "r' = r" "e' = e1" using 2(2) f by (auto split: option.splits bool.splits)
    then show ?thesis using fs 2(3) by auto
  next
    case True
    then obtain fr where ok: ok and fr: "write_frame c i s1 = Some fr" by blast
    obtain t e2 where t: "steady_now e1 = (t, e2)" by fastforce
    note ts = steady_now_spec [OF t]
    show ?thesis
    proof (cases "\<not> z \<and> a \<and> command_expired c s1 t")
      case True
      then have "r' = r" "e' = e2" using 2(2) f ok fr t by auto
      then show ?thesis using fs ts 2(3) by auto
    next
      case nx: False
      define r1 where "r1 = (if wr_send_at r = 0 then r\<lparr>wr_send_at := t\<rparr> else r)"
      have r1: "wr_send_at r1 \<le> clk e2" "wr_sent r1 = wr_sent r" using ts fs(2) 2(3) by (auto simp: r1_def)
      obtain b e3 where b: "bus_send fr e2 = (b, e3)" by fastforce
      have bb: b
      proof (rule ccontr)
        assume nb: "\<not> b"
        obtain s2 e4 where l: "(if sc_broadcast c then fold latch_w [0..<length (wt_drivers s1)] (s1, e3)
            else latch_w i (s1, e3)) = (s2, e4)" by fastforce
        have "r' = r1\<lparr>wr_failed := True\<rparr>" using 2(2) f ok fr t nx b nb l by (auto simp: r1_def split: if_splits)
        then show False using 2(4) by simp
      qed
      have w: "write_frames c z a axs (r1\<lparr>wr_sent := Suc (wr_sent r1)\<rparr>) (s1, e3) = (r', s', e')"
        using 2(2) f ok fr t nx b bb by (simp add: r1_def Let_def)
      have "wr_sent (r1\<lparr>wr_sent := Suc (wr_sent r1)\<rparr>) \<le> wr_sent r' \<and>
          (wr_sent r' = wr_sent (r1\<lparr>wr_sent := Suc (wr_sent r1)\<rparr>) \<longrightarrow> tx_log e' = tx_log e3) \<and> wr_send_at r' \<le> clk e'"
      proof (rule 2(1) [OF f [symmetric] _ refl fr t [symmetric] refl nx r1_def b [symmetric] refl])
        show "ok = True" using ok by simp
        show "\<not> \<not> b" using bb by simp
      qed (use w r1 2(4) bus_send_clk [OF b] in auto)
      then show ?thesis using r1(2) by simp
    qed
  qed
qed

lemma write_frames_spec:
  "write_frames c z a axs r (s, e) = (r', s', e') \<Longrightarrow> t0 \<le> clk e \<Longrightarrow> (wr_send_at r = 0 \<or> t0 \<le> wr_send_at r) \<Longrightarrow>
     (0 < wr_sent r \<longrightarrow> wr_send_at r \<noteq> 0) \<Longrightarrow> 0 < t0 \<Longrightarrow>
     wt_schedule s' = wt_schedule s \<and> (0 < wr_sent r' \<longrightarrow> t0 \<le> wr_send_at r')"
proof (induction c z a axs r "(s, e)" arbitrary: s e rule: write_frames.induct)
  case (1 c z a r s e)
  then show ?case by auto
next
  case (2 c z a i axs r s e)
  obtain ok s1 e1 where f: "frame_allowed c z a (wr_sent r) (s, e) = (ok, s1, e1)" using prod_cases3 by blast
  note fs = frame_allowed_schedule [OF f]
  show ?case
  proof (cases "ok \<and> (\<exists>fr. write_frame c i s1 = Some fr)")
    case False
    then have "r' = r" "s' = s1" using 2(2) f by (auto split: option.splits bool.splits)
    then show ?thesis using fs 2(4,5) by auto
  next
    case True
    then obtain fr where ok: ok and fr: "write_frame c i s1 = Some fr" by blast
    obtain t e2 where t: "steady_now e1 = (t, e2)" by fastforce
    have t0: "t0 \<le> t" "t0 \<le> clk e2" using steady_now_spec [OF t] fs(2) 2(3) by auto
    show ?thesis
    proof (cases "\<not> z \<and> a \<and> command_expired c s1 t")
      case True
      then have "r' = r" "s' = s1" using 2(2) f ok fr t by auto
      then show ?thesis using fs 2(4,5) by auto
    next
      case nx: False
      define r1 where "r1 = (if wr_send_at r = 0 then r\<lparr>wr_send_at := t\<rparr> else r)"
      have r1: "t0 \<le> wr_send_at r1" "wr_sent r1 = wr_sent r" using t0 2(4) by (auto simp: r1_def)
      obtain b e3 where b: "bus_send fr e2 = (b, e3)" by fastforce
      show ?thesis
      proof (cases b)
        case False
        obtain s2 e4 where l: "(if sc_broadcast c then fold latch_w [0..<length (wt_drivers s1)] (s1, e3)
            else latch_w i (s1, e3)) = (s2, e4)" by fastforce
        have "wt_schedule s2 = wt_schedule s1" using l latch_w_schedule latches_schedule by (auto split: if_splits)
        moreover have "r' = r1\<lparr>wr_failed := True\<rparr>" "s' = fault_w kSendFailed (if sc_broadcast c then -1 else int i) s2"
          using 2(2) f ok fr t nx b False l by (auto simp: r1_def split: if_splits)
        ultimately show ?thesis using fs r1 by (simp add: state_simps)
      next
        case True
        have w: "write_frames c z a axs (r1\<lparr>wr_sent := Suc (wr_sent r1)\<rparr>) (s1, e3) = (r', s', e')"
          using 2(2) f ok fr t nx b True by (simp add: r1_def Let_def)
        have "wt_schedule s' = wt_schedule s1 \<and> (0 < wr_sent r' \<longrightarrow> t0 \<le> wr_send_at r')"
        proof (rule 2(1) [OF f [symmetric] _ refl fr t [symmetric] refl nx r1_def b [symmetric] refl])
          show "ok = True" using ok by simp
          show "\<not> \<not> b" using True by simp
          show "t0 \<le> clk e3" using t0 bus_send_clk [OF b] by simp
        qed (use w r1 2(6) in auto)
        then show ?thesis using fs by simp
      qed
    qed
  qed
qed

lemma record_write_schedule:
  "wt_schedule (record_write c z a rs n r s) =
     (if wr_sent r = 0 then wt_schedule s else sent (wr_send_at r) rs (wt_schedule s))"
  by (simp add: record_write_def Let_def state_simps)

lemma conclude_write_spec:
  assumes "conclude_write z reason n r (s, e) = (x, s', e')"
  shows "wt_schedule s' = wt_schedule s" and "x = Continue \<Longrightarrow> \<not> z \<and> \<not> wr_failed r" and "e' = e"
proof -
  let ?s = "update_stats (\<lambda>st. st\<lparr>ss_command_stale_zero_gain_frames := wr_sent r, ss_command_stale_expected_frames := n\<rparr>) s"
  obtain b s1 where b: "running_w ?s = (b, s1)" by fastforce
  obtain d s2 where d: "(if b then stop_w s1 else (True, s1)) = (d, s2)" by fastforce
  have "wt_schedule s1 = wt_schedule s" using reads_schedule_eq(1) [OF b] by (simp add: state_simps)
  moreover have "wt_schedule s2 = wt_schedule s1" using d reads_schedule_eq(2) [of s1 d s2] by (auto split: if_splits)
  ultimately have s2: "wt_schedule s2 = wt_schedule s" by simp
  note eq = assms [unfolded conclude_write_def prod.case Let_def, unfolded b prod.case, unfolded d prod.case]
  show "wt_schedule s' = wt_schedule s" using eq s2 by (auto simp: state_simps split: if_splits)
  show "x = Continue \<Longrightarrow> \<not> z \<and> \<not> wr_failed r" "e' = e" using eq by (auto split: if_splits)
qed

lemma send_batch_schedule:
  assumes "send_batch c now z a rs reason (s, e) = (Continue, s', e')" and "0 < clk e"
  shows "\<not> z"
    and "tx_log e' = tx_log e \<and> wt_schedule s' = wt_schedule s \<or>
      (\<exists>t. clk e \<le> t \<and> t \<le> clk e' \<and> wt_schedule s' = sent t rs (wt_schedule s))"
proof -
  define s1 where "s1 = end_hold now (fold note_fresh [0..<length (wt_drivers s)] s)"
  define s2 where "s2 = s1\<lparr>wt_commands := write_commands (a \<and> \<not> z) s1\<rparr>"
  have s2: "wt_schedule s2 = wt_schedule s" by (simp add: s1_def s2_def state_simps)
  note eq = assms(1) [unfolded send_batch_def prod.case Let_def, folded s1_def, folded s2_def]
  obtain blocks where Inr: "encode_blocks (wt_drivers s2) (wt_can_ids s2) (write_commands (a \<and> \<not> z) s1) 0 = Inr blocks"
    using eq by (cases "encode_blocks (wt_drivers s2) (wt_can_ids s2) (write_commands (a \<and> \<not> z) s1) 0") auto
  define s3 where "s3 = s2\<lparr>wt_blocks := blocks\<rparr>"
  define n where "n = (if sc_broadcast c then 1 else length (wt_drivers s3))"
  obtain r s4 e4 where w: "write_frames c z a [0..<n] \<lparr>wr_sent = 0, wr_send_at = 0, wr_failed = False\<rparr> (s3, e) = (r, s4, e4)"
    using prod_cases3 by blast
  have cw: "conclude_write z reason n r (record_write c z a rs n r s4, e4) = (Continue, s', e')"
    using eq Inr w unfolding n_def s3_def by simp
  note cs = conclude_write_spec(1,3) [OF cw] and nf = conclude_write_spec(2) [OF cw refl]
  have ws: "wt_schedule s4 = wt_schedule s3 \<and> (0 < wr_sent r \<longrightarrow> clk e \<le> wr_send_at r)"
    by (rule write_frames_spec [OF w order.refl]) (use assms(2) in simp_all)
  have "wr_sent \<lparr>wr_sent = 0, wr_send_at = 0, wr_failed = False\<rparr> \<le> wr_sent r \<and>
      (wr_sent r = wr_sent \<lparr>wr_sent = 0, wr_send_at = 0, wr_failed = False\<rparr> \<longrightarrow> tx_log e4 = tx_log e) \<and> wr_send_at r \<le> clk e4"
    by (rule write_frames_progress [OF w]) (use assms(2) nf in simp_all)
  then show "\<not> z" "tx_log e' = tx_log e \<and> wt_schedule s' = wt_schedule s \<or>
      (\<exists>t. clk e \<le> t \<and> t \<le> clk e' \<and> wt_schedule s' = sent t rs (wt_schedule s))"
    using ws cs nf s2 by (auto simp: record_write_schedule s3_def)
qed

lemma wait_w_schedule:
  "wait_w d (s, e) = (x, s', e') \<Longrightarrow> wt_schedule s' = wt_schedule s \<and> tx_log e' = tx_log e"
  using reads_schedule_eq(7) [of s] steady_now_spec [of e]
  by (auto simp: wait_w_def state_simps Let_def pass_time_def split: prod.splits PollResult.splits if_splits)

text \<open>The part of an iteration after its checks: it sends nothing and leaves the schedule alone, or takes exactly
  one transmission that the policy allows, at a time within the call.\<close>

definition one_send :: "bool \<Rightarrow> ns \<Rightarrow> ns \<Rightarrow> ScheduleEvent list \<Rightarrow> bool" where
  "one_send quiet t0 t1 tx \<longleftrightarrow> tx = [] \<and> quiet \<or> (\<exists>t. t0 \<le> t \<and> t \<le> t1 \<and> (tx = [First t] \<or> tx = [Again t]))"

lemma write_act_schedule:
  assumes "write_act c now active armed k (s, e) = (Continue, s', e')" and "0 < now" and "now \<le> clk e"
    and "active = (ws_sequence (wt_schedule s) \<noteq> 0)"
  shows "\<exists>tx. one_send (tx_log e' = tx_log e) (clk e) (clk e') tx \<and> obeys tx (wt_schedule s) \<and>
    wt_schedule s' = fold schedule_event tx (wt_schedule s)"
proof -
  let ?z = "is_zero_stop (fst (fk_reason k))"
  define s1 where "s1 = (if fst (fk_reason k) \<noteq> kNone then let ((f, _), s) = rx_fault_w s
                in update_stats (\<lambda>st. st\<lparr>ss_received_fault_at_stop := f\<rparr>) s else s)"
  have s1: "wt_schedule s1 = wt_schedule s"
    using reads_schedule_eq(5) [of s] by (auto simp: s1_def state_simps split: prod.splits)
  define w where "w = wt_schedule s"
  define resend where "resend = (active \<and> \<not> wt_snapshot_failed s1 \<and> resendDue now w)"
  define due where "due = (?z \<or> (\<not> active \<and> wt_bootstrap_due s1 \<le> now) \<or>
                        (active \<and> \<not> wt_snapshot_failed s1 \<and> (pending w \<or> resend)))"
  note eq = assms(1) [unfolded write_act_def prod.case Let_def, folded s1_def [unfolded Let_def], unfolded s1, folded w_def,
      folded resend_def, folded due_def]
  have nr: "\<not> (fst (fk_reason k) \<noteq> kNone \<and> \<not> ?z)"
    using eq by (auto split: if_splits prod.splits)
  note eq' = eq [unfolded if_not_P [OF nr]]
  show ?thesis
  proof (cases "due \<and> (?z \<or> \<not> held now w)")
    case False
    have "wait_w (wait_deadline c (fk_due k) active resend armed (if due then hold now active s1 else s1))
        (if due then hold now active s1 else s1, e) = (Continue, s', e')" using eq' [unfolded if_not_P [OF False]] .
    from wait_w_schedule [OF this] have "wt_schedule s' = wt_schedule s" "tx_log e' = tx_log e"
      using s1 by (simp_all add: state_simps split: if_splits)
    then show ?thesis by (intro exI [of _ "[]"]) (simp add: one_send_def)
  next
    case True
    then have sb: "send_batch c now ?z active resend (fst (fk_reason k)) (s1, e) = (Continue, s', e')" using eq' by simp
    have ce: "0 < clk e" using assms(2,3) by simp
    note nz = send_batch_schedule(1) [OF sb ce]
    have h: "\<not> held now w" and d: due using True nz by auto
    consider "tx_log e' = tx_log e" "wt_schedule s' = w"
      | t where "clk e \<le> t" "t \<le> clk e'" "wt_schedule s' = sent t resend w"
      using send_batch_schedule(2) [OF sb ce] s1 by (auto simp: w_def)
    then show ?thesis
    proof cases
      case 1
      then show ?thesis by (intro exI [of _ "[]"]) (simp add: w_def one_send_def)
    next
      case 2
      then have t: "0 < t" "now \<le> t" using assms(2,3) by auto
      have ht: "\<not> held t w" using h t by (auto simp: held_def)
      show ?thesis
      proof (cases resend)
        case True
        then have "allowed (Again t) w" using t ht by (auto simp: resend_def resendDue_def)
        then show ?thesis using 2 True by (intro exI [of _ "[Again t]"]) (simp add: w_def one_send_def)
      next
        case False
        then have "pending w \<or> ws_sequence w = 0" using d nz assms(4) by (auto simp: due_def w_def)
        then have "allowed (First t) w" using t ht by simp
        then show ?thesis using 2 False by (intro exI [of _ "[First t]"]) (simp add: w_def one_send_def)
      qed
    qed
  qed
qed

lemma group_checks_schedule:
  assumes "group_checks c now reason (s, e) = (again, s', e')"
  shows "wt_schedule s' = wt_schedule s" and "clk e \<le> clk e'" and "tx_log e' = tx_log e"
proof -
  obtain s1 e1 where k: "(if reason = kNone \<or> is_zero_stop reason then collectFeedbackStale c 0 (s, e) else (s, e)) = (s1, e1)"
    by fastforce
  have s1: "wt_schedule s1 = wt_schedule s" "clk e \<le> clk e1" "tx_log e1 = tx_log e"
    using k collect_schedule [of c 0 s e s1 e1] collect_spec(2) [of c 0 s e s1 e1] by (auto split: if_splits)
  obtain t e2 where t: "steady_now e1 = (t, e2)" by fastforce
  have e2: "clk e1 \<le> clk e2" "tx_log e2 = tx_log e1" using steady_now_spec [OF t] by simp_all
  have "wt_schedule s' = wt_schedule s \<and> clk e \<le> clk e' \<and> tx_log e' = tx_log e"
    using assms [unfolded group_checks_def prod.case Let_def, unfolded k prod.case, unfolded t prod.case] s1 e2
    by (auto simp: state_simps split: if_splits)
  then show "wt_schedule s' = wt_schedule s" "clk e \<le> clk e'" "tx_log e' = tx_log e" by auto
qed

text \<open>The arrival of a batch: at most the one that the next read of the snapshot delivers.\<close>

definition one_batch :: "PublishedCommand list option list \<Rightarrow> ScheduleEvent list \<Rightarrow> bool" where
  "one_batch batches pub \<longleftrightarrow> pub = [] \<or>
     (\<exists>b rest. batches = Some b # rest \<and> pub = [Publish (pc_sequence (hd b)) (pc_published_ns (hd b))])"

lemma take_batch_schedule:
  "\<exists>pub. one_batch (wt_batches s) pub \<and> obeys pub (wt_schedule s) \<and>
     wt_schedule (take_batch c now s) = fold schedule_event pub (wt_schedule s)"
proof -
  obtain v s1 where v: "version_w s = (v, s1)" by fastforce
  obtain b s2 where b: "read_batch s1 = (b, s2)" by fastforce
  have s2: "wt_schedule s1 = wt_schedule s" "wt_schedule s2 = wt_schedule s"
    using reads_schedule_eq(3) [OF v] reads_schedule_eq(4) [OF b] by auto
  have "wt_batches s1 = wt_batches s" using v by (auto simp: version_w_def split: list.splits)
  then have bs: "\<exists>rest. wt_batches s = Some p # rest" if "b = Some p" for p
    using b that by (auto simp: read_batch_def split: list.splits)
  have a: "wt_schedule (accept_packet p t) = (if pc_sequence (hd p) = ws_sequence (wt_schedule t) then wt_schedule t
        else published (pc_sequence (hd p)) (pc_published_ns (hd p)) (wt_schedule t))" for p t
      by (simp add: accept_packet_def Let_def state_simps)
  have "wt_schedule (take_batch c now s) = (if v = wt_observed_version s1 \<and> \<not> wt_snapshot_failed s1 then wt_schedule s1
        else case b of None \<Rightarrow> wt_schedule s2 | Some p \<Rightarrow> wt_schedule (accept_packet p (s2\<lparr>wt_snapshot_failed := False\<rparr>)))"
      using v b by (cases b) (simp_all add: take_batch_def state_simps)
  then have "wt_schedule (take_batch c now s) = wt_schedule s \<or>
        (\<exists>p. b = Some p \<and> wt_schedule (take_batch c now s) = published (pc_sequence (hd p)) (pc_published_ns (hd p)) (wt_schedule s))"
    using s2 by (cases b) (auto simp: a)
  then consider "wt_schedule (take_batch c now s) = wt_schedule s"
    | p where "b = Some p" "wt_schedule (take_batch c now s) = published (pc_sequence (hd p)) (pc_published_ns (hd p)) (wt_schedule s)"
    by blast
  then show ?thesis
  proof cases
    case 1
    then show ?thesis by (intro exI [of _ "[]"]) (simp add: one_batch_def)
  next
    case (2 p)
    then show ?thesis using bs [OF 2(1)]
      by (intro exI [of _ "[Publish (pc_sequence (hd p)) (pc_published_ns (hd p))]"]) (auto simp: one_batch_def)
  qed
qed

lemma obeys_append: "obeys (vs @ us) w \<longleftrightarrow> obeys vs w \<and> obeys us (fold schedule_event vs w)"
  by (induction vs arbitrary: w) auto

text \<open>What one iteration may do to the schedule: take in at most one arriving batch, then either put nothing on the
  bus or make exactly one transmission, each allowed by the policy and recorded.\<close>

definition policy_run ::
  "PublishedCommand list option list \<Rightarrow> bool \<Rightarrow> ns \<Rightarrow> ns \<Rightarrow> WriteSchedule \<Rightarrow> WriteSchedule \<Rightarrow> bool" where
  "policy_run batches quiet t0 t1 w w' \<longleftrightarrow> (\<exists>pub tx. one_batch batches pub \<and> one_send quiet t0 t1 tx \<and>
     obeys (pub @ tx) w \<and> w' = fold schedule_event (pub @ tx) w)"

lemma policy_run_refl: "policy_run bs True t0 t1 w w"
  unfolding policy_run_def by (intro exI [of _ "[]"]) (simp add: one_batch_def one_send_def)

lemma policy_run_step:
  assumes "one_batch bs pub" and "obeys pub w" and "v = fold schedule_event pub w"
    and "one_send quiet t0 t1 tx" and "obeys tx v" and "w' = fold schedule_event tx v"
  shows "policy_run bs quiet t0 t1 w w'"
  using assms unfolding policy_run_def by (intro exI [of _ pub] exI [of _ tx]) (simp add: obeys_append)

lemma policy_run_mono:
  assumes "policy_run bs quiet t1 t2 w w'" and "t0 \<le> t1" and "quiet \<Longrightarrow> quiet'"
  shows "policy_run bs quiet' t0 t2 w w'"
proof -
  have "one_send quiet t1 t2 tx \<Longrightarrow> one_send quiet' t0 t2 tx" for tx
    using assms(2,3) by (auto simp: one_send_def)
  then show ?thesis using assms(1) unfolding policy_run_def by blast
qed

lemma write_checked_schedule:
  assumes "write_checked c now (s, e) = (Continue, s', e')" and "0 < now" and "now \<le> clk e"
  shows "policy_run (wt_batches s) (tx_log e' = tx_log e) (clk e) (clk e') (wt_schedule s) (wt_schedule s')"
proof -
  define s1 where "s1 = take_batch c now s"
  define active where "active = (ws_sequence (wt_schedule s1) \<noteq> 0)"
  obtain armed s2 where a: "(if sc_activation_origin_ns c \<noteq> 0 then (sc_activation_origin_ns c, s1) else armed_w s1) = (armed, s2)"
    by fastforce
  obtain rxf s3 where x: "(if active \<and> command_expired c s2 now then ((kNone, -1), s2) else rx_fault_w s2) = (rxf, s3)"
    by fastforce
  define k where "k = \<lparr>fk_reason = base_reason (active \<and> command_expired c s2 now) (wt_snapshot_failed s3)
      (\<not> active \<and> armed \<noteq> 0 \<and> armed + sc_first_write_timeout c \<le> now) rxf, fk_due = now + sc_max_feedback_age c\<rparr>"
  obtain k1 s4 where f: "fold (feedback_axis_w c now) [0..<length (wt_drivers s3)] (k, s3) = (k1, s4)" by fastforce
  define s5 where "s5 = note_command_age active now s4"
  obtain again s6 e6 where g: "group_checks c now (fst (fk_reason k1)) (s5, e) = (again, s6, e6)" using prod_cases3 by blast
  have r: "(if again then (Continue, s6, e6) else write_act c now active armed k1 (s6, e6)) = (Continue, s', e')"
    using assms(1) [unfolded write_checked_def prod.case Let_def, folded s1_def, folded active_def, unfolded a prod.case,
      unfolded x prod.case, folded k_def, unfolded f prod.case, folded s5_def, unfolded g prod.case] .
  have "wt_schedule s2 = wt_schedule s1" using a reads_schedule_eq(6) [of s1 armed s2] by (auto split: if_splits)
  moreover have "wt_schedule s3 = wt_schedule s2" using x reads_schedule_eq(5) [of s2 rxf s3] by (auto split: if_splits)
  moreover have "wt_schedule s4 = wt_schedule s3" using feedback_fold_schedule [of c now _ k s3] f by (metis snd_conv)
  moreover have "wt_schedule s5 = wt_schedule s4" by (simp add: s5_def state_simps)
  ultimately have s6: "wt_schedule s6 = wt_schedule s1" using group_checks_schedule(1) [OF g] by simp
  note gs = group_checks_schedule(2,3) [OF g]
  obtain pub where p: "one_batch (wt_batches s) pub" "obeys pub (wt_schedule s)"
    "wt_schedule s1 = fold schedule_event pub (wt_schedule s)"
    using take_batch_schedule [of s c now] unfolding s1_def by blast
  show ?thesis
  proof (cases again)
    case True
    then have "s' = s6" "e' = e6" using r by auto
    then show ?thesis using gs s6 by (intro policy_run_step [OF p, of _ _ _ "[]"]) (simp_all add: one_send_def)
  next
    case False
    then have "write_act c now active armed k1 (s6, e6) = (Continue, s', e')" using r by simp
    from write_act_schedule [OF this assms(2)] obtain tx where tx: "one_send (tx_log e' = tx_log e6) (clk e6) (clk e') tx"
      "obeys tx (wt_schedule s6)" "wt_schedule s' = fold schedule_event tx (wt_schedule s6)"
      using gs(1) assms(3) s6 by (auto simp: active_def)
    have "policy_run (wt_batches s) (tx_log e' = tx_log e6) (clk e6) (clk e') (wt_schedule s) (wt_schedule s')"
      using policy_run_step [OF p tx(1)] tx(2,3) s6 by simp
    then show ?thesis by (rule policy_run_mono) (use gs in simp_all)
  qed
qed

lemma safety_poll_schedule: "safety_poll (s, e) = (s', e') \<Longrightarrow> wt_schedule s' = wt_schedule s"
  using reads_schedule_eq(7) [of s]
  by (auto simp: safety_poll_def split: prod.splits PollResult.splits bool.splits)

lemma watchdog_request_spec:
  assumes "watchdog_request c (s, e) = (s', e')"
  shows "tx_log e' = tx_log e" and "clk e \<le> clk e'" and "group_wire s' = group_wire s"
    and "wt_safety s' = wt_safety s \<or> requested (wt_safety s')" and "gs_result (wt_safety s') = gs_result (wt_safety s)"
proof -
  obtain t e1 where t: "steady_now e = (t, e1)" by fastforce
  obtain u e2 where u: "steady_now e1 = (u, e2)" by fastforce
  obtain v e3 where v: "steady_now e2 = (v, e3)" by fastforce
  note ts = steady_now_spec [OF t] steady_now_spec [OF u] steady_now_spec [OF v]
  define upd where "upd = (\<lambda>g. snd (request (gs_epoch g) kWatchdog u v (g\<lparr>gs_watchdog_sequence := ws_sequence (wt_schedule s),
      gs_watchdog_published_ns := ws_published_ns (wt_schedule s)\<rparr>)))"
  have up: "requested (upd g)" "gs_result (upd g) = gs_result g" for g
    by (simp_all add: upd_def requested_def request_sources or_eq_0_iff)
  have "(s', e') \<in> {(s, e), (s, e1), (update_safety upd s, e3)}"
    using assms unfolding watchdog_request_def prod.case Let_def t u v upd_def by (auto split: if_splits)
  moreover have "wt_safety (update_safety upd s) = upd (wt_safety s)" by (simp add: update_safety_def)
  ultimately show "tx_log e' = tx_log e" "clk e \<le> clk e'" "group_wire s' = group_wire s"
    "wt_safety s' = wt_safety s \<or> requested (wt_safety s')" "gs_result (wt_safety s') = gs_result (wt_safety s)"
    using ts up by (auto simp: update_safety_wire)
qed

lemma safety_iteration_spec:
  assumes "safety_iteration c (s, e) = (x, s', e')" and "length (wt_blocks s) = length (wt_drivers s)"
  shows "wt_schedule s' = wt_schedule s" and "sends_only {f. safety_frame c s f} (tx_log e) (tx_log e')"
    and "x = Break \<Longrightarrow> wt_stop_all s' \<and> finished (wt_safety s')"
proof -
  obtain s1 e1 where c: "collectFeedbackStale c 0 (s, e) = (s1, e1)" by fastforce
  obtain s2 e2 where w: "watchdog_request c (s1, e1) = (s2, e2)" by fastforce
  obtain s3 e3 where p: "performGroupSafety c (s2, e2) = (s3, e3)" by fastforce
  note cs = collect_spec [OF c] and ws = watchdog_request_spec [OF w]
  have gw: "group_wire s2 = group_wire s" using cs(1) ws(3) by simp
  then have "length (wt_blocks s2) = length (wt_drivers s2)" using assms(2) by (simp add: group_wire_def)
  note ps = performGroupSafety_spec [OF p this]
  have sch: "wt_schedule s3 = wt_schedule s" using ps gw by (simp add: group_wire_def)
  have "sends_only {f. safety_frame c s f} (tx_log e2) (tx_log e3)"
    using ps safety_frame_cong [OF gw, of c] by (auto simp: sends_only_def)
  then have so: "sends_only {f. safety_frame c s f} (tx_log e) (tx_log e3)" using cs(2) ws(1) by simp
  obtain s4 e4 where l: "(if fr_detected (gs_feedback_stale (wt_safety s3))
        then fold latch_w [0..<length (wt_drivers s3)] (s3, e3) else (s3, e3)) = (s4, e4)" by fastforce
  have lw: "fold latch_w axs (t, d) = (t', d') \<Longrightarrow> only_disables (tx_log d) (tx_log d') \<and> wt_safety t' = wt_safety t" for axs t d t' d'
  proof (induction axs arbitrary: t d)
    case (Cons a axs)
    obtain t1 d1 where k: "latch_w a (t, d) = (t1, d1)" by fastforce
    obtain dr where "latchCommunicationFault (wt_drivers t ! a) d = (dr, d1)" "wt_safety t1 = wt_safety t"
      using k by (auto simp: latch_w_def split: prod.splits)
    with latch_only_disables have "only_disables (tx_log d) (tx_log d1)" "wt_safety t1 = wt_safety t" by auto
    moreover have "only_disables (tx_log d1) (tx_log d') \<and> wt_safety t' = wt_safety t1" using Cons k by auto
    ultimately show ?case by (auto intro: only_disables_trans)
  qed simp
  have s4: "wt_schedule s4 = wt_schedule s3" "only_disables (tx_log e3) (tx_log e4)" "wt_safety s4 = wt_safety s3"
    using l latches_schedule lw by (auto split: if_splits)
  have so4: "sends_only {f. safety_frame c s f} (tx_log e) (tx_log e4)"
    using so sends_only_mono [OF s4(2)] by (auto intro: sends_only_trans)
  obtain s5 e5 where sp: "safety_poll (s3, e3) = (s5, e5)" by fastforce
  have e5: "tx_log e5 = tx_log e3"
    using sp by (auto simp: safety_poll_def pass_time_def split: prod.splits PollResult.splits bool.splits)
  note eq = assms(1) [unfolded safety_iteration_def c w p Let_def prod.case, unfolded l prod.case, unfolded sp]
  have fw: "wt_stop_all (fault_w k a t)" "wt_safety (fault_w k a t) = wt_safety t" for k a t
    by (simp_all add: fault_w_def update_stats_def)
  show "wt_schedule s' = wt_schedule s"
    using eq sch s4(1) safety_poll_schedule [OF sp] by (auto simp: state_simps split: if_splits)
  show "sends_only {f. safety_frame c s f} (tx_log e) (tx_log e')"
    using eq so so4 e5 by (auto split: if_splits)
  show "x = Break \<Longrightarrow> wt_stop_all s' \<and> finished (wt_safety s')"
    using eq fw s4(3) by (auto split: if_splits)
qed

text \<open>The same without a condition on the blocks.\<close>

lemma core_schedule: "sg_core s' = sg_core s \<Longrightarrow> wt_schedule s' = wt_schedule s"
  by (simp add: sg_core_def)

lemma safety_blocks_schedule: "safety_blocks axs (s, e) = (r, s', e') \<Longrightarrow> wt_schedule s' = wt_schedule s"
proof (induction axs "(s, e)" arbitrary: s e rule: safety_blocks.induct)
  case (2 a axs s e)
  obtain x s1 e1 where x: "safety_axis a (s, e) = (x, s1, e1)" using prod_cases3 by blast
  have s1: "wt_schedule s1 = wt_schedule s" using core_schedule [OF safety_axis_spec(1) [OF x]] .
  show ?case
  proof (cases x)
    case (Inl f)
    then show ?thesis using 2(2) x s1 by auto
  next
    case (Inr b)
    then show ?thesis using 2(1) [OF x [symmetric] Inr refl] 2(2) x s1 by auto
  qed
qed simp

lemma perform_schedule:
  assumes "performGroupSafety c (s, e) = (s', e')"
  shows "wt_schedule s' = wt_schedule s"
proof -
  let ?g = "wt_safety s"
  obtain t e1 where t: "steady_now e = (t, e1)" by fastforce
  obtain s1 e2 where k: "capture_attempt c (update_safety (\<lambda>g. g\<lparr>gs_result := kProcessing\<rparr>) s, e) = (s1, e2)" by fastforce
  have s1: "wt_schedule s1 = wt_schedule s" using capture_attempt_wire(1) [OF k] by (simp add: update_safety_wire) (simp add: group_wire_def)
  obtain u e3 where u: "steady_now e2 = (u, e3)" by fastforce
  define s2 where "s2 = update_safety (\<lambda>g. g\<lparr>gs_attempted_ns := u, gs_notification_failed := wt_notification_failed s1\<rparr>) s1"
  have at: "wt_schedule q' = wt_schedule q" if q: "safety_attempt c (q, d) = (q', d')" for q d q' d'
  proof -
    obtain r q1 d1 where b: "safety_blocks [0..<length (wt_drivers q)] (q, d) = (r, q1, d1)" using prod_cases3 by blast
    have q1: "wt_schedule q1 = wt_schedule q" using safety_blocks_schedule [OF b] .
    have "finish m f a (v, w) = (q', d') \<Longrightarrow> wt_schedule q' = wt_schedule v" for m f a v w using finish_spec by blast
    moreover have "safety_send f (v, w) = (q', d') \<Longrightarrow> wt_schedule q' = wt_schedule v" for f v w
      using safety_send_spec by (fastforce simp: group_wire_def)
    ultimately show ?thesis
      using q q1 unfolding safety_attempt_def prod.case Let_def b
      by (auto split: if_splits option.splits prod.splits)
  qed
  have "(s', e') = (s, e) \<or> wt_schedule s' = wt_schedule (update_safety (\<lambda>g. g\<lparr>gs_failure := (if ready g then kDrainTimeout else kNoErrorObservation),
              gs_completed_ns := t, gs_result := kIncomplete\<rparr>) s) \<or> safety_attempt c (s2, e3) = (s', e')"
    using assms [unfolded performGroupSafety_def prod.case Let_def, unfolded t prod.case, unfolded k prod.case,
        unfolded u prod.case, folded s2_def] by (auto split: if_splits)
  then show ?thesis using at [of s2 e3 s' e'] s1 by (auto simp: s2_def state_simps)
qed

lemma safety_iteration_schedule:
  assumes "safety_iteration c (s, e) = (x, s', e')"
  shows "wt_schedule s' = wt_schedule s"
proof -
  obtain s1 e1 where c: "collectFeedbackStale c 0 (s, e) = (s1, e1)" by fastforce
  obtain s2 e2 where w: "watchdog_request c (s1, e1) = (s2, e2)" by fastforce
  obtain s3 e3 where p: "performGroupSafety c (s2, e2) = (s3, e3)" by fastforce
  have s3: "wt_schedule s3 = wt_schedule s"
    using perform_schedule [OF p] watchdog_request_spec(3) [OF w] collect_schedule [OF c] by (simp add: group_wire_def)
  obtain s4 e4 where l: "(if fr_detected (gs_feedback_stale (wt_safety s3))
        then fold latch_w [0..<length (wt_drivers s3)] (s3, e3) else (s3, e3)) = (s4, e4)" by fastforce
  have s4: "wt_schedule s4 = wt_schedule s3" using l latches_schedule by (auto split: if_splits)
  obtain s5 e5 where sp: "safety_poll (s3, e3) = (s5, e5)" by fastforce
  note eq = assms [unfolded safety_iteration_def c w p Let_def prod.case, unfolded l prod.case, unfolded sp]
  show ?thesis using eq s3 s4 safety_poll_schedule [OF sp] by (auto simp: state_simps split: if_splits)
qed


text \<open>Property C15: when a safety request is pending at the head of an iteration, no ordinary command
  leaves in it: the only frames are the group's zero-gain answer and disable frames; and the loop ends
  exactly with an answered request and the stop raised for every bus.\<close>

theorem write_safety_first:
  assumes "sc_group_safety c" and "requested (wt_safety (sync s))"
    and "length (wt_blocks (sync s)) = length (wt_drivers (sync s))"
    and "write_iteration c (s, e) = (x, s', e')"
  shows "sends_only {f. safety_frame c (sync s) f} (tx_log e) (tx_log e') \<and>
    (x = Break \<longrightarrow> wt_stop_all s' \<and> finished (wt_safety s'))"
  using safety_iteration_spec [OF _ assms(3)] assms(1,2,4) by (auto simp: write_iteration_def)

section \<open>Concrete iterations\<close>

theorem write_safety_first_witness:
  "\<exists>x s' e'. write_iteration (default_StreamConfig\<lparr>sc_group_safety := True, sc_broadcast := True\<rparr>)
       (sample_group\<lparr>wt_events := [[EvRequest 1 kModeStop 5 6]]\<rparr>, silent_env) = (x, s', e') \<and>
     (x = Break \<longrightarrow> finished (wt_safety s'))"
proof -
  let ?c = "default_StreamConfig\<lparr>sc_group_safety := True, sc_broadcast := True\<rparr>"
  let ?s = "sample_group\<lparr>wt_events := [[EvRequest 1 kModeStop 5 6]]\<rparr>"
  obtain x s' e' where r: "write_iteration ?c (?s, silent_env) = (x, s', e')" using prod_cases3 by blast
  have y: "sync ?s = update_safety (safety_event (EvRequest 1 kModeStop 5 6)) (sample_group\<lparr>wt_events := []\<rparr>)"
    by (simp add: sync_def)
  have "requested (wt_safety (sync ?s))"
    by (simp add: y update_safety_def requested_def request_sources or_eq_0_iff sample_group_simps)
  moreover have "length (wt_blocks (sync ?s)) = length (wt_drivers (sync ?s))"
    by (simp add: y update_safety_def sample_group_simps)
  ultimately show ?thesis using write_safety_first [OF _ _ _ r] r by auto
qed


end
