(* ===== verification/Pair_Commit.thy ===== *)
theory Pair_Commit
  imports Ieee_Double
begin

text \<open>
  The acceptance of command batches (\<^verbatim>\<open>pair_commit.hpp\<close>): a controller writes all command values of
  a group and then a generation number; the hardware side inspects the stored values once per cycle
  and accepts a batch only as the next generation, inside its bounds and, at the start and after a
  fault, only with released (zero) gains.
\<close>

section \<open>Model\<close>

definition kMaxGeneration :: u64 where
  "kMaxGeneration = 9007199254740991"

definition kMaxAxes :: nat where
  "kMaxAxes = 3"

definition kFieldsPerAxis :: nat where
  "kFieldsPerAxis = 5"

definition kMaxValues :: nat where
  "kMaxValues = kMaxAxes * kFieldsPerAxis"

datatype Reason =
  kBootWait | kUnchanged | kAccepted | kInvalidGeneration | kRollback | kGap | kInvalidBatch
  | kLatchedNonzero | kStartupExpired | kUpperLimit | kPublishFailed | kNotClaimed | kFeedbackPending

record Bounds =
  bo_lower :: "double list"
  bo_upper :: "double list"

record PairCommit =
  pc_axes :: nat
  pc_bounds :: Bounds
  pc_last :: u64
  pc_deadline :: ns
  pc_latched :: bool
  pc_expired :: bool

definition default_PairCommit :: PairCommit where
  "default_PairCommit =
     \<lparr>pc_axes = 2, pc_bounds = \<lparr>bo_lower = replicate kMaxValues 0, bo_upper = replicate kMaxValues 0\<rparr>,
      pc_last = 0, pc_deadline = 0, pc_latched = False, pc_expired = False\<rparr>"

definition axes :: "nat \<Rightarrow> PairCommit \<Rightarrow> bool \<times> PairCommit" where
  "axes count c =
     (if count < 2 \<or> kMaxAxes < count then (False, c) else (True, c\<lparr>pc_axes := count\<rparr>))"

definition valueCount :: "PairCommit \<Rightarrow> nat" where
  "valueCount c = pc_axes c * kFieldsPerAxis"

definition reset :: "ns \<Rightarrow> ns \<Rightarrow> PairCommit \<Rightarrow> PairCommit" where
  "reset activation_ns timeout_ns c =
     c\<lparr>pc_last := 0, pc_latched := False, pc_expired := False, pc_deadline := activation_ns + timeout_ns\<rparr>"

definition set_bounds :: "Bounds \<Rightarrow> PairCommit \<Rightarrow> PairCommit" where
  "set_bounds b c = c\<lparr>pc_bounds := b\<rparr>"

definition latch_commit :: "PairCommit \<Rightarrow> PairCommit" where
  "latch_commit c = c\<lparr>pc_latched := True\<rparr>"

definition generation_valid :: "double \<Rightarrow> bool" where
  "generation_valid g \<longleftrightarrow> \<not> (\<not> isfinite g \<or> g < dlit 0 \<or> dint (uint kMaxGeneration) < g \<or> \<not> deq (dfloor g) g)"

definition batch_in_bounds :: "PairCommit \<Rightarrow> double list \<Rightarrow> bool" where
  "batch_in_bounds c values \<longleftrightarrow> list_all (\<lambda>i. \<not> (\<not> isfinite (values ! i) \<or>
     values ! i < bo_lower (pc_bounds c) ! i \<or> bo_upper (pc_bounds c) ! i < values ! i)) [0..<valueCount c]"

definition batch_released :: "PairCommit \<Rightarrow> double list \<Rightarrow> bool" where
  "batch_released c values \<longleftrightarrow>
     list_all (\<lambda>i. \<not> (i mod 5 \<noteq> 0 \<and> \<not> deq (values ! i) (dlit 0))) [0..<valueCount c]"

definition inspect :: "double \<Rightarrow> double list \<Rightarrow> ns \<Rightarrow> PairCommit \<Rightarrow> Reason \<times> PairCommit" where
  "inspect generation values now c0 =
     (let c = (if pc_last c0 = 0 \<and> pc_deadline c0 \<le> now
               then c0\<lparr>pc_expired := True, pc_latched := True\<rparr> else c0)
      in if pc_expired c then (kStartupExpired, c)
      else if \<not> generation_valid generation
      then (if pc_last c = kMaxGeneration then kUpperLimit else kInvalidGeneration, latch_commit c)
      else let g = cast_word generation :: u64
      in if g = 0 \<and> pc_last c = 0 then (kBootWait, c)
      else if g = pc_last c then (kUnchanged, c)
      else if g < pc_last c then (kRollback, latch_commit c)
      else if pc_last c = kMaxGeneration then (kUpperLimit, c)
      else if g \<noteq> pc_last c + 1 then (kGap, latch_commit c)
      else if \<not> batch_in_bounds c values then (kInvalidBatch, latch_commit c)
      else if (pc_latched c \<or> pc_last c = 0) \<and> \<not> batch_released c values
      then (kLatchedNonzero, latch_commit c)
      else (kAccepted, c))"

definition accept :: "double \<Rightarrow> PairCommit \<Rightarrow> PairCommit" where
  "accept generation c = c\<lparr>pc_last := cast_word generation\<rparr>"

section \<open>Generations\<close>

lemma generation_valid_iff:
  "generation_valid g \<longleftrightarrow> (\<exists>n :: nat. g = Fin (of_nat n) \<and> n \<le> 9007199254740991)"
proof
  assume v: "generation_valid g"
  then obtain x where x: "g = Fin x" by (auto simp: generation_valid_def isfinite_iff)
  have k: "dint (uint kMaxGeneration) = Fin 9007199254740991"
    using dint_Fin [of 9007199254740991] by (simp add: kMaxGeneration_def)
  from v x k have "0 \<le> x" "x \<le> 9007199254740991" "of_int \<lfloor>x\<rfloor> = x"
    by (auto simp: generation_valid_def)
  then obtain m where m: "x = of_int m" "0 \<le> m" by (metis of_int_0_le_iff)
  then have "(of_int m :: rat) \<le> of_int 9007199254740991" using \<open>x \<le> 9007199254740991\<close> by simp
  then have "m \<le> 9007199254740991" by (simp only: of_int_le_iff)
  with m have "x = of_nat (nat m)" "nat m \<le> 9007199254740991" by simp_all
  then show "\<exists>n :: nat. g = Fin (of_nat n) \<and> n \<le> 9007199254740991" using x by blast
next
  assume "\<exists>n :: nat. g = Fin (of_nat n) \<and> n \<le> 9007199254740991"
  then obtain n :: nat where n: "g = Fin (of_nat n)" "n \<le> 9007199254740991" by blast
  have "(of_nat n :: rat) \<le> of_nat 9007199254740991" using n(2) by (simp only: of_nat_le_iff)
  moreover have "dint (uint kMaxGeneration) = Fin 9007199254740991"
    using dint_Fin [of 9007199254740991] by (simp add: kMaxGeneration_def)
  ultimately show "generation_valid g" by (simp add: generation_valid_def n(1))
qed

lemma cast_generation: "cast_word (Fin (of_nat n)) = (of_nat n :: u64)"
  by (simp add: cast_word_def rat_trunc_def)

lemma unat_generation: "n \<le> 9007199254740991 \<Longrightarrow> unat (of_nat n :: u64) = n"
  by (simp add: unat_of_nat)

lemma generation_compare:
  assumes "n \<le> 9007199254740992" and "m \<le> 9007199254740992"
  shows "(of_nat n :: u64) = of_nat m \<longleftrightarrow> n = m" and "(of_nat n :: u64) < of_nat m \<longleftrightarrow> n < m"
    and "(of_nat n :: u64) + 1 = of_nat (n + 1)"
proof -
  have u: "unat (of_nat n :: u64) = n" "unat (of_nat m :: u64) = m" using assms by (simp_all add: unat_of_nat)
  then show "(of_nat n :: u64) = of_nat m \<longleftrightarrow> n = m" by metis
  show "(of_nat n :: u64) < of_nat m \<longleftrightarrow> n < m" by (simp only: word_less_nat_alt u)
  show "(of_nat n :: u64) + 1 = of_nat (n + 1)" by simp
qed

text \<open>Acceptance in exact terms, without machine arithmetic.\<close>

lemma inspect_accepted:
  assumes "inspect g vs now c = (r, c')" and "unat (pc_last c) \<le> 9007199254740991"
  shows "r = kAccepted \<longleftrightarrow>
     \<not> pc_expired c \<and> \<not> (pc_last c = 0 \<and> pc_deadline c \<le> now) \<and>
     g = Fin (of_nat (unat (pc_last c) + 1)) \<and> unat (pc_last c) < 9007199254740991 \<and>
     batch_in_bounds c vs \<and> (pc_latched c \<or> pc_last c = 0 \<longrightarrow> batch_released c vs)"
proof -
  define l where "l = unat (pc_last c)"
  have l: "pc_last c = of_nat l" "l \<le> 9007199254740991" using assms(2) by (simp_all add: l_def)
  have k: "kMaxGeneration = of_nat 9007199254740991" by (simp add: kMaxGeneration_def)
  consider "pc_expired c \<or> pc_last c = 0 \<and> pc_deadline c \<le> now"
    | "\<not> pc_expired c" "\<not> (pc_last c = 0 \<and> pc_deadline c \<le> now)" by blast
  then show ?thesis
  proof cases
    case 1
    then show ?thesis using assms(1) by (auto simp: inspect_def Let_def split: if_splits)
  next
    case live: 2
    show ?thesis
    proof (cases "generation_valid g")
      case True
      then obtain n :: nat where n: "g = Fin (of_nat n)" "n \<le> 9007199254740991"
        by (auto simp: generation_valid_iff)
      define w where "w = (of_nat n :: u64)"
      have cmp: "w = 0 \<longleftrightarrow> n = 0" "pc_last c = 0 \<longleftrightarrow> l = 0" "w = pc_last c \<longleftrightarrow> n = l"
        "w < pc_last c \<longleftrightarrow> n < l" "pc_last c = kMaxGeneration \<longleftrightarrow> l = 9007199254740991"
        unfolding w_def l(1) k
        using generation_compare [of n l] generation_compare(1) [of l 9007199254740991]
          generation_compare(1) [of l 0] generation_compare(1) [of n 0] n(2) l(2) by auto
      have succ: "w = pc_last c + 1 \<longleftrightarrow> n = l + 1"
        using generation_compare(1) [of n "l + 1"] n(2) l(2)
        unfolding w_def l(1) by (simp add: add.commute)
      have g: "g = Fin (of_nat (unat (pc_last c) + 1)) \<longleftrightarrow> n = l + 1"
        unfolding n(1) l_def [symmetric] by (simp only: double.inject of_nat_eq_iff)
      have "r = fst (inspect g vs now c)" using assms(1) by simp
      also have "\<dots> = (if n = 0 \<and> l = 0 then kBootWait else if n = l then kUnchanged
        else if n < l then kRollback else if l = 9007199254740991 then kUpperLimit
        else if n \<noteq> l + 1 then kGap else if \<not> batch_in_bounds c vs then kInvalidBatch
        else if (pc_latched c \<or> l = 0) \<and> \<not> batch_released c vs then kLatchedNonzero else kAccepted)"
      proof -
        have "cast_word g = w" unfolding n(1) w_def by (rule cast_generation)
        then show ?thesis using live [unfolded cmp(2)] True
          by (auto simp: inspect_def Let_def cmp succ if_distrib [of fst] cong: if_cong)
      qed
      finally show ?thesis using g n(2) l(2) live cmp(2)
        unfolding l_def [symmetric] by (auto split: if_splits)
    next
      case False
      moreover from this have "g \<noteq> Fin (of_nat (unat (pc_last c) + 1)) \<or> \<not> unat (pc_last c) < 9007199254740991"
        using generation_valid_iff [of g] by (metis Suc_eq_plus1 Suc_leI)
      ultimately show ?thesis using assms(1) live by (auto simp: inspect_def Let_def split: if_splits)
    qed
  qed
qed


lemma inspect_fields:
  "pc_axes (snd (inspect g vs now c)) = pc_axes c" "pc_bounds (snd (inspect g vs now c)) = pc_bounds c"
  "pc_last (snd (inspect g vs now c)) = pc_last c" "pc_deadline (snd (inspect g vs now c)) = pc_deadline c"
  "pc_latched c \<longrightarrow> pc_latched (snd (inspect g vs now c))"
  "pc_expired c \<longrightarrow> pc_expired (snd (inspect g vs now c))"
  by (simp_all add: inspect_def Let_def latch_commit_def)

lemma inspect_accepted_state: "fst (inspect g vs now c) = kAccepted \<longrightarrow> snd (inspect g vs now c) = c"
  by (simp add: inspect_def Let_def latch_commit_def)

lemma inspect_keeps:
  assumes "inspect g vs now c = (r, c')"
  shows "pc_axes c' = pc_axes c" and "pc_bounds c' = pc_bounds c" and "pc_last c' = pc_last c"
    and "pc_deadline c' = pc_deadline c" and "pc_latched c \<Longrightarrow> pc_latched c'"
    and "pc_expired c \<Longrightarrow> pc_expired c'" and "r = kAccepted \<Longrightarrow> c' = c"
  using inspect_fields [where g = g and vs = vs and now = now and c = c]
    inspect_accepted_state [of g vs now c] assms by simp_all

section \<open>Sequences of cycles\<close>

text \<open>
  The use of the class by its client: an inspection followed by the acceptance of an accepted batch,
  an inspection whose batch is then not committed, or a latch set by a fault elsewhere. The second
  component records every batch that was committed.
\<close>

datatype CommitCall = Commit double "double list" ns | Peek double "double list" ns | Fault

fun commit_call ::
  "CommitCall \<Rightarrow> PairCommit \<times> (nat \<times> double list) list \<Rightarrow> PairCommit \<times> (nat \<times> double list) list" where
  "commit_call (Commit g vs now) (c, h) =
     (let (r, c) = inspect g vs now c
      in if r = kAccepted then (accept g c, h @ [(unat (pc_last c) + 1, vs)]) else (c, h))"
| "commit_call (Peek g vs now) (c, h) = (snd (inspect g vs now c), h)"
| "commit_call Fault (c, h) = (latch_commit c, h)"

definition released_values :: "nat \<Rightarrow> double list \<Rightarrow> bool" where
  "released_values n values \<longleftrightarrow> list_all (\<lambda>i. i mod 5 = 0 \<or> deq (values ! i) (dlit 0)) [0..<n]"

definition bounded_values :: "Bounds \<Rightarrow> nat \<Rightarrow> double list \<Rightarrow> bool" where
  "bounded_values b n values \<longleftrightarrow> list_all (\<lambda>i. isfinite (values ! i) \<and>
     \<not> values ! i < bo_lower b ! i \<and> \<not> bo_upper b ! i < values ! i) [0..<n]"

lemma batch_released_iff: "batch_released c vs = released_values (valueCount c) vs"
  by (auto simp: batch_released_def released_values_def list_all_iff)

lemma batch_in_bounds_iff: "batch_in_bounds c vs = bounded_values (pc_bounds c) (valueCount c) vs"
  by (auto simp: batch_in_bounds_def bounded_values_def list_all_iff)

definition commit_inv :: "Bounds \<Rightarrow> nat \<Rightarrow> PairCommit \<times> (nat \<times> double list) list \<Rightarrow> bool" where
  "commit_inv b n = (\<lambda>(c, h). pc_bounds c = b \<and> pc_axes c = n \<and> unat (pc_last c) \<le> 9007199254740991 \<and>
     map fst h = [1..<Suc (unat (pc_last c))] \<and> list_all (\<lambda>(g, vs). bounded_values b (5 * n) vs) h \<and>
     (h = [] \<or> released_values (5 * n) (snd (hd h))))"

lemma commit_call_inv:
  assumes "commit_inv b n s"
  shows "commit_inv b n (commit_call k s)"
proof (cases k)
  case (Commit g vs now)
  obtain c h where s: "s = (c, h)" by fastforce
  obtain r c' where i: "inspect g vs now c = (r, c')" by fastforce
  have l: "unat (pc_last c) \<le> 9007199254740991" using assms s by (simp add: commit_inv_def)
  show ?thesis
  proof (cases "r = kAccepted")
    case False
    then show ?thesis using assms inspect_keeps [OF i] i by (simp add: s Commit commit_inv_def)
  next
    case True
    then have c': "c' = c" using inspect_keeps(7) [OF i] by simp
    from True inspect_accepted [OF i l]
    have a: "g = Fin (of_nat (unat (pc_last c) + 1))" "unat (pc_last c) < 9007199254740991"
      "batch_in_bounds c vs" "pc_last c = 0 \<longrightarrow> batch_released c vs" by auto
    define m where "m = unat (pc_last c) + 1"
    have m: "unat (cast_word g :: u64) = m" unfolding a(1) m_def [symmetric] cast_generation
      using a(2) m_def by (intro unat_generation) simp
    have "[1..<Suc m] = [1..<Suc (unat (pc_last c))] @ [m]" by (simp add: m_def)
    moreover have "h = [] \<Longrightarrow> pc_last c = 0"
      using assms by (auto simp: commit_inv_def s unat_eq_0 [symmetric] split: if_splits)
    ultimately show ?thesis
      using assms i True a(2-4) m c'
      by (cases h) (auto simp: s Commit commit_inv_def accept_def m_def batch_released_iff batch_in_bounds_iff
          valueCount_def kFieldsPerAxis_def mult.commute)
  qed
next
  case (Peek g vs now)
  obtain c h where s: "s = (c, h)" by fastforce
  obtain r c' where i: "inspect g vs now c = (r, c')" by fastforce
  show ?thesis using assms inspect_keeps [OF i] i by (simp add: s Peek commit_inv_def)
next
  case Fault
  then show ?thesis using assms by (cases s) (simp add: commit_inv_def latch_commit_def)
qed

lemma commit_run_inv: "commit_inv b n s \<Longrightarrow> commit_inv b n (fold commit_call ks s)"
  by (induction ks arbitrary: s) (auto simp: commit_call_inv)

text \<open>Property C18: after a reset, whatever the order of inspections, commits and faults, the
  committed generations are 1, 2, 3, ... without gap, repetition or rollback, up to the last one
  recorded; every committed value is finite and inside its bounds, and the first committed batch
  has zero velocity, gains and torque.\<close>

theorem generations_are_consecutive:
  assumes "fold commit_call ks (reset t0 timeout c, []) = (c', h)"
  shows "map fst h = [1..<Suc (unat (pc_last c'))] \<and> unat (pc_last c') \<le> unat kMaxGeneration \<and>
    (\<forall>(g, vs) \<in> set h. bounded_values (pc_bounds c) (5 * pc_axes c) vs) \<and>
    (h = [] \<or> released_values (5 * pc_axes c) (snd (hd h)))"
  using commit_run_inv [of "pc_bounds c" "pc_axes c" "(reset t0 timeout c, [])" ks] assms
  by (simp add: commit_inv_def reset_def kMaxGeneration_def list_all_iff)

definition open_commit :: PairCommit where
  "open_commit = set_bounds \<lparr>bo_lower = replicate 15 (Fin (-1)), bo_upper = replicate 15 (Fin 1)\<rparr> default_PairCommit"

abbreviation zeros :: "double list" where
  "zeros \<equiv> replicate 15 (Fin 0)"

lemma zero_batch:
  "pc_axes c = 2 \<Longrightarrow> pc_bounds c = pc_bounds open_commit \<Longrightarrow> batch_in_bounds c zeros \<and> batch_released c zeros"
  by (auto simp: batch_in_bounds_def batch_released_def list_all_iff valueCount_def kFieldsPerAxis_def
      open_commit_def set_bounds_def)

lemma small_generations: "generation_valid (Fin 1)" "generation_valid (Fin 3)"
  using generation_valid_iff [of "Fin 1"] generation_valid_iff [of "Fin 3"]
  by (auto intro: exI [of _ 1] exI [of _ 3])

lemma open_commit_fields:
  "pc_axes open_commit = 2" "pc_last open_commit = 0" "pc_latched open_commit = False" "pc_expired open_commit = False"
  by (simp_all add: open_commit_def set_bounds_def default_PairCommit_def)

lemmas inspect_eval = inspect_def small_generations cast_word_def rat_trunc_def zero_batch reset_def
  latch_commit_def accept_def Let_def open_commit_fields kMaxGeneration_def

lemma two_commits:
  "fold commit_call [Commit (Fin 1) (replicate 15 (Fin 0)) 5, Commit (Fin 3) (replicate 15 (Fin 0)) 6]
     (reset 0 100 open_commit, []) =
   (open_commit\<lparr>pc_last := 1, pc_deadline := 100, pc_latched := True\<rparr>, [(1, replicate 15 (Fin 0))])"
  by (simp add: inspect_eval)

theorem generations_are_consecutive_witness:
  "map fst [(1 :: nat, replicate 15 (Fin 0))] = [1..<Suc (unat (1 :: u64))] \<and>
   released_values 10 (replicate 15 (Fin 0))"
  using generations_are_consecutive [OF two_commits] by (simp add: open_commit_fields)

interpretation commit_latch: quiet_latch commit_call
  "\<lambda>(c, h). pc_latched c \<and> pc_axes c = n \<and> unat (pc_last c) \<le> 9007199254740991" "\<lambda>(c, h). h"
  "\<lambda>(g, vs). released_values (5 * n) vs" for n
proof (unfold_locales, goal_cases)
  case (1 s k)
  obtain c h where s: "s = (c, h)" by fastforce
  show ?case
  proof (cases k)
    case (Commit g vs now)
    obtain r c' where i: "inspect g vs now c = (r, c')" by fastforce
    have l: "unat (pc_last c) \<le> 9007199254740991" using 1 s by simp
    have "r = kAccepted \<Longrightarrow> unat (cast_word g :: u64) \<le> 9007199254740991"
    proof -
      assume "r = kAccepted"
      with inspect_accepted [OF i l]
      have "g = Fin (of_nat (unat (pc_last c) + 1))" "unat (pc_last c) < 9007199254740991" by auto
      then show ?thesis using unat_generation [of "unat (pc_last c) + 1"] cast_generation
        by (metis Suc_eq_plus1 Suc_leI)
    qed
    then show ?thesis using 1 inspect_keeps [OF i] i by (auto simp: s Commit accept_def)
  next
    case (Peek g vs now)
    obtain r c' where i: "inspect g vs now c = (r, c')" by fastforce
    show ?thesis using 1 inspect_keeps [OF i] i by (simp add: s Peek)
  next
    case Fault
    then show ?thesis using 1 by (simp add: s latch_commit_def)
  qed
next
  case (2 s k)
  obtain c h where s: "s = (c, h)" by fastforce
  show ?case
  proof (cases k)
    case (Commit g vs now)
    obtain r c' where i: "inspect g vs now c = (r, c')" by fastforce
    have l: "unat (pc_last c) \<le> 9007199254740991" using 2 s by simp
    show ?thesis
      using 2 i inspect_accepted [OF i l]
      by (auto simp: s Commit batch_released_iff valueCount_def kFieldsPerAxis_def mult.commute
          intro!: exI [of _ "if r = kAccepted then [(unat (pc_last c') + 1, vs)] else []"])
  qed (use 2 in \<open>auto simp: s intro: exI [of _ "[]"]\<close>)
qed

text \<open>Property C25: once the commit latch is set, by a fault or by a rejected batch, every batch
  that is committed later has zero velocity, gains and torque, whatever calls follow.\<close>

theorem after_fault_only_released:
  assumes "pc_latched c" and "unat (pc_last c) \<le> unat kMaxGeneration"
    and "fold commit_call ks (c, h) = (c', h')"
  shows "pc_latched c' \<and> (\<exists>new. h' = h @ new \<and> (\<forall>(g, vs) \<in> set new. released_values (5 * pc_axes c) vs))"
  using commit_latch.latched_run [of "pc_axes c" "(c, h)" ks] commit_latch.output_run [of "pc_axes c" "(c, h)" ks] assms
  by (simp add: list_all_iff kMaxGeneration_def)

theorem after_fault_only_released_witness:
  "\<exists>new. [(1, replicate 15 (Fin 0))] = [] @ new \<and>
     (\<forall>(g :: nat, vs) \<in> set new. released_values (5 * pc_axes (reset 0 100 open_commit)) vs)"
proof -
  have "fold commit_call [Commit (Fin 1) (replicate 15 (Fin 0)) 5]
     ((reset 0 100 open_commit)\<lparr>pc_latched := True\<rparr>, []) =
   (open_commit\<lparr>pc_last := 1, pc_deadline := 100, pc_latched := True\<rparr>, [(1, replicate 15 (Fin 0))])"
    by (simp add: inspect_eval)
  from after_fault_only_released [OF _ _ this] show ?thesis by (simp add: reset_def)
qed

text \<open>Also: if no batch was committed by the startup deadline, every inspection from
  then on reports expiry, latches, and nothing is ever committed again.\<close>

theorem startup_expiry_is_final:
  assumes "pc_expired c \<or> pc_last c = 0 \<and> pc_deadline c \<le> now"
    and "inspect g vs now c = (r, c')" and "fold commit_call ks (c', h) = (c'', h')"
  shows "r = kStartupExpired \<and> pc_expired c'' \<and> h' = h"
proof -
  have r: "r = kStartupExpired \<and> pc_expired c'"
    using assms(1,2) by (auto simp: inspect_def Let_def split: if_splits)
  have "pc_expired c \<Longrightarrow> fold commit_call ks (c, h) = (d, k) \<Longrightarrow> pc_expired d \<and> k = h" for c d k
  proof (induction ks arbitrary: c)
    case (Cons x xs)
    obtain c1 where "commit_call x (c, h) = (c1, h)" "pc_expired c1"
    proof (cases x)
      case (Commit g vs now)
      obtain r c1 where i: "inspect g vs now c = (r, c1)" by fastforce
      then have "r = kStartupExpired" using Cons.prems(1) by (auto simp: inspect_def Let_def split: if_splits)
      then show ?thesis using that i inspect_keeps(6) [OF i] Cons.prems(1) Commit by simp
    next
      case (Peek g vs now)
      obtain r c1 where i: "inspect g vs now c = (r, c1)" by fastforce
      then show ?thesis using that inspect_keeps(6) [OF i] Cons.prems(1) Peek by simp
    next
      case Fault
      then show ?thesis using that Cons.prems(1) by (simp add: latch_commit_def)
    qed
    with Cons show ?case by simp
  qed simp
  with r assms(3) show ?thesis by blast
qed

theorem startup_expiry_is_final_witness:
  "fst (inspect (Fin 1) (replicate 15 (Fin 0)) 100 (reset 0 100 open_commit)) = kStartupExpired"
proof -
  obtain r c' where i: "inspect (Fin 1) (replicate 15 (Fin 0)) 100 (reset 0 100 open_commit) = (r, c')" by fastforce
  have "pc_last (reset 0 100 open_commit) = 0 \<and> pc_deadline (reset 0 100 open_commit) \<le> 100" by (simp add: reset_def)
  then show ?thesis using startup_expiry_is_final [OF _ i, of "[]" "[]"] i by simp
qed

text \<open>Also: the verdict of an inspection in exact terms: a batch is accepted exactly if the
  commit has not expired, the generation is the successor of the last one as an exact integer up to
  \<open>2^53 - 1\<close>, all values are finite and inside their bounds and, at the start or after a fault, the
  batch is released; an accepted inspection changes nothing by itself.\<close>

theorem inspect_decides:
  assumes "inspect g vs now c = (r, c')" and "unat (pc_last c) \<le> unat kMaxGeneration"
  shows "(r = kAccepted \<longleftrightarrow>
     \<not> pc_expired c \<and> \<not> (pc_last c = 0 \<and> pc_deadline c \<le> now) \<and>
     g = Fin (of_nat (unat (pc_last c) + 1)) \<and> unat (pc_last c) < unat kMaxGeneration \<and>
     batch_in_bounds c vs \<and> (pc_latched c \<or> pc_last c = 0 \<longrightarrow> batch_released c vs)) \<and>
     (r = kAccepted \<longrightarrow> c' = c) \<and> pc_last c' = pc_last c"
  using inspect_accepted [OF assms(1)] inspect_keeps [OF assms(1)] assms(2) by (simp add: kMaxGeneration_def)

theorem inspect_decides_witness:
  "fst (inspect (Fin 1) (replicate 15 (Fin 0)) 5 (reset 0 100 open_commit)) = kAccepted"
proof -
  obtain r c' where i: "inspect (Fin 1) (replicate 15 (Fin 0)) 5 (reset 0 100 open_commit) = (r, c')" by fastforce
  have "batch_in_bounds (reset 0 100 open_commit) (replicate 15 (Fin 0))"
    "batch_released (reset 0 100 open_commit) (replicate 15 (Fin 0))"
    using zero_batch [of "reset 0 100 open_commit"] by (simp_all add: reset_def open_commit_fields)
  then show ?thesis using inspect_decides [OF i] i
    by (simp add: reset_def open_commit_fields kMaxGeneration_def)
qed

end
