(* ===== verification/Pair_System.thy ===== *)
theory Pair_System
  imports Stream_Write Pair_Commit
begin

text \<open>
  The group mode of the hardware interface (\<^verbatim>\<open>src/pair_system_interface.cpp\<close>): the check of its
  configuration, the switch of command modes, the write callback that inspects, accepts and publishes a
  batch, and the registration of safety requests. Text parsing (\<^verbatim>\<open>std::stod\<close>) is a parameter.
\<close>

section \<open>Configuration\<close>

text \<open>What the framework hands over about an interface, a joint and a GPIO.\<close>

record InterfaceInfo =
  ii_name :: string
  ii_data_type :: string
  ii_min :: string
  ii_max :: string
  ii_initial_value :: string

record ComponentInfo =
  ci_name :: string
  ci_command_interfaces :: "InterfaceInfo list"
  ci_state_interfaces :: "InterfaceInfo list"

type_synonym stod = "string \<Rightarrow> (double \<times> nat) option"

definition number :: "stod \<Rightarrow> string \<Rightarrow> double option" where
  "number parse text = (case parse text of
     Some (v, n) \<Rightarrow> if n = length text \<and> isfinite v then Some v else None | None \<Rightarrow> None)"

definition command_fields :: "string list" where
  "command_fields = [''position'', ''velocity'', ''kp'', ''kd'', ''effort'']"

record JointRuntime =
  jr_can_bus :: string
  jr_enabled :: bool
  jr_can_id :: int
  jr_motor_dir :: int
  jr_lower :: double
  jr_upper :: double
  jr_offset :: double
  jr_spec :: "BxiSpec option"

record BusTransport =
  bt_write_triggered :: bool
  bt_direct_feedback :: bool
  bt_separate :: bool
  bt_broadcast :: bool
  bt_stream_feedback_max_age_ms :: double
  bt_stream_command_max_age_ms :: double

text \<open>What \<open>configurePair\<close> looks at: the description of the hardware and the parsed configuration. The motor
  specification of a joint is there when it could be loaded; its offset is the one in effect.\<close>

record PairSetup =
  su_gpios :: "ComponentInfo list"
  su_joints :: "ComponentInfo list"
  su_runtimes :: "JointRuntime list"
  su_gpio_name :: string
  su_pair_mode :: bool
  su_active_buses :: "string list"
  su_bus_format :: CanFrameFormat
  su_transport :: "BusTransport option"
  su_can_hz :: double
  su_drain_timeout :: "string option"

definition lower_limits :: "JointRuntime \<Rightarrow> BxiSpec \<Rightarrow> double list" where
  "lower_limits r s =
     (let dir = dint (jr_motor_dir r); o1 = jr_offset r
      in [dmax (jr_lower r) (dmin ((sp_p_min s - o1) * dir) ((sp_p_max s - o1) * dir)),
          dmin (sp_v_min s * dir) (sp_v_max s * dir), dlit 0, dlit 0, dmin (sp_t_min s * dir) (sp_t_max s * dir)])"

definition upper_limits :: "JointRuntime \<Rightarrow> BxiSpec \<Rightarrow> double list" where
  "upper_limits r s =
     (let dir = dint (jr_motor_dir r); o1 = jr_offset r
      in [dmin (jr_upper r) (dmax ((sp_p_min s - o1) * dir) ((sp_p_max s - o1) * dir)),
          dmax (sp_v_min s * dir) (sp_v_max s * dir), sp_kp_max s, sp_kd_max s, dmax (sp_t_min s * dir) (sp_t_max s * dir)])"

definition field_bounds :: "stod \<Rightarrow> ComponentInfo \<Rightarrow> double list \<Rightarrow> double list \<Rightarrow> nat \<Rightarrow> (double \<times> double) option" where
  "field_bounds parse joint lower upper field =
     (case find (\<lambda>i. ii_name i = command_fields ! field) (ci_command_interfaces joint) of
        None \<Rightarrow> None
      | Some found \<Rightarrow>
          if ii_data_type found \<noteq> ''double'' then None
          else case (number parse (ii_min found), number parse (ii_max found)) of
            (Some lo, Some hi) \<Rightarrow>
              if hi < lo \<or> lo < lower ! field \<or> upper ! field < hi \<or> (field \<noteq> 0 \<and> (dlit 0 < lo \<or> hi < dlit 0))
              then None else Some (lo, hi)
          | _ \<Rightarrow> None)"

text \<open>The bounds of one axis, or none if its configuration is refused.\<close>

definition axis_bounds :: "stod \<Rightarrow> PairSetup \<Rightarrow> nat \<Rightarrow> (double \<times> double) list option" where
  "axis_bounds parse u axis =
     (let joint = su_joints u ! axis; r = su_runtimes u ! axis
      in if jr_can_bus r \<noteq> hd (su_active_buses u) \<or> \<not> jr_enabled r \<or> jr_can_id r \<noteq> int axis + 1 \<or>
            length (ci_command_interfaces joint) \<noteq> 5 then None
         else case jr_spec r of None \<Rightarrow> None
         | Some s \<Rightarrow> if \<not> isfinite (jr_offset r) then None
             else those (map (field_bounds parse joint (lower_limits r s) (upper_limits r s)) [0..<5]))"

definition gpio_ok :: "ComponentInfo \<Rightarrow> bool" where
  "gpio_ok g \<longleftrightarrow> (case (ci_command_interfaces g, ci_state_interfaces g) of
     ([c], [s]) \<Rightarrow> ii_name c = ''commit_generation'' \<and> ii_name s = ''accepted_generation'' \<and>
       ii_data_type c = ''double'' \<and> ii_data_type s = ''double''
   | _ \<Rightarrow> False)"

definition transport_ok :: "PairSetup \<Rightarrow> bool" where
  "transport_ok u \<longleftrightarrow> (case su_transport u of None \<Rightarrow> False
     | Some t \<Rightarrow> bt_separate t \<and> bt_broadcast t \<and> bt_write_triggered t \<and> bt_direct_feedback t \<and>
         deq (su_can_hz u) (dlit 1000) \<and> deq (bt_stream_command_max_age_ms t) (dlit 5) \<and>
         deq (bt_stream_feedback_max_age_ms t) (dlit 3))"

definition drain_timeout :: "stod \<Rightarrow> PairSetup \<Rightarrow> ns option" where
  "drain_timeout parse u = (case su_drain_timeout u of None \<Rightarrow> Some 100
     | Some text \<Rightarrow> (case number parse text of None \<Rightarrow> None
         | Some v \<Rightarrow> if v < dlit 1 \<or> dlit 60000 < v \<or> \<not> deq (dfloor v) v then None
             else (case v of Fin x \<Rightarrow> Some (rat_trunc x) | _ \<Rightarrow> None)))"

record PairConfigured =
  pg_keys :: "string list"
  pg_commit :: PairCommit
  pg_drain_timeout_ms :: ns

definition pair_keys :: "PairSetup \<Rightarrow> string list" where
  "pair_keys u = concat (map (\<lambda>j. map (\<lambda>f. ci_name j @ ''/'' @ f) command_fields) (su_joints u)) @
     [su_gpio_name u @ ''/commit_generation'']"

text \<open>\<open>Inl\<close> says whether the callback succeeded without group mode or failed; \<open>Inr\<close> is a configured group.\<close>

definition configurePair :: "stod \<Rightarrow> PairSetup \<Rightarrow> PairCommit \<Rightarrow> bool + PairConfigured" where
  "configurePair parse u c =
     (let gpio = find (\<lambda>g. ci_name g = su_gpio_name u) (su_gpios u); n = length (su_joints u)
      in if \<not> su_pair_mode u then Inl (gpio = None)
      else case gpio of None \<Rightarrow> Inl False
      | Some g \<Rightarrow>
          if length (su_gpios u) \<noteq> 1 \<or> \<not> gpio_ok g \<or> n < 2 \<or> kMaxAxes < n \<or> length (su_active_buses u) \<noteq> 1 \<or>
             hd (su_active_buses u) \<notin> set [''can0'', ''can1'', ''can2'', ''can3''] \<or> su_bus_format u \<noteq> kFdBrs \<or>
             \<not> transport_ok u
          then Inl False
          else case drain_timeout parse u of None \<Rightarrow> Inl False
          | Some t \<Rightarrow> (case those (map (axis_bounds parse u) [0..<n]) of None \<Rightarrow> Inl False
              | Some bs \<Rightarrow>
                  (let (ok, c) = axes n c; pad = replicate (kMaxValues - 5 * n) 0;
                       b = \<lparr>bo_lower = map fst (concat bs) @ pad, bo_upper = map snd (concat bs) @ pad\<rparr>
                   in if \<not> ok then Inl False
                      else Inr \<lparr>pg_keys = pair_keys u, pg_commit = set_bounds b c, pg_drain_timeout_ms = t\<rparr>)))"

section \<open>State\<close>

record PairRecord =
  pr_cycle :: u64
  pr_previous :: u64
  pr_accepted :: u64
  pr_received :: double
  pr_values :: "double list"
  pr_inspected_ns :: ns
  pr_accepted_ns :: ns
  pr_published_ns :: ns
  pr_reason :: Reason
  pr_result :: CommandPublishResult

text \<open>
  The group state of the interface. The commands are what the controller stored, per axis. What other
  threads decide is a script: the successive reads of the stop latch set by the send thread, and the results
  of publishing. \<open>ps_batches\<close> records every batch handed to publication, \<open>ps_notified\<close> the wake-ups.
\<close>

record PairSystem =
  ps_mode :: bool
  ps_claimed :: bool
  ps_terminal :: bool
  ps_generation :: double
  ps_accepted :: double
  ps_commit :: PairCommit
  ps_safety :: GroupSafety
  ps_keys :: "string list"
  ps_axes :: nat
  ps_commands :: "StreamCommand list"
  ps_control_sequence :: u64
  ps_records :: "PairRecord list"
  ps_record_capacity :: nat
  ps_record_count :: nat
  ps_notified :: nat
  ps_stop_reads :: "bool list"
  ps_publish_results :: "CommandPublishResult list"
  ps_batches :: "PublishedCommand list list"

datatype return_type = OK | ERROR

section \<open>Mode switches\<close>

definition complete :: "string list \<Rightarrow> string list \<Rightarrow> bool" where
  "complete req keys \<longleftrightarrow> req = [] \<or> (length req = length keys \<and> list_all (\<lambda>k. count_list req k = 1) keys)"

definition feedback_stopped :: "PairSystem \<Rightarrow> bool \<times> PairSystem" where
  "feedback_stopped s = (case ps_stop_reads s of [] \<Rightarrow> (gs_feedback_stopped (ps_safety s), s)
     | b # bs \<Rightarrow> (b \<or> gs_feedback_stopped (ps_safety s),
         s\<lparr>ps_stop_reads := bs, ps_safety := (ps_safety s)\<lparr>gs_feedback_stopped := b \<or> gs_feedback_stopped (ps_safety s)\<rparr>\<rparr>))"

definition prepare_command_mode_switch :: "string list \<Rightarrow> string list \<Rightarrow> PairSystem \<Rightarrow> return_type \<times> PairSystem" where
  "prepare_command_mode_switch start stop s =
     (if \<not> ps_mode s then (OK, s)
      else if \<not> complete start (ps_keys s) \<or> \<not> complete stop (ps_keys s) then (ERROR, s)
      else let (stopped, s) = (if start \<noteq> [] \<and> \<not> ps_terminal s then feedback_stopped s else (False, s))
      in if (start \<noteq> [] \<and> (ps_terminal s \<or> stopped \<or> ps_claimed s \<or> stop \<noteq> [])) \<or> (stop \<noteq> [] \<and> \<not> ps_claimed s)
         then (ERROR, s) else (OK, s))"

definition requestPairSafety :: "SafetySource \<Rightarrow> ns \<Rightarrow> PairSystem \<times> env \<Rightarrow> PairSystem \<times> env" where
  "requestPairSafety source detected = (\<lambda>(s, e). let (registered, e) = steady_now e
     in (s\<lparr>ps_safety := snd (request (gs_epoch (ps_safety s)) source detected registered (ps_safety s)),
           ps_notified := Suc (ps_notified s)\<rparr>, e))"

definition perform_command_mode_switch ::
  "string list \<Rightarrow> string list \<Rightarrow> PairSystem \<times> env \<Rightarrow> return_type \<times> PairSystem \<times> env" where
  "perform_command_mode_switch start stop = (\<lambda>(s, e).
     let (result, s) = prepare_command_mode_switch start stop s
     in if \<not> ps_mode s \<or> result \<noteq> OK then (result, s, e)
     else let (s, e) = (if stop \<noteq> [] then
                (let (observed, e) = steady_now e;
                     s = s\<lparr>ps_safety := (ps_safety s)\<lparr>gs_mode_stop_observed_ns := observed\<rparr>\<rparr>;
                     (detected, e) = steady_now e;
                     (s, e) = requestPairSafety kModeStop detected (s, e)
                 in (s\<lparr>ps_claimed := False, ps_terminal := True, ps_commit := latch_commit (ps_commit s)\<rparr>, e))
              else (s, e))
     in (result, if start \<noteq> [] then s\<lparr>ps_claimed := True\<rparr> else s, e))"

section \<open>The write callback\<close>

definition staged_values :: "PairSystem \<Rightarrow> double list" where
  "staged_values s = concat (map (\<lambda>c. [cm_position c, cm_velocity c, cm_kp c, cm_kd c, cm_effort c])
     (take (ps_axes s) (ps_commands s)))"

text \<open>The verdict on a batch at a time: the stop latch is read before and, for an accepted batch, after.\<close>

definition judge_batch :: "bool \<Rightarrow> double list \<Rightarrow> ns \<Rightarrow> PairSystem \<Rightarrow> Reason \<times> PairSystem" where
  "judge_batch check_claim values now s =
     (let (stopped, s) = feedback_stopped s
      in if stopped then (kFeedbackPending, s)
      else if check_claim \<and> \<not> ps_claimed s then (kNotClaimed, s)
      else let (r, c) = inspect (ps_generation s) values now (ps_commit s);
               s = s\<lparr>ps_commit := c\<rparr>
      in if r = kAccepted
         then let (stopped, s) = feedback_stopped s in (if stopped then kFeedbackPending else kAccepted, s)
         else (r, s))"

definition make_packets :: "PairSystem \<Rightarrow> ns \<Rightarrow> PublishedCommand list" where
  "make_packets s t = map (\<lambda>c. \<lparr>pc_command = default_StreamCommand\<lparr>cm_position := cm_position c, cm_velocity := cm_velocity c,
       cm_kp := cm_kp c, cm_kd := cm_kd c, cm_effort := cm_effort c\<rparr>, pc_sequence = cast_word (ps_generation s),
     pc_published_ns = t\<rparr>) (take (ps_axes s) (ps_commands s))"

definition publishPairBatch :: "PublishedCommand list \<Rightarrow> PairSystem \<Rightarrow> CommandPublishResult \<times> PairSystem" where
  "publishPairBatch packets s =
     (let (r, rest) = (case ps_publish_results s of [] \<Rightarrow> (kNotPublished, []) | r # rs \<Rightarrow> (r, rs))
      in (r, s\<lparr>ps_publish_results := rest, ps_batches := ps_batches s @ [packets]\<rparr>))"

definition commit_batch :: "ns \<Rightarrow> PairSystem \<Rightarrow> Reason \<times> CommandPublishResult \<times> PairSystem" where
  "commit_batch published_ns s =
     (let s = s\<lparr>ps_commit := accept (ps_generation s) (ps_commit s)\<rparr>;
          s = s\<lparr>ps_accepted := dint (uint (pc_last (ps_commit s)))\<rparr>;
          (res, s) = publishPairBatch (make_packets s published_ns) s
      in if res = kSnapshotPublished then (kAccepted, res, s)
         else (kPublishFailed, res, s\<lparr>ps_commit := latch_commit (ps_commit s)\<rparr>))"

definition abnormal :: "Reason \<Rightarrow> bool" where
  "abnormal r \<longleftrightarrow> r \<in> set [kInvalidGeneration, kRollback, kGap, kInvalidBatch, kLatchedNonzero, kStartupExpired, kPublishFailed]"

definition add_record :: "PairRecord \<Rightarrow> PairSystem \<Rightarrow> PairSystem" where
  "add_record row s = s\<lparr>ps_records := (if ps_record_count s < ps_record_capacity s then ps_records s @ [row] else ps_records s),
     ps_record_count := Suc (ps_record_count s)\<rparr>"

definition decide_write ::
  "ns \<Rightarrow> PairSystem \<times> env \<Rightarrow> (Reason \<times> CommandPublishResult \<times> ns \<times> ns) \<times> PairSystem \<times> env" where
  "decide_write now = (\<lambda>(s, e).
     let values = staged_values s; (reason, s) = judge_batch True values now s
     in if reason \<noteq> kAccepted then ((reason, kNotPublished, 0, 0), s, e)
     else let (published_ns, e) = steady_now e; (reason, s) = judge_batch False values published_ns s
     in if reason \<noteq> kAccepted then ((reason, kNotPublished, 0, 0), s, e)
     else let (reason, res, s) = commit_batch published_ns s
     in ((reason, res, published_ns, published_ns), s, e))"

definition writePair :: "ns \<Rightarrow> PairSystem \<times> env \<Rightarrow> return_type \<times> PairSystem \<times> env" where
  "writePair now = (\<lambda>(s, e).
     let s = s\<lparr>ps_control_sequence := ps_control_sequence s + 1\<rparr>; previous = pc_last (ps_commit s); values = staged_values s;
         ((reason, res, accepted_ns, published_ns), s, e) = decide_write now (s, e);
         s = add_record \<lparr>pr_cycle = ps_control_sequence s, pr_previous = previous, pr_accepted = pc_last (ps_commit s),
               pr_received = ps_generation s, pr_values = values, pr_inspected_ns = now, pr_accepted_ns = accepted_ns,
               pr_published_ns = published_ns, pr_reason = reason, pr_result = res\<rparr> s;
         (end_ns, e) = steady_now e;
         (s, e) = (if abnormal reason then let (detected, e) = steady_now e in requestPairSafety kHwFault detected (s, e) else (s, e))
     in (if abnormal reason \<or> has_source kHwFault (ps_safety s) then ERROR else OK, s, e))"

definition on_error :: "PairSystem \<times> env \<Rightarrow> PairSystem \<times> env" where
  "on_error = (\<lambda>(s, e). if ps_mode s \<and> requested (ps_safety s)
     then let (now, e) = steady_now e
          in (s\<lparr>ps_safety := observeError now (ps_safety s), ps_notified := Suc (ps_notified s)\<rparr>, e)
     else (s, e))"

text \<open>What an activation resets for a group before it opens any bus: the safety request with a new epoch, the
  commit protocol with a new startup deadline, the generations, the claim, the terminal flag, and every command.\<close>

definition unset_command :: "StreamCommand \<Rightarrow> StreamCommand" where
  "unset_command c = c\<lparr>cm_position := NaN, cm_velocity := NaN, cm_kp := NaN, cm_kd := NaN, cm_effort := NaN\<rparr>"

definition activatePair :: "ns \<Rightarrow> ns \<Rightarrow> PairSystem \<Rightarrow> PairSystem" where
  "activatePair activation_ns timeout_ns s =
     (if \<not> ps_mode s then s
      else s\<lparr>ps_safety := reset_safety (gs_epoch (ps_safety s) + 1) (ps_axes s) (ps_safety s),
             ps_commit := reset activation_ns timeout_ns (ps_commit s), ps_generation := 0, ps_accepted := 0,
             ps_claimed := False, ps_terminal := False, ps_commands := map unset_command (ps_commands s)\<rparr>)"

section \<open>Calls of the framework\<close>

text \<open>The calls within one activation: the controller stores a generation and commands; the framework switches
  modes, writes, and reports errors. An activation is not among them: it starts all over.\<close>

datatype PairCall = Stage double "StreamCommand list" | Switch "string list" "string list" | Write ns | Error

fun pair_call :: "PairCall \<Rightarrow> PairSystem \<times> env \<Rightarrow> PairSystem \<times> env" where
  "pair_call (Stage g commands) (s, e) = (s\<lparr>ps_generation := g, ps_commands := commands\<rparr>, e)"
| "pair_call (Switch start stop) (s, e) = snd (perform_command_mode_switch start stop (s, e))"
| "pair_call (Write now) (s, e) = snd (writePair now (s, e))"
| "pair_call Error (s, e) = on_error (s, e)"

definition packet_values :: "PublishedCommand list \<Rightarrow> double list" where
  "packet_values packets = concat (map (\<lambda>p. let c = pc_command p
     in [cm_position c, cm_velocity c, cm_kp c, cm_kd c, cm_effort c]) packets)"

text \<open>The published batches as the commit protocol sees them.\<close>

definition batch_history :: "PairSystem \<Rightarrow> (nat \<times> double list) list" where
  "batch_history s = map (\<lambda>b. (unat (pc_sequence (hd b)), packet_values b)) (ps_batches s)"

definition commit_view :: "PairSystem \<Rightarrow> PairCommit \<times> (nat \<times> double list) list" where
  "commit_view s = (ps_commit s, batch_history s)"

text \<open>What the flag reads, requests and records leave alone.\<close>

definition pair_core :: "PairSystem \<Rightarrow> (PairCommit \<times> PublishedCommand list list) \<times> nat \<times> StreamCommand list \<times> double \<times> bool \<times> bool \<times> bool" where
  "pair_core s = ((ps_commit s, ps_batches s), ps_axes s, ps_commands s, ps_generation s, ps_mode s, ps_claimed s, ps_terminal s)"

lemma pair_core_view: "pair_core s' = pair_core s \<Longrightarrow> commit_view s' = commit_view s"
  by (simp add: pair_core_def commit_view_def batch_history_def)

lemma feedback_stopped_core: "feedback_stopped s = (b, s') \<Longrightarrow> pair_core s' = pair_core s"
  by (auto simp: feedback_stopped_def pair_core_def split: list.splits)

lemma feedback_stopped_sources:
  "feedback_stopped s = (b, s') \<Longrightarrow> gs_sources (ps_safety s') = gs_sources (ps_safety s) \<and> gs_epoch (ps_safety s') = gs_epoch (ps_safety s)"
  by (auto simp: feedback_stopped_def split: list.splits)

lemma requestPairSafety_core: "requestPairSafety src d (s, e) = (s', e') \<Longrightarrow> pair_core s' = pair_core s"
  by (auto simp: requestPairSafety_def pair_core_def split: prod.splits)

lemma add_record_core [simp]: "pair_core (add_record r s) = pair_core s" "ps_safety (add_record r s) = ps_safety s"
  by (simp_all add: add_record_def pair_core_def)

lemma prepare_core: "prepare_command_mode_switch start stop s = (r, s') \<Longrightarrow> pair_core s' = pair_core s"
  using feedback_stopped_core [of s]
  by (auto simp: prepare_command_mode_switch_def Let_def split: prod.splits if_splits)

text \<open>A verdict is an inspection at most; an accepted batch leaves the commit state as it was.\<close>

lemma judge_batch_spec:
  assumes "judge_batch claim vs now s = (r, s')"
  shows "s'\<lparr>ps_commit := ps_commit s, ps_safety := ps_safety s, ps_stop_reads := ps_stop_reads s\<rparr> = s"
    and "ps_commit s' = ps_commit s \<or> ps_commit s' = snd (inspect (ps_generation s) vs now (ps_commit s))"
    and "r = kAccepted \<Longrightarrow> inspect (ps_generation s) vs now (ps_commit s) = (kAccepted, ps_commit s) \<and> ps_commit s' = ps_commit s"
    and "gs_sources (ps_safety s') = gs_sources (ps_safety s) \<and> gs_epoch (ps_safety s') = gs_epoch (ps_safety s)"
    and "claim \<Longrightarrow> \<not> ps_claimed s \<Longrightarrow> r \<noteq> kAccepted"
proof -
  obtain b s1 where b: "feedback_stopped s = (b, s1)" by fastforce
  obtain x c where x: "inspect (ps_generation s1) vs now (ps_commit s1) = (x, c)" by fastforce
  obtain d s2 where d: "feedback_stopped (s1\<lparr>ps_commit := c\<rparr>) = (d, s2)" by fastforce
  have s1: "s1\<lparr>ps_safety := ps_safety s, ps_stop_reads := ps_stop_reads s\<rparr> = s"
    using b by (auto simp: feedback_stopped_def split: list.splits)
  have s2: "s2\<lparr>ps_safety := ps_safety s1, ps_stop_reads := ps_stop_reads s1\<rparr> = s1\<lparr>ps_commit := c\<rparr>"
    using d by (auto simp: feedback_stopped_def split: list.splits)
  have f1: "ps_commit s1 = ps_commit s" "ps_generation s1 = ps_generation s" "ps_claimed s1 = ps_claimed s"
    using feedback_stopped_core [OF b] by (auto simp: pair_core_def)
  have f2: "ps_commit s2 = c" using feedback_stopped_core [OF d] by (simp add: pair_core_def)
  have acc: "x = kAccepted \<Longrightarrow> c = ps_commit s" using inspect_keeps(7) [OF x] f1 by simp
  note eq = assms [unfolded judge_batch_def Let_def b prod.case x d]
  have cases: "(r, s') = (kFeedbackPending, s1) \<or> (r, s') = (kNotClaimed, s1) \<and> claim \<and> \<not> ps_claimed s \<or>
      (r, s') = (x, s1\<lparr>ps_commit := c\<rparr>) \<and> x \<noteq> kAccepted \<and> \<not> (claim \<and> \<not> ps_claimed s) \<or>
      (r, s') = (if d then kFeedbackPending else kAccepted, s2) \<and> x = kAccepted \<and> \<not> (claim \<and> \<not> ps_claimed s)"
    using eq f1(3) by (auto split: if_splits)
  have u: "s2\<lparr>ps_commit := ps_commit s, ps_safety := ps_safety s, ps_stop_reads := ps_stop_reads s\<rparr> = s"
  proof -
    have "s2\<lparr>ps_commit := ps_commit s, ps_safety := ps_safety s, ps_stop_reads := ps_stop_reads s\<rparr> =
      (s2\<lparr>ps_safety := ps_safety s1, ps_stop_reads := ps_stop_reads s1\<rparr>)\<lparr>ps_commit := ps_commit s, ps_safety := ps_safety s, ps_stop_reads := ps_stop_reads s\<rparr>"
      by simp
    also have "\<dots> = (s1\<lparr>ps_safety := ps_safety s, ps_stop_reads := ps_stop_reads s\<rparr>)\<lparr>ps_commit := ps_commit s\<rparr>"
      unfolding s2 by simp
    also have "\<dots> = s" unfolding s1 by simp
    finally show ?thesis .
  qed
  have u1: "s1\<lparr>ps_commit := ps_commit s, ps_safety := ps_safety s, ps_stop_reads := ps_stop_reads s\<rparr> = s"
  proof -
    have "s1\<lparr>ps_commit := ps_commit s, ps_safety := ps_safety s, ps_stop_reads := ps_stop_reads s\<rparr> =
      (s1\<lparr>ps_safety := ps_safety s, ps_stop_reads := ps_stop_reads s\<rparr>)\<lparr>ps_commit := ps_commit s\<rparr>" by simp
    also have "\<dots> = s" unfolding s1 by simp
    finally show ?thesis .
  qed
  show "s'\<lparr>ps_commit := ps_commit s, ps_safety := ps_safety s, ps_stop_reads := ps_stop_reads s\<rparr> = s"
    using cases u u1 by (elim disjE conjE) simp_all
  show "ps_commit s' = ps_commit s \<or> ps_commit s' = snd (inspect (ps_generation s) vs now (ps_commit s))"
    using cases f1 f2 x by auto
  show "r = kAccepted \<Longrightarrow> inspect (ps_generation s) vs now (ps_commit s) = (kAccepted, ps_commit s) \<and> ps_commit s' = ps_commit s"
    using cases f1 f2 x acc by (auto split: if_splits)
  show "gs_sources (ps_safety s') = gs_sources (ps_safety s) \<and> gs_epoch (ps_safety s') = gs_epoch (ps_safety s)"
    using cases feedback_stopped_sources [OF b] feedback_stopped_sources [OF d] by auto
  show "claim \<Longrightarrow> \<not> ps_claimed s \<Longrightarrow> r \<noteq> kAccepted" using cases by auto
qed

lemma judge_batch_fields:
  assumes "judge_batch claim vs now s = (r, s')"
  shows "ps_batches s' = ps_batches s" "ps_axes s' = ps_axes s" "ps_commands s' = ps_commands s"
    "ps_generation s' = ps_generation s" "ps_mode s' = ps_mode s" "ps_claimed s' = ps_claimed s" "ps_terminal s' = ps_terminal s"
  subgoal using arg_cong [OF judge_batch_spec(1) [OF assms], of ps_batches] by simp
  subgoal using arg_cong [OF judge_batch_spec(1) [OF assms], of ps_axes] by simp
  subgoal using arg_cong [OF judge_batch_spec(1) [OF assms], of ps_commands] by simp
  subgoal using arg_cong [OF judge_batch_spec(1) [OF assms], of ps_generation] by simp
  subgoal using arg_cong [OF judge_batch_spec(1) [OF assms], of ps_mode] by simp
  subgoal using arg_cong [OF judge_batch_spec(1) [OF assms], of ps_claimed] by simp
  subgoal using arg_cong [OF judge_batch_spec(1) [OF assms], of ps_terminal] by simp
  done

definition pair_frame :: "PairSystem \<Rightarrow> nat \<times> StreamCommand list \<times> double \<times> bool \<times> bool \<times> bool" where
  "pair_frame s = (ps_axes s, ps_commands s, ps_generation s, ps_mode s, ps_claimed s, ps_terminal s)"

lemma commit_batch_spec:
  assumes "commit_batch t s = (r, res, s')"
  shows "ps_batches s' = ps_batches s @ [make_packets s t]" and "pair_frame s' = pair_frame s" and "ps_safety s' = ps_safety s"
    and "ps_commit s' = (if r = kAccepted then accept (ps_generation s) (ps_commit s)
      else latch_commit (accept (ps_generation s) (ps_commit s)))" and "r = kAccepted \<or> r = kPublishFailed"
proof -
  let ?s = "s\<lparr>ps_commit := accept (ps_generation s) (ps_commit s)\<rparr>"
  let ?t = "?s\<lparr>ps_accepted := dint (uint (pc_last (ps_commit ?s)))\<rparr>"
  obtain x u where p: "publishPairBatch (make_packets ?t t) ?t = (x, u)" by fastforce
  have mp: "make_packets ?t t = make_packets s t" by (simp add: make_packets_def)
  have u: "ps_batches u = ps_batches s @ [make_packets s t]" "pair_frame u = pair_frame s" "ps_safety u = ps_safety s"
    "ps_commit u = accept (ps_generation s) (ps_commit s)"
    using p mp by (auto simp: publishPairBatch_def pair_frame_def split: list.splits)
  note eq = assms [unfolded commit_batch_def Let_def p prod.case]
  have "(r, res, s') = (kAccepted, x, u) \<or> (r, res, s') = (kPublishFailed, x, u\<lparr>ps_commit := latch_commit (ps_commit u)\<rparr>)"
    using eq by (auto split: if_splits)
  then show "ps_batches s' = ps_batches s @ [make_packets s t]" "pair_frame s' = pair_frame s" "ps_safety s' = ps_safety s"
    "ps_commit s' = (if r = kAccepted then accept (ps_generation s) (ps_commit s)
      else latch_commit (accept (ps_generation s) (ps_commit s)))" "r = kAccepted \<or> r = kPublishFailed"
    using u by (auto simp: pair_frame_def)
qed

lemma packet_values_staged: "packet_values (make_packets s t) = staged_values s"
  by (simp add: packet_values_def make_packets_def staged_values_def comp_def)

definition staged_ok :: "PairSystem \<Rightarrow> bool" where
  "staged_ok s \<longleftrightarrow> 0 < ps_axes s \<and> ps_axes s \<le> length (ps_commands s)"

lemma packets_hd: "staged_ok s \<Longrightarrow> pc_sequence (hd (make_packets s t)) = cast_word (ps_generation s)"
  by (cases "ps_commands s"; cases "ps_axes s") (auto simp: staged_ok_def make_packets_def)

text \<open>One write, seen through the commit protocol: an inspection, then either nothing, a second inspection, or a
  committed batch with a fault if publishing it failed.\<close>

lemma decide_write_spec:
  assumes "decide_write now (s, e) = ((r, res, a, p), s', e')"
  shows "staged_ok s \<Longrightarrow> unat (pc_last (ps_commit s)) \<le> 9007199254740991 \<Longrightarrow> \<exists>ks. commit_view s' = fold commit_call ks (commit_view s)"
    and "pair_frame s' = pair_frame s"
    and "gs_sources (ps_safety s') = gs_sources (ps_safety s) \<and> gs_epoch (ps_safety s') = gs_epoch (ps_safety s)"
    and "ps_batches s' = ps_batches s \<or> ps_claimed s \<and> (\<exists>t. ps_batches s' = ps_batches s @ [make_packets s t])"
proof -
  let ?v = "staged_values s"
  obtain r1 s1 where j1: "judge_batch True ?v now s = (r1, s1)" by fastforce
  obtain t e1 where t: "steady_now e = (t, e1)" by fastforce
  obtain r2 s2 where j2: "judge_batch False ?v t s1 = (r2, s2)" by fastforce
  obtain r3 x s3 where c: "commit_batch t s2 = (r3, x, s3)" using prod_cases3 by blast
  note f1 = judge_batch_fields [OF j1] and f2 = judge_batch_fields [OF j2] and sp1 = judge_batch_spec [OF j1]
    and sp2 = judge_batch_spec [OF j2] and cs = commit_batch_spec [OF c]
  note eq = assms [unfolded decide_write_def prod.case Let_def j1 t j2 c]
  have fr1: "pair_frame s1 = pair_frame s" and fr2: "pair_frame s2 = pair_frame s" using f1 f2 by (auto simp: pair_frame_def)
  have p1: "commit_view s1 = commit_view s \<or> commit_view s1 = commit_call (Peek (ps_generation s) ?v now) (commit_view s)"
    using sp1(2) f1(1) by (auto simp: commit_view_def batch_history_def)
  have p2: "commit_view s2 = commit_view s1 \<or> commit_view s2 = commit_call (Peek (ps_generation s) ?v t) (commit_view s1)"
    using sp2(2) f1(4) f2(1) by (auto simp: commit_view_def batch_history_def)
  have peek1: "\<exists>ks. commit_view s1 = fold commit_call ks (commit_view s)"
    using p1 by (metis fold_simps)
  have peek2: "\<exists>ks. commit_view s2 = fold commit_call ks (commit_view s)"
    using peek1 p2 by (metis fold_append fold_simps comp_apply)
  have cases: "r1 \<noteq> kAccepted \<and> s' = s1 \<or> r1 = kAccepted \<and> r2 \<noteq> kAccepted \<and> s' = s2 \<or>
      r1 = kAccepted \<and> r2 = kAccepted \<and> s' = s3" using eq by (auto split: if_splits)
  have view3: "\<exists>ks. commit_view s3 = fold commit_call ks (commit_view s)"
    if "r1 = kAccepted" "r2 = kAccepted" and ok: "staged_ok s" "unat (pc_last (ps_commit s)) \<le> 9007199254740991"
  proof -
    have cm: "ps_commit s1 = ps_commit s" "ps_commit s2 = ps_commit s" using sp1(3) sp2(3) that by auto
    have ins: "inspect (ps_generation s) ?v t (ps_commit s) = (kAccepted, ps_commit s)"
      using sp2(3) that(2) cm(1) f1(4) by simp
    from inspect_accepted [OF ins ok(2)] have g: "ps_generation s = Fin (of_nat (unat (pc_last (ps_commit s)) + 1))"
      "unat (pc_last (ps_commit s)) < 9007199254740991" by auto
    have seq: "unat (cast_word (ps_generation s) :: u64) = unat (pc_last (ps_commit s)) + 1"
      unfolding g(1) cast_generation using g(2) by (intro unat_generation) simp
    have eqs: "ps_generation s2 = ps_generation s" "ps_batches s2 = ps_batches s" "staged_values s2 = ?v" "staged_ok s2"
      using f1 f2 ok(1) by (auto simp: staged_values_def staged_ok_def)
    have h: "batch_history s3 = batch_history s @ [(unat (pc_last (ps_commit s)) + 1, ?v)]"
      unfolding batch_history_def cs(1) eqs(2) using eqs packets_hd [OF eqs(4)] seq
      by (simp add: packet_values_staged)
    let ?ks = "[Commit (ps_generation s) ?v t] @ (if r3 = kAccepted then [] else [Fault])"
    have "commit_view s3 = fold commit_call ?ks (commit_view s)"
      using ins h cs(4) cm eqs(1) by (simp add: commit_view_def)
    then show ?thesis by blast
  qed
  show "\<exists>ks. commit_view s' = fold commit_call ks (commit_view s)"
    if "staged_ok s" "unat (pc_last (ps_commit s)) \<le> 9007199254740991"
    using that cases peek1 peek2 view3 by blast
  show "pair_frame s' = pair_frame s" using cases fr1 fr2 cs(2) by auto
  show "gs_sources (ps_safety s') = gs_sources (ps_safety s) \<and> gs_epoch (ps_safety s') = gs_epoch (ps_safety s)"
    using cases sp1(4) sp2(4) cs(3) by auto
  have mk: "make_packets s2 t = make_packets s t" using f1 f2 by (simp add: make_packets_def)
  show "ps_batches s' = ps_batches s \<or> ps_claimed s \<and> (\<exists>t. ps_batches s' = ps_batches s @ [make_packets s t])"
    using cases sp1(5) f1(1) f2(1) cs(1) mk by auto
qed

text \<open>A fault request sets its bit, keeps the others, and never clears one.\<close>

lemma requestPairSafety_sources:
  assumes "requestPairSafety src d (s, e) = (s', e')"
  shows "gs_sources (ps_safety s') = gs_sources (ps_safety s) OR source_bits src" "gs_epoch (ps_safety s') = gs_epoch (ps_safety s)"
  using assms by (auto simp: requestPairSafety_def request_def split: prod.splits)

lemma has_source_or: "gs_sources g' = gs_sources g OR b \<Longrightarrow> has_source x g \<Longrightarrow> has_source x g'"
  by (simp add: has_source_def bit.conj_disj_distrib2 or_eq_0_iff)

lemma has_source_set: "gs_sources g' = gs_sources g OR source_bits x \<Longrightarrow> has_source x g'"
  by (cases x) (simp_all add: has_source_def bit.conj_disj_distrib2 or_eq_0_iff)

lemma writePair_spec:
  assumes "writePair now (s, e) = (ret, s', e')"
  shows "staged_ok s \<Longrightarrow> unat (pc_last (ps_commit s)) \<le> 9007199254740991 \<Longrightarrow> \<exists>ks. commit_view s' = fold commit_call ks (commit_view s)"
    and "pair_frame s' = pair_frame s"
    and "ps_batches s' = ps_batches s \<or> ps_claimed s \<and> (\<exists>t. ps_batches s' = ps_batches s @ [make_packets s t])"
    and "ret = ERROR \<longleftrightarrow> has_source kHwFault (ps_safety s')"
    and "has_source x (ps_safety s) \<Longrightarrow> has_source x (ps_safety s')"
proof -
  let ?s = "s\<lparr>ps_control_sequence := ps_control_sequence s + 1\<rparr>"
  obtain r res a p s1 e1 where d: "decide_write now (?s, e) = ((r, res, a, p), s1, e1)" by (metis prod.exhaust)
  obtain x e2 where x: "steady_now e1 = (x, e2)" by fastforce
  obtain y e3 where y: "steady_now e2 = (y, e3)" by fastforce
  define s2 where "s2 = add_record \<lparr>pr_cycle = ps_control_sequence s1, pr_previous = pc_last (ps_commit ?s), pr_accepted = pc_last (ps_commit s1),
      pr_received = ps_generation s1, pr_values = staged_values ?s, pr_inspected_ns = now, pr_accepted_ns = a,
      pr_published_ns = p, pr_reason = r, pr_result = res\<rparr> s1"
  obtain s3 e4 where q: "requestPairSafety kHwFault y (s2, e3) = (s3, e4)" by fastforce
  have eq: "(s', ret) = (if abnormal r then s3 else s2, if abnormal r \<or> has_source kHwFault (ps_safety s') then ERROR else OK)"
    using assms [unfolded writePair_def prod.case Let_def d x, folded s2_def, unfolded y q prod.case]
    by (auto split: if_splits)
  have c: "commit_view ?s = commit_view s" "pair_frame ?s = pair_frame s" "make_packets ?s = make_packets s" "staged_ok ?s = staged_ok s"
    by (auto simp: commit_view_def batch_history_def pair_frame_def make_packets_def staged_ok_def fun_eq_iff)
  note sp = decide_write_spec [OF d, unfolded c, simplified]
  have k2: "pair_core s2 = pair_core s1" "ps_safety s2 = ps_safety s1" unfolding s2_def by simp_all
  have k3: "pair_core s3 = pair_core s1" using requestPairSafety_core [OF q] k2 by simp
  have core: "pair_core s' = pair_core s1" using eq k2 k3 by (auto split: if_splits)
  show "\<exists>ks. commit_view s' = fold commit_call ks (commit_view s)"
    if "staged_ok s" "unat (pc_last (ps_commit s)) \<le> 9007199254740991"
    using sp(1) that pair_core_view [OF core] by simp
  show "pair_frame s' = pair_frame s" using sp(2) core by (simp add: pair_core_def pair_frame_def)
  show "ps_batches s' = ps_batches s \<or> ps_claimed s \<and> (\<exists>t. ps_batches s' = ps_batches s @ [make_packets s t])"
    using sp(4) core by (simp add: pair_core_def)
  have src: "gs_sources (ps_safety s1) = gs_sources (ps_safety s)" using sp(3) by simp
  note or3 = requestPairSafety_sources(1) [OF q]
  have hw: "has_source kHwFault (ps_safety s3)" by (rule has_source_set [OF or3])
  show "ret = ERROR \<longleftrightarrow> has_source kHwFault (ps_safety s')" using eq hw by (auto split: if_splits)
  show "has_source x (ps_safety s')" if "has_source x (ps_safety s)" for x
    using eq that has_source_or [OF or3] k2 src by (auto simp: has_source_def split: if_splits)
qed

text \<open>A mode switch that is granted claims the batch, or withdraws it for ever.\<close>

lemma switch_spec:
  assumes "perform_command_mode_switch start stop (s, e) = (r, s', e')"
  shows "\<exists>ks. commit_view s' = fold commit_call ks (commit_view s)" and "ps_batches s' = ps_batches s"
    and "(ps_axes s', ps_commands s') = (ps_axes s, ps_commands s)"
    and "has_source x (ps_safety s) \<Longrightarrow> has_source x (ps_safety s')"
    and "ps_mode s' = ps_mode s" and "ps_terminal s \<Longrightarrow> ps_terminal s'"
    and "ps_mode s \<Longrightarrow> ps_terminal s \<Longrightarrow> ps_claimed s' \<Longrightarrow> ps_claimed s"
    and "r = OK \<Longrightarrow> ps_mode s \<Longrightarrow> stop \<noteq> [] \<Longrightarrow> ps_terminal s' \<and> \<not> ps_claimed s' \<and> has_source kModeStop (ps_safety s')"
proof -
  obtain pr s1 where p: "prepare_command_mode_switch start stop s = (pr, s1)" by fastforce
  note pc = prepare_core [OF p, unfolded pair_core_def]
  obtain x e1 where x: "steady_now e = (x, e1)" by fastforce
  obtain y e2 where y: "steady_now e1 = (y, e2)" by fastforce
  let ?o = "s1\<lparr>ps_safety := (ps_safety s1)\<lparr>gs_mode_stop_observed_ns := x\<rparr>\<rparr>"
  obtain s2 e3 where q: "requestPairSafety kModeStop y (?o, e2) = (s2, e3)" by fastforce
  let ?t = "s2\<lparr>ps_claimed := False, ps_terminal := True, ps_commit := latch_commit (ps_commit s2)\<rparr>"
  note qc = requestPairSafety_core [OF q, unfolded pair_core_def]
  have or2: "gs_sources (ps_safety s2) = gs_sources (ps_safety s1) OR source_bits kModeStop"
    using requestPairSafety_sources(1) [OF q] by simp
  have src: "gs_sources (ps_safety s1) = gs_sources (ps_safety s)"
    using p feedback_stopped_sources [of s]
    by (auto simp: prepare_command_mode_switch_def Let_def split: prod.splits if_splits)
  have nostart: "pr = OK \<Longrightarrow> ps_mode s \<Longrightarrow> start \<noteq> [] \<Longrightarrow> stop = [] \<and> \<not> ps_terminal s"
  proof -
    obtain b t where b: "feedback_stopped s = (b, t)" by fastforce
    have f: "ps_terminal t = ps_terminal s" "ps_claimed t = ps_claimed s"
      using feedback_stopped_core [OF b] by (simp_all add: pair_core_def)
    assume "pr = OK" "ps_mode s" "start \<noteq> []"
    then show ?thesis using p [unfolded prepare_command_mode_switch_def Let_def b] f by (auto split: if_splits)
  qed
  have modes: "ps_mode s1 = ps_mode s" using pc by simp
  note eq = assms [unfolded perform_command_mode_switch_def prod.case Let_def p, unfolded prod.case x y q, unfolded prod.case x y q]
  have cases: "r = pr \<and> s' = s1 \<and> (pr \<noteq> OK \<or> \<not> ps_mode s \<or> start = [] \<and> stop = []) \<or>
      r = pr \<and> s' = ?t \<and> start = [] \<and> stop \<noteq> [] \<or> r = pr \<and> s' = s1\<lparr>ps_claimed := True\<rparr> \<and> stop = [] \<and> \<not> ps_terminal s \<and> ps_mode s"
    using eq nostart modes by (auto split: if_splits)
  show "\<exists>ks. commit_view s' = fold commit_call ks (commit_view s)"
    using cases
  proof (elim disjE conjE)
    assume "s' = ?t"
    then have "commit_view s' = fold commit_call [Fault] (commit_view s)"
      using pc qc by (simp add: commit_view_def batch_history_def)
    then show ?thesis by blast
  qed (use pc in \<open>auto simp: commit_view_def batch_history_def intro!: exI [of _ "[]"]\<close>)
  show "ps_batches s' = ps_batches s" "(ps_axes s', ps_commands s') = (ps_axes s, ps_commands s)" "ps_mode s' = ps_mode s"
    "ps_terminal s \<Longrightarrow> ps_terminal s'" "ps_mode s \<Longrightarrow> ps_terminal s \<Longrightarrow> ps_claimed s' \<Longrightarrow> ps_claimed s"
    using cases pc qc by (elim disjE conjE; simp)+
  show "has_source x (ps_safety s')" if "has_source x (ps_safety s)" for x
    using cases that has_source_or [OF or2, of x] src by (elim disjE conjE) (simp_all add: has_source_def)
  show "r = OK \<Longrightarrow> ps_mode s \<Longrightarrow> stop \<noteq> [] \<Longrightarrow> ps_terminal s' \<and> \<not> ps_claimed s' \<and> has_source kModeStop (ps_safety s')"
    using cases has_source_set [OF or2] by (elim disjE conjE) simp_all
qed

section \<open>Runs\<close>

definition uniform_batch :: "nat \<Rightarrow> PublishedCommand list \<Rightarrow> bool" where
  "uniform_batch n b \<longleftrightarrow> length b = n \<and> list_all (\<lambda>p. pc_sequence p = pc_sequence (hd b) \<and> pc_published_ns p = pc_published_ns (hd b)) b"

fun stages :: "nat \<Rightarrow> PairCall \<Rightarrow> bool" where
  "stages n (Stage g commands) \<longleftrightarrow> n \<le> length commands"
| "stages n _ \<longleftrightarrow> True"

definition pair_inv :: "Bounds \<Rightarrow> nat \<Rightarrow> nat \<Rightarrow> PairSystem \<Rightarrow> bool" where
  "pair_inv b k n s \<longleftrightarrow> 0 < n \<and> ps_axes s = n \<and> n \<le> length (ps_commands s) \<and> commit_inv b k (commit_view s) \<and>
     list_all (uniform_batch n) (ps_batches s)"

lemma uniform_packets: "staged_ok s \<Longrightarrow> uniform_batch (ps_axes s) (make_packets s t)"
  by (cases "ps_commands s"; cases "ps_axes s") (auto simp: staged_ok_def uniform_batch_def make_packets_def list_all_iff)

lemma pair_call_inv:
  assumes "pair_inv b k n s" and "stages n call" and "pair_call call (s, e) = (s', e')"
  shows "pair_inv b k n s'"
proof (cases call)
  case (Stage g cs)
  then show ?thesis using assms by (auto simp: pair_inv_def commit_view_def batch_history_def)
next
  case (Switch start stop)
  then obtain r where p: "perform_command_mode_switch start stop (s, e) = (r, s', e')"
    using assms(3) by (cases "perform_command_mode_switch start stop (s, e)") simp
  from switch_spec(1) [OF p] obtain ks where "commit_view s' = fold commit_call ks (commit_view s)" by blast
  then show ?thesis using assms(1) switch_spec(2,3) [OF p] commit_run_inv [of b k "commit_view s" ks]
    by (simp add: pair_inv_def)
next
  case (Write now)
  then obtain r where p: "writePair now (s, e) = (r, s', e')"
    using assms(3) by (cases "writePair now (s, e)") simp
  have ok: "staged_ok s" "unat (pc_last (ps_commit s)) \<le> 9007199254740991"
    using assms(1) by (simp_all add: pair_inv_def staged_ok_def commit_inv_def commit_view_def)
  from writePair_spec(1) [OF p ok] obtain ks where "commit_view s' = fold commit_call ks (commit_view s)" by blast
  then show ?thesis using assms(1) writePair_spec(2,3) [OF p] commit_run_inv [of b k "commit_view s" ks] uniform_packets [OF ok(1)]
    by (auto simp: pair_inv_def pair_frame_def)
next
  case Error
  then have "pair_core s' = pair_core s"
    using assms(3) by (auto simp: on_error_def pair_core_def split: prod.splits if_splits)
  then show ?thesis using assms(1) pair_core_view [of s' s] by (simp add: pair_inv_def pair_core_def)
qed

lemma pair_run_inv:
  assumes "pair_inv b k n s" and "list_all (stages n) calls" and "fold pair_call calls (s, e) = (s', e')"
  shows "pair_inv b k n s'"
  using assms
proof (induction calls arbitrary: s e)
  case (Cons x xs)
  obtain t f where t: "pair_call x (s, e) = (t, f)" by fastforce
  then show ?case using Cons.IH [of t f] Cons.prems pair_call_inv [OF Cons.prems(1) _ t] by simp
qed simp

text \<open>Property C6: from activation on, whatever the controller stages and in whatever order the
  framework switches modes, writes and reports errors, and however the stop latch and publication behave, the
  batches handed to the send threads carry the sequence numbers 1, 2, 3, ... up to the recorded generation, one
  number and one time stamp for all axes of a batch; all values are finite and inside the configured
  bounds, and the first batch has zero velocity, gains and torque.\<close>

theorem pair_batches_consecutive:
  assumes "ps_commit s = reset t0 timeout c" and "ps_batches s = []" and "0 < ps_axes s" and "ps_axes s \<le> length (ps_commands s)"
    and "list_all (stages (ps_axes s)) calls" and "fold pair_call calls (s, e) = (s', e')"
  shows "map fst (batch_history s') = [1..<Suc (unat (pc_last (ps_commit s')))] \<and>
    (\<forall>(g, vs) \<in> set (batch_history s'). bounded_values (pc_bounds c) (5 * pc_axes c) vs) \<and>
    (ps_batches s' = [] \<or> released_values (5 * pc_axes c) (packet_values (hd (ps_batches s')))) \<and>
    list_all (uniform_batch (ps_axes s)) (ps_batches s')"
proof -
  have "pair_inv (pc_bounds c) (pc_axes c) (ps_axes s) s"
    using assms by (simp add: pair_inv_def commit_view_def commit_inv_def reset_def batch_history_def)
  from pair_run_inv [OF this assms(5,6)] have i: "commit_inv (pc_bounds c) (pc_axes c) (commit_view s')"
    "list_all (uniform_batch (ps_axes s)) (ps_batches s')" by (simp_all add: pair_inv_def)
  have "ps_batches s' \<noteq> [] \<Longrightarrow> packet_values (hd (ps_batches s')) = snd (hd (batch_history s')) \<and> batch_history s' \<noteq> []"
    by (cases "ps_batches s'") (simp_all add: batch_history_def)
  moreover have "batch_history s' = [] \<or> released_values (5 * pc_axes c) (snd (hd (batch_history s')))"
    using i(1) by (simp add: commit_inv_def commit_view_def)
  ultimately have "ps_batches s' = [] \<or> released_values (5 * pc_axes c) (packet_values (hd (ps_batches s')))" by metis
  then show ?thesis using i by (simp add: commit_inv_def commit_view_def list_all_iff)
qed

interpretation pair_latch: quiet_latch pair_call
  "\<lambda>(s, e). ps_mode s \<and> ps_terminal s \<and> \<not> ps_claimed s" "\<lambda>(s, e). ps_batches s" "\<lambda>_. False"
proof -
  have *: "ps_mode s' \<and> ps_terminal s' \<and> \<not> ps_claimed s' \<and> ps_batches s' = ps_batches s"
    if l: "ps_mode s" "ps_terminal s" "\<not> ps_claimed s" and k: "pair_call k (s, e) = (s', e')" for k s e s' e'
  proof (cases k)
    case (Switch start stop)
    then obtain r where p: "perform_command_mode_switch start stop (s, e) = (r, s', e')"
      using k by (cases "perform_command_mode_switch start stop (s, e)") simp
    then show ?thesis using l switch_spec(2,5,6,7) [OF p] by blast
  next
    case (Write now)
    then obtain r where p: "writePair now (s, e) = (r, s', e')" using k by (cases "writePair now (s, e)") simp
    then show ?thesis using l writePair_spec(2,3) [OF p] by (simp add: pair_frame_def)
  qed (use l k in \<open>auto simp: on_error_def split: prod.splits if_splits\<close>)
  show "quiet_latch pair_call (\<lambda>(s, e). ps_mode s \<and> ps_terminal s \<and> \<not> ps_claimed s) (\<lambda>(s, e). ps_batches s) (\<lambda>_. False)"
  proof (unfold_locales, goal_cases)
    case (1 s k)
    then show ?case using * [of "fst s" k "snd s"] by (cases s; cases "pair_call k s") simp
  next
    case (2 s k)
    then show ?case using * [of "fst s" k "snd s"] by (cases s; cases "pair_call k s") (simp add: exI [of _ "[]"])
  qed
qed

text \<open>Property C26: once the framework withdrew the group's interfaces, no batch is published any
  more, whatever calls follow within the activation, and every later request for the interfaces is refused; what
  lifts this is the next activation, after which a complete request is granted again unless the send thread has
  stopped for stale feedback.\<close>

theorem pair_stop_is_terminal:
  assumes "ps_mode s" and "stop \<noteq> []" and "perform_command_mode_switch start stop (s, e) = (OK, s1, e1)"
    and "fold pair_call calls (s1, e1) = (s2, e2)"
  shows "ps_batches s2 = ps_batches s \<and> \<not> ps_claimed s2 \<and>
    (\<forall>req. req \<noteq> [] \<longrightarrow> fst (prepare_command_mode_switch req [] s2) = ERROR) \<and>
    (\<forall>req t w. complete req (ps_keys s2) \<and> ps_stop_reads s2 = [] \<longrightarrow>
       fst (prepare_command_mode_switch req [] (activatePair t w s2)) = OK)"
proof -
  have l: "ps_mode s1 \<and> ps_terminal s1 \<and> \<not> ps_claimed s1" and b: "ps_batches s1 = ps_batches s"
    using switch_spec(2,5,8) [OF assms(3)] assms(1,2) by auto
  have "ps_mode s2 \<and> ps_terminal s2 \<and> \<not> ps_claimed s2" "ps_batches s2 = ps_batches s1"
    using pair_latch.latched_run [of "(s1, e1)" calls] pair_latch.output_run [of "(s1, e1)" calls] l assms(4)
    by (auto simp: list_all_False)
  with b show ?thesis
    by (simp add: prepare_command_mode_switch_def activatePair_def complete_def feedback_stopped_def reset_safety_def)
qed

definition sample_pair :: PairSystem where
  "sample_pair = \<lparr>ps_mode = True, ps_claimed = True, ps_terminal = False, ps_generation = 0, ps_accepted = 0,
     ps_commit = reset 0 100 open_commit, ps_safety = sample_safety, ps_keys = [''pair/commit_generation''], ps_axes = 2,
     ps_commands = replicate 2 default_StreamCommand, ps_control_sequence = 0, ps_records = [], ps_record_capacity = 4,
     ps_record_count = 0, ps_notified = 0, ps_stop_reads = [], ps_publish_results = [kSnapshotPublished], ps_batches = []\<rparr>"

lemma sample_pair_fields [simp]:
  "ps_mode sample_pair" "ps_claimed sample_pair" "ps_commit sample_pair = reset 0 100 open_commit" "ps_axes sample_pair = 2"
  "ps_batches sample_pair = []" "ps_stop_reads sample_pair = []" "ps_commands sample_pair = replicate 2 default_StreamCommand"
  "ps_publish_results sample_pair = [kSnapshotPublished]" "\<not> gs_feedback_stopped (ps_safety sample_pair)"
  "ps_keys sample_pair = [''pair/commit_generation'']" "\<not> ps_terminal sample_pair"
  by (simp_all add: sample_pair_def sample_safety_def reset_safety_def)

definition sample_calls :: "PairCall list" where
  "sample_calls = [Stage (Fin 1) (replicate 2 default_StreamCommand), Write 5]"

lemma sample_inspect:
  "inspect (Fin 1) (replicate 10 (Fin 0)) 5 (reset 0 100 open_commit) = (kAccepted, reset 0 100 open_commit)"
  "inspect (Fin 1) (replicate 10 (Fin 0)) 0 (reset 0 100 open_commit) = (kAccepted, reset 0 100 open_commit)"
proof -
  have "list_all (\<lambda>i. replicate 10 (Fin 0) ! i = (Fin 0 :: double) \<and> replicate 15 (Fin (- 1)) ! i = (Fin (- 1) :: double) \<and>
      replicate 15 (Fin 1) ! i = (Fin 1 :: double)) [0..<10]"
    by (simp add: list_all_iff)
  then have "batch_in_bounds (reset 0 100 open_commit) (replicate 10 (Fin 0))"
    "batch_released (reset 0 100 open_commit) (replicate 10 (Fin 0))"
    by (auto simp: batch_in_bounds_def batch_released_def list_all_iff valueCount_def kFieldsPerAxis_def
        open_commit_def set_bounds_def reset_def default_PairCommit_def)
  then show "inspect (Fin 1) (replicate 10 (Fin 0)) 5 (reset 0 100 open_commit) = (kAccepted, reset 0 100 open_commit)"
    "inspect (Fin 1) (replicate 10 (Fin 0)) 0 (reset 0 100 open_commit) = (kAccepted, reset 0 100 open_commit)"
    by (simp_all add: inspect_eval)
qed

lemma sample_published_batch:
  "length (ps_batches (fst (fold pair_call sample_calls (sample_pair, silent_env)))) = 1"
proof -
  define z where "z = sample_pair\<lparr>ps_generation := Fin 1, ps_commands := replicate 2 default_StreamCommand\<rparr>"
  let ?s = "z\<lparr>ps_control_sequence := ps_control_sequence z + 1\<rparr>"
  have z: "ps_claimed z" "ps_commit z = reset 0 100 open_commit" "ps_axes z = 2" "ps_batches z = []" "ps_stop_reads z = []"
    "ps_generation z = Fin 1" "ps_commands z = replicate 2 default_StreamCommand" "\<not> gs_feedback_stopped (ps_safety z)"
    by (simp_all add: z_def)
  have v: "staged_values ?s = replicate 10 (Fin 0)"
    using z by (simp add: staged_values_def default_StreamCommand_def zero_double_def numeral_2_eq_2 eval_nat_numeral)
  have j: "judge_batch b (replicate 10 (Fin 0)) t ?s = (kAccepted, ?s)" if "t = 5 \<or> t = 0" for b t
    using that sample_inspect z by (auto simp: judge_batch_def feedback_stopped_def)
  obtain r res s' where c: "commit_batch 0 ?s = (r, res, s')" using prod_cases3 by blast
  have d: "decide_write 5 (?s, silent_env) = ((r, res, 0, 0), s', silent_env)"
    using c by (simp add: decide_write_def v j steady_now_def silent_env_def)
  obtain x t f where w: "writePair 5 (z, silent_env) = (x, t, f)" using prod_cases3 by blast
  have "ps_batches t = ps_batches s'"
    using w [unfolded writePair_def prod.case Let_def d, simplified]
    by (auto simp: requestPairSafety_def add_record_def split: prod.splits if_splits)
  then have "length (ps_batches t) = 1" using commit_batch_spec(1) [OF c] z by simp
  then show ?thesis using w by (simp add: sample_calls_def z_def)
qed

theorem pair_batches_consecutive_witness:
  "let s' = fst (fold pair_call sample_calls (sample_pair, silent_env))
   in length (ps_batches s') = 1 \<and> list_all (uniform_batch 2) (ps_batches s') \<and> 
      map fst (batch_history s') = [1..<Suc (unat (pc_last (ps_commit s')))]"
proof -
  obtain s' e' where f: "fold pair_call sample_calls (sample_pair, silent_env) = (s', e')" by fastforce
  have "list_all (stages (ps_axes sample_pair)) sample_calls" by (simp add: sample_calls_def)
  from pair_batches_consecutive [OF sample_pair_fields(3,5) _ _ this f] show ?thesis
    using sample_published_batch f by simp
qed

lemma sample_stop:
  obtains s1 e1 where "perform_command_mode_switch [] [''pair/commit_generation''] (sample_pair, silent_env) = (OK, s1, e1)"
proof -
  have "fst (perform_command_mode_switch [] [''pair/commit_generation''] (sample_pair, silent_env)) = OK"
    by (simp add: perform_command_mode_switch_def prepare_command_mode_switch_def complete_def split: prod.splits)
  then show ?thesis using that by (cases "perform_command_mode_switch [] [''pair/commit_generation''] (sample_pair, silent_env)") auto
qed

theorem pair_stop_is_terminal_witness:
  "\<exists>s1 e1 s2 e2. perform_command_mode_switch [] [''pair/commit_generation''] (sample_pair, silent_env) = (OK, s1, e1) \<and>
     fold pair_call sample_calls (s1, e1) = (s2, e2) \<and> ps_batches s2 = [] \<and> fst (prepare_command_mode_switch [''x''] [] s2) = ERROR"
proof -
  obtain s1 e1 where p: "perform_command_mode_switch [] [''pair/commit_generation''] (sample_pair, silent_env) = (OK, s1, e1)"
    by (rule sample_stop)
  obtain s2 e2 where f: "fold pair_call sample_calls (s1, e1) = (s2, e2)" by fastforce
  from pair_stop_is_terminal [OF sample_pair_fields(1) _ p f] p f show ?thesis by auto
qed

text \<open>Property C27: a write reports an error exactly if a hardware fault is registered once it
  returns, and a registered safety source is never withdrawn by later calls within the activation.\<close>

theorem pair_write_error_exact:
  assumes "writePair now (s, e) = (ret, s1, e1)" and "fold pair_call calls (s1, e1) = (s2, e2)"
  shows "(ret = ERROR \<longleftrightarrow> has_source kHwFault (ps_safety s1)) \<and>
    (has_source x (ps_safety s1) \<longrightarrow> has_source x (ps_safety s2))"
proof -
  have step: "has_source x (ps_safety s')" if h: "has_source x (ps_safety s)" and k: "pair_call k (s, e) = (s', e')" for k s e s' e'
  proof (cases k)
    case (Switch start stop)
    then obtain r where "perform_command_mode_switch start stop (s, e) = (r, s', e')"
      using k by (cases "perform_command_mode_switch start stop (s, e)") simp
    then show ?thesis using h switch_spec(4) by blast
  next
    case (Write now)
    then obtain r where "writePair now (s, e) = (r, s', e')" using k by (cases "writePair now (s, e)") simp
    then show ?thesis using h writePair_spec(5) by blast
  qed (use h k in \<open>auto simp: on_error_def observeError_def has_source_def split: prod.splits if_splits\<close>)
  have "has_source x (ps_safety s1) \<Longrightarrow> has_source x (ps_safety s2)"
    using assms(2)
  proof (induction calls arbitrary: s1 e1)
    case (Cons k ks)
    then show ?case using step by (cases "pair_call k (s1, e1)") fastforce
  qed simp
  with writePair_spec(4) [OF assms(1)] show ?thesis by blast
qed

theorem pair_write_error_exact_witness:
  "\<exists>ret s1 e1. writePair 200 (sample_pair, silent_env) = (ret, s1, e1) \<and>
     (ret = ERROR \<longleftrightarrow> has_source kHwFault (ps_safety s1))"
proof -
  obtain ret s1 e1 where w: "writePair 200 (sample_pair, silent_env) = (ret, s1, e1)" using prod_cases3 by blast
  from pair_write_error_exact [OF w, of "[]"] w show ?thesis by auto
qed

end
