(* ===== verification/Pair_Mock.thy ===== *)
theory Pair_Mock
  imports Pair_System
begin

text \<open>
  The test double of the group hardware (\<^verbatim>\<open>src/bxi_pair_mock_system.cpp\<close>): it keeps the contract of the
  commit protocol without a bus. Modelled are its initialisation from the hardware description, activation,
  exported interfaces, mode switches, read and write. Text parsing (\<^verbatim>\<open>std::stod\<close>,
  \<^verbatim>\<open>std::stoull\<close>) is a parameter; the CSV writer is not modelled. The two error
  triggers and the rejection trigger are counters that other threads may set: they are inputs of the calls.
\<close>

section \<open>State\<close>

record MockRow =
  mr_cycle :: u64
  mr_received :: double
  mr_accepted :: double
  mr_result :: int
  mr_values :: "double list"

record Mock =
  mk_axes :: nat
  mk_gpio :: string
  mk_directory :: string
  mk_keys :: "string list"
  mk_commands :: "double list"
  mk_lower :: "double list"
  mk_upper :: "double list"
  mk_states :: "double list"
  mk_generation :: double
  mk_accepted :: double
  mk_reads :: u64
  mk_writes :: u64
  mk_claimed :: bool
  mk_records :: "MockRow list"
  mk_record_capacity :: nat

record MockTriggers =
  mt_read_error_at :: u64
  mt_write_error_at :: u64
  mt_reject_at :: u64

definition new_Mock :: Mock where
  "new_Mock = \<lparr>mk_axes = 0, mk_gpio = [], mk_directory = [], mk_keys = [], mk_commands = replicate 15 0, mk_lower = replicate 15 0,
     mk_upper = replicate 15 0, mk_states = replicate 12 0, mk_generation = 0, mk_accepted = 0, mk_reads = 0, mk_writes = 0,
     mk_claimed = False, mk_records = [], mk_record_capacity = 0\<rparr>"

section \<open>Initialisation\<close>

definition state_fields :: "string list" where
  "state_fields = [''position'', ''velocity'', ''effort'', ''temperature'']"

definition mock_gpio_ok :: "ComponentInfo \<Rightarrow> bool" where
  "mock_gpio_ok g \<longleftrightarrow> (case (ci_command_interfaces g, ci_state_interfaces g) of
     ([c], [s]) \<Rightarrow> ii_name c = ''commit_generation'' \<and> ii_name s = ''accepted_generation'' | _ \<Rightarrow> False)"

text \<open>One command field and one state field of a joint; a text that does not parse raises, which fails the
  initialisation. Trailing text after a number is accepted.\<close>

definition mock_command :: "stod \<Rightarrow> ComponentInfo \<Rightarrow> nat \<Rightarrow> (double \<times> double) option" where
  "mock_command parse joint f =
     do { i \<leftarrow> find (\<lambda>i. ii_name i = command_fields ! f) (ci_command_interfaces joint);
          if ii_data_type i \<noteq> ''double'' then None else do {
          lo \<leftarrow> parse (ii_min i);
          hi \<leftarrow> parse (ii_max i);
          if \<not> isfinite (fst lo) \<or> \<not> isfinite (fst hi) \<or> fst hi < fst lo \<or> (f \<noteq> 0 \<and> (dlit 0 < fst lo \<or> fst hi < dlit 0))
          then None else Some (fst lo, fst hi)}}"

definition mock_state :: "stod \<Rightarrow> ComponentInfo \<Rightarrow> nat \<Rightarrow> double option" where
  "mock_state parse joint f =
     do { i \<leftarrow> find (\<lambda>i. ii_name i = state_fields ! f) (ci_state_interfaces joint);
          if ii_data_type i \<noteq> ''double'' then None
          else if ii_initial_value i = [] then Some (if f = 3 then dlit 25 else dlit 0)
          else map_option fst (parse (ii_initial_value i))}"

definition mock_joint :: "stod \<Rightarrow> ComponentInfo \<Rightarrow> ((double \<times> double) list \<times> double list) option" where
  "mock_joint parse joint =
     (if length (ci_command_interfaces joint) \<noteq> 5 \<or> length (ci_state_interfaces joint) \<noteq> 4 then None
      else do { bs \<leftarrow> those (map (mock_command parse joint) [0..<5]);
                st \<leftarrow> those (map (mock_state parse joint) [0..<4]);
                Some (bs, st) })"

text \<open>\<open>parameters\<close> are the hardware parameters by name and \<open>base_ok\<close> the result of the base class; the triggers keep their values when a text is empty.\<close>

definition mock_trigger :: "(string \<Rightarrow> u64 option) \<Rightarrow> (string \<rightharpoonup> string) \<Rightarrow> string \<Rightarrow> u64 \<Rightarrow> u64 option" where
  "mock_trigger stoull parameters key old =
     (case parameters key of None \<Rightarrow> Some old | Some text \<Rightarrow> if text = [] then Some old else stoull text)"

definition mock_on_init ::
  "bool \<Rightarrow> stod \<Rightarrow> (string \<Rightarrow> u64 option) \<Rightarrow> ComponentInfo list \<Rightarrow> ComponentInfo list \<Rightarrow> (string \<rightharpoonup> string) \<Rightarrow>
   MockTriggers \<Rightarrow> Mock \<Rightarrow> (Mock \<times> MockTriggers) option" where
  "mock_on_init base_ok parse stoull joints gpios parameters t m =
     (if \<not> base_ok \<or> length joints < 2 \<or> 3 < length joints \<or> length gpios \<noteq> 1 \<or> \<not> mock_gpio_ok (hd gpios) \<or>
         \<not> distinct (map ci_name joints) then None
      else do {
        axes \<leftarrow> those (map (mock_joint parse) joints);
        r \<leftarrow> mock_trigger stoull parameters ''read_error_at'' (mt_read_error_at t);
        w \<leftarrow> mock_trigger stoull parameters ''write_error_at'' (mt_write_error_at t);
        j \<leftarrow> mock_trigger stoull parameters ''reject_at'' (mt_reject_at t);
        Some (let bounds = concat (map fst axes); states = concat (map snd axes); n = length bounds; k = length states in
             (m\<lparr>mk_axes := length joints, mk_gpio := ci_name (hd gpios),
                mk_commands := replicate kMaxValues NaN,
                mk_lower := map fst bounds @ drop n (mk_lower m), mk_upper := map snd bounds @ drop n (mk_upper m),
                mk_states := states @ drop k (mk_states m),
                mk_keys := mk_keys m @ concat (map (\<lambda>j. map (\<lambda>f. ci_name j @ ''/'' @ f) command_fields) joints) @
                  [ci_name (hd gpios) @ ''/commit_generation''],
                mk_directory := (case parameters ''output_dir'' of None \<Rightarrow> [] | Some d \<Rightarrow> d),
                mk_record_capacity := 120000\<rparr>,
              \<lparr>mt_read_error_at = r, mt_write_error_at = w, mt_reject_at = j\<rparr>)) })"

definition mock_on_activate :: "Mock \<Rightarrow> bool" where
  "mock_on_activate m \<longleftrightarrow> deq (mk_accepted m) 0 \<and>
     list_all (\<lambda>a. let p = mk_states m ! (4 * a) in isfinite p \<and> \<not> p < mk_lower m ! (5 * a) \<and> \<not> mk_upper m ! (5 * a) < p)
       [0..<mk_axes m]"

section \<open>Exported interfaces\<close>

text \<open>An exported handle is the name of an interface and the storage it refers to.\<close>

datatype Cell = CommandCell nat | StateCell nat | GenerationCell | AcceptedCell

definition export_command_interfaces :: "string list \<Rightarrow> Mock \<Rightarrow> (string \<times> Cell) list" where
  "export_command_interfaces joints m =
     concat (map (\<lambda>a. map (\<lambda>f. (joints ! a @ ''/'' @ command_fields ! f, CommandCell (5 * a + f))) [0..<5]) [0..<mk_axes m]) @
     [(mk_gpio m @ ''/commit_generation'', GenerationCell)]"

definition export_state_interfaces :: "string list \<Rightarrow> Mock \<Rightarrow> (string \<times> Cell) list" where
  "export_state_interfaces joints m =
     concat (map (\<lambda>a. map (\<lambda>f. (joints ! a @ ''/'' @ state_fields ! f, StateCell (4 * a + f))) [0..<4]) [0..<mk_axes m]) @
     [(mk_gpio m @ ''/accepted_generation'', AcceptedCell)]"

definition write_cell :: "Cell \<Rightarrow> double \<Rightarrow> Mock \<Rightarrow> Mock" where
  "write_cell c v m = (case c of CommandCell i \<Rightarrow> m\<lparr>mk_commands := (mk_commands m)[i := v]\<rparr>
     | GenerationCell \<Rightarrow> m\<lparr>mk_generation := v\<rparr> | StateCell i \<Rightarrow> m | AcceptedCell \<Rightarrow> m)"

definition read_cell :: "Cell \<Rightarrow> Mock \<Rightarrow> double" where
  "read_cell c m = (case c of CommandCell i \<Rightarrow> mk_commands m ! i | GenerationCell \<Rightarrow> mk_generation m
     | StateCell i \<Rightarrow> mk_states m ! i | AcceptedCell \<Rightarrow> mk_accepted m)"

section \<open>Mode switches, read and write\<close>

definition mock_prepare :: "string list \<Rightarrow> string list \<Rightarrow> Mock \<Rightarrow> return_type" where
  "mock_prepare start stop m =
     (if complete start (mk_keys m) \<and> complete stop (mk_keys m) \<and> (start = [] \<or> stop = []) then OK else ERROR)"

definition mock_perform :: "string list \<Rightarrow> string list \<Rightarrow> Mock \<Rightarrow> return_type \<times> Mock" where
  "mock_perform start stop m =
     (if mock_prepare start stop m \<noteq> OK then (mock_prepare start stop m, m)
      else let m = (if start \<noteq> [] then m\<lparr>mk_claimed := True\<rparr> else m);
               m = (if stop \<noteq> [] then m\<lparr>mk_claimed := False\<rparr> else m)
           in (OK, m))"

definition mock_read :: "MockTriggers \<Rightarrow> Mock \<Rightarrow> return_type \<times> Mock" where
  "mock_read t m = (let m = m\<lparr>mk_reads := mk_reads m + 1\<rparr>
     in (if mt_read_error_at t \<noteq> 0 \<and> mt_read_error_at t \<le> mk_reads m then ERROR else OK, m))"

definition mock_finish :: "double \<Rightarrow> double list \<Rightarrow> int \<Rightarrow> return_type \<Rightarrow> Mock \<Rightarrow> return_type \<times> Mock" where
  "mock_finish received values res ret m =
     (ret, m\<lparr>mk_records := (if length (mk_records m) < mk_record_capacity m
        then mk_records m @ [\<lparr>mr_cycle = mk_writes m, mr_received = received, mr_accepted = mk_accepted m, mr_result = res, mr_values = values\<rparr>]
        else mk_records m)\<rparr>)"

definition mock_generation_ok :: "Mock \<Rightarrow> bool" where
  "mock_generation_ok m \<longleftrightarrow> (let g = mk_generation m
     in isfinite g \<and> \<not> g < dlit 1 \<and> \<not> dint (uint kMaxGeneration) < g \<and> deq (dfloor g) g \<and> deq g (mk_accepted m + dlit 1))"

definition mock_values_ok :: "Mock \<Rightarrow> bool" where
  "mock_values_ok m \<longleftrightarrow> list_all (\<lambda>k. let v = mk_commands m ! k
     in isfinite v \<and> \<not> v < mk_lower m ! k \<and> \<not> mk_upper m ! k < v \<and>
        \<not> (deq (mk_accepted m) 0 \<and> k mod 5 \<noteq> 0 \<and> \<not> deq v 0)) [0..<5 * mk_axes m]"

definition mock_follow :: "nat \<Rightarrow> Mock \<Rightarrow> Mock" where
  "mock_follow a m = m\<lparr>mk_states := ((mk_states m)[4 * a := mk_commands m ! (5 * a)])
     [4 * a + 1 := mk_commands m ! (5 * a + 1), 4 * a + 2 := mk_commands m ! (5 * a + 4)]\<rparr>"

definition mock_write :: "MockTriggers \<Rightarrow> Mock \<Rightarrow> return_type \<times> Mock" where
  "mock_write t m =
     (let m = m\<lparr>mk_writes := mk_writes m + 1\<rparr>; fin = mock_finish (mk_generation m) (mk_commands m)
      in if mt_write_error_at t \<noteq> 0 \<and> mt_write_error_at t \<le> mk_writes m then fin 3 ERROR m
      else if \<not> mk_claimed m \<or> deq (mk_generation m) (mk_accepted m) then fin 0 OK m
      else if mt_reject_at t \<noteq> 0 \<and> mt_reject_at t \<le> mk_writes m then fin 2 OK m
      else if \<not> mock_generation_ok m then fin 4 ERROR m
      else if \<not> mock_values_ok m then fin 5 ERROR m
      else let m = m\<lparr>mk_accepted := mk_generation m\<rparr>; m = fold mock_follow [0..<mk_axes m] m
      in fin 1 OK m)"

section \<open>Agreement with the commit protocol\<close>

lemma mock_follow_fields [simp]:
  "mk_accepted (fold mock_follow as m) = mk_accepted m" "mk_commands (fold mock_follow as m) = mk_commands m"
  by (induction as arbitrary: m) (simp_all add: mock_follow_def)

lemma mock_finish_fields [simp]:
  "fst (mock_finish g vs res ret m) = ret" "mk_accepted (snd (mock_finish g vs res ret m)) = mk_accepted m"
  by (simp_all add: mock_finish_def)

lemma mock_accepted_next:
  assumes "l \<le> 9007199254740991"
  shows "Fin (of_nat l) + dlit 1 = Fin (of_nat (l + 1))"
proof -
  have "rnd (of_int (int l + 1)) = Fin (of_int (int l + 1))" using assms by (intro rnd_of_int) simp
  then show ?thesis by (simp add: add.commute)
qed

lemma mock_generation_ok_iff:
  assumes "mk_accepted m = Fin (of_nat l)" and "l \<le> 9007199254740991"
  shows "mock_generation_ok m \<longleftrightarrow> mk_generation m = Fin (of_nat (l + 1)) \<and> l < 9007199254740991"
proof -
  have k: "dint (uint kMaxGeneration) = Fin 9007199254740991"
    using dint_Fin [of 9007199254740991] by (simp add: kMaxGeneration_def)
  have le: "(of_nat (l + 1) :: rat) \<le> 9007199254740991 \<longleftrightarrow> l < 9007199254740991"
    using of_nat_le_iff [where 'a = rat, of "l + 1" 9007199254740991] by (simp add: less_eq_Suc_le)
  show ?thesis
    using mock_accepted_next [OF assms(2)] le
    by (auto simp: mock_generation_ok_def Let_def assms(1) k deq_iff not_less)
qed

lemma mock_values_ok_iff:
  assumes "mk_accepted m = Fin (of_nat l)" and "pc_axes c = mk_axes m"
    and "pc_bounds c = \<lparr>bo_lower = mk_lower m, bo_upper = mk_upper m\<rparr>"
  shows "mock_values_ok m \<longleftrightarrow> batch_in_bounds c (mk_commands m) \<and> (l = 0 \<longrightarrow> batch_released c (mk_commands m))"
  using assms by (auto simp: mock_values_ok_def batch_in_bounds_def batch_released_def valueCount_def kFieldsPerAxis_def
      list_all_iff Let_def zero_double_def mult.commute)

lemma inspect_idle:
  assumes "inspect g vs now c = (r, c')" and "\<not> pc_expired c" and "\<not> (pc_last c = 0 \<and> pc_deadline c \<le> now)"
  shows "r \<in> {kBootWait, kUnchanged} \<longleftrightarrow> generation_valid g \<and> cast_word g = pc_last c"
  using assms by (auto simp: inspect_def Let_def split: if_splits)

text \<open>Property C28: the test double decides like the commit protocol of the real interface as long
  as the protocol has no fault latched, has not expired and, while it still waits for the first batch, is before its
  startup deadline: a claimed write with no injected error adopts exactly the batches that \<open>inspect\<close> accepts, and
  reports an error exactly if \<open>inspect\<close> neither accepts nor waits. (The double has neither latch nor deadline, so
  after a fault the two differ.)\<close>

theorem mock_agrees_with_commit:
  assumes "mk_claimed m" and "mt_write_error_at t = 0" and "mt_reject_at t = 0"
    and "mk_accepted m = Fin (of_nat (unat (pc_last c)))" and "unat (pc_last c) \<le> unat kMaxGeneration"
    and "pc_axes c = mk_axes m" and "pc_bounds c = \<lparr>bo_lower = mk_lower m, bo_upper = mk_upper m\<rparr>"
    and "\<not> pc_latched c" and "\<not> pc_expired c" and "pc_last c = 0 \<longrightarrow> now < pc_deadline c"
    and "inspect (mk_generation m) (mk_commands m) now c = (r, c')" and "mock_write t m = (ret, m')"
  shows "mk_accepted m' = (if r = kAccepted then mk_generation m else mk_accepted m) \<and>
    (ret = ERROR \<longleftrightarrow> r \<notin> {kAccepted, kBootWait, kUnchanged})"
proof -
  define l where "l = unat (pc_last c)"
  let ?w = "m\<lparr>mk_writes := mk_writes m + 1\<rparr>"
  have l: "mk_accepted ?w = Fin (of_nat l)" "l \<le> 9007199254740991" "pc_last c = of_nat l"
    using assms(4,5) by (simp_all add: l_def kMaxGeneration_def)
  have live: "\<not> (pc_last c = 0 \<and> pc_deadline c \<le> now)" using assms(10) by auto
  have l0: "pc_last c = 0 \<longleftrightarrow> l = 0" by (simp add: l_def unat_eq_0)
  have acc: "r = kAccepted \<longleftrightarrow> mock_generation_ok ?w \<and> mock_values_ok ?w"
    using inspect_accepted [OF assms(11)] l(2) live assms(8,9) l0
      mock_generation_ok_iff [OF l(1,2)] mock_values_ok_iff [OF l(1), of c] assms(6,7)
    unfolding l_def [symmetric] by auto
  have idle: "r \<in> {kBootWait, kUnchanged} \<longleftrightarrow> deq (mk_generation m) (mk_accepted m)"
  proof -
    have "generation_valid (mk_generation m) \<and> cast_word (mk_generation m) = pc_last c \<longleftrightarrow> mk_generation m = Fin (of_nat l)"
      (is "?L \<longleftrightarrow> ?R")
    proof
      assume ?L
      then obtain n :: nat where n: "mk_generation m = Fin (of_nat n)" "n \<le> 9007199254740991" "(of_nat n :: u64) = of_nat l"
        using cast_generation l(3) by (auto simp: generation_valid_iff)
      then have "n = l" using generation_compare(1) [of n l] l(2) by simp
      with n(1) show ?R by simp
    next
      assume ?R
      then show ?L using cast_generation [of l] l(2,3) by (auto simp: generation_valid_iff)
    qed
    then show ?thesis using inspect_idle [OF assms(11,9) live] l(1) by (auto simp: deq_iff)
  qed
  have excl: "deq (mk_generation m) (mk_accepted m) \<Longrightarrow> r \<noteq> kAccepted" using idle by auto
  note eq = assms(12) [unfolded mock_write_def Let_def]
  have "(ret, mk_accepted m') = (if deq (mk_generation m) (mk_accepted m) then (OK, mk_accepted m)
      else if \<not> mock_generation_ok ?w then (ERROR, mk_accepted m) else if \<not> mock_values_ok ?w then (ERROR, mk_accepted m)
      else (OK, mk_generation m))"
    using arg_cong [OF eq, of "\<lambda>p. (fst p, mk_accepted (snd p))"] assms(1-3) by (simp split: if_splits)
  then show ?thesis using acc idle excl by (auto split: if_splits)
qed

definition sample_mock :: Mock where
  "sample_mock = new_Mock\<lparr>mk_axes := 2, mk_claimed := True, mk_lower := replicate 15 (Fin (-1)), mk_upper := replicate 15 (Fin 1),
     mk_generation := Fin 1, mk_record_capacity := 1\<rparr>"

theorem mock_agrees_with_commit_witness:
  "mk_accepted (snd (mock_write \<lparr>mt_read_error_at = 0, mt_write_error_at = 0, mt_reject_at = 0\<rparr> sample_mock)) = Fin 1"
proof -
  have c: "mk_commands sample_mock = replicate 15 (Fin 0)" "mk_generation sample_mock = Fin 1"
    by (simp_all add: sample_mock_def new_Mock_def zero_double_def)
  have i: "inspect (mk_generation sample_mock) (mk_commands sample_mock) 5 (reset 0 100 open_commit) = (kAccepted, reset 0 100 open_commit)"
    unfolding c by (simp add: inspect_eval)
  have f: "mk_claimed sample_mock" "mk_accepted sample_mock = Fin (of_nat (unat (pc_last (reset 0 100 open_commit))))"
    "unat (pc_last (reset 0 100 open_commit)) \<le> unat kMaxGeneration" "pc_axes (reset 0 100 open_commit) = mk_axes sample_mock"
    "pc_bounds (reset 0 100 open_commit) = \<lparr>bo_lower = mk_lower sample_mock, bo_upper = mk_upper sample_mock\<rparr>"
    "\<not> pc_latched (reset 0 100 open_commit)" "\<not> pc_expired (reset 0 100 open_commit)" "pc_last (reset 0 100 open_commit) = 0 \<longrightarrow> 5 < pc_deadline (reset 0 100 open_commit)"
    by (simp_all add: sample_mock_def new_Mock_def reset_def open_commit_fields open_commit_def set_bounds_def default_PairCommit_def zero_double_def)
  obtain ret m' where w: "mock_write \<lparr>mt_read_error_at = 0, mt_write_error_at = 0, mt_reject_at = 0\<rparr> sample_mock = (ret, m')" by fastforce
  from mock_agrees_with_commit [OF f(1) _ _ f(2,3,4,5,6,7,8) i w] c(2) w show ?thesis by simp
qed

end
