(* ===== verification/Pair_Adapter.thy ===== *)
theory Pair_Adapter
  imports Pair_Mock
begin

text \<open>
  The controller between trajectory references and the group hardware
  (\<^verbatim>\<open>src/bxi_pair_adapter.cpp\<close>): its configuration, the binding of interface handles,
  activation, and the update that judges the references and feedback, writes a batch value by value with
  read-back, and commits it group by group, or releases the axes and stops for ever.

  The handles of the framework are not part of the sources. A state read is an input of the call, by key; a
  write of a command and the read-back after it take their outcome from the script \<open>ad_io\<close> (whether the
  value could be stored, and what was read back), so every behaviour of the handles is covered. \<open>ad_log\<close>
  records every write with its outcome. Time stamps of the recorded rows and the CSV writer are not modelled.
\<close>

section \<open>State\<close>

record Limits =
  li_position_min :: double
  li_position_max :: double
  li_velocity :: double
  li_kp :: double
  li_kd :: double
  li_kp_max :: double
  li_kd_max :: double
  li_delta :: double
  li_torque :: double
  li_deviation :: double
  li_temperature :: double
  li_cycles :: u32

record Group =
  gr_first :: nat
  gr_axes :: nat
  gr_command :: nat
  gr_state :: nat
  gr_generation :: u64
  gr_gpio :: string
  gr_name :: string

record Attempt =
  at_values :: "double list"
  at_readback :: "double list"
  at_write_attempted :: u64
  at_write_ok :: u64
  at_read_attempted :: u64
  at_read_ok :: u64
  at_unavailable :: u64
  at_mismatch :: u64

definition new_Attempt :: Attempt where
  "new_Attempt = \<lparr>at_values = replicate 64 0, at_readback = replicate 64 0, at_write_attempted = 0, at_write_ok = 0,
     at_read_attempted = 0, at_read_ok = 0, at_unavailable = 0, at_mismatch = 0\<rparr>"

record Row =
  ro_activation :: u64
  ro_cycle :: u64
  ro_dt :: double
  ro_reason :: int
  ro_state_ok :: u64
  ro_reference_ok :: u16
  ro_states :: "double list"
  ro_raw :: "double list"
  ro_target :: "double list"
  ro_previous :: "double list"
  ro_delta :: "double list"
  ro_velocity :: "double list"
  ro_torque :: "double list"
  ro_raw_velocity :: "double list"
  ro_target_velocity :: "double list"
  ro_torque_with_kd :: "double list"
  ro_command :: "double list"
  ro_torque_limited :: "bool list"
  ro_deviation_count :: "u32 list"
  ro_previous_g :: "u64 list"
  ro_candidate_g :: "u64 list"
  ro_normal :: Attempt
  ro_release :: Attempt
  ro_commit_touched :: u8
  ro_release_missing :: u8

definition new_Row :: Row where
  "new_Row = (let z = replicate 12 0 in
    \<lparr>ro_activation = 0, ro_cycle = 0, ro_dt = 0, ro_reason = 0, ro_state_ok = 0, ro_reference_ok = 0, ro_states = replicate 52 0,
     ro_raw = z, ro_target = z, ro_previous = z, ro_delta = z, ro_velocity = z, ro_torque = z, ro_raw_velocity = z,
     ro_target_velocity = z, ro_torque_with_kd = z, ro_command = z, ro_torque_limited = replicate 12 False,
     ro_deviation_count = replicate 12 0, ro_previous_g = replicate 4 0, ro_candidate_g = replicate 4 0, ro_normal = new_Attempt,
     ro_release = new_Attempt, ro_commit_touched = 0, ro_release_missing = 0\<rparr>)"

record Adapter =
  ad_joints :: "string list"
  ad_command_keys :: "string list"
  ad_state_keys :: "string list"
  ad_groups :: "Group list"
  ad_limits :: "Limits list"
  ad_command_index :: "nat list"
  ad_state_index :: "nat list"
  ad_boot :: "double list"
  ad_previous :: "double list"
  ad_seen_reference :: "bool list"
  ad_seen_velocity :: "bool list"
  ad_velocity_feedforward :: bool
  ad_deviation_count :: "u32 list"
  ad_references :: "double list"
  ad_rows :: "Row list"
  ad_capacity :: nat
  ad_final :: Row
  ad_activation :: u64
  ad_cycle :: u64
  ad_dropped :: u64
  ad_activated_once :: bool
  ad_active :: bool
  ad_terminal :: bool
  ad_max_period :: double
  ad_directory :: string
  ad_io :: "(bool \<times> double option) list"
  ad_log :: "(nat \<times> double \<times> bool \<times> double option) list"

datatype CB = SUCCESS | CB_ERROR

section \<open>Configuration\<close>

record GroupParameters =
  gp_joints :: "string list"
  gp_hardware_name :: string
  gp_gpio :: string

record JointParameters =
  jp_limits :: Limits
  jp_deviation_cycles :: int

text \<open>The parameters of the node. \<open>None\<close> for the flag: it is not set, or is not a truth value.\<close>

record AdapterParameters =
  ap_velocity_feedforward :: "bool option"
  ap_hardware_groups :: "string list"
  ap_group :: "string \<Rightarrow> GroupParameters"
  ap_joint :: "string \<Rightarrow> JointParameters"
  ap_max_period_sec :: double
  ap_record_seconds :: double
  ap_output_dir :: string
  ap_api_max_tries :: int

definition configure_group :: "AdapterParameters \<Rightarrow> string \<Rightarrow> Adapter \<Rightarrow> Adapter option" where
  "configure_group p name a =
     (let g = ap_group p name; js = gp_joints g
      in if length js < 2 \<or> 3 < length js \<or> gp_gpio g = [] \<or> gp_hardware_name g \<in> set (map gr_name (ad_groups a)) \<or>
            gp_gpio g \<in> set (map gr_gpio (ad_groups a)) \<or> [] \<in> set js \<or> \<not> distinct (ad_joints a @ js) then None
         else Some (a\<lparr>ad_groups := ad_groups a @ [\<lparr>gr_first = length (ad_joints a), gr_axes = length js,
                gr_command = length (ad_command_keys a), gr_state = length (ad_state_keys a), gr_generation = 0,
                gr_gpio = gp_gpio g, gr_name = gp_hardware_name g\<rparr>],
              ad_joints := ad_joints a @ js,
              ad_command_keys := ad_command_keys a @ concat (map (\<lambda>j. map (\<lambda>f. j @ ''/'' @ f) command_fields) js) @ [gp_gpio g @ ''/commit_generation''],
              ad_state_keys := ad_state_keys a @ concat (map (\<lambda>j. map (\<lambda>f. j @ ''/'' @ f) state_fields) js) @ [gp_gpio g @ ''/accepted_generation'']\<rparr>))"

fun configure_groups :: "AdapterParameters \<Rightarrow> string list \<Rightarrow> Adapter \<Rightarrow> Adapter option" where
  "configure_groups p [] a = Some a"
| "configure_groups p (n # ns) a = (case configure_group p n a of None \<Rightarrow> None | Some a \<Rightarrow> configure_groups p ns a)"

definition configure_limits :: "AdapterParameters \<Rightarrow> string \<Rightarrow> Limits option" where
  "configure_limits p joint =
     (let l = jp_limits (ap_joint p joint); n = jp_deviation_cycles (ap_joint p joint)
      in if \<not> list_all isfinite [li_position_min l, li_position_max l, li_velocity l, li_kp l, li_kd l, li_kp_max l, li_kd_max l,
              li_delta l, li_torque l, li_deviation l, li_temperature l] \<or>
            li_position_max l \<le> li_position_min l \<or> li_velocity l \<le> dlit 0 \<or> li_kp l < dlit 0 \<or> li_kd l < dlit 0 \<or>
            li_kp_max l < li_kp l \<or> li_kd_max l < li_kd l \<or> li_delta l \<le> dlit 0 \<or> li_torque l \<le> dlit 0 \<or>
            li_deviation l \<le> dlit 0 \<or> n \<le> 0 then None
         else Some (l\<lparr>li_cycles := word_of_int n\<rparr>))"

fun dceil :: "double \<Rightarrow> double" where
  "dceil (Fin x) = Fin (of_int \<lceil>x\<rceil>)"
| "dceil d = d"

text \<open>A refused configuration leaves members behind that the next attempt clears before it reads them.\<close>

definition adapter_on_configure :: "AdapterParameters \<Rightarrow> Adapter \<Rightarrow> CB \<times> Adapter" where
  "adapter_on_configure p a =
     (let names = ap_hardware_groups p; seconds = ap_record_seconds p; period = ap_max_period_sec p
      in if ad_activated_once a then (CB_ERROR, a)
      else case ap_velocity_feedforward p of None \<Rightarrow> (CB_ERROR, a)
      | Some velocity \<Rightarrow>
          if names = [] \<or> 4 < length names then (CB_ERROR, a)
          else case configure_groups p names (a\<lparr>ad_velocity_feedforward := velocity, ad_joints := [], ad_command_keys := [],
                 ad_state_keys := [], ad_groups := []\<rparr>) of
            None \<Rightarrow> (CB_ERROR, a)
          | Some b \<Rightarrow> (case those (map (configure_limits p) (ad_joints b)) of
              None \<Rightarrow> (CB_ERROR, a)
            | Some limits \<Rightarrow>
                if ap_api_max_tries p \<noteq> 1 \<or> \<not> isfinite seconds \<or> seconds < dlit 0 \<or> dlit 600 < seconds \<or> \<not> isfinite period \<or>
                   period \<le> dlit 0 \<or> rnd (5 / 1000) < period then (CB_ERROR, a)
                else (SUCCESS, b\<lparr>ad_limits := limits, ad_max_period := period, ad_directory := ap_output_dir p,
                       ad_references := replicate (length (ad_joints b) * (if velocity then 2 else 1)) NaN,
                       ad_rows := [], ad_capacity := nat (rat_trunc (dval (dceil (seconds * dlit 1000))))\<rparr>)))"

definition export_references :: "string \<Rightarrow> Adapter \<Rightarrow> (string \<times> nat) list \<times> Adapter" where
  "export_references node a =
     (let n = length (ad_joints a)
      in (map (\<lambda>i. (node @ ''/'' @ ad_joints a ! i @ ''/position'', i)) [0..<n] @
          (if ad_velocity_feedforward a then map (\<lambda>i. (node @ ''/'' @ ad_joints a ! i @ ''/velocity'', n + i)) [0..<n] else []),
          a\<lparr>ad_references := map (\<lambda>_. NaN) (ad_references a)\<rparr>))"

section \<open>Binding and activation\<close>

text \<open>A handle is its full name and its data type.\<close>

definition bind_key :: "(string \<times> string) list \<Rightarrow> string \<Rightarrow> nat option" where
  "bind_key handles key = (case filter (\<lambda>i. fst (handles ! i) = key) [0..<length handles] of
     [i] \<Rightarrow> if snd (handles ! i) = ''double'' then Some i else None | _ \<Rightarrow> None)"

definition bind_keys :: "(string \<times> string) list \<Rightarrow> (string \<times> string) list \<Rightarrow> Adapter \<Rightarrow> Adapter option" where
  "bind_keys commands states a =
     (if length commands \<noteq> length (ad_command_keys a) \<or> length states \<noteq> length (ad_state_keys a) then None
      else case (those (map (bind_key commands) (ad_command_keys a)), those (map (bind_key states) (ad_state_keys a))) of
        (Some cs, Some ss) \<Rightarrow> Some (a\<lparr>ad_command_index := cs, ad_state_index := ss\<rparr>) | _ \<Rightarrow> None)"

text \<open>The state value of a key at activation. A failed activation is final, so what it left half-done is never read;
  an exception of the framework fails the activation like a missing value.\<close>

definition activate_axis :: "(nat \<Rightarrow> double option) \<Rightarrow> Adapter \<Rightarrow> Group \<Rightarrow> nat \<Rightarrow> bool" where
  "activate_axis states a g i =
     (let l = ad_limits a ! (gr_first g + i)
      in list_all (\<lambda>f. case states (gr_state g + 4 * i + f) of None \<Rightarrow> False
           | Some v \<Rightarrow> isfinite v \<and> \<not> (f = 0 \<and> (v < li_position_min l \<or> li_position_max l < v)) \<and>
               \<not> (f = 3 \<and> li_temperature l \<le> v)) [0..<4])"

definition activate_group :: "(nat \<Rightarrow> double option) \<Rightarrow> Adapter \<Rightarrow> Group \<Rightarrow> bool" where
  "activate_group states a g \<longleftrightarrow>
     (case states (gr_state g + 4 * gr_axes g) of None \<Rightarrow> False | Some v \<Rightarrow> deq v (dlit 0)) \<and>
     list_all (activate_axis states a g) [0..<gr_axes g]"

definition boot_positions :: "(nat \<Rightarrow> double option) \<Rightarrow> Group list \<Rightarrow> double list \<Rightarrow> double list" where
  "boot_positions states gs xs =
     fold (\<lambda>g xs. fold (\<lambda>i xs. xs[gr_first g + i := (case states (gr_state g + 4 * i) of None \<Rightarrow> NaN | Some v \<Rightarrow> v)]) [0..<gr_axes g] xs) gs xs"

definition adapter_on_activate ::
  "(string \<times> string) list \<Rightarrow> (string \<times> string) list \<Rightarrow> (nat \<Rightarrow> double option) \<Rightarrow> Adapter \<Rightarrow> CB \<times> Adapter" where
  "adapter_on_activate commands states values a =
     (if ad_activated_once a \<or> ad_groups a = [] then (CB_ERROR, a)
      else let a = a\<lparr>ad_activated_once := True\<rparr>
      in case bind_keys commands states a of None \<Rightarrow> (CB_ERROR, a)
      | Some a \<Rightarrow>
          if \<not> list_all (activate_group values a) (ad_groups a) then (CB_ERROR, a)
          else (SUCCESS, a\<lparr>ad_groups := map (\<lambda>g. g\<lparr>gr_generation := 0\<rparr>) (ad_groups a),
             ad_boot := boot_positions values (ad_groups a) (ad_boot a), ad_previous := boot_positions values (ad_groups a) (ad_previous a),
             ad_references := map (\<lambda>_. NaN) (ad_references a), ad_seen_reference := replicate 12 False,
             ad_seen_velocity := replicate 12 False, ad_deviation_count := replicate 12 0, ad_rows := [], ad_cycle := 0,
             ad_dropped := 0, ad_activation := ad_activation a + 1, ad_active := True, ad_terminal := False\<rparr>))"

definition adapter_on_deactivate :: "Adapter \<Rightarrow> CB \<times> Adapter" where
  "adapter_on_deactivate a = (SUCCESS, a\<lparr>ad_terminal := True, ad_active := False\<rparr>)"

definition adapter_on_cleanup :: "Adapter \<Rightarrow> CB" where
  "adapter_on_cleanup a = (if ad_active a then CB_ERROR else SUCCESS)"

section \<open>Writing a batch\<close>

definition writeValue :: "nat \<Rightarrow> double \<Rightarrow> Attempt \<times> Adapter \<Rightarrow> bool \<times> Attempt \<times> Adapter" where
  "writeValue k v = (\<lambda>(out, a).
     let bit = push_bit k 1 :: u64;
         ((stored, read), io) = (case ad_io a of [] \<Rightarrow> ((False, None), []) | x # xs \<Rightarrow> (x, xs));
         a = a\<lparr>ad_io := io, ad_log := ad_log a @ [(k, v, stored, if stored then read else None)]\<rparr>;
         out = out\<lparr>at_values := (at_values out)[k := v], at_write_attempted := at_write_attempted out OR bit\<rparr>
     in if \<not> stored then (False, out, a)
     else let out = out\<lparr>at_write_ok := at_write_ok out OR bit, at_read_attempted := at_read_attempted out OR bit\<rparr>
     in case read of
          None \<Rightarrow> (False, out\<lparr>at_unavailable := at_unavailable out OR bit\<rparr>, a)
        | Some r \<Rightarrow>
            if \<not> isfinite r then (False, out\<lparr>at_unavailable := at_unavailable out OR bit\<rparr>, a)
            else let out = out\<lparr>at_readback := (at_readback out)[k := r]\<rparr>
            in if \<not> deq r v then (False, out\<lparr>at_mismatch := at_mismatch out OR bit\<rparr>, a)
               else (True, out\<lparr>at_read_ok := at_read_ok out OR bit\<rparr>, a))"

text \<open>The values of one axis and of a group, with the keys they go to.\<close>

definition axis_values :: "bool \<Rightarrow> Row \<Rightarrow> Adapter \<Rightarrow> Group \<Rightarrow> nat \<Rightarrow> double list" where
  "axis_values release row a g i =
     (let axis = gr_first g + i; zero = release \<or> gr_generation g = 0; l = ad_limits a ! axis
      in [if release then ro_states row ! (gr_state g + 4 * i) else ro_command row ! axis,
          if zero then dlit 0 else ro_target_velocity row ! axis, if zero then dlit 0 else li_kp l, if zero then dlit 0 else li_kd l,
          dlit 0])"

definition group_writes :: "bool \<Rightarrow> Row \<Rightarrow> Adapter \<Rightarrow> Group \<Rightarrow> (nat \<times> double) list" where
  "group_writes release row a g =
     concat (map (\<lambda>i. zip [gr_command g + 5 * i..<gr_command g + 5 * i + 5] (axis_values release row a g i)) [0..<gr_axes g])"

fun write_values :: "(nat \<times> double) list \<Rightarrow> Attempt \<times> Adapter \<Rightarrow> bool \<times> Attempt \<times> Adapter" where
  "write_values [] w = (True, w)"
| "write_values ((k, v) # kvs) w =
     (let (ok, w) = writeValue k v w; (rest, w) = write_values kvs w in (ok \<and> rest, w))"

definition position_ok :: "bool \<Rightarrow> Row \<Rightarrow> Adapter \<Rightarrow> Group \<Rightarrow> nat \<Rightarrow> bool" where
  "position_ok release row a g i =
     (let axis = gr_first g + i; l = ad_limits a ! axis;
          position = (if release then ro_states row ! (gr_state g + 4 * i) else ro_command row ! axis)
      in isfinite position \<and> \<not> position < li_position_min l \<and> \<not> li_position_max l < position)"

definition group_ok :: "bool \<Rightarrow> nat \<Rightarrow> Row \<Rightarrow> Adapter \<Rightarrow> bool" where
  "group_ok release h row a =
     (let g = ad_groups a ! h; c = ro_candidate_g row ! h
      in list_all (position_ok release row a g) [0..<gr_axes g] \<and> c \<noteq> 0 \<and> c \<le> kMaxGeneration)"

definition mark_missing :: "nat \<Rightarrow> Row \<Rightarrow> Row" where
  "mark_missing h row = row\<lparr>ro_release_missing := ro_release_missing row OR push_bit h 1\<rparr>"

record Batch =
  ba_row :: Row
  ba_good :: "bool list"
  ba_all :: bool
  ba_out :: Attempt
  ba_adapter :: Adapter

definition stage_group :: "bool \<Rightarrow> nat \<Rightarrow> Batch \<Rightarrow> Batch" where
  "stage_group release h b =
     (let row = ba_row b; a = ba_adapter b
      in if release \<and> (ro_commit_touched row OR ro_release_missing row) AND push_bit h 1 \<noteq> 0
         then b\<lparr>ba_good := ba_good b @ [False], ba_row := mark_missing h row\<rparr>
         else if \<not> group_ok release h row a
         then b\<lparr>ba_good := ba_good b @ [False], ba_row := (if release then mark_missing h row else row), ba_all := False\<rparr>
         else let (ok, out, a) = write_values (group_writes release row a (ad_groups a ! h)) (ba_out b, a)
              in b\<lparr>ba_good := ba_good b @ [ok], ba_all := ba_all b \<and> ok, ba_out := out, ba_adapter := a\<rparr>)"

definition commit_group :: "bool \<Rightarrow> nat \<Rightarrow> Batch \<Rightarrow> Batch" where
  "commit_group release h b =
     (if \<not> ba_good b ! h then b
      else let a = ba_adapter b; g = ad_groups a ! h; row = ba_row b;
               row = (if release then row else row\<lparr>ro_commit_touched := ro_commit_touched row OR push_bit h 1\<rparr>);
               (ok, out, a) = writeValue (gr_command g + 5 * gr_axes g) (dint (uint (ro_candidate_g row ! h))) (ba_out b, a)
           in b\<lparr>ba_row := row, ba_all := ba_all b \<and> ok, ba_out := out, ba_adapter := a\<rparr>)"

definition writeBatch :: "bool \<Rightarrow> Row \<times> Adapter \<Rightarrow> bool \<times> Row \<times> Adapter" where
  "writeBatch release = (\<lambda>(row, a).
     let hs = [0..<length (ad_groups a)];
         b = fold (stage_group release) hs \<lparr>ba_row = row, ba_good = [], ba_all = True,
               ba_out = (if release then ro_release row else ro_normal row), ba_adapter = a\<rparr>;
         store = (\<lambda>b. if release then (ba_row b)\<lparr>ro_release := ba_out b\<rparr> else (ba_row b)\<lparr>ro_normal := ba_out b\<rparr>)
     in if \<not> release \<and> \<not> ba_all b then (False, store b, ba_adapter b)
        else let b = fold (commit_group release) hs b in (ba_all b, store b, ba_adapter b))"

definition record_row :: "Row \<Rightarrow> Adapter \<Rightarrow> Adapter" where
  "record_row row a = (let a = a\<lparr>ad_final := row\<rparr>
     in if length (ad_rows a) < ad_capacity a then a\<lparr>ad_rows := ad_rows a @ [row]\<rparr> else a\<lparr>ad_dropped := ad_dropped a + 1\<rparr>)"

section \<open>The update\<close>

definition read_state :: "(nat \<Rightarrow> double option) \<Rightarrow> nat \<Rightarrow> Row \<Rightarrow> Row" where
  "read_state values k row =
     (let row = row\<lparr>ro_states := (ro_states row)[k := (case values k of None \<Rightarrow> NaN | Some v \<Rightarrow> v)]\<rparr>
      in case values k of None \<Rightarrow> row
         | Some v \<Rightarrow> if isfinite v then row\<lparr>ro_state_ok := ro_state_ok row OR push_bit k 1\<rparr> else row)"

definition note_reason :: "bool \<Rightarrow> int \<Rightarrow> Row \<Rightarrow> Row" where
  "note_reason c r row = (if c then row\<lparr>ro_reason := r\<rparr> else row)"

definition judge_velocity :: "bool \<Rightarrow> nat \<Rightarrow> Row \<times> Adapter \<Rightarrow> Row \<times> Adapter" where
  "judge_velocity boot axis = (\<lambda>(row, a).
     let l = ad_limits a ! axis;
         raw = (if ad_velocity_feedforward a then ad_references a ! (length (ad_joints a) + axis) else NaN);
         tv = (if ad_velocity_feedforward a then raw else dlit 0);
         (tv, a) = (if isnan tv \<and> \<not> ad_seen_velocity a ! axis then (dlit 0, a)
            else (tv, if isfinite tv then a\<lparr>ad_seen_velocity := (ad_seen_velocity a)[axis := True]\<rparr> else a));
         row = row\<lparr>ro_raw := (ro_raw row)[axis := ad_references a ! axis], ro_raw_velocity := (ro_raw_velocity row)[axis := raw]\<rparr>;
         row = note_reason (\<not> isfinite tv) 5 row;
         row = note_reason (\<not> boot \<and> isfinite tv \<and> li_velocity l < \<bar>tv\<bar>) 6 row
     in (row\<lparr>ro_target_velocity := (ro_target_velocity row)[axis := if boot then dlit 0 else tv],
             ro_previous := (ro_previous row)[axis := ad_previous a ! axis]\<rparr>, a))"

definition judge_target :: "bool \<Rightarrow> nat \<Rightarrow> double \<Rightarrow> Row \<times> Adapter \<Rightarrow> double \<times> Row \<times> Adapter" where
  "judge_target boot axis position = (\<lambda>(row, a).
     let raw = ad_references a ! axis;
         (target, a) = (if isnan raw \<and> \<not> ad_seen_reference a ! axis then (ad_boot a ! axis, a)
            else (raw, if isfinite raw then a\<lparr>ad_seen_reference := (ad_seen_reference a)[axis := True]\<rparr> else a));
         row = note_reason ((\<not> isfinite raw \<and> \<not> isnan raw) \<or> (isnan raw \<and> ad_seen_reference a ! axis)) 5 row;
         target = (if boot then position else target);
         row = row\<lparr>ro_target := (ro_target row)[axis := target]\<rparr>;
         row = (if isfinite raw then row\<lparr>ro_reference_ok := ro_reference_ok row OR push_bit axis 1\<rparr> else row)
     in (target, row, a))"

definition limited_command :: "bool \<Rightarrow> Limits \<Rightarrow> double \<Rightarrow> double \<Rightarrow> double" where
  "limited_command boot l target position =
     (if \<not> boot \<and> dlit 0 < li_kp l \<and> isfinite target \<and> isfinite position
      then let e = li_torque l / li_kp l
           in clamp (clamp target (position - e) (position + e)) (li_position_min l) (li_position_max l)
      else target)"

definition count_deviation :: "nat \<Rightarrow> double \<Rightarrow> double \<Rightarrow> Adapter \<Rightarrow> Adapter" where
  "count_deviation axis target position a =
     (let l = ad_limits a ! axis; n = ad_deviation_count a ! axis
      in a\<lparr>ad_deviation_count := (ad_deviation_count a)[axis :=
           if li_deviation l < \<bar>target - position\<bar> then (if n < li_cycles l then n + 1 else n) else 0]\<rparr>)"

definition update_axis :: "bool \<Rightarrow> Group \<Rightarrow> nat \<Rightarrow> Row \<times> Adapter \<Rightarrow> Row \<times> Adapter" where
  "update_axis boot g i = (\<lambda>(row, a).
     let axis = gr_first g + i; l = ad_limits a ! axis;
         position = ro_states row ! (gr_state g + 4 * i); temp = ro_states row ! (gr_state g + 4 * i + 3);
         (row, a) = judge_velocity boot axis (row, a);
         (target, row, a) = judge_target boot axis position (row, a);
         delta = target - ad_previous a ! axis; velocity = \<bar>delta\<bar> / ro_dt row;
         command = limited_command boot l target position;
         row = row\<lparr>ro_delta := (ro_delta row)[axis := delta], ro_velocity := (ro_velocity row)[axis := velocity],
           ro_torque := (ro_torque row)[axis := \<bar>li_kp l * (target - position)\<bar>],
           ro_command := (ro_command row)[axis := command], ro_torque_limited := (ro_torque_limited row)[axis := \<not> deq command target],
           ro_torque_with_kd := (ro_torque_with_kd row)[axis := \<bar>(if boot then dlit 0 else li_kp l) * (command - position) +
             (if boot then dlit 0 else li_kd l) * (ro_target_velocity row ! axis - ro_states row ! (gr_state g + 4 * i + 1))\<bar>]\<rparr>;
         row = note_reason (\<not> isfinite target \<or> target < li_position_min l \<or> li_position_max l < target \<or>
           \<not> isfinite position \<or> position < li_position_min l \<or> li_position_max l < position) 5 row;
         row = note_reason (\<not> boot \<and> (li_delta l < \<bar>delta\<bar> \<or> li_velocity l < velocity)) 6 row;
         a = count_deviation axis target position a; n = ad_deviation_count a ! axis;
         row = row\<lparr>ro_deviation_count := (ro_deviation_count row)[axis := n]\<rparr>;
         row = note_reason (li_cycles l \<le> n) 8 row;
         row = note_reason (li_temperature l \<le> temp) 9 row
     in (row, a))"

definition judge_group :: "nat \<Rightarrow> bool \<times> Row \<times> Adapter \<Rightarrow> bool \<times> Row \<times> Adapter" where
  "judge_group h = (\<lambda>(boot, row, a).
     let g = ad_groups a ! h; candidate = gr_generation g + 1; boot = (boot \<or> gr_generation g = 0);
         accepted = ro_states row ! (gr_state g + 4 * gr_axes g);
         row = row\<lparr>ro_previous_g := (ro_previous_g row)[h := gr_generation g], ro_candidate_g := (ro_candidate_g row)[h := candidate]\<rparr>;
         row = (if \<not> isfinite accepted \<or> \<not> deq accepted (dint (uint (gr_generation g)))
                then mark_missing h (row\<lparr>ro_reason := 4\<rparr>) else row);
         row = note_reason (kMaxGeneration < candidate) 11 row
     in (boot, fold (update_axis boot g) [0..<gr_axes g] (row, a)))"

definition judge_update :: "(nat \<Rightarrow> double option) \<Rightarrow> double \<Rightarrow> Adapter \<Rightarrow> Row \<times> Adapter" where
  "judge_update values period a =
     (let a = a\<lparr>ad_cycle := ad_cycle a + 1\<rparr>; n = length (ad_state_keys a);
          row = new_Row\<lparr>ro_activation := ad_activation a, ro_cycle := ad_cycle a, ro_dt := period\<rparr>;
          row = fold (read_state values) [0..<n] row;
          row = note_reason (ro_state_ok row \<noteq> push_bit n 1 - 1) 1 row;
          row = note_reason (\<not> isfinite period \<or> period \<le> dlit 0 \<or> ad_max_period a < period) 2 row
      in snd (fold judge_group [0..<length (ad_groups a)] (False, row, a)))"

definition release_row :: "Adapter \<Rightarrow> Row \<Rightarrow> Row" where
  "release_row a row =
     (let row = fold (\<lambda>g row. fold (\<lambda>i row. row\<lparr>ro_command := (ro_command row)[gr_first g + i := ro_states row ! (gr_state g + 4 * i)],
            ro_torque_limited := (ro_torque_limited row)[gr_first g + i := False]\<rparr>) [0..<gr_axes g] row) (ad_groups a) row
      in row\<lparr>ro_target_velocity := replicate 12 (dlit 0), ro_torque_with_kd := replicate 12 (dlit 0)\<rparr>)"

definition update_and_write_commands :: "(nat \<Rightarrow> double option) \<Rightarrow> double \<Rightarrow> Adapter \<Rightarrow> return_type \<times> Adapter" where
  "update_and_write_commands values period a =
     (if ad_terminal a \<or> \<not> ad_active a then (if ro_reason (ad_final a) = 11 then OK else ERROR, a)
      else let (row, a) = judge_update values period a
      in if ro_reason row = 11 then (OK, record_row row (a\<lparr>ad_terminal := True\<rparr>))
      else let (ok, row, a) = (if ro_reason row = 0 then writeBatch False (row, a) else (True, row, a));
               row = note_reason (\<not> ok) 10 row
      in if ro_reason row \<noteq> 0
         then let a = a\<lparr>ad_terminal := True\<rparr>; (done, row, a) = writeBatch True (release_row a row, a)
              in (ERROR, record_row row a)
         else let a = a\<lparr>ad_groups := map (\<lambda>h. (ad_groups a ! h)\<lparr>gr_generation := ro_candidate_g row ! h\<rparr>) [0..<length (ad_groups a)],
                        ad_previous := take (length (ad_joints a)) (ro_target row) @ drop (length (ad_joints a)) (ad_previous a)\<rparr>
              in (OK, record_row row a))"

section \<open>What a batch writes\<close>

type_synonym access = "nat \<times> double \<times> bool \<times> double option"

definition written :: "access \<Rightarrow> nat \<times> double" where
  "written e = (fst e, fst (snd e))"

text \<open>An access that stored its value and read the same value back.\<close>

definition verified :: "access \<Rightarrow> bool" where
  "verified e = (case e of (k, v, stored, read) \<Rightarrow> stored \<and> read = Some v)"

text \<open>What an access leaves alone.\<close>

definition quiet :: "Adapter \<Rightarrow> Adapter" where
  "quiet a = a\<lparr>ad_io := [], ad_log := []\<rparr>"

definition appends :: "Adapter \<Rightarrow> access list \<Rightarrow> Adapter \<Rightarrow> bool" where
  "appends a es a' \<longleftrightarrow> ad_log a' = ad_log a @ es \<and> quiet a' = quiet a"

lemma appends_Nil [simp]: "appends a [] a"
  by (simp add: appends_def)

lemma appends_trans: "appends a es b \<Longrightarrow> appends b fs c \<Longrightarrow> appends a (es @ fs) c"
  by (simp add: appends_def)

lemma quiet_fields:
  assumes "quiet a = quiet b"
  shows "ad_groups a = ad_groups b" "ad_limits a = ad_limits b" "ad_joints a = ad_joints b" "ad_terminal a = ad_terminal b"
    "ad_active a = ad_active b" "ad_activated_once a = ad_activated_once b"
  subgoal using arg_cong [OF assms, of ad_groups] by (simp add: quiet_def)
  subgoal using arg_cong [OF assms, of ad_limits] by (simp add: quiet_def)
  subgoal using arg_cong [OF assms, of ad_joints] by (simp add: quiet_def)
  subgoal using arg_cong [OF assms, of ad_terminal] by (simp add: quiet_def)
  subgoal using arg_cong [OF assms, of ad_active] by (simp add: quiet_def)
  subgoal using arg_cong [OF assms, of ad_activated_once] by (simp add: quiet_def)
  done

lemmas appends_fields = appends_def [THEN iffD1, THEN conjunct2, THEN quiet_fields(1)]
  appends_def [THEN iffD1, THEN conjunct2, THEN quiet_fields(2)]

lemma writeValue_spec:
  assumes "writeValue k v (out, a) = (ok, out', a')"
  shows "\<exists>e. appends a [e] a' \<and> written e = (k, v) \<and> (ok \<longrightarrow> verified e)"
proof -
  obtain st rd io where io: "(case ad_io a of [] \<Rightarrow> ((False, None), []) | x # xs \<Rightarrow> (x, xs)) = ((st, rd), io)"
    by (metis prod.exhaust)
  let ?e = "(k, v, st, if st then rd else None)"
  note eq = assms [unfolded writeValue_def prod.case Let_def io]
  have "appends a [?e] a'"
    using eq by (auto simp: appends_def quiet_def split: if_splits option.splits)
  moreover have "ok \<Longrightarrow> verified ?e"
    using eq by (auto simp: verified_def deq_iff split: if_splits option.splits)
  ultimately show ?thesis by (intro exI [of _ ?e]) (simp add: written_def)
qed

lemma write_values_spec:
  "write_values kvs (out, a) = (ok, out', a') \<Longrightarrow>
     \<exists>es. appends a es a' \<and> map written es = kvs \<and> (ok \<longrightarrow> list_all verified es)"
proof (induction kvs arbitrary: out a ok out' a')
  case Nil
  then show ?case by (intro exI [of _ "[]"]) simp
next
  case (Cons kv kvs)
  obtain k v where kv: "kv = (k, v)" by fastforce
  obtain x o1 a1 where w: "writeValue k v (out, a) = (x, o1, a1)" using prod_cases3 by blast
  obtain y o2 a2 where r: "write_values kvs (o1, a1) = (y, o2, a2)" using prod_cases3 by blast
  have o: "ok = (x \<and> y)" "a' = a2" using Cons.prems by (simp_all add: kv w r)
  obtain e where "appends a [e] a1" "written e = (k, v)" "x \<longrightarrow> verified e" using writeValue_spec [OF w] by blast
  moreover obtain es where "appends a1 es a2" "map written es = kvs" "y \<longrightarrow> list_all verified es" using Cons.IH [OF r] by blast
  ultimately show ?case using appends_trans [of a "[e]" a1 es a2] by (intro exI [of _ "e # es"]) (simp add: o kv)
qed

lemma group_writes_cong: "quiet a = quiet b \<Longrightarrow> group_writes r row a g = group_writes r row b g"
  using quiet_fields(2) [of a b] by (simp add: group_writes_def axis_values_def Let_def cong: if_cong)

lemma position_ok_cong:
  "ro_states x = ro_states y \<Longrightarrow> ro_command x = ro_command y \<Longrightarrow> ad_limits a = ad_limits b \<Longrightarrow> position_ok r x a = position_ok r y b"
  by (simp add: fun_eq_iff position_ok_def Let_def)

lemma group_ok_cong: "quiet a = quiet b \<Longrightarrow> group_ok r h row a = group_ok r h row b"
  using quiet_fields(1,2) [of a b] position_ok_cong [of row row a b] by (simp add: group_ok_def Let_def)

text \<open>A row's part that the writes depend on; marks of missing groups may grow.\<close>

definition row_core :: "Row \<Rightarrow> double list \<times> double list \<times> double list \<times> u64 list" where
  "row_core row = (ro_states row, ro_command row, ro_target_velocity row, ro_candidate_g row)"

lemma row_core_writes: "row_core x = row_core y \<Longrightarrow> group_writes r x a g = group_writes r y a g"
  by (simp add: row_core_def group_writes_def axis_values_def Let_def cong: if_cong)

lemma row_core_ok: "row_core x = row_core y \<Longrightarrow> group_ok r h x a = group_ok r h y a"
  using position_ok_cong [of x y a a] by (simp add: row_core_def group_ok_def Let_def)

lemma mark_missing_fields [simp]:
  "row_core (mark_missing h row) = row_core row" "ro_commit_touched (mark_missing h row) = ro_commit_touched row"
  "ro_reason (mark_missing h row) = ro_reason row"
  by (simp_all add: mark_missing_def row_core_def)

text \<open>Staging one group: it is skipped, or its values are written; it counts as good only if all were verified.\<close>

lemma stage_group_spec:
  assumes "stage_group r h b = b'"
  obtains es ok where "ba_good b' = ba_good b @ [ok]" and "appends (ba_adapter b) es (ba_adapter b')"
    and "row_core (ba_row b') = row_core (ba_row b)" and "ro_commit_touched (ba_row b') = ro_commit_touched (ba_row b)"
    and "map written es = group_writes r (ba_row b) (ba_adapter b) (ad_groups (ba_adapter b) ! h) \<or> es = [] \<and> \<not> ok"
    and "ok \<Longrightarrow> list_all verified es \<and> map written es = group_writes r (ba_row b) (ba_adapter b) (ad_groups (ba_adapter b) ! h) \<and>
      group_ok r h (ba_row b) (ba_adapter b) \<and> \<not> (r \<and> (ro_commit_touched (ba_row b) OR ro_release_missing (ba_row b)) AND push_bit h 1 \<noteq> 0)"
    and "r \<or> ba_all b' = (ba_all b \<and> ok)" and "\<not> r \<Longrightarrow> ba_row b' = ba_row b" and "ro_reason (ba_row b') = ro_reason (ba_row b)"
proof -
  let ?g = "ad_groups (ba_adapter b) ! h"
  obtain x o1 a1 where w: "write_values (group_writes r (ba_row b) (ba_adapter b) ?g) (ba_out b, ba_adapter b) = (x, o1, a1)"
    using prod_cases3 by blast
  obtain es where es: "appends (ba_adapter b) es a1" "map written es = group_writes r (ba_row b) (ba_adapter b) ?g" "x \<longrightarrow> list_all verified es"
    using write_values_spec [OF w] by blast
  let ?skip = "r \<and> (ro_commit_touched (ba_row b) OR ro_release_missing (ba_row b)) AND push_bit h 1 \<noteq> 0"
  note eq = assms [unfolded stage_group_def Let_def w prod.case]
  consider (a) ?skip | (b) "\<not> ?skip" "\<not> group_ok r h (ba_row b) (ba_adapter b)" | (c) "\<not> ?skip" "group_ok r h (ba_row b) (ba_adapter b)" by blast
  then show thesis
  proof cases
    case a
    then have "b' = b\<lparr>ba_good := ba_good b @ [False], ba_row := mark_missing h (ba_row b)\<rparr>" using eq by simp
    then show thesis using that [of False "[]"] a by simp
  next
    case b
    then have "b' = b\<lparr>ba_good := ba_good b @ [False], ba_row := (if r then mark_missing h (ba_row b) else ba_row b), ba_all := False\<rparr>"
      using eq [unfolded if_not_P [OF b(1)]] by simp
    then show thesis using that [of False "[]"] by simp
  next
    case c
    then have "b' = b\<lparr>ba_good := ba_good b @ [x], ba_all := ba_all b \<and> x, ba_out := o1, ba_adapter := a1\<rparr>"
      using eq [unfolded if_not_P [OF c(1)]] by simp
    then show thesis using that [of x es] es c by simp
  qed
qed

definition staged :: "bool \<Rightarrow> Row \<Rightarrow> Adapter \<Rightarrow> nat \<Rightarrow> access list \<Rightarrow> bool \<Rightarrow> bool" where
  "staged r row a h es ok \<longleftrightarrow>
     (map written es = group_writes r row a (ad_groups a ! h) \<or> es = [] \<and> \<not> ok) \<and>
     (ok \<longrightarrow> list_all verified es \<and> map written es = group_writes r row a (ad_groups a ! h) \<and> group_ok r h row a \<and>
        \<not> (r \<and> ro_commit_touched row AND push_bit h 1 \<noteq> 0))"

lemma and_or_left: "(x OR y) AND m = 0 \<Longrightarrow> x AND m = 0" for x y m :: "'a::len word"
  by (simp add: bit.conj_disj_distrib2 or_eq_0_iff)

lemma stage_groups_spec:
  assumes "fold (stage_group r) [0..<n] b = b'" and "ba_good b = []"
  shows "\<exists>ess. length ess = n \<and> length (ba_good b') = n \<and> appends (ba_adapter b) (concat ess) (ba_adapter b') \<and>
    row_core (ba_row b') = row_core (ba_row b) \<and> ro_commit_touched (ba_row b') = ro_commit_touched (ba_row b) \<and>
    ro_reason (ba_row b') = ro_reason (ba_row b) \<and> (\<not> r \<longrightarrow> ba_row b' = ba_row b) \<and>
    (\<forall>h < n. staged r (ba_row b) (ba_adapter b) h (ess ! h) (ba_good b' ! h)) \<and>
    (r \<or> ba_all b' = (ba_all b \<and> (\<forall>h < n. ba_good b' ! h)))"
  using assms(1)
proof (induction n arbitrary: b')
  case 0
  then show ?case using assms(2) by (intro exI [of _ "[]"]) auto
next
  case (Suc n)
  obtain c where c: "fold (stage_group r) [0..<n] b = c" by simp
  obtain ess where i: "length ess = n" "length (ba_good c) = n" "appends (ba_adapter b) (concat ess) (ba_adapter c)"
    "row_core (ba_row c) = row_core (ba_row b)" "ro_commit_touched (ba_row c) = ro_commit_touched (ba_row b)"
    "ro_reason (ba_row c) = ro_reason (ba_row b)" "\<not> r \<longrightarrow> ba_row c = ba_row b"
    "\<forall>h < n. staged r (ba_row b) (ba_adapter b) h (ess ! h) (ba_good c ! h)"
    "r \<or> ba_all c = (ba_all b \<and> (\<forall>h < n. ba_good c ! h))"
    using Suc.IH [OF c] by blast
  have s: "stage_group r n c = b'" using Suc.prems c by simp
  obtain es ok where o: "ba_good b' = ba_good c @ [ok]" "appends (ba_adapter c) es (ba_adapter b')"
    "row_core (ba_row b') = row_core (ba_row c)" "ro_commit_touched (ba_row b') = ro_commit_touched (ba_row c)"
    "map written es = group_writes r (ba_row c) (ba_adapter c) (ad_groups (ba_adapter c) ! n) \<or> es = [] \<and> \<not> ok"
    "ok \<Longrightarrow> list_all verified es \<and> map written es = group_writes r (ba_row c) (ba_adapter c) (ad_groups (ba_adapter c) ! n) \<and>
      group_ok r n (ba_row c) (ba_adapter c) \<and> \<not> (r \<and> (ro_commit_touched (ba_row c) OR ro_release_missing (ba_row c)) AND push_bit n 1 \<noteq> 0)"
    "r \<or> ba_all b' = (ba_all c \<and> ok)" "\<not> r \<Longrightarrow> ba_row b' = ba_row c" "ro_reason (ba_row b') = ro_reason (ba_row c)"
    using stage_group_spec [OF s] by metis
  have q: "quiet (ba_adapter c) = quiet (ba_adapter b)" using i(3) by (simp add: appends_def)
  have w: "group_writes r (ba_row c) (ba_adapter c) (ad_groups (ba_adapter c) ! n) =
      group_writes r (ba_row b) (ba_adapter b) (ad_groups (ba_adapter b) ! n)"
    using quiet_fields(1) [OF q] group_writes_cong [OF q] row_core_writes [OF i(4)] by simp
  have k: "group_ok r n (ba_row c) (ba_adapter c) = group_ok r n (ba_row b) (ba_adapter b)"
    using group_ok_cong [OF q] row_core_ok [OF i(4)] by simp
  have st: "staged r (ba_row b) (ba_adapter b) n es ok"
    using o(5,6) i(5) unfolding staged_def w k by (auto dest: and_or_left)
  have new: "staged r (ba_row b) (ba_adapter b) h ((ess @ [es]) ! h) (ba_good b' ! h)" if "h < Suc n" for h
  proof (cases "h = n")
    case True
    then show ?thesis using st i(1,2) o(1) by (simp add: nth_append)
  next
    case False
    then show ?thesis using that i(1,2,8) o(1) by (simp add: nth_append)
  qed
  have ap: "appends (ba_adapter b) (concat (ess @ [es])) (ba_adapter b')" using appends_trans [OF i(3) o(2)] by simp
  have good: "(\<forall>h < Suc n. ba_good b' ! h) = ((\<forall>h < n. ba_good c ! h) \<and> ok)"
    using i(2) o(1) by (auto simp: nth_append less_Suc_eq)
  have all: "r \<or> ba_all b' = (ba_all b \<and> (\<forall>h < Suc n. ba_good b' ! h))" using i(9) o(7) unfolding good by blast
  show ?case
    using i(1-7) o(1,3,4,8,9) new ap all by (intro exI [of _ "ess @ [es]"]) simp
qed

definition commit_write :: "Row \<Rightarrow> Adapter \<Rightarrow> nat \<Rightarrow> nat \<times> double" where
  "commit_write row a h = (let g = ad_groups a ! h in (gr_command g + 5 * gr_axes g, dint (uint (ro_candidate_g row ! h))))"

lemma commit_group_spec:
  assumes "commit_group r h b = b'"
  shows "\<exists>es. appends (ba_adapter b) es (ba_adapter b') \<and> ba_good b' = ba_good b \<and>
    map written es = (if ba_good b ! h then [commit_write (ba_row b) (ba_adapter b) h] else []) \<and>
    row_core (ba_row b') = row_core (ba_row b) \<and> ro_reason (ba_row b') = ro_reason (ba_row b) \<and> (r \<longrightarrow> ba_row b' = ba_row b) \<and>
    (\<not> r \<longrightarrow> ro_commit_touched (ba_row b') =
      (if ba_good b ! h then ro_commit_touched (ba_row b) OR push_bit h 1 else ro_commit_touched (ba_row b))) \<and>
    (ba_all b' \<longrightarrow> ba_all b)"
proof (cases "ba_good b ! h")
  case False
  then have "b' = b" using assms by (simp add: commit_group_def)
  then show ?thesis using False by (intro exI [of _ "[]"]) simp
next
  case True
  let ?g = "ad_groups (ba_adapter b) ! h"
  let ?row = "if r then ba_row b else (ba_row b)\<lparr>ro_commit_touched := ro_commit_touched (ba_row b) OR push_bit h 1\<rparr>"
  have cand: "ro_candidate_g ?row = ro_candidate_g (ba_row b)" by simp
  obtain ok o1 a1 where w: "writeValue (gr_command ?g + 5 * gr_axes ?g) (dint (uint (ro_candidate_g (ba_row b) ! h))) (ba_out b, ba_adapter b) = (ok, o1, a1)"
    using prod_cases3 by blast
  obtain e where e: "appends (ba_adapter b) [e] a1" "written e = commit_write (ba_row b) (ba_adapter b) h"
    using writeValue_spec [OF w] by (auto simp: commit_write_def Let_def)
  have b': "b' = b\<lparr>ba_row := ?row, ba_all := ba_all b \<and> ok, ba_out := o1, ba_adapter := a1\<rparr>"
    using assms [unfolded commit_group_def Let_def cand w prod.case] True by simp
  show ?thesis using True e by (intro exI [of _ "[e]"]) (simp add: b' row_core_def)
qed

lemma commit_groups_spec:
  assumes "fold (commit_group r) hs b = b'"
  shows "\<exists>cs. appends (ba_adapter b) cs (ba_adapter b') \<and> ba_good b' = ba_good b \<and>
    map written cs = map (commit_write (ba_row b) (ba_adapter b)) (filter (\<lambda>h. ba_good b ! h) hs) \<and>
    row_core (ba_row b') = row_core (ba_row b) \<and> ro_reason (ba_row b') = ro_reason (ba_row b) \<and> (r \<longrightarrow> ba_row b' = ba_row b) \<and>
    (\<not> r \<longrightarrow> (\<forall>h. bit (ro_commit_touched (ba_row b)) h \<or> h \<in> set hs \<and> ba_good b ! h \<and> h < 8 \<longrightarrow> bit (ro_commit_touched (ba_row b')) h)) \<and>
    (ba_all b' \<longrightarrow> ba_all b)"
  using assms
proof (induction hs arbitrary: b)
  case Nil
  then show ?case by (intro exI [of _ "[]"]) simp
next
  case (Cons h hs)
  obtain c where c: "commit_group r h b = c" by simp
  obtain es where o: "appends (ba_adapter b) es (ba_adapter c)" "ba_good c = ba_good b"
    "map written es = (if ba_good b ! h then [commit_write (ba_row b) (ba_adapter b) h] else [])"
    "row_core (ba_row c) = row_core (ba_row b)" "ro_reason (ba_row c) = ro_reason (ba_row b)" "r \<longrightarrow> ba_row c = ba_row b"
    "\<not> r \<longrightarrow> ro_commit_touched (ba_row c) =
      (if ba_good b ! h then ro_commit_touched (ba_row b) OR push_bit h 1 else ro_commit_touched (ba_row b))" "ba_all c \<longrightarrow> ba_all b"
    using commit_group_spec [OF c] by blast
  obtain cs where i: "appends (ba_adapter c) cs (ba_adapter b')" "ba_good b' = ba_good c"
    "map written cs = map (commit_write (ba_row c) (ba_adapter c)) (filter (\<lambda>h. ba_good c ! h) hs)"
    "row_core (ba_row b') = row_core (ba_row c)" "ro_reason (ba_row b') = ro_reason (ba_row c)" "r \<longrightarrow> ba_row b' = ba_row c"
    "\<not> r \<longrightarrow> (\<forall>h. bit (ro_commit_touched (ba_row c)) h \<or> h \<in> set hs \<and> ba_good c ! h \<and> h < 8 \<longrightarrow> bit (ro_commit_touched (ba_row b')) h)"
    "ba_all b' \<longrightarrow> ba_all c"
    using Cons.IH [of c] Cons.prems c by (metis fold_simps(2))
  have cw: "commit_write (ba_row c) (ba_adapter c) = commit_write (ba_row b) (ba_adapter b)"
    using appends_fields(1) [OF o(1)] o(4) by (simp add: commit_write_def fun_eq_iff row_core_def)
  have t: "bit (ro_commit_touched (ba_row c)) k" if "\<not> r" "bit (ro_commit_touched (ba_row b)) k \<or> k = h \<and> ba_good b ! h \<and> h < 8" for k
    using that o(7) by (auto simp: bit_or_iff bit_exp_iff)
  have touched: "\<not> r \<longrightarrow> (\<forall>k. bit (ro_commit_touched (ba_row b)) k \<or> k \<in> set (h # hs) \<and> ba_good b ! k \<and> k < 8 \<longrightarrow> bit (ro_commit_touched (ba_row b')) k)"
    using i(7) t o(2) by (metis set_ConsD)
  have wr: "map written (es @ cs) = map (commit_write (ba_row b) (ba_adapter b)) (filter (\<lambda>h. ba_good b ! h) (h # hs))"
    using o(2,3) i(3) cw by simp
  show ?case using appends_trans [OF o(1) i(1)] o(2,4,5,6,8) i(2,4,5,6,8) wr touched by (intro exI [of _ "es @ cs"]) auto
qed

definition value_writes :: "bool \<Rightarrow> Row \<Rightarrow> Adapter \<Rightarrow> access list \<Rightarrow> bool" where
  "value_writes r row a es \<longleftrightarrow> (\<forall>e \<in> set es. \<exists>h < length (ad_groups a). written e \<in> set (group_writes r row a (ad_groups a ! h)))"

lemma staged_value_writes:
  assumes "length ess = length (ad_groups a)" and "\<forall>h < length (ad_groups a). staged r row a h (ess ! h) (good ! h)"
  shows "value_writes r row a (concat ess)"
  unfolding value_writes_def
proof
  fix e
  assume "e \<in> set (concat ess)"
  then obtain h where h: "h < length ess" "e \<in> set (ess ! h)" by (metis concat_eq_concat_iff UN_E in_set_conv_nth set_concat)
  then have "map written (ess ! h) = group_writes r row a (ad_groups a ! h)"
    using assms by (auto simp: staged_def)
  then have "written e \<in> set (group_writes r row a (ad_groups a ! h))" using h(2) by (metis image_eqI list.set_map)
  then show "\<exists>h < length (ad_groups a). written e \<in> set (group_writes r row a (ad_groups a ! h))" using h(1) assms(1) by auto
qed

text \<open>The regular batch: either it stops before any commit, or every value of every group was verified and then
  each group gets one commit, and is marked.\<close>

lemma writeBatch_normal:
  assumes "writeBatch False (row, a) = (ok, row', a')"
  shows "\<exists>es cs. appends a (es @ cs) a' \<and> value_writes False row a es \<and> row_core row' = row_core row \<and> ro_reason row' = ro_reason row \<and>
    (cs = [] \<and> \<not> ok \<and> ro_commit_touched row' = ro_commit_touched row \<or>
     map written es = concat (map (group_writes False row a) (ad_groups a)) \<and> list_all verified es \<and>
     map written cs = map (commit_write row a) [0..<length (ad_groups a)] \<and>
     (\<forall>h < length (ad_groups a). group_ok False h row a \<and> (h < 8 \<longrightarrow> bit (ro_commit_touched row') h)))"
proof -
  let ?n = "length (ad_groups a)" and ?b = "\<lparr>ba_row = row, ba_good = [], ba_all = True, ba_out = ro_normal row, ba_adapter = a\<rparr>"
  obtain b where b: "fold (stage_group False) [0..<?n] ?b = b" by simp
  obtain ess where i: "length ess = ?n" "length (ba_good b) = ?n" "appends a (concat ess) (ba_adapter b)" "ba_row b = row"
    "\<forall>h < ?n. staged False row a h (ess ! h) (ba_good b ! h)" "ba_all b = (\<forall>h < ?n. ba_good b ! h)"
    using stage_groups_spec [OF b] by auto
  have v: "value_writes False row a (concat ess)" using staged_value_writes i(1,5) by blast
  show ?thesis
  proof (cases "ba_all b")
    case False
    then have "(ok, row', a') = (False, (ba_row b)\<lparr>ro_normal := ba_out b\<rparr>, ba_adapter b)"
      using assms b by (simp add: writeBatch_def)
    then show ?thesis using i(3,4) v by (intro exI [of _ "concat ess"] exI [of _ "[]"]) (simp add: row_core_def)
  next
    case True
    obtain c where c: "fold (commit_group False) [0..<?n] b = c" by simp
    obtain cs where j: "appends (ba_adapter b) cs (ba_adapter c)"
      "map written cs = map (commit_write (ba_row b) (ba_adapter b)) (filter (\<lambda>h. ba_good b ! h) [0..<?n])"
      "row_core (ba_row c) = row_core (ba_row b)" "ro_reason (ba_row c) = ro_reason (ba_row b)"
      "\<forall>h. bit (ro_commit_touched (ba_row b)) h \<or> h \<in> set [0..<?n] \<and> ba_good b ! h \<and> h < 8 \<longrightarrow> bit (ro_commit_touched (ba_row c)) h"
      using commit_groups_spec [OF c] by auto
    have e: "(ok, row', a') = (ba_all c, (ba_row c)\<lparr>ro_normal := ba_out c\<rparr>, ba_adapter c)"
      using assms b c True by (simp add: writeBatch_def)
    have g: "\<forall>h < ?n. ba_good b ! h" using True i(6) by simp
    then have f: "filter (\<lambda>h. ba_good b ! h) [0..<?n] = [0..<?n]" by simp
    have cw: "commit_write (ba_row b) (ba_adapter b) = commit_write row a"
      using appends_fields(1) [OF i(3)] i(4) by (simp add: commit_write_def fun_eq_iff)
    have "map (map written) ess = map (group_writes False row a) (ad_groups a)"
      using i(1,5) g by (intro nth_equalityI) (auto simp: staged_def)
    then have w: "map written (concat ess) = concat (map (group_writes False row a) (ad_groups a))" by (simp add: map_concat)
    have ver: "list_all verified (concat ess)"
    proof -
      have "list_all verified x" if "x \<in> set ess" for x
        using that i(1,5) g by (metis in_set_conv_nth staged_def)
      then show ?thesis by (auto simp: list_all_iff)
    qed
    have ok: "\<forall>h < ?n. group_ok False h row a" using i(5) g by (simp add: staged_def)
    have core: "row_core row' = row_core row" "ro_reason row' = ro_reason row" "ro_commit_touched row' = ro_commit_touched (ba_row c)"
      using e j(3,4) i(4) by (simp_all add: row_core_def)
    show ?thesis
      using appends_trans [OF i(3) j(1)] v e core w ver ok j(2,5) g unfolding f cw
      by (intro exI [of _ "concat ess"] exI [of _ cs]) simp
  qed
qed

text \<open>The release batch: values and a commit only for groups that were not touched by a commit before.\<close>

lemma writeBatch_release:
  assumes "writeBatch True (row, a) = (ok, row', a')"
  shows "\<exists>es cs hs. appends a (es @ cs) a' \<and> value_writes True row a es \<and> map written cs = map (commit_write row a) hs \<and>
    distinct hs \<and> (\<forall>h \<in> set hs. h < length (ad_groups a) \<and> group_ok True h row a \<and> ro_commit_touched row AND push_bit h 1 = 0)"
proof -
  let ?n = "length (ad_groups a)" and ?b = "\<lparr>ba_row = row, ba_good = [], ba_all = True, ba_out = ro_release row, ba_adapter = a\<rparr>"
  obtain b where b: "fold (stage_group True) [0..<?n] ?b = b" by simp
  obtain ess where i: "length ess = ?n" "length (ba_good b) = ?n" "appends a (concat ess) (ba_adapter b)" "row_core (ba_row b) = row_core row"
    "\<forall>h < ?n. staged True row a h (ess ! h) (ba_good b ! h)"
    using stage_groups_spec [OF b] by auto
  obtain c where c: "fold (commit_group True) [0..<?n] b = c" by simp
  obtain cs where j: "appends (ba_adapter b) cs (ba_adapter c)"
    "map written cs = map (commit_write (ba_row b) (ba_adapter b)) (filter (\<lambda>h. ba_good b ! h) [0..<?n])"
    using commit_groups_spec [OF c] by auto
  have e: "a' = ba_adapter c" using assms b c by (simp add: writeBatch_def)
  have cw: "commit_write (ba_row b) (ba_adapter b) = commit_write row a"
    using appends_fields(1) [OF i(3)] i(4) by (simp add: commit_write_def fun_eq_iff row_core_def)
  have "\<forall>h \<in> set (filter (\<lambda>h. ba_good b ! h) [0..<?n]). h < ?n \<and> group_ok True h row a \<and> ro_commit_touched row AND push_bit h 1 = 0"
    using i(5) by (auto simp: staged_def)
  then show ?thesis
    using appends_trans [OF i(3) j(1)] staged_value_writes [OF i(1,5)] j(2) e unfolding cw
    by (intro exI [of _ "concat ess"] exI [of _ cs] exI [of _ "filter (\<lambda>h. ba_good b ! h) [0..<?n]"]) simp
qed

section \<open>What the checks leave alone\<close>

definition judged :: "Adapter \<Rightarrow> Group list \<times> Limits list \<times> access list \<times> string list \<times> bool \<times> bool \<times> bool" where
  "judged a = (ad_groups a, ad_limits a, ad_log a, ad_joints a, ad_terminal a, ad_active a, ad_activated_once a)"

definition stamps :: "Row \<Rightarrow> u64 list \<times> u8" where
  "stamps row = (ro_candidate_g row, ro_commit_touched row)"

lemma note_reason_stamps [simp]: "stamps (note_reason c r row) = stamps row"
  by (simp add: note_reason_def stamps_def)

lemma judge_velocity_keeps: "judge_velocity boot axis (row, a) = (row', a') \<Longrightarrow> judged a' = judged a \<and> stamps row' = stamps row"
  by (auto simp: judge_velocity_def Let_def judged_def stamps_def note_reason_def split: if_splits)

lemma judge_target_keeps: "judge_target boot axis p (row, a) = (t, row', a') \<Longrightarrow> judged a' = judged a \<and> stamps row' = stamps row"
  by (auto simp: judge_target_def Let_def judged_def stamps_def note_reason_def split: if_splits)

lemma update_axis_keeps:
  assumes "update_axis boot g i (row, a) = (row', a')"
  shows "judged a' = judged a \<and> stamps row' = stamps row"
proof -
  obtain r1 a1 where v: "judge_velocity boot (gr_first g + i) (row, a) = (r1, a1)" by fastforce
  obtain t r2 a2 where w: "judge_target boot (gr_first g + i) (ro_states row ! (gr_state g + 4 * i)) (r1, a1) = (t, r2, a2)"
    using prod_cases3 by blast
  have "judged a' = judged a2" "stamps row' = stamps r2"
    using assms [unfolded update_axis_def Let_def prod.case v w]
    by (auto simp: judged_def count_deviation_def Let_def stamps_def note_reason_def)
  then show ?thesis using judge_velocity_keeps [OF v] judge_target_keeps [OF w] by simp
qed

lemma judge_axes_keeps:
  "fold (update_axis boot g) is (row, a) = (row', a') \<Longrightarrow> judged a' = judged a \<and> stamps row' = stamps row"
proof (induction "is" arbitrary: row a)
  case (Cons i ixs)
  obtain r1 a1 where v: "update_axis boot g i (row, a) = (r1, a1)" by fastforce
  then show ?case using Cons.IH [of r1 a1] Cons.prems update_axis_keeps [OF v] by simp
qed simp

lemma judge_group_keeps:
  assumes "judge_group h (boot, row, a) = (boot', row', a')"
  shows "judged a' = judged a" and "stamps row' = ((ro_candidate_g row)[h := gr_generation (ad_groups a ! h) + 1], ro_commit_touched row)"
proof -
  let ?g = "ad_groups a ! h"
  let ?r = "row\<lparr>ro_previous_g := (ro_previous_g row)[h := gr_generation ?g], ro_candidate_g := (ro_candidate_g row)[h := gr_generation ?g + 1]\<rparr>"
  define r1 where "r1 = note_reason (kMaxGeneration < gr_generation ?g + 1) 11
    (if \<not> isfinite (ro_states row ! (gr_state ?g + 4 * gr_axes ?g)) \<or> \<not> deq (ro_states row ! (gr_state ?g + 4 * gr_axes ?g)) (dint (uint (gr_generation ?g)))
     then mark_missing h (?r\<lparr>ro_reason := 4\<rparr>) else ?r)"
  have r1: "stamps r1 = ((ro_candidate_g row)[h := gr_generation ?g + 1], ro_commit_touched row)"
    by (simp add: r1_def note_reason_def stamps_def mark_missing_def)
  have "fold (update_axis (boot \<or> gr_generation ?g = 0) ?g) [0..<gr_axes ?g] (r1, a) = (row', a')"
    using assms [unfolded judge_group_def Let_def prod.case, folded r1_def] by auto
  from judge_axes_keeps [OF this] r1 show "judged a' = judged a"
    and "stamps row' = ((ro_candidate_g row)[h := gr_generation ?g + 1], ro_commit_touched row)" by simp_all
qed

lemma judge_groups_keeps:
  assumes "fold judge_group [0..<n] (boot, row, a) = (boot', row', a')"
  shows "judged a' = judged a \<and> ro_commit_touched row' = ro_commit_touched row \<and> length (ro_candidate_g row') = length (ro_candidate_g row) \<and>
    (\<forall>h < min n (length (ro_candidate_g row)). ro_candidate_g row' ! h = gr_generation (ad_groups a ! h) + 1)"
  using assms
proof (induction n arbitrary: boot' row' a')
  case (Suc n)
  obtain b1 r1 a1 where v: "fold judge_group [0..<n] (boot, row, a) = (b1, r1, a1)" using prod_cases3 by blast
  then have w: "judge_group n (b1, r1, a1) = (boot', row', a')" using Suc.prems by simp
  have "ad_groups a1 = ad_groups a" using Suc.IH [OF v] by (simp add: judged_def)
  then show ?case using Suc.IH [OF v] judge_group_keeps [OF w] by (auto simp: stamps_def nth_list_update less_Suc_eq)
qed simp

lemma judge_update_keeps:
  assumes "judge_update values period a = (row, a')" and "length (ad_groups a) \<le> 4"
  shows "judged a' = judged a" and "ro_commit_touched row = 0"
    and "\<forall>h < length (ad_groups a). ro_candidate_g row ! h = gr_generation (ad_groups a ! h) + 1"
proof -
  let ?a = "a\<lparr>ad_cycle := ad_cycle a + 1\<rparr>" and ?n = "length (ad_state_keys a)"
  define r0 where "r0 = fold (read_state values) [0..<?n] (new_Row\<lparr>ro_activation := ad_activation a, ro_cycle := ad_cycle a + 1, ro_dt := period\<rparr>)"
  have rs: "stamps (fold (read_state values) ks r) = stamps r" for ks r
    by (induction ks arbitrary: r) (simp_all add: read_state_def stamps_def Let_def split: option.splits)
  have s0: "stamps r0 = (replicate 4 0, 0)" unfolding r0_def rs by (simp add: stamps_def new_Row_def Let_def)
  define r1 where "r1 = note_reason (\<not> isfinite period \<or> period \<le> dlit 0 \<or> ad_max_period a < period) 2
    (note_reason (ro_state_ok r0 \<noteq> push_bit ?n 1 - 1) 1 r0)"
  have s1: "ro_candidate_g r1 = replicate 4 0" "ro_commit_touched r1 = 0"
    using s0 by (simp_all add: r1_def note_reason_def stamps_def)
  obtain b r2 a2 where f: "fold judge_group [0..<length (ad_groups a)] (False, r1, ?a) = (b, r2, a2)" using prod_cases3 by blast
  have e: "row = r2" "a' = a2" using assms(1) f by (simp_all add: judge_update_def r0_def r1_def Let_def)
  have j: "judged ?a = judged a" by (simp add: judged_def)
  show "judged a' = judged a" "ro_commit_touched row = 0"
    "\<forall>h < length (ad_groups a). ro_candidate_g row ! h = gr_generation (ad_groups a ! h) + 1"
    using judge_groups_keeps [OF f] s1 j assms(2) by (simp_all add: e)
qed

lemma release_row_keeps [simp]: "stamps (release_row a row) = stamps row" "ro_states (release_row a row) = ro_states row"
proof -
  let ?f = "\<lambda>g i row. row\<lparr>ro_command := (ro_command row)[gr_first g + i := ro_states row ! (gr_state g + 4 * i)],
            ro_torque_limited := (ro_torque_limited row)[gr_first g + i := False]\<rparr>"
  have i: "stamps (fold (?f g) ks r) = stamps r \<and> ro_states (fold (?f g) ks r) = ro_states r" for g ks r
    by (induction ks arbitrary: r) (simp_all add: stamps_def)
  have "stamps (fold (\<lambda>g. fold (?f g) [0..<gr_axes g]) gs r) = stamps r \<and> ro_states (fold (\<lambda>g. fold (?f g) [0..<gr_axes g]) gs r) = ro_states r" for gs r
    by (induction gs arbitrary: r) (simp_all add: i)
  then have k: "stamps (fold (\<lambda>g. fold (?f g) [0..<gr_axes g]) (ad_groups a) row) = stamps row"
    "ro_states (fold (\<lambda>g. fold (?f g) [0..<gr_axes g]) (ad_groups a) row) = ro_states row" by blast+
  have "stamps (release_row a row) = stamps (fold (\<lambda>g. fold (?f g) [0..<gr_axes g]) (ad_groups a) row) \<and>
    ro_states (release_row a row) = ro_states (fold (\<lambda>g. fold (?f g) [0..<gr_axes g]) (ad_groups a) row)"
    by (simp add: release_row_def Let_def stamps_def)
  with k show "stamps (release_row a row) = stamps row" "ro_states (release_row a row) = ro_states row" by simp_all
qed

section \<open>Keys\<close>

text \<open>The keys of a group: five per axis, then its commit key; the groups follow one another.\<close>

definition commit_key :: "Group \<Rightarrow> nat" where
  "commit_key g = gr_command g + 5 * gr_axes g"

fun layout :: "nat \<Rightarrow> Group list \<Rightarrow> bool" where
  "layout k [] \<longleftrightarrow> True"
| "layout k (g # gs) \<longleftrightarrow> gr_command g = k \<and> layout (k + 5 * gr_axes g + 1) gs"

definition committed :: "nat \<Rightarrow> access list \<Rightarrow> double list" where
  "committed key es = map snd (filter (\<lambda>kv. fst kv = key) (map written es))"

lemma committed_append [simp]: "committed key (es @ fs) = committed key es @ committed key fs"
  by (simp add: committed_def)

lemma committed_Nil [simp]: "committed key [] = []"
  by (simp add: committed_def)

lemma layout_start: "layout k gs \<Longrightarrow> h < length gs \<Longrightarrow> k \<le> gr_command (gs ! h)"
proof (induction gs arbitrary: k h)
  case (Cons g gs)
  then show ?case
  proof (cases h)
    case (Suc j)
    then show ?thesis using Cons.IH [of "k + 5 * gr_axes g + 1" j] Cons.prems by simp
  qed simp
qed simp

lemma layout_order: "layout k gs \<Longrightarrow> i < j \<Longrightarrow> j < length gs \<Longrightarrow> commit_key (gs ! i) < gr_command (gs ! j)"
proof (induction gs arbitrary: k i j)
  case (Cons g gs)
  then obtain j' where j: "j = Suc j'" by (cases j) auto
  show ?case
  proof (cases i)
    case 0
    then show ?thesis using layout_start [of "k + 5 * gr_axes g + 1" gs j'] Cons.prems j by (simp add: commit_key_def)
  next
    case (Suc i')
    then show ?thesis using Cons.IH [of "k + 5 * gr_axes g + 1" i' j'] Cons.prems j by simp
  qed
qed simp

lemma commit_keys_distinct:
  assumes "layout k gs" and "i < length gs" and "j < length gs" and "commit_key (gs ! i) = commit_key (gs ! j)"
  shows "i = j"
proof (rule ccontr)
  assume "i \<noteq> j"
  then consider "i < j" | "j < i" by linarith
  then show False
    using layout_order [OF assms(1), of i j] layout_order [OF assms(1), of j i] assms by cases (auto simp: commit_key_def)
qed

lemma group_writes_keys: "kv \<in> set (group_writes r row a g) \<Longrightarrow> gr_command g \<le> fst kv \<and> fst kv < commit_key g"
  by (auto simp: group_writes_def axis_values_def Let_def commit_key_def set_zip)

lemma value_keys_not_commit:
  assumes "layout k gs" and "i < length gs" and "j < length gs" and "gr_command (gs ! i) \<le> x" and "x < commit_key (gs ! i)"
  shows "x \<noteq> commit_key (gs ! j)"
proof -
  consider "i = j" | "i < j" | "j < i" by linarith
  then show ?thesis
    using layout_order [OF assms(1), of i j] layout_order [OF assms(1), of j i] assms by cases (auto simp: commit_key_def)
qed

lemma value_writes_committed:
  assumes "value_writes r row a es" and "layout 0 (ad_groups a)" and "h < length (ad_groups a)"
  shows "committed (commit_key (ad_groups a ! h)) es = []"
proof -
  have "fst (written e) \<noteq> commit_key (ad_groups a ! h)" if e: "e \<in> set es" for e
  proof -
    obtain i where i: "i < length (ad_groups a)" "written e \<in> set (group_writes r row a (ad_groups a ! i))"
      using assms(1) e by (auto simp: value_writes_def)
    show ?thesis using value_keys_not_commit [OF assms(2) i(1) assms(3)] group_writes_keys [OF i(2)] by auto
  qed
  then show ?thesis by (auto simp: committed_def filter_empty_conv)
qed

lemma commit_writes_committed:
  assumes "layout 0 (ad_groups a)" and "h < length (ad_groups a)"
  shows "map written cs = map (commit_write row a) hs \<Longrightarrow> distinct hs \<Longrightarrow> (\<forall>i \<in> set hs. i < length (ad_groups a)) \<Longrightarrow>
    committed (commit_key (ad_groups a ! h)) cs = (if h \<in> set hs then [dint (uint (ro_candidate_g row ! h))] else [])"
proof (induction hs arbitrary: cs)
  case (Cons i hs)
  then obtain c ds where c: "cs = c # ds" "written c = commit_write row a i" "map written ds = map (commit_write row a) hs"
    by (cases cs) auto
  have "fst (commit_write row a i) = commit_key (ad_groups a ! h) \<longleftrightarrow> i = h"
    using commit_keys_distinct [OF assms(1), of i h] assms(2) Cons.prems(3)
    by (auto simp: commit_write_def commit_key_def Let_def)
  moreover have "committed (commit_key (ad_groups a ! h)) ds = (if h \<in> set hs then [dint (uint (ro_candidate_g row ! h))] else [])"
    using Cons.IH [OF c(3)] Cons.prems by simp
  ultimately show ?case using Cons.prems(2) c(1,2) by (auto simp: committed_def commit_write_def Let_def)
qed (simp add: committed_def)

lemma group_ok_candidate:
  assumes "group_ok r h row a"
  shows "ro_candidate_g row ! h \<noteq> 0" and "ro_candidate_g row ! h \<le> kMaxGeneration"
  using assms by (auto simp: group_ok_def Let_def)

section \<open>One update\<close>

text \<open>What one update does to the commit key of a group: nothing, or one write of the next generation, and only the
  latter if the controller goes on.\<close>

definition advances :: "Adapter \<Rightarrow> Adapter \<Rightarrow> access list \<Rightarrow> nat \<Rightarrow> bool" where
  "advances a a' es h \<longleftrightarrow>
     (let next_g = gr_generation (ad_groups a ! h) + 1; got = committed (commit_key (ad_groups a ! h)) es
      in (got = [] \<or> got = [dint (uint next_g)] \<and> next_g \<noteq> 0 \<and> next_g \<le> kMaxGeneration) \<and>
         (ad_terminal a' \<or> got = [dint (uint next_g)] \<and> gr_generation (ad_groups a' ! h) = next_g))"

lemma record_row_fields [simp]: "judged (record_row row a) = judged a"
  by (simp add: record_row_def judged_def Let_def)

lemma judged_fields:
  assumes "judged a = judged b"
  shows "ad_groups a = ad_groups b" "ad_limits a = ad_limits b" "ad_log a = ad_log b" "ad_joints a = ad_joints b"
    "ad_terminal a = ad_terminal b" "ad_active a = ad_active b" "ad_activated_once a = ad_activated_once b"
  using assms by (simp_all add: judged_def)

definition shape :: "Group list \<Rightarrow> Group list" where
  "shape gs = map (\<lambda>g. g\<lparr>gr_generation := 0\<rparr>) gs"

lemma shape_same:
  assumes "shape gs = shape hs"
  shows "length gs = length hs" and "h < length gs \<Longrightarrow> commit_key (gs ! h) = commit_key (hs ! h)" and "layout k gs = layout k hs"
proof -
  show l: "length gs = length hs" using arg_cong [OF assms, of length] by (simp add: shape_def)
  have "(gs ! h)\<lparr>gr_generation := 0\<rparr> = (hs ! h)\<lparr>gr_generation := 0\<rparr>" if "h < length gs" for h
    using arg_cong [OF assms, of "\<lambda>xs. xs ! h"] that l by (simp add: shape_def)
  then have f: "gr_command (gs ! h) = gr_command (hs ! h) \<and> gr_axes (gs ! h) = gr_axes (hs ! h)" if "h < length gs" for h
    using that by (metis Group.ext_inject Group.surjective Group.update_convs(5))
  then show "h < length gs \<Longrightarrow> commit_key (gs ! h) = commit_key (hs ! h)" by (simp add: commit_key_def)
  have "layout k gs = layout k hs"
    if "length gs = length hs" "\<forall>h < length gs. gr_command (gs ! h) = gr_command (hs ! h) \<and> gr_axes (gs ! h) = gr_axes (hs ! h)" for gs hs k
    using that
  proof (induction gs hs arbitrary: k rule: list_induct2)
    case (Cons x xs y ys)
    then show ?case by (metis (no_types, lifting) Suc_less_eq layout.simps(2) length_Cons nth_Cons_0 nth_Cons_Suc zero_less_Suc)
  qed simp
  then show "layout k gs = layout k hs" using l f by blast
qed

text \<open>The failure branch: whatever the regular batch did, the release commits only untouched groups.\<close>

lemma release_update:
  assumes "writeBatch True (release_row b row, b\<lparr>ad_terminal := True\<rparr>) = (d, row2, c)" and "layout 0 (ad_groups b)"
    and "\<forall>h < length (ad_groups b). ro_candidate_g row ! h = gr_generation (ad_groups b ! h) + 1"
  shows "\<exists>es. ad_log c = ad_log b @ es \<and> ad_groups c = ad_groups b \<and> ad_activated_once c = ad_activated_once b \<and> ad_terminal c \<and>
    (\<forall>h < length (ad_groups b). committed (commit_key (ad_groups b ! h)) es = [] \<or>
       (ro_commit_touched row AND push_bit h 1 = 0 \<and> committed (commit_key (ad_groups b ! h)) es = [dint (uint (ro_candidate_g row ! h))] \<and>
        ro_candidate_g row ! h \<noteq> 0 \<and> ro_candidate_g row ! h \<le> kMaxGeneration))"
proof -
  let ?b = "b\<lparr>ad_terminal := True\<rparr>" and ?row = "release_row b row"
  have st: "ro_candidate_g ?row = ro_candidate_g row" "ro_commit_touched ?row = ro_commit_touched row"
    using release_row_keeps(1) [of b row] by (simp_all add: stamps_def)
  obtain es cs hs where w: "appends ?b (es @ cs) c" "value_writes True ?row ?b es" "map written cs = map (commit_write ?row ?b) hs"
    "distinct hs" "\<forall>h \<in> set hs. h < length (ad_groups ?b) \<and> group_ok True h ?row ?b \<and> ro_commit_touched ?row AND push_bit h 1 = 0"
    using writeBatch_release [OF assms(1)] by blast
  have q: "quiet c = quiet ?b" and l: "ad_log c = ad_log b @ es @ cs" using w(1) by (simp_all add: appends_def)
  have "committed (commit_key (ad_groups b ! h)) (es @ cs) = [] \<or>
       (ro_commit_touched row AND push_bit h 1 = 0 \<and> committed (commit_key (ad_groups b ! h)) (es @ cs) = [dint (uint (ro_candidate_g row ! h))] \<and>
        ro_candidate_g row ! h \<noteq> 0 \<and> ro_candidate_g row ! h \<le> kMaxGeneration)" if h: "h < length (ad_groups b)" for h
  proof -
    have "committed (commit_key (ad_groups b ! h)) es = []" using value_writes_committed [OF w(2), of h] assms(2) h by simp
    moreover have "committed (commit_key (ad_groups b ! h)) cs = (if h \<in> set hs then [dint (uint (ro_candidate_g row ! h))] else [])"
      using commit_writes_committed [of ?b h cs ?row hs] w(3,4,5) assms(2) h st(1) by simp
    moreover have "h \<in> set hs \<Longrightarrow> ro_candidate_g row ! h \<noteq> 0 \<and> ro_candidate_g row ! h \<le> kMaxGeneration \<and> ro_commit_touched row AND push_bit h 1 = 0"
      using w(5) group_ok_candidate [of True h ?row ?b] st by auto
    ultimately show ?thesis by simp
  qed
  then show ?thesis using l quiet_fields [OF q] by (intro exI [of _ "es @ cs"]) simp
qed

lemma bit_touched: "h < 8 \<Longrightarrow> bit w h \<Longrightarrow> w AND push_bit h 1 \<noteq> 0" for w :: u8
  by (simp add: and_exp_eq_0_iff_not_bit)

lemma update_spec:
  assumes "update_and_write_commands values period a = (ret, a')" and "ad_active a" and "\<not> ad_terminal a"
    and "layout 0 (ad_groups a)" and "length (ad_groups a) \<le> 4"
  shows "\<exists>es. ad_log a' = ad_log a @ es \<and> shape (ad_groups a') = shape (ad_groups a) \<and> ad_activated_once a' = ad_activated_once a \<and>
    (\<forall>h < length (ad_groups a). advances a a' es h) \<and> (ret = ERROR \<longrightarrow> ad_terminal a')"
proof -
  let ?n = "length (ad_groups a)"
  obtain row a1 where j: "judge_update values period a = (row, a1)" by fastforce
  note k = judge_update_keeps [OF j assms(5)] and kf = judged_fields [OF judge_update_keeps(1) [OF j assms(5)]]
  note eq = assms(1) [unfolded update_and_write_commands_def Let_def j prod.case]
  have live: "\<not> (ad_terminal a \<or> \<not> ad_active a)" using assms(2,3) by simp
  note eq1 = eq [unfolded if_not_P [OF live]]
  show ?thesis
  proof (cases "ro_reason row = 11")
    case True
    then have "(ret, a') = (OK, record_row row (a1\<lparr>ad_terminal := True\<rparr>))" using eq1 by simp
    then have "judged a' = judged (a1\<lparr>ad_terminal := True\<rparr>)" "ret = OK" by simp_all
    with judged_fields [OF this(1)] kf show ?thesis by (intro exI [of _ "[]"]) (simp add: advances_def)
  next
    case False
    obtain ok r2 a2 where b: "(if ro_reason row = 0 then writeBatch False (row, a1) else (True, row, a1)) = (ok, r2, a2)"
      using prod_cases3 by blast
    define r3 where "r3 = note_reason (\<not> ok) 10 r2"
    note eq2 = eq1 [unfolded if_not_P [OF False] b prod.case, folded r3_def]
    have normal: "\<exists>es cs. appends a1 (es @ cs) a2 \<and> value_writes False row a1 es \<and> ro_candidate_g r2 = ro_candidate_g row \<and>
        (cs = [] \<and> ro_commit_touched r2 = 0 \<and> (ok \<longrightarrow> ro_reason row \<noteq> 0 \<and> r2 = row) \<or>
         map written cs = map (commit_write row a1) [0..<?n] \<and>
         (\<forall>h < ?n. group_ok False h row a1 \<and> bit (ro_commit_touched r2) h))"
    proof (cases "ro_reason row = 0")
      case True
      then obtain es cs where w: "appends a1 (es @ cs) a2" "value_writes False row a1 es" "row_core r2 = row_core row"
        "cs = [] \<and> \<not> ok \<and> ro_commit_touched r2 = ro_commit_touched row \<or>
         map written cs = map (commit_write row a1) [0..<?n] \<and> (\<forall>h < ?n. group_ok False h row a1 \<and> (h < 8 \<longrightarrow> bit (ro_commit_touched r2) h))"
        using writeBatch_normal [of row a1 ok r2 a2] b kf(1) by auto
      then show ?thesis using k(2) assms(5) by (intro exI [of _ es] exI [of _ cs]) (auto simp: row_core_def)
    next
      case False
      then have "ok" "r2 = row" "a2 = a1" using b by simp_all
      then show ?thesis using False k(2) by (intro exI [of _ "[]"]) (simp add: value_writes_def)
    qed
    then obtain es cs where w: "appends a1 (es @ cs) a2" "value_writes False row a1 es" "ro_candidate_g r2 = ro_candidate_g row"
      "cs = [] \<and> ro_commit_touched r2 = 0 \<and> (ok \<longrightarrow> ro_reason row \<noteq> 0 \<and> r2 = row) \<or>
       map written cs = map (commit_write row a1) [0..<?n] \<and> (\<forall>h < ?n. group_ok False h row a1 \<and> bit (ro_commit_touched r2) h)" by blast
    have q2: "quiet a2 = quiet a1" and l2: "ad_log a2 = ad_log a @ es @ cs" using w(1) kf(3) by (simp_all add: appends_def)
    note q2f = quiet_fields [OF q2]
    have cand: "\<forall>h < ?n. ro_candidate_g row ! h = gr_generation (ad_groups a ! h) + 1" using k(3) .
    have ces: "committed (commit_key (ad_groups a ! h)) es = []" if "h < ?n" for h
      using value_writes_committed [OF w(2), of h] assms(4) that kf(1) by simp
    have ccs: "committed (commit_key (ad_groups a ! h)) cs = [dint (uint (gr_generation (ad_groups a ! h) + 1))]"
      if "h < ?n" "map written cs = map (commit_write row a1) [0..<?n]" for h
      using commit_writes_committed [of a1 h cs row "[0..<?n]"] that assms(4) cand kf(1) by simp
    have r3: "ro_candidate_g r3 = ro_candidate_g row" "ro_commit_touched r3 = ro_commit_touched r2"
      using w(3) by (simp_all add: r3_def note_reason_def)
    show ?thesis
    proof (cases "ro_reason r3 = 0")
      case True
      define a3 where "a3 = a2\<lparr>ad_groups := map (\<lambda>h. (ad_groups a2 ! h)\<lparr>gr_generation := ro_candidate_g r3 ! h\<rparr>) [0..<length (ad_groups a2)],
          ad_previous := take (length (ad_joints a2)) (ro_target r3) @ drop (length (ad_joints a2)) (ad_previous a2)\<rparr>"
      have e: "(ret, a') = (OK, record_row r3 a3)" using eq2 True by (simp add: a3_def)
      then have f: "ad_groups a' = ad_groups a3" "ad_log a' = ad_log a2" "ad_activated_once a' = ad_activated_once a2" "ret = OK"
        using judged_fields [of a' a3] by (simp_all add: a3_def)
      have okr: "ok" "ro_reason r2 = 0" using True by (auto simp: r3_def note_reason_def split: if_splits)
      then have c: "map written cs = map (commit_write row a1) [0..<?n]" "\<forall>h < ?n. group_ok False h row a1" using w(4) by auto
      have g: "ad_groups a' ! h = (ad_groups a ! h)\<lparr>gr_generation := gr_generation (ad_groups a ! h) + 1\<rparr>" if "h < ?n" for h
        using that f(1) q2f(1) kf(1) r3(1) cand by (simp add: a3_def)
      have len: "length (ad_groups a') = ?n" using f(1) q2f(1) kf(1) by (simp add: a3_def)
      then have sh: "shape (ad_groups a') = shape (ad_groups a)"
        using g by (intro nth_equalityI) (simp_all add: shape_def)
      have "advances a a' (es @ cs) h" if "h < ?n" for h
        using ces [OF that] ccs [OF that c(1)] g [OF that] group_ok_candidate [of False h row a1] c(2) cand that
        by (simp add: advances_def)
      then show ?thesis using f l2 sh q2f(6) kf(7) by (intro exI [of _ "es @ cs"]) simp
    next
      case False
      obtain d r4 c where rel: "writeBatch True (release_row a2 r3, a2\<lparr>ad_terminal := True\<rparr>) = (d, r4, c)"
        using prod_cases3 by blast
      have e: "(ret, a') = (ERROR, record_row r4 c)" using eq2 False rel
        by (simp add: release_row_def)
      have gs: "ad_groups a2 = ad_groups a" using q2f(1) kf(1) by simp
      obtain fs where rl: "ad_log c = ad_log a2 @ fs" "ad_groups c = ad_groups a2" "ad_activated_once c = ad_activated_once a2" "ad_terminal c"
        "\<forall>h < ?n. committed (commit_key (ad_groups a ! h)) fs = [] \<or>
          (ro_commit_touched r3 AND push_bit h 1 = 0 \<and> committed (commit_key (ad_groups a ! h)) fs = [dint (uint (ro_candidate_g r3 ! h))] \<and>
          ro_candidate_g r3 ! h \<noteq> 0 \<and> ro_candidate_g r3 ! h \<le> kMaxGeneration)"
        using release_update [OF rel] assms(4) cand r3(1) unfolding gs by auto
      have f: "ad_groups a' = ad_groups a" "ad_log a' = ad_log a @ es @ cs @ fs" "ad_activated_once a' = ad_activated_once a" "ad_terminal a'"
        using e rl judged_fields [of a' c] gs l2 q2f(6) kf(7) by simp_all
      have "advances a a' (es @ cs @ fs) h" if h: "h < ?n" for h
      proof -
        have n: "ro_candidate_g r3 ! h = gr_generation (ad_groups a ! h) + 1" using cand r3(1) h by simp
        consider "cs = []" | "map written cs = map (commit_write row a1) [0..<?n]" "group_ok False h row a1" "bit (ro_commit_touched r3) h"
          using w(4) h r3(2) by auto
        then show ?thesis
        proof cases
          case 1
          then show ?thesis using rl(5) h ces [OF h] n f(4) by (auto simp: advances_def Let_def)
        next
          case 2
          then have "committed (commit_key (ad_groups a ! h)) fs = []"
            using rl(5) h bit_touched [of h "ro_commit_touched r3"] assms(5) by auto
          then show ?thesis using ces [OF h] ccs [OF h 2(1)] group_ok_candidate [OF 2(2)] cand h f(4) by (simp add: advances_def Let_def)
        qed
      qed
      then show ?thesis using f by (intro exI [of _ "es @ cs @ fs"]) simp
    qed
  qed
qed

section \<open>Life of the controller\<close>

text \<open>The calls of the framework and of the controller that supplies references.\<close>

datatype AdapterCall = Configure AdapterParameters | Activate "(string \<times> string) list" "(string \<times> string) list" "nat \<Rightarrow> double option"
  | Reference nat double | Update "nat \<Rightarrow> double option" double | Deactivate

fun adapter_call :: "AdapterCall \<Rightarrow> Adapter \<Rightarrow> Adapter" where
  "adapter_call (Configure p) a = snd (adapter_on_configure p a)"
| "adapter_call (Activate commands states values) a = snd (adapter_on_activate commands states values a)"
| "adapter_call (Reference i v) a = a\<lparr>ad_references := (ad_references a)[i := v]\<rparr>"
| "adapter_call (Update values period) a = snd (update_and_write_commands values period a)"
| "adapter_call Deactivate a = snd (adapter_on_deactivate a)"

interpretation adapter_latch: quiet_latch adapter_call "\<lambda>a. ad_activated_once a \<and> (ad_terminal a \<or> \<not> ad_active a)" ad_log "\<lambda>_. False"
proof (unfold_locales, goal_cases)
  case (1 a k)
  then show ?case by (cases k) (auto simp: adapter_on_configure_def adapter_on_activate_def update_and_write_commands_def adapter_on_deactivate_def)
next
  case (2 a k)
  then show ?case by (cases k)
    (auto simp: adapter_on_configure_def adapter_on_activate_def update_and_write_commands_def adapter_on_deactivate_def intro!: exI [of _ "[]"])
qed

definition generations :: "nat \<Rightarrow> double list" where
  "generations n = map (\<lambda>i. dint (int i)) [1..<Suc n]"

definition adapter_inv :: "Adapter \<Rightarrow> bool" where
  "adapter_inv a \<longleftrightarrow> ad_activated_once a \<and> layout 0 (ad_groups a) \<and> length (ad_groups a) \<le> 4 \<and>
     (\<forall>h < length (ad_groups a). \<exists>n. committed (commit_key (ad_groups a ! h)) (ad_log a) = generations n \<and> n \<le> unat kMaxGeneration \<and>
        (ad_terminal a \<or> \<not> ad_active a \<or> n = unat (gr_generation (ad_groups a ! h))))"

lemma adapter_update_inv:
  assumes "adapter_inv a"
  shows "adapter_inv (snd (update_and_write_commands values period a))"
proof (cases "ad_terminal a \<or> \<not> ad_active a")
  case True
  then show ?thesis using assms by (simp add: update_and_write_commands_def)
next
  case False
  obtain ret a' where u: "update_and_write_commands values period a = (ret, a')" by fastforce
  have inv: "layout 0 (ad_groups a)" "length (ad_groups a) \<le> 4" using assms by (simp_all add: adapter_inv_def)
  obtain es where s: "ad_log a' = ad_log a @ es" "shape (ad_groups a') = shape (ad_groups a)" "ad_activated_once a' = ad_activated_once a"
    "\<forall>h < length (ad_groups a). advances a a' es h"
    using update_spec [OF u _ _ inv] False by blast
  note sh = shape_same [OF s(2)]
  have "\<exists>n. committed (commit_key (ad_groups a' ! h)) (ad_log a') = generations n \<and> n \<le> unat kMaxGeneration \<and>
      (ad_terminal a' \<or> \<not> ad_active a' \<or> n = unat (gr_generation (ad_groups a' ! h)))" if h: "h < length (ad_groups a)" for h
  proof -
    let ?g = "gr_generation (ad_groups a ! h)" and ?key = "commit_key (ad_groups a ! h)"
    have old: "committed ?key (ad_log a) = generations (unat ?g)" "unat ?g \<le> unat kMaxGeneration"
      using assms h False by (auto simp: adapter_inv_def)
    have lg: "committed (commit_key (ad_groups a' ! h)) (ad_log a') = committed ?key (ad_log a) @ committed ?key es"
      using sh(2) [of h] sh(1) h s(1) by simp
    have adv: "advances a a' es h" using s(4) h by simp
    show ?thesis
    proof (cases "committed ?key es = []")
      case True
      then have "ad_terminal a'" using adv by (auto simp: advances_def Let_def)
      then show ?thesis using lg old True by auto
    next
      case False
      then have e: "committed ?key es = [dint (uint (?g + 1))]" "?g + 1 \<noteq> 0" "?g + 1 \<le> kMaxGeneration"
        "ad_terminal a' \<or> gr_generation (ad_groups a' ! h) = ?g + 1"
        using adv by (auto simp: advances_def Let_def)
      have u: "unat (?g + 1) = Suc (unat ?g)" using e(2) by (simp add: unatSuc add.commute)
      then have "committed ?key es = [dint (int (Suc (unat ?g)))]" using e(1) by (simp add: uint_nat del: of_nat_Suc)
      then have "committed (commit_key (ad_groups a' ! h)) (ad_log a') = generations (Suc (unat ?g))"
        using lg old(1) by (simp add: generations_def)
      moreover have "Suc (unat ?g) \<le> unat kMaxGeneration" using e(3) u by (simp add: word_le_nat_alt)
      ultimately show ?thesis using e(4) u by (intro exI [of _ "Suc (unat ?g)"]) auto
    qed
  qed
  then show ?thesis using assms s(3) sh(1,3) u by (simp add: adapter_inv_def)
qed

lemma adapter_call_inv:
  assumes "adapter_inv a"
  shows "adapter_inv (adapter_call k a)"
proof (cases k)
  case (Update vs period)
  then show ?thesis using adapter_update_inv [OF assms] by simp
qed (use assms in \<open>auto simp: adapter_inv_def adapter_on_configure_def adapter_on_activate_def adapter_on_deactivate_def\<close>)

lemma adapter_run_inv: "adapter_inv a \<Longrightarrow> adapter_inv (fold adapter_call ks a)"
  by (induction ks arbitrary: a) (auto simp: adapter_call_inv)

text \<open>A configuration lays the groups out one after the other.\<close>

lemma layout_snoc: "layout k (gs @ [g]) \<longleftrightarrow> layout k gs \<and> gr_command g = k + sum_list (map (\<lambda>g. 5 * gr_axes g + 1) gs)"
  by (induction gs arbitrary: k) auto

lemma field_keys_length: "length (concat (map (\<lambda>j. map (\<lambda>f. j @ ''/'' @ f) command_fields) js)) = 5 * length js"
  by (induction js) (simp_all add: command_fields_def)

lemma configure_groups_layout:
  assumes "configure_groups p ns a = Some b" and "layout 0 (ad_groups a)"
    and "length (ad_command_keys a) = sum_list (map (\<lambda>g. 5 * gr_axes g + 1) (ad_groups a))"
  shows "layout 0 (ad_groups b) \<and> length (ad_groups b) = length (ad_groups a) + length ns \<and> ad_activated_once b = ad_activated_once a \<and> ad_log b = ad_log a"
  using assms
proof (induction ns arbitrary: a)
  case (Cons n ns)
  obtain c where c: "configure_group p n a = Some c" using Cons.prems(1) by (auto split: option.splits)
  let ?js = "gp_joints (ap_group p n)"
  have g: "\<exists>g. ad_groups c = ad_groups a @ [g] \<and> gr_command g = length (ad_command_keys a) \<and> gr_axes g = length ?js"
    and f: "length (ad_command_keys c) = length (ad_command_keys a) + 5 * length ?js + 1" "ad_activated_once c = ad_activated_once a" "ad_log c = ad_log a"
    using c by (auto simp: configure_group_def Let_def field_keys_length [of ?js, simplified] split: if_splits)
  from g obtain g where "ad_groups c = ad_groups a @ [g]" "gr_command g = length (ad_command_keys a)" "gr_axes g = length ?js" by blast
  with f Cons.prems Cons.IH [of c] c show ?case by (simp add: layout_snoc)
qed simp

lemma configured_activated:
  assumes "adapter_on_configure p a0 = (SUCCESS, a1)" and "adapter_on_activate commands states values a1 = (SUCCESS, a2)" and "ad_log a0 = []"
  shows "adapter_inv a2"
proof -
  let ?s = "\<lambda>v. a0\<lparr>ad_velocity_feedforward := v, ad_joints := [], ad_command_keys := [], ad_state_keys := [], ad_groups := []\<rparr>"
  obtain v b where b: "configure_groups p (ap_hardware_groups p) (?s v) = Some b" "length (ap_hardware_groups p) \<le> 4"
    "ad_groups a1 = ad_groups b" "ad_log a1 = ad_log b"
    using assms(1) by (auto simp: adapter_on_configure_def Let_def split: option.splits if_splits)
  have l: "layout 0 (ad_groups a1)" "length (ad_groups a1) \<le> 4" "ad_log a1 = []"
    using configure_groups_layout [OF b(1)] b(2,3,4) assms(3) by auto
  have a2: "ad_groups a2 = shape (ad_groups a1)" "ad_log a2 = ad_log a1" "ad_activated_once a2"
    using assms(2) by (auto simp: adapter_on_activate_def bind_keys_def shape_def Let_def split: option.splits if_splits)
  have "shape (shape gs) = shape gs" for gs by (simp add: shape_def)
  then have "layout 0 (ad_groups a2)" using l(1) shape_same(3) [of "ad_groups a2" "ad_groups a1"] a2(1) by simp
  moreover have "gr_generation (ad_groups a2 ! h) = 0" if "h < length (ad_groups a2)" for h using that a2(1) by (simp add: shape_def)
  ultimately show ?thesis using a2 l(2,3) by (auto simp: adapter_inv_def shape_def generations_def intro!: exI [of _ 0])
qed

text \<open>Property C7: from configuration and activation on, whatever references arrive, whatever
  the states read, however writes and read-backs of the handles fail, and in whatever order updates, deactivation and
  repeated configuration or activation come, the values written to the commit key of each group are 1, 2, 3, ...
  without gap or repetition, up to the exact limit, also across the release batch after a failure.\<close>

theorem adapter_generations_consecutive:
  assumes "adapter_on_configure p a0 = (SUCCESS, a1)" and "adapter_on_activate commands states values a1 = (SUCCESS, a2)"
    and "ad_log a0 = []" and "h < length (ad_groups (fold adapter_call calls a2))"
  shows "\<exists>n. committed (commit_key (ad_groups (fold adapter_call calls a2) ! h)) (ad_log (fold adapter_call calls a2)) =
      map (\<lambda>i. dint (int i)) [1..<Suc n] \<and> n \<le> unat kMaxGeneration"
  using adapter_run_inv [OF configured_activated [OF assms(1-3)], of calls] assms(4)
  unfolding generations_def [symmetric] adapter_inv_def by blast

text \<open>Property C19: a regular batch commits a group only after every value of every group was stored
  and read back unchanged; otherwise it writes no commit key at all and reports failure.\<close>

theorem commit_after_verified:
  assumes "writeBatch False (row, a) = (ok, row', a')" and "layout 0 (ad_groups a)"
  shows "\<exists>es cs. ad_log a' = ad_log a @ es @ cs \<and> (\<forall>h < length (ad_groups a). committed (commit_key (ad_groups a ! h)) es = []) \<and>
    (cs = [] \<and> \<not> ok \<or>
     map written es = concat (map (group_writes False row a) (ad_groups a)) \<and> list_all verified es \<and>
     map written cs = map (commit_write row a) [0..<length (ad_groups a)])"
proof -
  obtain es cs where w: "appends a (es @ cs) a'" "value_writes False row a es"
    "cs = [] \<and> \<not> ok \<or> map written es = concat (map (group_writes False row a) (ad_groups a)) \<and> list_all verified es \<and>
     map written cs = map (commit_write row a) [0..<length (ad_groups a)]"
    using writeBatch_normal [OF assms(1)] by blast
  then show ?thesis using value_writes_committed [OF w(2) assms(2)] by (auto simp: appends_def)
qed

section \<open>A concrete controller\<close>

definition sample_limits :: Limits where
  "sample_limits = \<lparr>li_position_min = Fin (-1), li_position_max = Fin 1, li_velocity = Fin 2, li_kp = Fin 10, li_kd = Fin 1, li_kp_max = Fin 50,
     li_kd_max = Fin 5, li_delta = Fin 1, li_torque = Fin 5, li_deviation = Fin 1, li_temperature = Fin 80, li_cycles = 0\<rparr>"

definition sample_parameters :: AdapterParameters where
  "sample_parameters = \<lparr>ap_velocity_feedforward = Some False, ap_hardware_groups = [''leg''],
     ap_group = (\<lambda>_. \<lparr>gp_joints = [''hip'', ''knee''], gp_hardware_name = ''leg'', gp_gpio = ''pair''\<rparr>),
     ap_joint = (\<lambda>_. \<lparr>jp_limits = sample_limits, jp_deviation_cycles = 3\<rparr>), ap_max_period_sec = rnd (5 / 1000), ap_record_seconds = Fin 0,
     ap_output_dir = [], ap_api_max_tries = 1\<rparr>"

definition new_Adapter :: Adapter where
  "new_Adapter = \<lparr>ad_joints = [], ad_command_keys = [], ad_state_keys = [], ad_groups = [], ad_limits = [], ad_command_index = [],
     ad_state_index = [], ad_boot = replicate 12 0, ad_previous = replicate 12 0, ad_seen_reference = replicate 12 False,
     ad_seen_velocity = replicate 12 False, ad_velocity_feedforward = False, ad_deviation_count = replicate 12 0, ad_references = [],
     ad_rows = [], ad_capacity = 0, ad_final = new_Row, ad_activation = 0, ad_cycle = 0, ad_dropped = 0, ad_activated_once = False,
     ad_active = False, ad_terminal = False, ad_max_period = rnd (5 / 1000), ad_directory = [], ad_io = [], ad_log = []\<rparr>"

definition sample_commands :: "(string \<times> string) list" where
  "sample_commands = map (\<lambda>k. (k, ''double'')) [''hip/position'', ''hip/velocity'', ''hip/kp'', ''hip/kd'', ''hip/effort'',
     ''knee/position'', ''knee/velocity'', ''knee/kp'', ''knee/kd'', ''knee/effort'', ''pair/commit_generation'']"

definition sample_states :: "(string \<times> string) list" where
  "sample_states = map (\<lambda>k. (k, ''double'')) [''hip/position'', ''hip/velocity'', ''hip/effort'', ''hip/temperature'',
     ''knee/position'', ''knee/velocity'', ''knee/effort'', ''knee/temperature'', ''pair/accepted_generation'']"

lemma period_positive: "isfinite (rnd (5 / 1000)) \<and> \<not> rnd (5 / 1000) \<le> Fin 0 \<and> \<not> rnd (5 / 1000) < rnd (5 / 1000)"
proof -
  have "rnd (1 / 2 ^ 8) \<le> rnd (5 / 1000)" "rnd (5 / 1000) \<le> rnd 1" by (intro rnd_mono; simp)+
  moreover have "rnd (1 / 2 ^ 8) = Fin (1 / 2 ^ 8)" using rnd_half_power [of 1 8] by simp
  ultimately show ?thesis by (cases "rnd (5 / 1000)") auto
qed

definition sample_adapter :: Adapter where
  "sample_adapter = new_Adapter\<lparr>ad_joints := [''hip'', ''knee''], ad_command_keys := map fst sample_commands, ad_state_keys := map fst sample_states,
     ad_groups := [\<lparr>gr_first = 0, gr_axes = 2, gr_command = 0, gr_state = 0, gr_generation = 0, gr_gpio = ''pair'', gr_name = ''leg''\<rparr>],
     ad_limits := [sample_limits\<lparr>li_cycles := 3\<rparr>, sample_limits\<lparr>li_cycles := 3\<rparr>], ad_references := [NaN, NaN]\<rparr>"

lemma sample_configured: "adapter_on_configure sample_parameters new_Adapter = (SUCCESS, sample_adapter)"
proof -
  have l: "configure_limits sample_parameters j = Some (sample_limits\<lparr>li_cycles := 3\<rparr>)" for j
    by (simp add: configure_limits_def sample_parameters_def sample_limits_def)
  have z: "Fin 0 * dlit 1000 = Fin 0" by simp
  have g: "configure_groups sample_parameters [''leg''] (new_Adapter\<lparr>ad_velocity_feedforward := False, ad_joints := [],
      ad_command_keys := [], ad_state_keys := [], ad_groups := []\<rparr>) = Some (sample_adapter\<lparr>ad_limits := [], ad_references := []\<rparr>)"
    by (simp add: configure_group_def sample_parameters_def new_Adapter_def sample_adapter_def sample_commands_def sample_states_def
        command_fields_def state_fields_def)
  show ?thesis
    using period_positive g l z
    by (simp add: adapter_on_configure_def sample_parameters_def [THEN arg_cong, of ap_hardware_groups]
        sample_parameters_def [THEN arg_cong, of ap_velocity_feedforward] sample_parameters_def [THEN arg_cong, of ap_record_seconds]
        sample_parameters_def [THEN arg_cong, of ap_max_period_sec] sample_parameters_def [THEN arg_cong, of ap_api_max_tries]
        sample_parameters_def [THEN arg_cong, of ap_output_dir] sample_adapter_def new_Adapter_def rat_trunc_def Let_def)
qed

definition sample_values :: "nat \<Rightarrow> double option" where
  "sample_values k = Some (Fin 0)"

lemma sample_activated: "fst (adapter_on_activate sample_commands sample_states sample_values sample_adapter) = SUCCESS"
proof -
  have b: "bind_keys sample_commands sample_states (sample_adapter\<lparr>ad_activated_once := True\<rparr>) =
    Some (sample_adapter\<lparr>ad_activated_once := True, ad_command_index := [0..<11], ad_state_index := [0..<9]\<rparr>)"
    by (simp add: bind_keys_def bind_key_def sample_adapter_def sample_commands_def sample_states_def upt_rec)
  show ?thesis
    using b by (simp add: adapter_on_activate_def sample_adapter_def new_Adapter_def activate_group_def activate_axis_def sample_values_def
        sample_limits_def upt_rec)
qed

theorem adapter_generations_consecutive_witness:
  "\<exists>a2 n. adapter_on_activate sample_commands sample_states sample_values sample_adapter = (SUCCESS, a2) \<and>
     committed (commit_key (ad_groups (fold adapter_call [Reference 0 (Fin 0), Deactivate] a2) ! 0))
       (ad_log (fold adapter_call [Reference 0 (Fin 0), Deactivate] a2)) = map (\<lambda>i. dint (int i)) [1..<Suc n]"
proof -
  obtain a2 where a: "adapter_on_activate sample_commands sample_states sample_values sample_adapter = (SUCCESS, a2)"
    using sample_activated by (cases "adapter_on_activate sample_commands sample_states sample_values sample_adapter") auto
  have "ad_groups a2 = shape (ad_groups sample_adapter)"
    using a by (auto simp: adapter_on_activate_def bind_keys_def shape_def Let_def split: option.splits if_splits)
  then have "0 < length (ad_groups (fold adapter_call [Reference 0 (Fin 0), Deactivate] a2))"
    by (simp add: adapter_on_deactivate_def shape_def sample_adapter_def)
  from adapter_generations_consecutive [OF sample_configured a _ this] a show ?thesis by (auto simp: new_Adapter_def)
qed

theorem commit_after_verified_witness:
  "\<exists>ok row' a'. writeBatch False (new_Row, sample_adapter) = (ok, row', a') \<and>
     (\<exists>es cs. ad_log a' = es @ cs \<and> (cs = [] \<and> \<not> ok \<or> list_all verified es))"
proof -
  obtain ok row' a' where w: "writeBatch False (new_Row, sample_adapter) = (ok, row', a')" using prod_cases3 by blast
  have "layout 0 (ad_groups sample_adapter)" by (simp add: sample_adapter_def)
  moreover have "ad_log sample_adapter = []" by (simp add: sample_adapter_def new_Adapter_def)
  ultimately show ?thesis using commit_after_verified [OF w] w by auto
qed

end
