(* ===== verification/Hil_Controller.thy ===== *)
theory Hil_Controller
  imports Hil_Trajectory Pair_Adapter
begin

text \<open>
  The trajectory controller for a single joint (\<^verbatim>\<open>src/hil_trajectory_controller.cpp\<close>): configuration, the start,
  finish, stop and keepalive requests, activation, the update with its state machine and record, deactivation, and the
  hand-over of a completed record. The outcome of storing a command is taken from the script \<open>hc_io\<close> and every write is
  logged in \<open>hc_log\<close>; state reads, the clock and the results of the try-locks are inputs of the call. The contents
  of the CSV file, the service messages and the publisher are not modelled.
\<close>

unbundle bit_operations_syntax

section \<open>State\<close>

datatype HKind = HHold | HRamp | HSine

datatype HState = HIdle | HArmed | HRunning | HHolding | HReleased | HAborted

datatype HEnd = HeNone | HeRelease | HeFinish | HeStop | HeNoKeepalive | HeLease | HeTorque | HeVelocity | HeStateNotFinite | HePeriod
  | HeStartRange | HeDuration | HeDeactivated | HeWriteFailed

record StartRequest =
  sr_id :: u32
  sr_kind :: HKind
  sr_target :: double
  sr_speed :: double
  sr_amplitude :: double
  sr_frequency :: double
  sr_cycles :: double
  sr_ramp_cycles :: double
  sr_friction_kinetic :: double
  sr_friction_static :: double
  sr_friction_velocity :: double
  sr_stribeck_velocity :: double
  sr_kp :: double
  sr_kd :: double
  sr_hold :: double
  sr_release :: bool
  sr_lease_ns :: ns
  sr_accepted_ns :: ns

definition new_StartRequest :: StartRequest where
  "new_StartRequest = \<lparr>sr_id = 0, sr_kind = HHold, sr_target = 0, sr_speed = 0, sr_amplitude = 0, sr_frequency = 0, sr_cycles = 0,
     sr_ramp_cycles = 0, sr_friction_kinetic = 0, sr_friction_static = dlit (- 1), sr_friction_velocity = dlit (5 / 100),
     sr_stribeck_velocity = dlit (2 / 10), sr_kp = 0, sr_kd = 0, sr_hold = 0, sr_release = False, sr_lease_ns = 0, sr_accepted_ns = 0\<rparr>"

record HilSnapshot =
  sn_state :: HState
  sn_applied_id :: u32
  sn_applied_stop_count :: u32
  sn_end_reason :: HEnd
  sn_elapsed :: double
  sn_target_position :: double
  sn_position :: double
  sn_recording :: bool
  sn_recorded_cycles :: u64
  sn_dropped_cycles :: u64
  sn_write_failures :: u64
  sn_release_write_pending :: bool

definition new_HilSnapshot :: HilSnapshot where
  "new_HilSnapshot = \<lparr>sn_state = HIdle, sn_applied_id = 0, sn_applied_stop_count = 0, sn_end_reason = HeNone, sn_elapsed = 0,
     sn_target_position = NaN, sn_position = NaN, sn_recording = False, sn_recorded_cycles = 0, sn_dropped_cycles = 0,
     sn_write_failures = 0, sn_release_write_pending = False\<rparr>"

record HilRow =
  hr_steady_ns :: ns
  hr_ros_time_s :: double
  hr_period_s :: double
  hr_elapsed_s :: double
  hr_target_position :: double
  hr_target_velocity :: double
  hr_kp :: double
  hr_kd :: double
  hr_feedforward :: double
  hr_position :: double
  hr_velocity :: double
  hr_effort :: double
  hr_update_ns :: ns
  hr_state :: HState
  hr_end_reason :: HEnd
  hr_write_ok :: bool

definition new_HilRow :: HilRow where
  "new_HilRow = \<lparr>hr_steady_ns = 0, hr_ros_time_s = 0, hr_period_s = 0, hr_elapsed_s = 0, hr_target_position = 0, hr_target_velocity = 0,
     hr_kp = 0, hr_kd = 0, hr_feedforward = 0, hr_position = 0, hr_velocity = 0, hr_effort = 0, hr_update_ns = 0, hr_state = HIdle,
     hr_end_reason = HeNone, hr_write_ok = True\<rparr>"

record HilParameters =
  hp_joint :: string
  hp_lower :: double
  hp_upper :: double
  hp_max_kp :: double
  hp_max_torque :: double
  hp_max_velocity :: double
  hp_max_amplitude :: double
  hp_fixed_sine_center :: bool
  hp_sine_center :: double
  hp_max_period_s :: double
  hp_arm_timeout_s :: double
  hp_record_tail_s :: double
  hp_record_seconds :: double
  hp_max_run_seconds :: double
  hp_output_dir :: string
  hp_test_start_delay_s :: double
  hp_test_stop_delay_s :: double
  hp_test_finish_delay_s :: double

record Hil =
  hc_par :: HilParameters
  hc_pending_start :: "StartRequest option"
  hc_next_id :: u32
  hc_stop_count :: u32
  hc_busy :: bool
  hc_rt_applied_stop_count :: u32
  hc_rt_state_id :: u64
  hc_finish_for_id :: u32
  hc_keepalive_id :: u32
  hc_keepalive_ns :: ns
  hc_snapshot :: HilSnapshot
  hc_rows :: "HilRow list"
  hc_record_complete :: bool
  hc_record_count :: u64
  hc_record_dropped :: u64
  hc_record_id :: u32
  hc_csv_path :: string
  hc_csv_failed :: bool
  hc_record_run :: StartRequest
  hc_record_end_reason :: HEnd
  hc_state :: HState
  hc_end_reason :: HEnd
  hc_run :: StartRequest
  hc_applied_stop_count :: u32
  hc_armed_ns :: ns
  hc_end_ns :: ns
  hc_last_keepalive_ns :: ns
  hc_elapsed :: double
  hc_first_running_cycle :: bool
  hc_start_position :: double
  hc_run_duration :: double
  hc_ramp :: "RampTrajectory option"
  hc_sine :: "SineTrajectory option"
  hc_final_setpoint :: Setpoint
  hc_last_target :: double
  hc_recording :: bool
  hc_rows_written :: u64
  hc_rows_dropped :: u64
  hc_write_failures :: u64
  hc_release_write_pending :: bool
  hc_io :: "bool list"
  hc_log :: "(nat \<times> double \<times> bool) list"

definition hil_active :: "HState \<Rightarrow> bool" where
  "hil_active st \<longleftrightarrow> st = HArmed \<or> st = HRunning \<or> st = HHolding"

section \<open>Configuration\<close>

definition finite_positive :: "double \<Rightarrow> bool" where
  "finite_positive v \<longleftrightarrow> isfinite v \<and> dlit 0 < v"

definition test_delays :: "HilParameters \<Rightarrow> double list" where
  "test_delays p = [hp_test_start_delay_s p, hp_test_stop_delay_s p, hp_test_finish_delay_s p]"

definition parameters_ok :: "HilParameters \<Rightarrow> bool" where
  "parameters_ok p \<longleftrightarrow> \<not> (hp_joint p = [] \<or> \<not> isfinite (hp_lower p) \<or> \<not> isfinite (hp_upper p) \<or> hp_upper p \<le> hp_lower p \<or>
     \<not> finite_positive (hp_max_kp p) \<or> dlit 30 < hp_max_kp p \<or> \<not> finite_positive (hp_max_torque p) \<or>
     \<not> finite_positive (hp_max_velocity p) \<or> \<not> finite_positive (hp_max_amplitude p) \<or>
     dlit (15707963267948966 / 10 ^ 16) < hp_max_amplitude p \<or> \<not> isfinite (hp_sine_center p) \<or>
     (hp_fixed_sine_center p \<and> (hp_sine_center p < hp_lower p \<or> hp_upper p < hp_sine_center p)) \<or>
     \<not> finite_positive (hp_max_period_s p) \<or> \<not> finite_positive (hp_arm_timeout_s p) \<or> \<not> isfinite (hp_record_tail_s p) \<or>
     hp_record_tail_s p < dlit 0 \<or> \<not> finite_positive (hp_record_seconds p) \<or> \<not> finite_positive (hp_max_run_seconds p))"

text \<open>\<open>permitted\<close> and \<open>dir\<close> are the environment variables, \<open>update_rate\<close> comes from the framework.\<close>

definition hil_on_configure :: "bool \<Rightarrow> string option \<Rightarrow> nat \<Rightarrow> HilParameters \<Rightarrow> Hil \<Rightarrow> CB \<times> Hil" where
  "hil_on_configure permitted dir update_rate p s =
     (let s = s\<lparr>hc_par := p\<rparr>
      in if list_ex (\<lambda>d. \<not> isfinite d \<or> d < dlit 0 \<or> dlit 30 < d) (test_delays p) then (CB_ERROR, s)
      else if list_ex (\<lambda>d. dlit 0 < d) (test_delays p) \<and> \<not> permitted then (CB_ERROR, s)
      else let p = (if hp_output_dir p = [] then case dir of Some d \<Rightarrow> p\<lparr>hp_output_dir := d\<rparr> | None \<Rightarrow> p else p);
               s = s\<lparr>hc_par := p\<rparr>
      in if \<not> parameters_ok p then (CB_ERROR, s)
      else let rate = (if 0 < update_rate then dint (int update_rate) else dlit 1000);
               n = (case hp_record_seconds p * rate of Fin x \<Rightarrow> nat \<lceil>x\<rceil> | _ \<Rightarrow> 0)
      in (SUCCESS, s\<lparr>hc_rows := replicate n new_HilRow\<rparr>))"

section \<open>Requests\<close>

record StartTrajectory =
  tq_kind :: nat
  tq_request :: StartRequest
  tq_lease :: double

text \<open>The checks of \<^verbatim>\<open>validate\<close>; \<open>tq_request\<close> carries the numbers of the service request.\<close>

definition sine_valid :: "libm \<Rightarrow> StartRequest \<Rightarrow> HilParameters \<Rightarrow> bool" where
  "sine_valid m r p \<longleftrightarrow>
     (dlit 0 < sr_amplitude r \<and> sr_amplitude r \<le> hp_max_amplitude p) \<and> (dlit 0 < sr_frequency r \<and> sr_frequency r \<le> dlit 5) \<and>
     (dlit 0 \<le> sr_cycles r \<and> sr_cycles r \<le> dlit 20) \<and> (dlit (5 / 10) \<le> sr_ramp_cycles r \<and> sr_ramp_cycles r \<le> dlit 5) \<and>
     (let fs = (if sr_friction_static r < dlit 0 then sr_friction_kinetic r else sr_friction_static r)
      in dlit 0 \<le> sr_friction_kinetic r \<and> sr_friction_kinetic r \<le> dlit 1 \<and> sr_friction_kinetic r \<le> fs \<and> fs \<le> dlit 1) \<and>
     (dlit 0 < sr_stribeck_velocity r \<and> sr_stribeck_velocity r \<le> dlit 2 \<and> dlit (5 / 1000) \<le> sr_friction_velocity r \<and>
      sr_friction_velocity r \<le> dlit 1) \<and>
     (let q = makeSineTrajectory (dlit 0) (sr_amplitude r) (sr_frequency r) (sr_cycles r) (sr_ramp_cycles r)
      in \<not> hp_max_velocity p < velocityUpperBound m q \<and> \<not> hp_max_run_seconds p < st_duration q + sr_hold r)"

definition hil_validate :: "libm \<Rightarrow> StartTrajectory \<Rightarrow> HilParameters \<Rightarrow> bool" where
  "hil_validate m q p \<longleftrightarrow>
     (let r = tq_request q
      in list_all isfinite [sr_target r, sr_speed r, sr_amplitude r, sr_frequency r, sr_cycles r, sr_ramp_cycles r, sr_friction_kinetic r,
           sr_friction_static r, sr_friction_velocity r, sr_stribeck_velocity r, sr_kp r, sr_kd r, sr_hold r, tq_lease q] \<and>
         tq_kind q \<le> 2 \<and> (dlit 0 < sr_kp r \<and> sr_kp r \<le> hp_max_kp p) \<and> (dlit 0 \<le> sr_kd r \<and> sr_kd r \<le> dlit 2) \<and>
         (dlit 0 \<le> sr_hold r \<and> sr_hold r \<le> dlit 10) \<and> (dlit (1 / 10) \<le> tq_lease q \<and> tq_lease q \<le> dlit 2) \<and>
         (tq_kind q = 1 \<longrightarrow> (hp_lower p \<le> sr_target r \<and> sr_target r \<le> hp_upper p) \<and> (dlit 0 < sr_speed r \<and> sr_speed r \<le> hp_max_velocity p)) \<and>
         (tq_kind q = 2 \<longrightarrow> sine_valid m r p))"

definition kind_of :: "nat \<Rightarrow> HKind" where
  "kind_of k = (if k = 1 then HRamp else if k = 2 then HSine else HHold)"

definition hil_requestStart :: "libm \<Rightarrow> StartTrajectory \<Rightarrow> ns \<Rightarrow> Hil \<Rightarrow> bool \<times> Hil" where
  "hil_requestStart m q now s =
     (if \<not> hil_validate m q (hc_par s) then (False, s)
      else if hc_pending_start s \<noteq> None \<or> hc_busy s \<or> hc_stop_count s \<noteq> hc_rt_applied_stop_count s then (False, s)
      else let start = (tq_request q)\<lparr>sr_id := hc_next_id s, sr_kind := kind_of (tq_kind q),
                 sr_lease_ns := (case tq_lease q * dlit (10 ^ 9) of Fin x \<Rightarrow> rat_trunc x | _ \<Rightarrow> 0), sr_accepted_ns := now\<rparr>
      in (True, s\<lparr>hc_next_id := hc_next_id s + 1, hc_pending_start := Some start\<rparr>))"

definition state_code :: "HState \<Rightarrow> u64" where
  "state_code st = (case st of HIdle \<Rightarrow> 0 | HArmed \<Rightarrow> 1 | HRunning \<Rightarrow> 2 | HHolding \<Rightarrow> 3 | HReleased \<Rightarrow> 4 | HAborted \<Rightarrow> 5)"

definition publishRtState :: "Hil \<Rightarrow> Hil" where
  "publishRtState s = (let id = (if hc_state s = HIdle then 0 else ucast (sr_id (hc_run s)) :: u64)
     in s\<lparr>hc_rt_state_id := push_bit 32 (state_code (hc_state s)) OR id\<rparr>)"

definition hil_requestFinish :: "Hil \<Rightarrow> bool \<times> Hil" where
  "hil_requestFinish s =
     (if drop_bit 32 (hc_rt_state_id s) \<noteq> state_code HHolding then (False, s)
      else (True, s\<lparr>hc_finish_for_id := ucast (hc_rt_state_id s AND 0xFFFFFFFF)\<rparr>))"

definition hil_requestStop :: "Hil \<Rightarrow> Hil" where
  "hil_requestStop s = s\<lparr>hc_pending_start := None, hc_stop_count := hc_stop_count s + 1\<rparr>"

definition onKeepalive :: "u32 \<Rightarrow> ns \<Rightarrow> Hil \<Rightarrow> Hil" where
  "onKeepalive key now s = s\<lparr>hc_keepalive_id := key, hc_keepalive_ns := now\<rparr>"

section \<open>Outputs\<close>

definition writeCommand :: "nat \<Rightarrow> double \<Rightarrow> Hil \<Rightarrow> bool \<times> Hil" where
  "writeCommand k v s = (let (ok, io) = (case hc_io s of [] \<Rightarrow> (False, []) | b # bs \<Rightarrow> (b, bs))
     in (ok, s\<lparr>hc_io := io, hc_log := hc_log s @ [(k, v, ok)]\<rparr>))"

fun write_all :: "(nat \<times> double) list \<Rightarrow> Hil \<Rightarrow> bool \<times> Hil" where
  "write_all [] s = (True, s)"
| "write_all ((k, v) # xs) s = (let (ok, s) = writeCommand k v s; (rest, s) = write_all xs s in (ok \<and> rest, s))"

definition writeOutputs :: "double \<Rightarrow> double \<Rightarrow> double \<Rightarrow> double \<Rightarrow> double \<Rightarrow> Hil \<Rightarrow> bool \<times> Hil" where
  "writeOutputs position velocity kp kd feedforward = write_all [(0, position), (1, velocity), (2, kp), (3, kd), (4, feedforward)]"

definition writeReleased :: "double \<Rightarrow> Hil \<Rightarrow> bool \<times> Hil" where
  "writeReleased position = writeOutputs (if isfinite position then position else NaN) 0 0 0 0"

definition endRun :: "HEnd \<Rightarrow> ns \<Rightarrow> Hil \<Rightarrow> Hil" where
  "endRun r now s = s\<lparr>hc_end_reason := r, hc_state := (if r = HeRelease \<or> r = HeFinish \<or> r = HeStop then HReleased else HAborted),
     hc_end_ns := now, hc_release_write_pending := True\<rparr>"

definition hil_on_activate :: "Hil \<Rightarrow> CB \<times> Hil" where
  "hil_on_activate s =
     (let s = publishRtState (s\<lparr>hc_state := HIdle, hc_end_reason := HeNone, hc_release_write_pending := False,
            hc_applied_stop_count := hc_stop_count s, hc_rt_applied_stop_count := hc_stop_count s\<rparr>);
          (ok, s) = writeOutputs NaN NaN NaN NaN NaN s
      in if \<not> ok then (CB_ERROR, s)
      else (SUCCESS, s\<lparr>hc_snapshot := new_HilSnapshot\<lparr>sn_applied_stop_count := hc_applied_stop_count s\<rparr>\<rparr>))"

definition hil_on_deactivate :: "ns \<Rightarrow> Hil \<Rightarrow> CB \<times> Hil" where
  "hil_on_deactivate now s =
     (let (ok, s) = writeOutputs NaN NaN NaN NaN NaN s;
          s = (if hil_active (hc_state s) then endRun HeDeactivated now s else s);
          s = publishRtState s;
          s = (if hc_recording s then s\<lparr>hc_recording := False, hc_record_end_reason := hc_end_reason s, hc_record_complete := True\<rparr> else s)
      in (SUCCESS, s\<lparr>hc_snapshot := (hc_snapshot s)\<lparr>sn_state := hc_state s, sn_end_reason := hc_end_reason s, sn_recording := False\<rparr>\<rparr>))"

text \<open>The hand-over of a record; \<open>file\<close> is the outcome of writing the file and \<open>path\<close> its name.\<close>

definition writeCompletedRecord :: "bool \<Rightarrow> string \<Rightarrow> Hil \<Rightarrow> bool \<times> Hil" where
  "writeCompletedRecord file path s =
     (if \<not> hc_record_complete s then (False, s)
      else let dir = hp_output_dir (hc_par s) \<noteq> []; saved = dir \<and> file
      in if dir \<and> \<not> saved then (False, s\<lparr>hc_csv_path := [], hc_csv_failed := True\<rparr>)
      else (saved, s\<lparr>hc_csv_path := (if saved then path else []), hc_csv_failed := False, hc_record_complete := False, hc_busy := False\<rparr>))"

section \<open>The update\<close>

record HilInput =
  hi_now :: ns
  hi_time :: double
  hi_dt :: double
  hi_states :: "double option \<times> double option \<times> double option"
  hi_start_lock :: bool
  hi_keepalive_lock :: bool
  hi_snapshot_lock :: bool
  hi_update_ns :: ns

definition value_or :: "double option \<Rightarrow> double" where
  "value_or v = (case v of Some x \<Rightarrow> x | None \<Rightarrow> NaN)"

definition in_position :: "HilInput \<Rightarrow> double" where
  "in_position i = value_or (fst (hi_states i))"

definition in_velocity :: "HilInput \<Rightarrow> double" where
  "in_velocity i = value_or (fst (snd (hi_states i)))"

definition in_effort :: "HilInput \<Rightarrow> double" where
  "in_effort i = value_or (snd (snd (hi_states i)))"

definition state_finite :: "HilInput \<Rightarrow> bool" where
  "state_finite i \<longleftrightarrow> isfinite (in_position i) \<and> isfinite (in_velocity i) \<and> isfinite (in_effort i)"

definition seconds :: "ns \<Rightarrow> double" where
  "seconds t = dint t * dlit (1 / 10 ^ 9)"

definition hil_apply_stop :: "HilInput \<Rightarrow> Hil \<Rightarrow> Hil" where
  "hil_apply_stop i s =
     (if hc_stop_count s = hc_applied_stop_count s then s
      else let s = s\<lparr>hc_applied_stop_count := hc_stop_count s\<rparr>;
               s = (if hil_active (hc_state s) then endRun HeStop (hi_now i) s else s)
      in s\<lparr>hc_rt_applied_stop_count := hc_stop_count s\<rparr>)"

definition hil_take_start :: "HilInput \<Rightarrow> Hil \<Rightarrow> Hil" where
  "hil_take_start i s =
     (if hil_active (hc_state s) \<or> hc_recording s \<or> hc_record_complete s \<or> \<not> hi_start_lock i then s
      else case hc_pending_start s of None \<Rightarrow> s
      | Some r \<Rightarrow>
          (publishRtState (s\<lparr>hc_pending_start := None, hc_busy := True, hc_run := r, hc_state := HArmed\<rparr>))\<lparr>hc_end_reason := HeNone,
             hc_armed_ns := hi_now i, hc_last_keepalive_ns := 0, hc_elapsed := 0, hc_ramp := None, hc_sine := None, hc_last_target := NaN,
             hc_recording := True, hc_rows_written := 0, hc_rows_dropped := 0, hc_release_write_pending := False, hc_record_run := r,
             hc_record_id := sr_id r\<rparr>)"

definition hil_take_keepalive :: "HilInput \<Rightarrow> Hil \<Rightarrow> Hil" where
  "hil_take_keepalive i s =
     (if hil_active (hc_state s) \<and> hi_keepalive_lock i \<and> hc_keepalive_id s = sr_id (hc_run s) \<and> sr_accepted_ns (hc_run s) \<le> hc_keepalive_ns s
      then s\<lparr>hc_last_keepalive_ns := max (hc_last_keepalive_ns s) (hc_keepalive_ns s)\<rparr> else s)"

definition period_ok :: "HilInput \<Rightarrow> Hil \<Rightarrow> bool" where
  "period_ok i s \<longleftrightarrow> isfinite (hi_dt i) \<and> dlit 0 < hi_dt i \<and> hi_dt i \<le> hp_max_period_s (hc_par s)"

definition hil_period :: "HilInput \<Rightarrow> Hil \<Rightarrow> Hil" where
  "hil_period i s = (if (hc_state s = HRunning \<or> hc_state s = HHolding) \<and> \<not> period_ok i s then endRun HePeriod (hi_now i) s else s)"

definition sine_start :: "HilInput \<Rightarrow> Hil \<Rightarrow> double" where
  "sine_start i s = (if hp_fixed_sine_center (hc_par s) then hp_sine_center (hc_par s) else in_position i)"

definition hil_emplace :: "HilInput \<Rightarrow> Hil \<Rightarrow> Hil" where
  "hil_emplace i s =
     (let r = hc_run s; s = s\<lparr>hc_start_position := in_position i\<rparr>
      in case sr_kind r of
           HRamp \<Rightarrow> (let q = makeRampTrajectory (in_position i) (sr_target r) (sr_speed r)
                     in s\<lparr>hc_ramp := Some q, hc_run_duration := rt_ramp_time q + sr_hold r\<rparr>)
         | HSine \<Rightarrow> (let q = makeSineTrajectory (sine_start i s) (sr_amplitude r) (sr_frequency r) (sr_cycles r) (sr_ramp_cycles r)
                     in s\<lparr>hc_sine := Some q, hc_run_duration := st_duration q + sr_hold r\<rparr>)
         | HHold \<Rightarrow> s\<lparr>hc_run_duration := sr_hold r\<rparr>)"

definition start_out_of_range :: "HilInput \<Rightarrow> Hil \<Rightarrow> bool" where
  "start_out_of_range i s \<longleftrightarrow> (let p = hc_par s; c = sine_start i s; a = sr_amplitude (hc_run s)
     in sr_kind (hc_run s) = HSine \<and>
        ((hp_fixed_sine_center p \<and> dlit (5 / 100) < \<bar>in_position i - hp_sine_center p\<bar>) \<or> c - a < hp_lower p \<or> hp_upper p < c + a))"

definition hil_arm :: "HilInput \<Rightarrow> Hil \<Rightarrow> Hil" where
  "hil_arm i s =
     (if hc_state s \<noteq> HArmed then s
      else if 0 < hc_last_keepalive_ns s then
        if \<not> state_finite i then endRun HeStateNotFinite (hi_now i) s
        else let s = hil_emplace i s
        in if start_out_of_range i s then endRun HeStartRange (hi_now i) s
        else if hp_max_run_seconds (hc_par s) < hc_run_duration s then endRun HeDuration (hi_now i) s
        else s\<lparr>hc_state := HRunning, hc_elapsed := 0, hc_first_running_cycle := True\<rparr>
      else if hp_arm_timeout_s (hc_par s) < seconds (hi_now i - hc_armed_ns s) then endRun HeNoKeepalive (hi_now i) s
      else s)"

definition lease_expired :: "HilInput \<Rightarrow> Hil \<Rightarrow> bool" where
  "lease_expired i s \<longleftrightarrow> seconds (sr_lease_ns (hc_run s)) < seconds (hi_now i - hc_last_keepalive_ns s)"

definition no_setpoint :: Setpoint where
  "no_setpoint = \<lparr>sp_position = NaN, sp_velocity = NaN\<rparr>"

text \<open>The reference of a running cycle; \<open>None\<close> of a trajectory cannot occur while running.\<close>

definition hil_reference :: "libm \<Rightarrow> Hil \<Rightarrow> Setpoint \<times> double" where
  "hil_reference m s =
     (let r = hc_run s
      in case sr_kind r of
           HRamp \<Rightarrow> (case hc_ramp s of Some q \<Rightarrow> ramp_at q (hc_elapsed s) | None \<Rightarrow> no_setpoint, 0)
         | HSine \<Rightarrow> (let p = (case hc_sine s of Some q \<Rightarrow> sine_at m q (hc_elapsed s) | None \<Rightarrow> no_setpoint)
                     in (p, frictionTorque m (sp_velocity p) (sr_friction_kinetic r) (sr_friction_velocity r) (sr_friction_static r) (sr_stribeck_velocity r)))
         | HHold \<Rightarrow> (\<lparr>sp_position = hc_start_position s, sp_velocity = 0\<rparr>, 0))"

definition hil_run :: "libm \<Rightarrow> HilInput \<Rightarrow> Hil \<Rightarrow> (Setpoint \<times> double) \<times> Hil" where
  "hil_run m i s =
     (if hc_state s \<noteq> HRunning then ((no_setpoint, 0), s)
      else let s = s\<lparr>hc_elapsed := (if hc_first_running_cycle s then hc_elapsed s else hc_elapsed s + hi_dt i), hc_first_running_cycle := False\<rparr>;
               (p, f) = hil_reference m s
      in ((p, f),
         if lease_expired i s then endRun HeLease (hi_now i) s
         else if \<not> state_finite i then endRun HeStateNotFinite (hi_now i) s
         else if hp_max_velocity (hc_par s) < \<bar>sp_velocity p\<bar> then endRun HeVelocity (hi_now i) s
         else if hp_max_torque (hc_par s) < sr_kp (hc_run s) * \<bar>sp_position p - in_position i\<bar> + \<bar>f\<bar> then endRun HeTorque (hi_now i) s
         else if hc_run_duration s \<le> hc_elapsed s then
           (let s = s\<lparr>hc_final_setpoint := \<lparr>sp_position = sp_position p, sp_velocity = 0\<rparr>\<rparr>
            in if sr_release (hc_run s) then endRun HeRelease (hi_now i) s else s\<lparr>hc_state := HHolding\<rparr>)
         else s))"

definition hil_hold :: "HilInput \<Rightarrow> Hil \<Rightarrow> Hil" where
  "hil_hold i s =
     (if hc_state s \<noteq> HHolding then s
      else if lease_expired i s then endRun HeLease (hi_now i) s
      else if \<not> state_finite i then endRun HeStateNotFinite (hi_now i) s
      else if hp_max_torque (hc_par s) < sr_kp (hc_run s) * \<bar>sp_position (hc_final_setpoint s) - in_position i\<bar> then endRun HeTorque (hi_now i) s
      else if hc_finish_for_id s = sr_id (hc_run s) then endRun HeFinish (hi_now i) s
      else s)"

definition hil_outputs :: "HilInput \<Rightarrow> Setpoint \<times> double \<Rightarrow> Hil \<Rightarrow> bool \<times> Hil" where
  "hil_outputs i = (\<lambda>(p, f) s. case hc_state s of
       HRunning \<Rightarrow> (let (ok, s) = writeOutputs (sp_position p) (sp_velocity p) (sr_kp (hc_run s)) (sr_kd (hc_run s)) f s
                    in (ok, s\<lparr>hc_last_target := sp_position p\<rparr>))
     | HHolding \<Rightarrow> (let q = sp_position (hc_final_setpoint s);
                        (ok, s) = writeOutputs q 0 (sr_kp (hc_run s)) (sr_kd (hc_run s)) 0 s
                    in (ok, s\<lparr>hc_last_target := q\<rparr>))
     | HReleased \<Rightarrow> (let (ok, s) = writeReleased (in_position i) s in (ok, s\<lparr>hc_last_target := NaN\<rparr>))
     | HAborted \<Rightarrow> (let (ok, s) = writeReleased (in_position i) s in (ok, s\<lparr>hc_last_target := NaN\<rparr>))
     | _ \<Rightarrow> (let (ok, s) = writeOutputs NaN NaN NaN NaN NaN s in (ok, s\<lparr>hc_last_target := NaN\<rparr>)))"

definition hil_settle :: "HilInput \<Rightarrow> bool \<Rightarrow> Hil \<Rightarrow> Hil" where
  "hil_settle i wrote s =
     (let s = (if \<not> wrote \<and> (hc_state s = HRunning \<or> hc_state s = HHolding) then
                 (let (ok, s) = writeReleased (in_position i) (endRun HeWriteFailed (hi_now i) s);
                      s = (if ok then s\<lparr>hc_release_write_pending := False\<rparr> else s)
                  in s\<lparr>hc_last_target := NaN\<rparr>)
               else if (hc_state s = HReleased \<or> hc_state s = HAborted) \<and> wrote then s\<lparr>hc_release_write_pending := False\<rparr>
               else s)
      in if wrote then s else s\<lparr>hc_write_failures := hc_write_failures s + 1\<rparr>)"

definition hil_row :: "HilInput \<Rightarrow> Setpoint \<times> double \<Rightarrow> bool \<Rightarrow> Hil \<Rightarrow> HilRow" where
  "hil_row i = (\<lambda>(p, f) wrote s.
     let st = hc_state s; gains = (st = HRunning \<or> st = HHolding)
     in \<lparr>hr_steady_ns = hi_now i, hr_ros_time_s = hi_time i, hr_period_s = hi_dt i, hr_elapsed_s = hc_elapsed s,
         hr_target_position = (if st = HRunning then sp_position p else if st = HHolding then sp_position (hc_final_setpoint s) else NaN),
         hr_target_velocity = (if st = HRunning then sp_velocity p else if gains then 0 else NaN),
         hr_kp = (if gains then sr_kp (hc_run s) else if st = HArmed then NaN else 0),
         hr_kd = (if gains then sr_kd (hc_run s) else if st = HArmed then NaN else 0),
         hr_feedforward = (if st = HRunning then f else if gains then 0 else NaN),
         hr_position = in_position i, hr_velocity = in_velocity i, hr_effort = in_effort i, hr_update_ns = hi_update_ns i,
         hr_state = st, hr_end_reason = hc_end_reason s, hr_write_ok = wrote\<rparr>)"

definition hil_record :: "HilInput \<Rightarrow> Setpoint \<times> double \<Rightarrow> bool \<Rightarrow> Hil \<Rightarrow> Hil" where
  "hil_record i r wrote s =
     (if \<not> hc_recording s then s
      else let s = (if unat (hc_rows_written s) < length (hc_rows s)
                 then s\<lparr>hc_rows := (hc_rows s)[unat (hc_rows_written s) := hil_row i r wrote s], hc_rows_written := hc_rows_written s + 1\<rparr>
                 else s\<lparr>hc_rows_dropped := hc_rows_dropped s + 1\<rparr>);
               s = s\<lparr>hc_record_count := hc_rows_written s, hc_record_dropped := hc_rows_dropped s\<rparr>
      in if (hc_state s = HReleased \<or> hc_state s = HAborted) \<and> \<not> hc_release_write_pending s \<and>
            hp_record_tail_s (hc_par s) \<le> seconds (hi_now i - hc_end_ns s)
         then s\<lparr>hc_recording := False, hc_record_end_reason := hc_end_reason s, hc_record_complete := True\<rparr> else s)"

definition hil_publish :: "HilInput \<Rightarrow> Hil \<Rightarrow> Hil" where
  "hil_publish i s =
     (let s = publishRtState s; st = hc_state s
      in if hi_snapshot_lock i
         then s\<lparr>hc_snapshot := \<lparr>sn_state = st,
             sn_applied_id = (if hil_active st \<or> st = HReleased \<or> st = HAborted then sr_id (hc_run s) else 0),
             sn_applied_stop_count = hc_applied_stop_count s, sn_end_reason = hc_end_reason s, sn_elapsed = hc_elapsed s,
             sn_target_position = hc_last_target s, sn_position = in_position i, sn_recording = hc_recording s,
             sn_recorded_cycles = hc_rows_written s, sn_dropped_cycles = hc_rows_dropped s, sn_write_failures = hc_write_failures s,
             sn_release_write_pending = hc_release_write_pending s\<rparr>\<rparr>
         else s)"

text \<open>The decisions of an update, up to the outputs.\<close>

definition hil_decide :: "libm \<Rightarrow> HilInput \<Rightarrow> Hil \<Rightarrow> (Setpoint \<times> double) \<times> Hil" where
  "hil_decide m i s =
     (let (r, s) = hil_run m i (hil_arm i (hil_period i (hil_take_keepalive i (hil_take_start i (hil_apply_stop i s)))))
      in (r, hil_hold i s))"

definition hil_update :: "libm \<Rightarrow> HilInput \<Rightarrow> Hil \<Rightarrow> return_type \<times> Hil" where
  "hil_update m i s =
     (let (r, s) = hil_decide m i s; (wrote, s) = hil_outputs i r s
      in (OK, hil_publish i (hil_record i r wrote (hil_settle i wrote s))))"

section \<open>Calls\<close>

definition new_Hil :: "HilParameters \<Rightarrow> bool list \<Rightarrow> Hil" where
  "new_Hil p io = \<lparr>hc_par = p, hc_pending_start = None, hc_next_id = 1, hc_stop_count = 0, hc_busy = False, hc_rt_applied_stop_count = 0,
     hc_rt_state_id = 0, hc_finish_for_id = 0, hc_keepalive_id = 0, hc_keepalive_ns = 0, hc_snapshot = new_HilSnapshot, hc_rows = [],
     hc_record_complete = False, hc_record_count = 0, hc_record_dropped = 0, hc_record_id = 0, hc_csv_path = [], hc_csv_failed = False,
     hc_record_run = new_StartRequest, hc_record_end_reason = HeNone, hc_state = HIdle, hc_end_reason = HeNone, hc_run = new_StartRequest,
     hc_applied_stop_count = 0, hc_armed_ns = 0, hc_end_ns = 0, hc_last_keepalive_ns = 0, hc_elapsed = 0, hc_first_running_cycle = False,
     hc_start_position = 0, hc_run_duration = 0, hc_ramp = None, hc_sine = None, hc_final_setpoint = \<lparr>sp_position = 0, sp_velocity = 0\<rparr>,
     hc_last_target = NaN, hc_recording = False, hc_rows_written = 0, hc_rows_dropped = 0, hc_write_failures = 0,
     hc_release_write_pending = False, hc_io = io, hc_log = []\<rparr>"

datatype HilCall = HcConfigure bool "string option" nat HilParameters | HcActivate | HcDeactivate ns | HcStart libm StartTrajectory ns | HcFinish | HcStop | HcKeepalive u32 ns
  | HcUpdate libm HilInput | HcWriteRecord bool string

fun hil_call :: "HilCall \<Rightarrow> Hil \<Rightarrow> Hil" where
  "hil_call (HcConfigure permitted dir rate p) s = snd (hil_on_configure permitted dir rate p s)"
| "hil_call HcActivate s = snd (hil_on_activate s)"
| "hil_call (HcDeactivate now) s = snd (hil_on_deactivate now s)"
| "hil_call (HcStart m q now) s = snd (hil_requestStart m q now s)"
| "hil_call HcFinish s = snd (hil_requestFinish s)"
| "hil_call HcStop s = hil_requestStop s"
| "hil_call (HcKeepalive key now) s = onKeepalive key now s"
| "hil_call (HcUpdate m i) s = snd (hil_update m i s)"
| "hil_call (HcWriteRecord file path) s = snd (writeCompletedRecord file path s)"

section \<open>The invariant\<close>

definition gains_checked :: "HilParameters \<Rightarrow> StartRequest \<Rightarrow> bool" where
  "gains_checked p r \<longleftrightarrow> dlit 0 < sr_kp r \<and> sr_kp r \<le> hp_max_kp p \<and> dlit 0 \<le> sr_kd r \<and> sr_kd r \<le> dlit 2"

text \<open>A run is recorded, a record is taken or waits but not both, and both block a new start; the gains of a run and of a
  request that waits were checked, against one of the configurations \<open>ps\<close> of the session: a request that waits survives a
  later configuration.\<close>

definition session_gains :: "HilParameters list \<Rightarrow> StartRequest \<Rightarrow> bool" where
  "session_gains ps r \<longleftrightarrow> (\<exists>p \<in> set ps. gains_checked p r)"

definition hil_inv :: "HilParameters list \<Rightarrow> Hil \<Rightarrow> bool" where
  "hil_inv ps s \<longleftrightarrow> (hil_active (hc_state s) \<longrightarrow> hc_recording s \<and> session_gains ps (hc_run s)) \<and>
     \<not> (hc_recording s \<and> hc_record_complete s) \<and> (hc_recording s \<or> hc_record_complete s \<longrightarrow> hc_busy s) \<and>
     (\<forall>r. hc_pending_start s = Some r \<longrightarrow> session_gains ps r) \<and> (\<exists>p \<in> set ps. hp_max_kp p = hp_max_kp (hc_par s))"

text \<open>What the decisions of an update leave alone.\<close>

definition hil_frame :: "Hil \<Rightarrow> (nat \<times> double \<times> bool) list \<times> bool list \<times> HilParameters" where
  "hil_frame s = (hc_log s, hc_io s, hc_par s)"

definition hil_step :: "Hil \<Rightarrow> Hil \<Rightarrow> bool" where
  "hil_step s s' \<longleftrightarrow> hil_frame s' = hil_frame s \<and> (\<forall>ps. hil_inv ps s \<longrightarrow> hil_inv ps s')"

lemmas hil_step_defs = hil_step_def hil_inv_def hil_frame_def hil_active_def

lemma hil_step_refl [simp]: "hil_step s s"
  by (simp add: hil_step_def)

lemma hil_step_trans: "hil_step a b \<Longrightarrow> hil_step b c \<Longrightarrow> hil_step a c"
  by (simp add: hil_step_def)

lemma hil_step_endRun: "hil_step s (endRun r now s)"
  by (simp add: endRun_def hil_step_defs)

lemma hil_step_stop: "hil_step s (hil_apply_stop i s)"
  by (simp add: hil_apply_stop_def endRun_def hil_step_defs Let_def)

lemma hil_step_start: "hil_step s (hil_take_start i s)"
  by (simp add: hil_take_start_def publishRtState_def hil_step_defs Let_def split: option.split)

lemma hil_step_keepalive: "hil_step s (hil_take_keepalive i s)"
  by (simp add: hil_take_keepalive_def hil_step_defs)

lemma hil_step_period: "hil_step s (hil_period i s)"
  by (simp add: hil_period_def hil_step_endRun)

lemma hil_emplace_fields:
  "hil_frame (hil_emplace i s) = hil_frame s" "hc_run (hil_emplace i s) = hc_run s" "hc_state (hil_emplace i s) = hc_state s"
  "hc_recording (hil_emplace i s) = hc_recording s" "hc_record_complete (hil_emplace i s) = hc_record_complete s"
  "hc_busy (hil_emplace i s) = hc_busy s" "hc_pending_start (hil_emplace i s) = hc_pending_start s"
  by (simp_all add: hil_emplace_def hil_frame_def Let_def split: HKind.split)

lemma hil_step_arm: "hil_step s (hil_arm i s)"
proof -
  let ?e = "hil_emplace i s"
  have p: "hc_par ?e = hc_par s" "hc_log ?e = hc_log s" "hc_io ?e = hc_io s" using hil_emplace_fields(1) [of i s] by (simp_all add: hil_frame_def)
  have e: "hil_step s ?e" using hil_emplace_fields [of i s] p by (simp add: hil_step_def hil_inv_def)
  have run: "hil_step s (?e\<lparr>hc_state := HRunning, hc_elapsed := 0, hc_first_running_cycle := True\<rparr>)" if "hc_state s = HArmed"
    using that p by (simp add: hil_step_defs hil_emplace_fields)
  show ?thesis using run hil_step_trans [OF e hil_step_endRun]
    by (simp add: hil_arm_def hil_step_endRun Let_def)
qed

lemma hil_step_hold: "hil_step s (hil_hold i s)"
  by (simp add: hil_hold_def hil_step_endRun)

lemma hil_step_run: "hil_step s (snd (hil_run m i s))"
proof (cases "hc_state s = HRunning")
  case True
  define s1 where "s1 = s\<lparr>hc_elapsed := (if hc_first_running_cycle s then hc_elapsed s else hc_elapsed s + hi_dt i), hc_first_running_cycle := False\<rparr>"
  obtain p f where r: "hil_reference m s1 = (p, f)" by fastforce
  define t where "t = s1\<lparr>hc_final_setpoint := \<lparr>sp_position = sp_position p, sp_velocity = 0\<rparr>\<rparr>"
  have a: "hil_step s s1" "hil_step s t" by (simp_all add: hil_step_defs s1_def t_def)
  have h: "hil_step s (t\<lparr>hc_state := HHolding\<rparr>)" using True by (simp add: hil_step_defs t_def s1_def)
  show ?thesis using True hil_step_trans [OF a(1) hil_step_endRun] hil_step_trans [OF a(2) hil_step_endRun] h a(1)
    unfolding hil_run_def Let_def s1_def [symmetric] r prod.case t_def [symmetric] by simp
qed (simp add: hil_run_def)

lemma hil_step_decide:
  assumes "hil_decide m i s = (r, s')"
  shows "hil_step s s'"
proof -
  let ?s5 = "hil_arm i (hil_period i (hil_take_keepalive i (hil_take_start i (hil_apply_stop i s))))"
  have b: "hil_step s ?s5"
    using hil_step_trans [OF hil_step_stop hil_step_trans [OF hil_step_start hil_step_trans [OF hil_step_keepalive hil_step_trans [OF hil_step_period hil_step_arm]]]] .
  obtain q t where t: "hil_run m i ?s5 = (q, t)" by fastforce
  have "s' = hil_hold i t" using assms t by (simp add: hil_decide_def)
  moreover have "hil_step ?s5 t" using hil_step_run [of ?s5 m i] t by simp
  ultimately show ?thesis using hil_step_trans [OF b hil_step_trans [OF _ hil_step_hold]] by simp
qed

section \<open>Writes\<close>

text \<open>The entries of the log without their outcome.\<close>

abbreviation logged :: "(nat \<times> double \<times> bool) list \<Rightarrow> (nat \<times> double) list" where
  "logged b \<equiv> map (\<lambda>(k, v, _). (k, v)) b"

definition hil_quiet :: "Hil \<Rightarrow> Hil" where
  "hil_quiet s = s\<lparr>hc_io := [], hc_log := []\<rparr>"

lemma write_all_spec:
  assumes "write_all xs s = (ok, s')"
  shows "hil_quiet s' = hil_quiet s \<and> (\<exists>b. hc_log s' = hc_log s @ b \<and> logged b = xs \<and> (ok \<longleftrightarrow> list_all (\<lambda>(k, v, ok). ok) b))"
  using assms
proof (induction xs arbitrary: s ok)
  case (Cons x xs)
  obtain k v where x: "x = (k, v)" by fastforce
  obtain ok1 s1 where w: "writeCommand k v s = (ok1, s1)" by fastforce
  obtain ok2 where r: "write_all xs s1 = (ok2, s')" "ok \<longleftrightarrow> ok1 \<and> ok2" using Cons.prems w by (auto simp: x split: prod.splits)
  have 1: "hil_quiet s1 = hil_quiet s" "hc_log s1 = hc_log s @ [(k, v, ok1)]"
    using w by (auto simp: writeCommand_def hil_quiet_def Let_def split: list.splits)
  obtain b where "hc_log s' = hc_log s1 @ b" "logged b = xs" "ok2 \<longleftrightarrow> list_all (\<lambda>(k, v, ok). ok) b" using Cons.IH [OF r(1)] by blast
  then have e: "hc_log s' = hc_log s @ ((k, v, ok1) # b) \<and> logged ((k, v, ok1) # b) = x # xs \<and> (ok \<longleftrightarrow> list_all (\<lambda>(k, v, ok). ok) ((k, v, ok1) # b))"
    using 1 r(2) by (simp add: x)
  show ?case by (rule conjI [OF trans [OF conjunct1 [OF Cons.IH [OF r(1)]] 1(1)]]) (rule exI [of _ "(k, v, ok1) # b"], rule e)
qed simp

lemma hil_quiet_fields:
  assumes "hil_quiet s' = hil_quiet s"
  shows "hc_state s' = hc_state s" "hc_par s' = hc_par s" "hc_run s' = hc_run s" "hc_recording s' = hc_recording s"
    "hc_record_complete s' = hc_record_complete s" "hc_busy s' = hc_busy s" "hc_pending_start s' = hc_pending_start s"
    "hc_stop_count s' = hc_stop_count s" "hc_applied_stop_count s' = hc_applied_stop_count s" "hc_last_keepalive_ns s' = hc_last_keepalive_ns s"
  using arg_cong [OF assms, of hc_state] arg_cong [OF assms, of hc_par] arg_cong [OF assms, of hc_run] arg_cong [OF assms, of hc_recording]
    arg_cong [OF assms, of hc_record_complete] arg_cong [OF assms, of hc_busy] arg_cong [OF assms, of hc_pending_start]
    arg_cong [OF assms, of hc_stop_count] arg_cong [OF assms, of hc_applied_stop_count] arg_cong [OF assms, of hc_last_keepalive_ns]
  by (simp_all add: hil_quiet_def)

text \<open>The five values of a cycle.\<close>

definition hil_released :: "HilInput \<Rightarrow> double list" where
  "hil_released i = [if isfinite (in_position i) then in_position i else NaN, 0, 0, 0, 0]"

definition cycle_values :: "HilInput \<Rightarrow> Setpoint \<times> double \<Rightarrow> Hil \<Rightarrow> double list" where
  "cycle_values i = (\<lambda>(p, f) s. case hc_state s of
       HRunning \<Rightarrow> [sp_position p, sp_velocity p, sr_kp (hc_run s), sr_kd (hc_run s), f]
     | HHolding \<Rightarrow> [sp_position (hc_final_setpoint s), 0, sr_kp (hc_run s), sr_kd (hc_run s), 0]
     | HReleased \<Rightarrow> hil_released i | HAborted \<Rightarrow> hil_released i | _ \<Rightarrow> replicate 5 NaN)"

definition hil_batch :: "double list \<Rightarrow> (nat \<times> double \<times> bool) list \<Rightarrow> bool" where
  "hil_batch vs b \<longleftrightarrow> length vs = 5 \<and> logged b = zip [0..<5] vs"

text \<open>What the steps after the decisions leave alone.\<close>

definition hil_view :: "Hil \<Rightarrow> HilParameters \<times> StartRequest \<times> ns \<times> StartRequest option \<times> u32 \<times> u32" where
  "hil_view s = (hc_par s, hc_run s, hc_last_keepalive_ns s, hc_pending_start s, hc_stop_count s, hc_applied_stop_count s)"

definition hil_marks :: "Hil \<Rightarrow> HState \<times> bool \<times> bool \<times> bool" where
  "hil_marks s = (hc_state s, hc_recording s, hc_record_complete s, hc_busy s)"

lemma hil_inv_marks: "hil_view s' = hil_view s \<Longrightarrow> hil_marks s' = hil_marks s \<Longrightarrow> hil_inv ps s' = hil_inv ps s"
  by (simp add: hil_view_def hil_marks_def hil_inv_def)

lemma hil_quiet_view: "hil_quiet s' = hil_quiet s \<Longrightarrow> hil_view s' = hil_view s \<and> hil_marks s' = hil_marks s"
proof -
  assume q: "hil_quiet s' = hil_quiet s"
  show ?thesis unfolding hil_view_def hil_marks_def hil_quiet_fields [OF q] by simp
qed

lemma writeOutputs_spec:
  assumes "writeOutputs a b c d f s = (ok, s')"
  shows "hil_view s' = hil_view s \<and> hil_marks s' = hil_marks s \<and> hc_release_write_pending s' = hc_release_write_pending s \<and>
    (\<exists>l. hc_log s' = hc_log s @ l \<and> hil_batch [a, b, c, d, f] l \<and> (ok \<longleftrightarrow> list_all (\<lambda>(k, v, ok). ok) l))"
proof -
  have z: "zip [0..<5] [a, b, c, d, f] = [(0, a), (1, b), (2, c), (3, d), (4, f)]" by (simp add: upt_rec)
  note w = write_all_spec [OF assms [unfolded writeOutputs_def]]
  then obtain l where "hc_log s' = hc_log s @ l" "hil_batch [a, b, c, d, f] l" "ok \<longleftrightarrow> list_all (\<lambda>(k, v, ok). ok) l"
    unfolding hil_batch_def z by auto
  moreover have "hc_release_write_pending s' = hc_release_write_pending s"
    using arg_cong [OF conjunct1 [OF w], of hc_release_write_pending] by (simp add: hil_quiet_def)
  ultimately show ?thesis using hil_quiet_view [OF conjunct1 [OF w]] by blast
qed

lemma hil_outputs_spec:
  assumes "hil_outputs i r s = (wrote, s')"
  shows "hil_view s' = hil_view s \<and> hil_marks s' = hil_marks s \<and> hc_release_write_pending s' = hc_release_write_pending s \<and>
    (\<exists>b. hc_log s' = hc_log s @ b \<and> hil_batch (cycle_values i r s) b \<and> (wrote \<longleftrightarrow> list_all (\<lambda>(k, v, ok). ok) b))"
proof -
  obtain p f where r: "r = (p, f)" by fastforce
  have lt: "hil_view (t\<lparr>hc_last_target := x\<rparr>) = hil_view t \<and> hil_marks (t\<lparr>hc_last_target := x\<rparr>) = hil_marks t" for t x
    by (simp add: hil_view_def hil_marks_def)
  have rep: "replicate 5 NaN = [NaN, NaN, NaN, NaN, NaN]" by (simp add: numeral_eq_Suc)
  obtain a b c d g where v: "cycle_values i r s = [a, b, c, d, g]"
    by (cases "hc_state s") (auto simp: r cycle_values_def hil_released_def rep)
  obtain ok t where w: "writeOutputs a b c d g s = (ok, t)" by fastforce
  have "wrote = ok \<and> (\<exists>x. s' = t\<lparr>hc_last_target := x\<rparr>)" using assms v w
    by (cases "hc_state s") (auto simp: r hil_outputs_def cycle_values_def hil_released_def writeReleased_def rep Let_def)
  then show ?thesis using writeOutputs_spec [OF w] lt v by auto
qed

text \<open>The states that write gains.\<close>

definition gaining :: "Hil \<Rightarrow> bool" where
  "gaining s \<longleftrightarrow> hc_state s = HRunning \<or> hc_state s = HHolding"

lemma hil_settle_spec:
  assumes "hil_settle i wrote s = s'"
  shows "hil_view s' = hil_view s \<and> snd (hil_marks s') = snd (hil_marks s) \<and>
    (if \<not> wrote \<and> gaining s then hc_state s' = HAborted \<and> (\<exists>b. hc_log s' = hc_log s @ b \<and> hil_batch (hil_released i) b)
     else hc_state s' = hc_state s \<and> hc_log s' = hc_log s)"
proof (cases "\<not> wrote \<and> gaining s")
  case False
  then have "\<exists>x y. s' = s\<lparr>hc_release_write_pending := x, hc_write_failures := y\<rparr>"
  proof (cases "wrote")
    case True
    have "s\<lparr>hc_release_write_pending := False\<rparr> = s\<lparr>hc_release_write_pending := False, hc_write_failures := hc_write_failures s\<rparr>"
      "s = s\<lparr>hc_release_write_pending := hc_release_write_pending s, hc_write_failures := hc_write_failures s\<rparr>" by simp_all
    then show ?thesis using True assms unfolding hil_settle_def Let_def by metis
  next
    case no: False
    then have "s' = s\<lparr>hc_release_write_pending := hc_release_write_pending s, hc_write_failures := hc_write_failures s + 1\<rparr>"
      using False assms by (auto simp: hil_settle_def gaining_def Let_def)
    then show ?thesis by blast
  qed
  then show ?thesis using False by (auto simp: hil_view_def hil_marks_def)
next
  case True
  obtain ok t where w: "writeReleased (in_position i) (endRun HeWriteFailed (hi_now i) s) = (ok, t)" by fastforce
  note sp = writeOutputs_spec [OF w [unfolded writeReleased_def], folded hil_released_def]
  have e: "hil_view (endRun HeWriteFailed (hi_now i) s) = hil_view s" "hc_state (endRun HeWriteFailed (hi_now i) s) = HAborted"
    "snd (hil_marks (endRun HeWriteFailed (hi_now i) s)) = snd (hil_marks s)" "hc_log (endRun HeWriteFailed (hi_now i) s) = hc_log s"
    by (simp_all add: endRun_def hil_view_def hil_marks_def)
  define t1 where "t1 = (if ok then t\<lparr>hc_release_write_pending := False\<rparr> else t)"
  have t1: "hil_view t1 = hil_view t" "hil_marks t1 = hil_marks t" "hc_log t1 = hc_log t" by (simp_all add: t1_def hil_view_def hil_marks_def)
  have "s' = t1\<lparr>hc_last_target := NaN, hc_write_failures := hc_write_failures t1 + 1\<rparr>"
    using True assms w by (simp add: hil_settle_def gaining_def Let_def t1_def)
  then have s': "hil_view s' = hil_view t" "hil_marks s' = hil_marks t" "hc_log s' = hc_log t" using t1 by (simp_all add: hil_view_def hil_marks_def)
  have "hc_state s' = HAborted" "snd (hil_marks s') = snd (hil_marks s)" using sp s' e by (auto simp: hil_marks_def)
  then show ?thesis using True sp s' e by auto
qed

lemma hil_record_spec:
  "hil_view (hil_record i r w s) = hil_view s \<and> hc_log (hil_record i r w s) = hc_log s \<and> hc_state (hil_record i r w s) = hc_state s \<and>
    (hil_inv ps s \<longrightarrow> hil_inv ps (hil_record i r w s))"
proof -
  define s1 where "s1 = (if unat (hc_rows_written s) < length (hc_rows s)
     then s\<lparr>hc_rows := (hc_rows s)[unat (hc_rows_written s) := hil_row i r w s], hc_rows_written := hc_rows_written s + 1\<rparr>
     else s\<lparr>hc_rows_dropped := hc_rows_dropped s + 1\<rparr>)"
  define s2 where "s2 = s1\<lparr>hc_record_count := hc_rows_written s1, hc_record_dropped := hc_rows_dropped s1\<rparr>"
  have v: "hil_view s2 = hil_view s" "hil_marks s2 = hil_marks s" "hc_log s2 = hc_log s" by (simp_all add: s2_def s1_def hil_view_def hil_marks_def)
  let ?t = "s2\<lparr>hc_recording := False, hc_record_end_reason := hc_end_reason s2, hc_record_complete := True\<rparr>"
  have "hil_view ?t = hil_view s" "hc_log ?t = hc_log s" "hc_state ?t = hc_state s" using v by (simp_all add: hil_view_def hil_marks_def)
  moreover have "hil_inv ps ?t" if "hil_inv ps s" "hc_recording s" "hc_state s2 = HReleased \<or> hc_state s2 = HAborted"
    using that v by (auto simp: hil_inv_def hil_view_def hil_marks_def hil_active_def)
  moreover have "hil_inv ps s2 = hil_inv ps s" "hc_state s2 = hc_state s" using v hil_inv_marks [OF v(1,2)] by (simp_all add: hil_marks_def)
  ultimately show ?thesis using v unfolding hil_record_def Let_def s1_def [symmetric] s2_def [symmetric] by simp
qed

lemma hil_publish_spec:
  "hil_view (hil_publish i s) = hil_view s \<and> hc_log (hil_publish i s) = hc_log s \<and> hil_marks (hil_publish i s) = hil_marks s"
  by (simp add: hil_publish_def publishRtState_def hil_view_def hil_marks_def Let_def)

section \<open>What an update writes\<close>

text \<open>A batch with gains: the keepalive is within the lease, the feedback is finite, the gains were checked against one of the
  session's configurations, and velocity (unless zero) and torque are within the limits configured now.\<close>

definition hil_guarded :: "HilParameters list \<Rightarrow> HilInput \<Rightarrow> Hil \<Rightarrow> double list \<Rightarrow> bool" where
  "hil_guarded ps i s vs \<longleftrightarrow> \<not> lease_expired i s \<and> state_finite i \<and> dlit 0 < vs ! 2 \<and> (\<exists>p \<in> set ps. vs ! 2 \<le> hp_max_kp p) \<and>
     dlit 0 \<le> vs ! 3 \<and> vs ! 3 \<le> dlit 2 \<and> (vs ! 1 = 0 \<or> \<not> hp_max_velocity (hc_par s) < \<bar>vs ! 1\<bar>) \<and>
     (\<not> hp_max_torque (hc_par s) < vs ! 2 * \<bar>vs ! 0 - in_position i\<bar> + \<bar>vs ! 4\<bar> \<or>
      vs ! 4 = 0 \<and> \<not> hp_max_torque (hc_par s) < vs ! 2 * \<bar>vs ! 0 - in_position i\<bar>)"

text \<open>A batch without gains.\<close>

definition hil_passive :: "HilInput \<Rightarrow> double list \<Rightarrow> bool" where
  "hil_passive i vs \<longleftrightarrow> vs = replicate 5 NaN \<or> vs = hil_released i"

lemma hil_run_running:
  assumes "hil_run m i s = ((p, f), s')" and "hc_state s' = HRunning"
  shows "\<not> lease_expired i s' \<and> state_finite i \<and> \<not> hp_max_velocity (hc_par s') < \<bar>sp_velocity p\<bar> \<and>
    \<not> hp_max_torque (hc_par s') < sr_kp (hc_run s') * \<bar>sp_position p - in_position i\<bar> + \<bar>f\<bar>"
proof -
  have run: "hc_state s = HRunning" using assms by (auto simp: hil_run_def split: if_splits)
  define s1 where "s1 = s\<lparr>hc_elapsed := (if hc_first_running_cycle s then hc_elapsed s else hc_elapsed s + hi_dt i), hc_first_running_cycle := False\<rparr>"
  have "hil_reference m s1 = (p, f)" using assms(1) run unfolding hil_run_def Let_def s1_def [symmetric] by (auto split: prod.splits)
  note r = assms(1) [unfolded hil_run_def Let_def s1_def [symmetric] this prod.case]
  show ?thesis using r run assms(2) by (auto simp: endRun_def split: if_splits)
qed

lemma endRun_state [simp]: "hc_state (endRun r now s) \<noteq> HRunning" "hc_state (endRun r now s) \<noteq> HHolding" "hc_state (endRun r now s) \<noteq> HArmed"
  by (simp_all add: endRun_def)

lemma hil_hold_holding:
  assumes "hc_state (hil_hold i s) = HHolding"
  shows "hil_hold i s = s \<and> \<not> lease_expired i s \<and> state_finite i \<and>
    \<not> hp_max_torque (hc_par s) < sr_kp (hc_run s) * \<bar>sp_position (hc_final_setpoint s) - in_position i\<bar>"
  using assms unfolding hil_hold_def by (simp split: if_splits)

lemma hil_hold_running: "hc_state (hil_hold i s) = HRunning \<Longrightarrow> hil_hold i s = s"
  unfolding hil_hold_def by (simp split: if_splits)

lemma hil_decide_values:
  assumes "hil_decide m i s = (r, s')" and "hil_inv ps s'"
  shows "if gaining s' then hil_guarded ps i s' (cycle_values i r s') else hil_passive i (cycle_values i r s')"
proof -
  obtain p f where rr: "r = (p, f)" by fastforce
  let ?s5 = "hil_arm i (hil_period i (hil_take_keepalive i (hil_take_start i (hil_apply_stop i s))))"
  obtain t where t: "hil_run m i ?s5 = ((p, f), t)" and h: "s' = hil_hold i t"
    using assms(1) by (auto simp: hil_decide_def rr Let_def split: prod.splits)
  have g: "session_gains ps (hc_run s')" if "hil_active (hc_state s')" using assms(2) that by (simp add: hil_inv_def)
  show ?thesis
  proof (cases "hc_state s'")
    case HRunning
    then have "s' = t" using h hil_hold_running [of i t] by simp
    then show ?thesis using hil_run_running [OF t] g HRunning
      by (auto simp: rr hil_guarded_def cycle_values_def session_gains_def gains_checked_def hil_active_def gaining_def)
  next
    case HHolding
    then show ?thesis using hil_hold_holding [of i t] h g
      by (auto simp: rr hil_guarded_def cycle_values_def session_gains_def gains_checked_def hil_active_def gaining_def)
  qed (simp_all add: rr cycle_values_def hil_passive_def gaining_def)
qed

lemma hil_guarded_view: "hil_view s' = hil_view s \<Longrightarrow> hil_guarded ps i s' vs = hil_guarded ps i s vs"
  by (simp add: hil_view_def hil_guarded_def lease_expired_def)

text \<open>The writes of an update: a batch without gains and nothing else, or a guarded batch, which is followed by a release, with the
  run aborted, exactly if one of its values was refused.\<close>

abbreviation all_accepted :: "(nat \<times> double \<times> bool) list \<Rightarrow> bool" where
  "all_accepted b \<equiv> list_all (\<lambda>(k, v, ok). ok) b"

definition hil_writes :: "HilParameters list \<Rightarrow> HilInput \<Rightarrow> Hil \<Rightarrow> Hil \<Rightarrow> bool" where
  "hil_writes ps i s s' \<longleftrightarrow> (\<exists>vs b1 b2. hc_log s' = hc_log s @ b1 @ b2 \<and> hil_batch vs b1 \<and>
     (hil_passive i vs \<and> b2 = [] \<or>
      hil_guarded ps i s' vs \<and> (if all_accepted b1 then b2 = [] else hil_batch (hil_released i) b2 \<and> hc_state s' = HAborted)))"

lemma hil_after_decide:
  assumes d: "hil_decide m i s = (r, s1)" and u: "hil_update m i s = (ret, s')"
  shows "hil_view s' = hil_view s1 \<and> (hc_state s' = hc_state s1 \<or> hc_state s' = HAborted) \<and> (\<forall>ps. hil_inv ps s1 \<longrightarrow> hil_inv ps s') \<and>
    (\<exists>b1 b2. hc_log s' = hc_log s1 @ b1 @ b2 \<and> hil_batch (cycle_values i r s1) b1 \<and>
      (if \<not> all_accepted b1 \<and> gaining s1 then hil_batch (hil_released i) b2 \<and> hc_state s' = HAborted else b2 = []))"
proof -
  obtain wrote s2 where o: "hil_outputs i r s1 = (wrote, s2)" by fastforce
  define s3 where "s3 = hil_settle i wrote s2"
  define s4 where "s4 = hil_record i r wrote s3"
  have s': "s' = hil_publish i s4" using u d o by (simp add: hil_update_def s3_def s4_def)
  note os = hil_outputs_spec [OF o] and ss = hil_settle_spec [OF s3_def [symmetric]]
    and rs = hil_record_spec [of i r wrote s3, folded s4_def] and ps = hil_publish_spec [of i s4, folded s']
  have v: "hil_view s' = hil_view s1" using os ss rs ps by simp
  have st2: "hc_state s2 = hc_state s1" using os by (simp add: hil_marks_def)
  have st4: "hc_state s' = hc_state s3" using rs ps by (simp add: hil_marks_def)
  have st3: "hc_state s3 = hc_state s2 \<or> hc_state s3 = HAborted" using ss by (auto split: if_splits)
  have inv: "hil_inv q s1 \<longrightarrow> hil_inv q s'" for q
  proof -
    have i2: "hil_inv q s2 = hil_inv q s1" using os hil_inv_marks by blast
    have "hil_inv q s2 \<longrightarrow> hil_inv q s3"
      using st3 ss by (auto simp: hil_inv_def hil_marks_def hil_view_def hil_active_def)
    moreover have "hil_inv q s' = hil_inv q s4" using ps hil_inv_marks by blast
    ultimately show ?thesis using i2 hil_record_spec [of i r wrote s3 q, folded s4_def] by blast
  qed
  obtain b1 where b1: "hc_log s2 = hc_log s1 @ b1" "hil_batch (cycle_values i r s1) b1" "wrote \<longleftrightarrow> all_accepted b1" using os by blast
  have g: "gaining s2 = gaining s1" using st2 by (simp add: gaining_def)
  have "\<exists>b2. hc_log s3 = hc_log s2 @ b2 \<and>
      (if \<not> wrote \<and> gaining s1 then hil_batch (hil_released i) b2 \<and> hc_state s3 = HAborted else b2 = [])"
    using ss g by (auto split: if_splits)
  then obtain b2 where b2: "hc_log s3 = hc_log s2 @ b2"
    "if \<not> wrote \<and> gaining s1 then hil_batch (hil_released i) b2 \<and> hc_state s3 = HAborted else b2 = []" by blast
  have l: "hc_log s' = hc_log s1 @ b1 @ b2" using b1 b2 rs ps by simp
  have c: "if \<not> all_accepted b1 \<and> gaining s1 then hil_batch (hil_released i) b2 \<and> hc_state s' = HAborted else b2 = []"
    using b2(2) b1(3) st4 by simp
  have st: "hc_state s' = hc_state s1 \<or> hc_state s' = HAborted" using st2 st3 st4 by auto
  show ?thesis
    by (intro conjI v st allI inv, rule exI [of _ b1], rule exI [of _ b2]) (intro conjI l b1(2) c)
qed

lemma hil_update_spec:
  assumes u: "hil_update m i s = (ret, s')" and "hil_inv ps s"
  shows "hil_writes ps i s s' \<and> hil_inv ps s'"
proof -
  obtain r s1 where d: "hil_decide m i s = (r, s1)" by fastforce
  have s1: "hil_inv ps s1" "hc_log s1 = hc_log s" using hil_step_decide [OF d] assms(2) by (auto simp: hil_step_def hil_frame_def)
  note a = hil_after_decide [OF d u]
  note g = hil_decide_values [OF d s1(1)]
  obtain b1 b2 where b: "hc_log s' = hc_log s1 @ b1 @ b2" "hil_batch (cycle_values i r s1) b1"
    "if \<not> all_accepted b1 \<and> gaining s1 then hil_batch (hil_released i) b2 \<and> hc_state s' = HAborted else b2 = []" using a by blast
  have "hil_guarded ps i s' (cycle_values i r s1) = hil_guarded ps i s1 (cycle_values i r s1)" using a hil_guarded_view [of s' s1] by simp
  then have w: "hil_passive i (cycle_values i r s1) \<and> b2 = [] \<or> hil_guarded ps i s' (cycle_values i r s1) \<and>
      (if all_accepted b1 then b2 = [] else hil_batch (hil_released i) b2 \<and> hc_state s' = HAborted)"
    using g b(3) by (cases "gaining s1") simp_all
  have l: "hc_log s' = hc_log s @ b1 @ b2" using b(1) s1(2) by simp
  have "hil_writes ps i s s'" unfolding hil_writes_def
    by (rule exI [of _ "cycle_values i r s1"], rule exI [of _ b1], rule exI [of _ b2]) (intro conjI l b(2) w)
  then show ?thesis using a s1 by blast
qed

section \<open>Sequences of calls\<close>

lemma hil_activate_spec:
  "hc_state (snd (hil_on_activate s)) = HIdle \<and> hc_par (snd (hil_on_activate s)) = hc_par s \<and> hc_pending_start (snd (hil_on_activate s)) = hc_pending_start s \<and>
   snd (hil_marks (snd (hil_on_activate s))) = snd (hil_marks s) \<and>
   (\<exists>b. hc_log (snd (hil_on_activate s)) = hc_log s @ b \<and> hil_batch (replicate 5 NaN) b)"
proof -
  define s1 where "s1 = publishRtState (s\<lparr>hc_state := HIdle, hc_end_reason := HeNone, hc_release_write_pending := False,
      hc_applied_stop_count := hc_stop_count s, hc_rt_applied_stop_count := hc_stop_count s\<rparr>)"
  obtain ok s2 where w: "writeOutputs NaN NaN NaN NaN NaN s1 = (ok, s2)" by fastforce
  have f: "hc_state s1 = HIdle" "hc_par s1 = hc_par s" "hc_pending_start s1 = hc_pending_start s" "snd (hil_marks s1) = snd (hil_marks s)" "hc_log s1 = hc_log s"
    by (simp_all add: s1_def publishRtState_def hil_marks_def Let_def)
  have rep: "replicate 5 NaN = [NaN, NaN, NaN, NaN, NaN]" by (simp add: numeral_eq_Suc)
  note sp = writeOutputs_spec [OF w, folded rep]
  have s2: "hc_state s2 = HIdle" "hc_par s2 = hc_par s" "hc_pending_start s2 = hc_pending_start s" "snd (hil_marks s2) = snd (hil_marks s)"
    "\<exists>b. hc_log s2 = hc_log s @ b \<and> hil_batch (replicate 5 NaN) b"
    using sp f by (auto simp: hil_marks_def hil_view_def)
  have e: "snd (hil_on_activate s) = s2 \<or> (\<exists>x. snd (hil_on_activate s) = s2\<lparr>hc_snapshot := x\<rparr>)"
    unfolding hil_on_activate_def Let_def s1_def [symmetric] w prod.case by (cases ok) auto
  moreover have "hil_marks (s2\<lparr>hc_snapshot := x\<rparr>) = hil_marks s2" for x by (simp add: hil_marks_def)
  ultimately show ?thesis using s2 by auto
qed

lemma hil_deactivate_spec:
  "\<not> hil_active (hc_state (snd (hil_on_deactivate now s))) \<and> hc_par (snd (hil_on_deactivate now s)) = hc_par s \<and>
   hc_pending_start (snd (hil_on_deactivate now s)) = hc_pending_start s \<and> hc_busy (snd (hil_on_deactivate now s)) = hc_busy s \<and>
   \<not> hc_recording (snd (hil_on_deactivate now s)) \<and>
   hc_record_complete (snd (hil_on_deactivate now s)) = (hc_record_complete s \<or> hc_recording s) \<and>
   (\<exists>b. hc_log (snd (hil_on_deactivate now s)) = hc_log s @ b \<and> hil_batch (replicate 5 NaN) b)"
proof -
  obtain ok s1 where w: "writeOutputs NaN NaN NaN NaN NaN s = (ok, s1)" by fastforce
  have rep: "replicate 5 NaN = [NaN, NaN, NaN, NaN, NaN]" by (simp add: numeral_eq_Suc)
  note sp = writeOutputs_spec [OF w, folded rep]
  define s2 where "s2 = (if hil_active (hc_state s1) then endRun HeDeactivated now s1 else s1)"
  define s3 where "s3 = publishRtState s2"
  define s4 where "s4 = (if hc_recording s3 then s3\<lparr>hc_recording := False, hc_record_end_reason := hc_end_reason s3, hc_record_complete := True\<rparr> else s3)"
  have 3: "\<not> hil_active (hc_state s3)" "hc_par s3 = hc_par s1" "hc_pending_start s3 = hc_pending_start s1" "hc_busy s3 = hc_busy s1"
    "hc_recording s3 = hc_recording s1" "hc_record_complete s3 = hc_record_complete s1" "hc_log s3 = hc_log s1"
    by (auto simp: s3_def s2_def publishRtState_def endRun_def hil_active_def Let_def)
  have 1: "hc_par s1 = hc_par s" "hc_pending_start s1 = hc_pending_start s" "hc_busy s1 = hc_busy s" "hc_recording s1 = hc_recording s"
    "hc_record_complete s1 = hc_record_complete s" using sp by (auto simp: hil_view_def hil_marks_def)
  have "\<exists>x. snd (hil_on_deactivate now s) = s4\<lparr>hc_snapshot := x\<rparr>"
    unfolding hil_on_deactivate_def Let_def w prod.case s2_def [symmetric] s3_def [symmetric] s4_def [symmetric] by auto
  then show ?thesis using 1 3 sp by (auto simp: s4_def)
qed

text \<open>The configurations of a session, those that failed included: they leave the parameters behind as well.\<close>

definition configured :: "HilCall \<Rightarrow> HilParameters list" where
  "configured c = (case c of HcConfigure _ _ _ p \<Rightarrow> [p] | _ \<Rightarrow> [])"

definition session_parameters :: "HilParameters \<Rightarrow> HilCall list \<Rightarrow> HilParameters list" where
  "session_parameters p0 cs = p0 # concat (map configured cs)"

lemma hil_inv_mono: "hil_inv ps s \<Longrightarrow> hil_inv (ps @ qs) s"
  by (auto simp: hil_inv_def session_gains_def)

lemma hil_configure_spec:
  "\<exists>q rows. snd (hil_on_configure permitted dir rate p s) = s\<lparr>hc_par := q, hc_rows := rows\<rparr> \<and> hp_max_kp q = hp_max_kp p"
proof -
  define q where "q = (if hp_output_dir p = [] then case dir of Some d \<Rightarrow> p\<lparr>hp_output_dir := d\<rparr> | None \<Rightarrow> p else p)"
  have q: "hp_max_kp q = hp_max_kp p" by (simp add: q_def split: option.split)
  have "\<exists>rows. snd (hil_on_configure permitted dir rate p s) = s\<lparr>hc_par := p, hc_rows := rows\<rparr> \<or>
      snd (hil_on_configure permitted dir rate p s) = s\<lparr>hc_par := q, hc_rows := rows\<rparr>"
    unfolding hil_on_configure_def Let_def q_def [symmetric]
    by (cases "parameters_ok q") (auto intro: exI [of _ "hc_rows s"])
  then show ?thesis using q by blast
qed

lemma hil_inv_call:
  assumes "hil_inv ps s"
  shows "hil_inv (ps @ configured c) (hil_call c s)"
proof (cases c)
  case (HcConfigure permitted dir rate p)
  obtain q rows where "snd (hil_on_configure permitted dir rate p s) = s\<lparr>hc_par := q, hc_rows := rows\<rparr>" "hp_max_kp q = hp_max_kp p"
    using hil_configure_spec by blast
  then show ?thesis using assms HcConfigure by (auto simp: hil_inv_def session_gains_def configured_def)
next
  case HcActivate
  then show ?thesis using assms hil_activate_spec [of s] by (auto simp: hil_inv_def hil_marks_def hil_active_def configured_def)
next
  case (HcDeactivate now)
  then show ?thesis using assms hil_deactivate_spec [of now s] by (auto simp: hil_inv_def configured_def)
next
  case (HcStart m q now)
  obtain p where p: "p \<in> set ps" "hp_max_kp p = hp_max_kp (hc_par s)" using assms by (auto simp: hil_inv_def)
  have g: "session_gains ps r" if "hil_validate m q (hc_par s)" "sr_kp r = sr_kp (tq_request q)" "sr_kd r = sr_kd (tq_request q)" for r
  proof -
    have "gains_checked p r" using that p(2) by (simp add: hil_validate_def gains_checked_def Let_def)
    then show ?thesis using p(1) by (auto simp: session_gains_def)
  qed
  show ?thesis
  proof (cases "hil_validate m q (hc_par s) \<and> \<not> (hc_pending_start s \<noteq> None \<or> hc_busy s \<or> hc_stop_count s \<noteq> hc_rt_applied_stop_count s)")
    case False
    then have "hil_call c s = s" using HcStart by (auto simp: hil_requestStart_def)
    then show ?thesis using assms HcStart by (simp add: configured_def)
  next
    case True
    then show ?thesis using assms HcStart g by (auto simp: hil_requestStart_def hil_inv_def configured_def Let_def)
  qed
next
  case HcFinish
  then show ?thesis using assms by (simp add: hil_requestFinish_def hil_inv_def configured_def)
next
  case HcStop
  then show ?thesis using assms by (simp add: hil_requestStop_def hil_inv_def configured_def)
next
  case (HcKeepalive key now)
  then show ?thesis using assms by (simp add: onKeepalive_def hil_inv_def configured_def)
next
  case (HcUpdate m i)
  obtain r s' where "hil_update m i s = (r, s')" by fastforce
  then show ?thesis using hil_update_spec [OF _ assms] HcUpdate by (auto simp: configured_def)
next
  case (HcWriteRecord saved path)
  then show ?thesis using assms by (auto simp: writeCompletedRecord_def hil_inv_def configured_def Let_def)
qed

lemma hil_session: "hil_inv (session_parameters p0 cs) (fold hil_call cs (new_Hil p0 io))"
proof -
  have "hil_inv ps s \<Longrightarrow> hil_inv (ps @ concat (map configured cs)) (fold hil_call cs s)" for ps s
  proof (induction cs arbitrary: ps s)
    case (Cons c cs)
    from Cons.IH [OF hil_inv_call [OF Cons.prems, of c]] show ?case by simp
  qed simp
  from this [of "[p0]" "new_Hil p0 io"] show ?thesis
    by (simp add: session_parameters_def hil_inv_def new_Hil_def hil_active_def)
qed

section \<open>Stopping\<close>

definition stop_latched :: "Hil \<Rightarrow> bool" where
  "stop_latched s \<longleftrightarrow> hc_pending_start s = None \<and> (hil_active (hc_state s) \<longrightarrow> hc_stop_count s \<noteq> hc_applied_stop_count s)"

definition no_request :: "HilCall \<Rightarrow> bool" where
  "no_request c \<longleftrightarrow> (case c of HcStart _ _ _ \<Rightarrow> False | HcStop \<Rightarrow> False | _ \<Rightarrow> True)"

definition hil_gainless :: "nat \<times> double \<times> bool \<Rightarrow> bool" where
  "hil_gainless = (\<lambda>(k, v, _). k = 0 \<or> v = 0 \<or> v = NaN)"

lemma passive_gainless: "hil_batch vs b \<Longrightarrow> hil_passive i vs \<Longrightarrow> list_all hil_gainless b"
proof -
  assume b: "hil_batch vs b" and p: "hil_passive i vs"
  have "\<forall>(k, v) \<in> set (zip [0..<5] vs). k = 0 \<or> v = 0 \<or> v = NaN" using p by (auto simp: hil_passive_def hil_released_def upt_rec numeral_eq_Suc)
  then have "\<forall>(k, v) \<in> set (logged b). k = 0 \<or> v = 0 \<or> v = NaN" using b by (simp add: hil_batch_def)
  then show ?thesis by (auto simp: list_all_iff hil_gainless_def)
qed

lemma stopped_decide:
  assumes "stop_latched s" and "hil_decide m i s = (r, s')"
  shows "s' = hil_apply_stop i s \<and> hc_pending_start s' = None \<and> \<not> hil_active (hc_state s')"
proof -
  let ?s = "hil_apply_stop i s"
  have a: "\<not> hil_active (hc_state ?s)" "hc_pending_start ?s = None" using assms(1)
    by (auto simp: stop_latched_def hil_apply_stop_def hil_active_def Let_def endRun_def)
  have st: "hil_take_start i ?s = ?s" using a by (simp add: hil_take_start_def)
  have k: "hil_take_keepalive i ?s = ?s" using a by (simp add: hil_take_keepalive_def)
  have p: "hil_period i ?s = ?s" "hil_arm i ?s = ?s" "hil_hold i ?s = ?s" "hil_run m i ?s = ((no_setpoint, 0), ?s)"
    using a(1) by (simp_all add: hil_active_def hil_period_def hil_arm_def hil_hold_def hil_run_def)
  have "s' = ?s" using assms(2) unfolding hil_decide_def st k p(1,2,4) by (simp add: p(3))
  then show ?thesis using a by simp
qed

lemma stopped_call:
  assumes "stop_latched s" and "no_request c"
  shows "stop_latched (hil_call c s) \<and> (\<exists>b. hc_log (hil_call c s) = hc_log s @ b \<and> list_all hil_gainless b)"
proof (cases c)
  case (HcConfigure permitted dir rate p)
  obtain q rows where "snd (hil_on_configure permitted dir rate p s) = s\<lparr>hc_par := q, hc_rows := rows\<rparr>"
    using hil_configure_spec by blast
  then show ?thesis using assms(1) HcConfigure by (simp add: stop_latched_def exI [of _ "[]"])
next
  case HcActivate
  obtain b where "hc_log (hil_call c s) = hc_log s @ b" "hil_batch (replicate 5 NaN) b" using hil_activate_spec [of s] HcActivate by auto
  then show ?thesis using hil_activate_spec [of s] HcActivate assms(1) passive_gainless [of _ b] by (auto simp: stop_latched_def hil_active_def hil_passive_def)
next
  case (HcDeactivate now)
  obtain b where "hc_log (hil_call c s) = hc_log s @ b" "hil_batch (replicate 5 NaN) b" using hil_deactivate_spec [of now s] HcDeactivate by auto
  then show ?thesis using hil_deactivate_spec [of now s] HcDeactivate assms(1) passive_gainless [of _ b] by (auto simp: stop_latched_def hil_passive_def)
next
  case (HcUpdate m i)
  obtain r s1 where d: "hil_decide m i s = (r, s1)" by fastforce
  obtain ret s' where u: "hil_update m i s = (ret, s')" by fastforce
  note sd = stopped_decide [OF assms(1) d] and a = hil_after_decide [OF d u]
  have l: "hc_log s1 = hc_log s" using hil_step_decide [OF d] by (simp add: hil_step_def hil_frame_def)
  have p: "hil_passive i (cycle_values i r s1)" using sd by (cases r; cases "hc_state s1") (auto simp: cycle_values_def hil_passive_def hil_active_def)
  obtain b1 b2 where b: "hc_log s' = hc_log s1 @ b1 @ b2" "hil_batch (cycle_values i r s1) b1" "b2 = [] \<or> hil_batch (hil_released i) b2"
    using a by (metis (full_types))
  have "list_all hil_gainless b1" "list_all hil_gainless b2"
    using passive_gainless [OF b(2) p] passive_gainless [of "hil_released i" b2 i] b(3) by (auto simp: hil_passive_def)
  then have "\<exists>b. hc_log s' = hc_log s @ b \<and> list_all hil_gainless b" using b(1) l by auto
  moreover have "stop_latched s'" using a sd by (auto simp: stop_latched_def hil_view_def hil_active_def)
  ultimately show ?thesis using HcUpdate u by simp
next
  case HcFinish
  then show ?thesis using assms(1) by (auto simp: hil_requestFinish_def stop_latched_def)
next
  case (HcKeepalive key now)
  then show ?thesis using assms(1) by (auto simp: onKeepalive_def stop_latched_def)
next
  case (HcWriteRecord saved path)
  then show ?thesis using assms(1) by (auto simp: writeCompletedRecord_def stop_latched_def Let_def)
qed (use assms(2) in \<open>simp_all add: no_request_def\<close>)

text \<open>The calls that are neither a start nor another stop, as the steps of a latch.\<close>

definition hil_other_call :: "HilCall \<Rightarrow> Hil \<Rightarrow> Hil" where
  "hil_other_call c s = (if no_request c then hil_call c s else s)"

interpretation hil_stop: quiet_latch hil_other_call stop_latched hc_log hil_gainless
  by unfold_locales (use stopped_call in \<open>auto simp: hil_other_call_def\<close>)

lemma other_calls_fold: "list_all no_request cs \<Longrightarrow> fold hil_other_call cs s = fold hil_call cs s"
  by (induction cs arbitrary: s) (simp_all add: hil_other_call_def)

section \<open>A trial configuration\<close>

definition trial_parameters_hil :: HilParameters where
  "trial_parameters_hil = \<lparr>hp_joint = ''joint1'', hp_lower = Fin (- 1), hp_upper = Fin 1, hp_max_kp = Fin 20, hp_max_torque = Fin 5,
     hp_max_velocity = Fin 2, hp_max_amplitude = Fin 1, hp_fixed_sine_center = False, hp_sine_center = Fin 0, hp_max_period_s = Fin 1,
     hp_arm_timeout_s = Fin 1, hp_record_tail_s = Fin 0, hp_record_seconds = Fin 1, hp_max_run_seconds = Fin 60, hp_output_dir = [],
     hp_test_start_delay_s = Fin 0, hp_test_stop_delay_s = Fin 0, hp_test_finish_delay_s = Fin 0\<rparr>"

definition trial_hil :: Hil where
  "trial_hil = snd (hil_on_configure False None 1000 trial_parameters_hil (new_Hil trial_parameters_hil []))"

lemma trial_hil_configured: "hil_on_configure False None 1000 trial_parameters_hil (new_Hil trial_parameters_hil []) = (SUCCESS, trial_hil)"
proof -
  have "rnd 1 \<le> rnd (15707963267948966 / 10 ^ 16)" by (rule rnd_mono) simp
  then have "\<not> rnd (15707963267948966 / 10 ^ 16) < Fin 1" by (cases "rnd (15707963267948966 / 10 ^ 16)") auto
  then have "parameters_ok trial_parameters_hil" by (simp add: parameters_ok_def trial_parameters_hil_def finite_positive_def)
  then show ?thesis by (simp add: trial_hil_def hil_on_configure_def test_delays_def trial_parameters_hil_def Let_def)
qed

text \<open>A request to hold the position.\<close>

definition hold_request :: StartTrajectory where
  "hold_request = \<lparr>tq_kind = 0, tq_request = new_StartRequest\<lparr>sr_kp := Fin 1, sr_kd := Fin 1, sr_hold := Fin 1, sr_friction_velocity := Fin 1,
     sr_stribeck_velocity := Fin 1\<rparr>, tq_lease = Fin 1\<rparr>"

lemma hold_request_accepted: "fst (hil_requestStart coarse_libm hold_request 5 trial_hil)"
proof -
  have "rnd (1 / 10) \<le> rnd 1" by (rule rnd_mono) simp
  then have l: "rnd (1 / 10) \<le> Fin 1" by simp
  have p: "hc_par trial_hil = trial_parameters_hil" "hc_pending_start trial_hil = None" "\<not> hc_busy trial_hil" "hc_stop_count trial_hil = hc_rt_applied_stop_count trial_hil"
    by (simp_all add: trial_hil_def hil_on_configure_def new_Hil_def Let_def split: if_split)
  have "hil_validate coarse_libm hold_request trial_parameters_hil"
    using l by (simp add: hil_validate_def hold_request_def new_StartRequest_def trial_parameters_hil_def zero_double_def)
  then show ?thesis using p by (simp add: hil_requestStart_def Let_def)
qed

section \<open>Properties\<close>

text \<open>
  Property C4 The writes of an update of the single-joint controller, after any sequence of calls since its construction
  (configurations, also failed and repeated ones, activations, deactivations, requests and updates) and whatever the handles refuse: either one
  batch without gains (all values undefined, or the measured position with zero velocity, gains and torque) and nothing after it; or one
  guarded batch, followed by a release and the abort of the run exactly if one of its values was refused. Guarded means: the last matching
  keepalive is within the lease of the run, the feedback is finite, \<open>0 < kp\<close>, \<open>0 \<le> kd \<le> 2\<close>, \<open>kp\<close> is at most the \<open>max_kp\<close> of one of the
  session's configurations (a request that waits keeps the check it passed), and velocity, unless zero, and torque of the set-point do not
  exceed the limits configured now.
\<close>

theorem hil_writes_guarded:
  "let s = fold hil_call cs (new_Hil p0 io); s' = snd (hil_update m i s)
   in \<exists>vs b1 b2. hc_log s' = hc_log s @ b1 @ b2 \<and> hil_batch vs b1 \<and>
     (hil_passive i vs \<and> b2 = [] \<or>
      hil_guarded (session_parameters p0 cs) i s' vs \<and>
        (if all_accepted b1 then b2 = [] else hil_batch (hil_released i) b2 \<and> hc_state s' = HAborted))"
proof -
  obtain r s' where u: "hil_update m i (fold hil_call cs (new_Hil p0 io)) = (r, s')" by fastforce
  show ?thesis unfolding Let_def u snd_conv hil_writes_def [symmetric]
    using hil_update_spec [OF u hil_session] by (rule conjunct1)
qed

text \<open>
  Property C14 A stop request of the single-joint controller: unless the counter of unapplied stops is about to wrap, every
  later call that is not a new request, in any order, writes no gain, no velocity and no torque; a start that was accepted before the
  stop never runs.
\<close>

theorem hil_stop_ends_run:
  assumes "hc_stop_count s + 1 \<noteq> hc_applied_stop_count s" and "list_all no_request cs"
  shows "\<exists>b. hc_log (fold hil_call cs (hil_requestStop s)) = hc_log s @ b \<and> list_all hil_gainless b"
proof -
  have "stop_latched (hil_requestStop s)" using assms(1) by (simp add: stop_latched_def hil_requestStop_def)
  from hil_stop.output_run [OF this, of cs] show ?thesis using other_calls_fold [OF assms(2)] by (simp add: hil_requestStop_def)
qed

theorem hil_stop_ends_run_witness:
  "\<exists>b. hc_log (fold hil_call [HcActivate, HcKeepalive 1 6, HcDeactivate 9] (hil_requestStop (snd (hil_requestStart coarse_libm hold_request 5 (new_Hil trial_parameters_hil []))))) =
     hc_log (snd (hil_requestStart coarse_libm hold_request 5 (new_Hil trial_parameters_hil []))) @ b \<and> list_all hil_gainless b"
  by (rule hil_stop_ends_run) (simp_all add: no_request_def hil_requestStart_def new_Hil_def Let_def)

text \<open>
  Also A start request of the single-joint controller is accepted only if no earlier request waits, no run is active and the
  record of the previous run has been handed over, after any sequence of calls.
\<close>

theorem hil_start_needs_handover:
  assumes "fst (hil_requestStart m q now (fold hil_call cs (new_Hil p0 io)))"
  shows "let s = fold hil_call cs (new_Hil p0 io)
    in hc_pending_start s = None \<and> \<not> hil_active (hc_state s) \<and> \<not> hc_recording s \<and> \<not> hc_record_complete s"
  using assms hil_session [of p0 cs io] by (auto simp: hil_requestStart_def hil_inv_def Let_def split: if_splits)

theorem hil_start_needs_handover_witness:
  "let s = fold hil_call [HcConfigure False None 1000 trial_parameters_hil] (new_Hil trial_parameters_hil [])
    in hc_pending_start s = None \<and> \<not> hil_active (hc_state s) \<and> \<not> hc_recording s \<and> \<not> hc_record_complete s"
proof (rule hil_start_needs_handover)
  have "fold hil_call [HcConfigure False None 1000 trial_parameters_hil] (new_Hil trial_parameters_hil []) = trial_hil"
    by (simp add: trial_hil_def)
  then show "fst (hil_requestStart coarse_libm hold_request 5 (fold hil_call [HcConfigure False None 1000 trial_parameters_hil]
      (new_Hil trial_parameters_hil [])))" using hold_request_accepted by simp
qed

end
