(* ===== verification/System_Worker.thy ===== *)
theory System_Worker
  imports Stream_Send
begin

text \<open>
  The sequential worker of the hardware interface (\<^verbatim>\<open>src/bxi_system_interface.cpp\<close>: \<^verbatim>\<open>workerLoop\<close>,
  \<^verbatim>\<open>disableAxes\<close>): one thread per bus that copies the targets, runs one control transaction per axis, raises
  the shared stop flag on a fault, publishes the feedback, and disables its motors when the flag is set. The vectors of
  positions, velocities, efforts and temperatures of the class are one list of records per axis here. The targets of
  each cycle and the values other threads give to the stop flag are scripts.
\<close>

section \<open>State\<close>

record AxisState =
  ax_position :: double
  ax_velocity :: double
  ax_effort :: double
  ax_temperature :: double

record AxisTarget =
  at_position :: double
  at_velocity :: double
  at_kp :: double
  at_kd :: double
  at_effort :: double

record WorkerJoint =
  wj_actuator :: BxiActuatorDriver
  wj_overheated :: bool
  wj_temperature_sensor_fault :: bool
  wj_communication_fault :: bool

record WorkerTimingCycle =
  wc_cycle :: u64
  wc_start_lateness_ns :: ns
  wc_interval_ns :: ns
  wc_allocation_ns :: ns
  wc_target_lock_wait_ns :: ns
  wc_target_lock_hold_ns :: ns
  wc_can_ns :: ns
  wc_feedback_lock_wait_ns :: ns
  wc_feedback_lock_hold_ns :: ns
  wc_work_ns :: ns
  wc_transactions :: u32
  wc_invalid_responses :: u32

definition default_WorkerTimingCycle :: WorkerTimingCycle where
  "default_WorkerTimingCycle = \<lparr>wc_cycle = 0, wc_start_lateness_ns = 0, wc_interval_ns = 0, wc_allocation_ns = 0,
     wc_target_lock_wait_ns = 0, wc_target_lock_hold_ns = 0, wc_can_ns = 0, wc_feedback_lock_wait_ns = 0,
     wc_feedback_lock_hold_ns = 0, wc_work_ns = 0, wc_transactions = 0, wc_invalid_responses = 0\<rparr>"

record WorkerTimingTransaction =
  wx_cycle :: u64
  wx_joint_index :: nat
  wx_duration_ns :: ns
  wx_valid :: bool
  wx_tx_call_realtime_ns :: ns
  wx_rx_kernel_realtime_ns :: ns
  wx_rx_userspace_realtime_ns :: ns

record WorkerTimingTrace =
  wt_cycles :: "WorkerTimingCycle list"
  wt_transactions :: "WorkerTimingTransaction list"
  wt_cycle_count :: nat
  wt_transaction_count :: nat
  wt_dropped_cycles :: u64
  wt_dropped_transactions :: u64

record Worker =
  wk_joints :: "WorkerJoint list"
  wk_fb :: "AxisState list"
  wk_safe_stopped :: bool
  wk_stops :: "bool list"
  wk_timing :: "WorkerTimingTrace option"
  wk_previous_start :: ns

text \<open>A read of \<^verbatim>\<open>safe_stopped_\<close>: another thread may have set it, nobody resets it while the worker runs.\<close>

definition read_stop :: "Worker \<Rightarrow> bool \<times> Worker" where
  "read_stop w = (case wk_stops w of [] \<Rightarrow> (wk_safe_stopped w, w)
     | b # bs \<Rightarrow> (wk_safe_stopped w \<or> b, w\<lparr>wk_safe_stopped := wk_safe_stopped w \<or> b, wk_stops := bs\<rparr>))"

section \<open>Timing\<close>

definition timed :: "Worker \<Rightarrow> bool" where
  "timed w \<longleftrightarrow> wk_timing w \<noteq> None"

text \<open>\<^verbatim>\<open>timing != nullptr ? clock::now() : t0\<close>\<close>

definition mark :: "Worker \<Rightarrow> ns \<Rightarrow> env \<Rightarrow> ns \<times> env" where
  "mark w t0 e = (if timed w then steady_now e else (t0, e))"

definition start_sample :: "ns \<Rightarrow> ns \<Rightarrow> Worker \<Rightarrow> WorkerTimingCycle \<times> Worker" where
  "start_sample period t0 w =
     (case wk_timing w of None \<Rightarrow> (default_WorkerTimingCycle, w)
      | Some t \<Rightarrow>
          (let sample = default_WorkerTimingCycle\<lparr>wc_cycle := of_nat (wt_cycle_count t)\<rparr>;
               sample = (if wk_previous_start w \<noteq> 0
                 then sample\<lparr>wc_interval_ns := t0 - wk_previous_start w,
                   wc_start_lateness_ns := max 0 (t0 - wk_previous_start w - period)\<rparr> else sample)
           in (sample, w\<lparr>wk_previous_start := t0\<rparr>)))"

definition record_transaction :: "WorkerTimingTransaction \<Rightarrow> WorkerTimingTrace \<Rightarrow> WorkerTimingTrace" where
  "record_transaction x t =
     (let n = wt_transaction_count t;
          t = (if n < length (wt_transactions t) then t\<lparr>wt_transactions := (wt_transactions t)[n := x]\<rparr>
               else t\<lparr>wt_dropped_transactions := wt_dropped_transactions t + 1\<rparr>)
      in t\<lparr>wt_transaction_count := n + 1\<rparr>)"

definition record_cycle :: "WorkerTimingCycle \<Rightarrow> WorkerTimingTrace \<Rightarrow> WorkerTimingTrace" where
  "record_cycle c t =
     (let n = wt_cycle_count t;
          t = (if n < length (wt_cycles t) then t\<lparr>wt_cycles := (wt_cycles t)[n := c]\<rparr>
               else t\<lparr>wt_dropped_cycles := wt_dropped_cycles t + 1\<rparr>)
      in t\<lparr>wt_cycle_count := n + 1\<rparr>)"

section \<open>One cycle\<close>

text \<open>The reaction to the answer of an axis.\<close>

definition judge_feedback :: "ActuatorFeedback \<Rightarrow> nat \<Rightarrow> Worker \<Rightarrow> Worker" where
  "judge_feedback fb i w =
     (let j = wk_joints w ! i
      in if af_valid fb then
           if \<not> isfinite (af_temperature fb)
           then w\<lparr>wk_joints := (wk_joints w)[i := j\<lparr>wj_temperature_sensor_fault := True\<rparr>], wk_safe_stopped := True\<rparr>
           else if dlit 80 < af_temperature fb
           then w\<lparr>wk_joints := (wk_joints w)[i := j\<lparr>wj_overheated := True\<rparr>], wk_safe_stopped := True\<rparr>
           else w
         else if bd_state (wj_actuator j) = kSafeStopped
         then w\<lparr>wk_joints := (wk_joints w)[i := j\<lparr>wj_communication_fault := True\<rparr>], wk_safe_stopped := True\<rparr>
         else w)"

definition observed :: "ActuatorFeedback \<Rightarrow> AxisState \<Rightarrow> AxisState" where
  "observed fb o1 = (if af_valid fb then \<lparr>ax_position = af_position fb, ax_velocity = af_velocity fb, ax_effort = af_effort fb,
     ax_temperature = af_temperature fb\<rparr> else o1)"

definition note_transaction :: "ActuatorFeedback \<Rightarrow> nat \<Rightarrow> ns \<Rightarrow> ns \<Rightarrow> WorkerTimingCycle \<times> Worker \<times> env \<Rightarrow> WorkerTimingCycle \<times> Worker \<times> env" where
  "note_transaction fb i transaction_start tx_call = (\<lambda>(sample, w, e).
     case wk_timing w of None \<Rightarrow> (sample, w, e)
     | Some t \<Rightarrow>
         (let (now, e) = steady_now e;
              x = \<lparr>wx_cycle = wc_cycle sample, wx_joint_index = i, wx_duration_ns = now - transaction_start,
                   wx_valid = af_valid fb, wx_tx_call_realtime_ns = tx_call,
                   wx_rx_kernel_realtime_ns = af_rx_kernel_realtime_ns fb, wx_rx_userspace_realtime_ns = af_rx_userspace_realtime_ns fb\<rparr>
          in (sample\<lparr>wc_transactions := wc_transactions sample + 1,
                wc_invalid_responses := wc_invalid_responses sample + (if af_valid fb then 0 else 1)\<rparr>,
              w\<lparr>wk_timing := Some (record_transaction x t)\<rparr>, e)))"

type_synonym axis_run = "WorkerTimingCycle \<times> AxisState list \<times> Worker \<times> env"

definition worker_axis :: "ns \<Rightarrow> AxisTarget list \<Rightarrow> nat \<Rightarrow> nat \<Rightarrow> axis_run \<Rightarrow> axis_run" where
  "worker_axis t0 targets k i = (\<lambda>(sample, out, w, e).
     let j = wk_joints w ! i
     in if wj_overheated j then (sample, out, w, e)
     else let (transaction_start, e) = mark w t0 e;
              (tx_call, e) = (if timed w then wall_now e else (0, e));
              t = targets ! k;
              (fb, d, e) = sendControl (at_position t) (at_velocity t) (at_kp t) (at_kd t) (at_effort t) (wj_actuator j) e;
              w = w\<lparr>wk_joints := (wk_joints w)[i := j\<lparr>wj_actuator := d\<rparr>]\<rparr>;
              (sample, w, e) = note_transaction fb i transaction_start tx_call (sample, w, e)
     in (sample, out[k := observed fb (out ! k)], judge_feedback fb i w, e))"

text \<open>The loop over the axes, numbered from \<open>k\<close>; it ends as soon as the stop flag is set.\<close>

fun worker_axes :: "ns \<Rightarrow> AxisTarget list \<Rightarrow> nat \<Rightarrow> nat list \<Rightarrow> axis_run \<Rightarrow> axis_run" where
  "worker_axes t0 targets k [] s = s"
| "worker_axes t0 targets k (i # is) (sample, out, w, e) =
     (let (stop, w) = read_stop w
      in if stop then (sample, out, w, e)
      else worker_axes t0 targets (Suc k) is (worker_axis t0 targets k i (sample, out, w, e)))"

definition publish_feedback :: "nat list \<Rightarrow> AxisState list \<Rightarrow> Worker \<Rightarrow> Worker" where
  "publish_feedback indices out w = w\<lparr>wk_fb := fold (\<lambda>(i, v) fb. fb[i := v]) (zip indices out) (wk_fb w)\<rparr>"

definition finish_sample :: "ns \<Rightarrow> WorkerTimingCycle \<Rightarrow> Worker \<times> env \<Rightarrow> Worker \<times> env" where
  "finish_sample t0 sample = (\<lambda>(w, e).
     case wk_timing w of None \<Rightarrow> (w, e)
     | Some t \<Rightarrow> (let (now, e) = steady_now e in (w\<lparr>wk_timing := Some (record_cycle (sample\<lparr>wc_work_ns := now - t0\<rparr>) t)\<rparr>, e)))"

text \<open>One pass of the loop; \<open>targets\<close> are the target values at the time of the lock.\<close>

definition worker_cycle :: "ns \<Rightarrow> nat list \<Rightarrow> AxisTarget list \<Rightarrow> Worker \<times> env \<Rightarrow> LoopExit \<times> Worker \<times> env" where
  "worker_cycle period indices all_targets = (\<lambda>(w, e).
     let (stop, w) = read_stop w
     in if stop then (Break, w, e)
     else let
       (t0, e) = steady_now e;
       (sample, w) = start_sample period t0 w;
       (allocated, e) = mark w t0 e;
       (lock_start, e) = mark w t0 e;
       (acquired, e) = mark w t0 e;
       targets = map (\<lambda>i. all_targets ! i) indices;
       out = map (\<lambda>i. wk_fb w ! i) indices;
       (released, e) = mark w t0 e;
       (can_start, e) = mark w t0 e;
       sample = sample\<lparr>wc_allocation_ns := allocated - t0, wc_target_lock_wait_ns := acquired - lock_start,
         wc_target_lock_hold_ns := released - acquired\<rparr>;
       (sample, out, w, e) = worker_axes t0 targets 0 indices (sample, out, w, e);
       (can_end, e) = mark w t0 e;
       (lock_start, e) = mark w t0 e;
       (acquired, e) = mark w t0 e;
       w = publish_feedback indices out w;
       (released, e) = mark w t0 e;
       sample = sample\<lparr>wc_can_ns := can_end - can_start, wc_feedback_lock_wait_ns := acquired - lock_start,
         wc_feedback_lock_hold_ns := released - acquired\<rparr>;
       (w, e) = finish_sample t0 sample (w, e);
       (stop, w) = read_stop w
     in if stop then (Break, w, e) else (Continue, w, sleep_until (t0 + period) e))"

text \<open>The cycles; the loop ends with its script, which is a read of \<^verbatim>\<open>running_\<close> that returns false.\<close>

fun worker_cycles :: "ns \<Rightarrow> nat list \<Rightarrow> AxisTarget list list \<Rightarrow> Worker \<times> env \<Rightarrow> Worker \<times> env" where
  "worker_cycles period indices [] s = s"
| "worker_cycles period indices (t # ts) s =
     (case worker_cycle period indices t s of
        (Break, s) \<Rightarrow> s
      | (Continue, s) \<Rightarrow> worker_cycles period indices ts s)"

definition exit_axis :: "nat \<Rightarrow> Worker \<times> env \<Rightarrow> Worker \<times> env" where
  "exit_axis i = (\<lambda>(w, e).
     let j = wk_joints w ! i
     in if bd_state (wj_actuator j) = kSafeStopped then (w, e)
     else let (fb, d, e) = disable (wj_actuator j) e
     in (w\<lparr>wk_joints := (wk_joints w)[i := j\<lparr>wj_actuator := d\<rparr>]\<rparr>, e))"

definition workerLoop :: "ns \<Rightarrow> nat list \<Rightarrow> AxisTarget list list \<Rightarrow> Worker \<times> env \<Rightarrow> Worker \<times> env" where
  "workerLoop period indices ts s =
     (let (w, e) = worker_cycles period indices ts s; (stop, w) = read_stop w
      in if stop then fold exit_axis indices (w, e) else (w, e))"

section \<open>Disabling the axes of a bus\<close>

datatype DisableOutcome = BestEffort | AlreadyDisabled | Acknowledged | AcknowledgementMissing

definition disable_axis :: "BxiActuatorDriver option \<times> env \<Rightarrow> DisableOutcome option \<times> BxiActuatorDriver option \<times> env" where
  "disable_axis = (\<lambda>(a, e). case a of None \<Rightarrow> (None, None, e)
     | Some d \<Rightarrow>
         if bd_state d = kSafeStopped then (let (fb, d, e) = disable d e in (Some BestEffort, Some d, e))
         else if bd_state d = kDisabled then (Some AlreadyDisabled, Some d, e)
         else let (fb, d, e) = disable d e
         in (Some (if af_valid fb then Acknowledged else AcknowledgementMissing), Some d, e))"

fun disableAxes :: "nat list \<Rightarrow> BxiActuatorDriver option list \<times> env \<Rightarrow> DisableOutcome option list \<times> BxiActuatorDriver option list \<times> env" where
  "disableAxes [] (ds, e) = ([], ds, e)"
| "disableAxes (i # is) (ds, e) =
     (let (r, d, e) = disable_axis (ds ! i, e); (rs, ds, e) = disableAxes is (ds[i := d], e) in (r # rs, ds, e))"


section \<open>What a step of the worker keeps\<close>

abbreviation dr :: "Worker \<Rightarrow> nat \<Rightarrow> BxiActuatorDriver" where
  "dr w i \<equiv> wj_actuator (wk_joints w ! i)"

text \<open>A driver call keeps the motor, only adds frames, and enters safe-stop only with an attempt to disable.\<close>

definition driver_grows :: "BxiActuatorDriver \<times> env \<Rightarrow> BxiActuatorDriver \<times> env \<Rightarrow> bool" where
  "driver_grows s s' \<longleftrightarrow> (case (s, s') of ((d, e), (d', e')) \<Rightarrow>
     bd_can_id d' = bd_can_id d \<and> (\<exists>os. tx_log e' = tx_log e @ os \<and>
       (bd_state d' = kSafeStopped \<longrightarrow> bd_state d = kSafeStopped \<or> disable_frame d \<in> fst ` set os)))"

lemma driver_call_grows: "driver_grows s (driver_call c s)"
proof -
  obtain d e d' e' where s: "s = (d, e)" "driver_call c (d, e) = (d', e')" by (metis surj_pair)
  have "bd_can_id d' = bd_can_id d" using driver_run_can_id [of "[c]" d e d' e'] s(2) by simp
  moreover have "\<exists>os. tx_log e' = tx_log e @ os \<and>
       (bd_state d' = kSafeStopped \<longrightarrow> bd_state d = kSafeStopped \<or> disable_frame d \<in> fst ` set os)"
  proof (cases "bd_state d = kSafeStopped")
    case True
    then show ?thesis using driver_call_stopped(3) [OF True s(2)] by auto
  next
    case False
    from s(2) False show ?thesis
    proof (cases rule: driver_call_effect)
      case (replied fr decoded response t)
      moreover have "bd_state d' \<noteq> kSafeStopped" using replied(2) False by (cases c) auto
      ultimately show ?thesis by simp
    qed (use False in auto)
  qed
  ultimately show ?thesis using s by (simp add: driver_grows_def)
qed

lemma sendControl_grows:
  assumes "sendControl p v kp kd tau d e = (fb, d', e')"
  shows "driver_grows (d, e) (d', e')"
  using driver_call_grows [of "(d, e)" "CallControl p v kp kd tau"] assms by simp

lemma disable_grows:
  assumes "disable d e = (fb, d', e')"
  shows "driver_grows (d, e) (d', e')"
  using driver_call_grows [of "(d, e)" CallDisable] assms by simp

text \<open>Disabling a driver that is not in safe-stop sends the disable frame first.\<close>

lemma disable_sends:
  assumes "disable d e = (fb, d', e')" and "bd_state d \<noteq> kSafeStopped"
  shows "\<exists>os. tx_log e' = tx_log e @ os \<and> os \<noteq> [] \<and> fst ` set os = {disable_frame d}"
proof -
  have "driver_call CallDisable (d, e) = (d', e')" using assms(1) by simp
  from this assms(2) show ?thesis by (cases rule: driver_call_effect) auto
qed

text \<open>The same for a step of the worker, for all axes.\<close>

definition grows :: "Worker \<times> env \<Rightarrow> Worker \<times> env \<Rightarrow> bool" where
  "grows s s' \<longleftrightarrow> (case (s, s') of ((w, e), (w', e')) \<Rightarrow>
     length (wk_joints w') = length (wk_joints w) \<and> (wk_safe_stopped w \<longrightarrow> wk_safe_stopped w') \<and>
     (\<forall>i < length (wk_joints w). bd_can_id (dr w' i) = bd_can_id (dr w i)) \<and>
     (\<exists>os. tx_log e' = tx_log e @ os \<and>
       (\<forall>i < length (wk_joints w). bd_state (dr w' i) = kSafeStopped \<longrightarrow>
          bd_state (dr w i) = kSafeStopped \<or> disable_frame (dr w i) \<in> fst ` set os)))"

lemma grows_refl: "grows s s"
  by (auto simp: grows_def split: prod.splits)

lemma grows_same:
  assumes "map wj_actuator (wk_joints w') = map wj_actuator (wk_joints w)" and "wk_safe_stopped w \<longrightarrow> wk_safe_stopped w'"
    and "tx_log e' = tx_log e"
  shows "grows (w, e) (w', e')"
proof -
  have l: "length (wk_joints w') = length (wk_joints w)" using map_eq_imp_length_eq [OF assms(1)] .
  moreover have "dr w' i = dr w i" if "i < length (wk_joints w)" for i
    using arg_cong [OF assms(1), of "\<lambda>xs. xs ! i"] that l by simp
  ultimately show ?thesis using assms(2,3) by (simp add: grows_def)
qed

lemma grows_trans:
  assumes "grows s t" and "grows t u"
  shows "grows s u"
proof -
  obtain w e w1 e1 w2 e2 where p: "s = (w, e)" "t = (w1, e1)" "u = (w2, e2)" by (metis surj_pair)
  obtain os where a: "tx_log e1 = tx_log e @ os"
    "\<And>i. i < length (wk_joints w) \<Longrightarrow> bd_state (dr w1 i) = kSafeStopped \<Longrightarrow> bd_state (dr w i) = kSafeStopped \<or> disable_frame (dr w i) \<in> fst ` set os"
    using assms(1) by (auto simp: grows_def p)
  obtain os' where b: "tx_log e2 = tx_log e1 @ os'"
    "\<And>i. i < length (wk_joints w1) \<Longrightarrow> bd_state (dr w2 i) = kSafeStopped \<Longrightarrow> bd_state (dr w1 i) = kSafeStopped \<or> disable_frame (dr w1 i) \<in> fst ` set os'"
    using assms(2) by (auto simp: grows_def p)
  have l: "length (wk_joints w1) = length (wk_joints w)" "length (wk_joints w2) = length (wk_joints w1)"
    and i: "\<And>i. i < length (wk_joints w) \<Longrightarrow> bd_can_id (dr w1 i) = bd_can_id (dr w i) \<and> bd_can_id (dr w2 i) = bd_can_id (dr w1 i)"
    and st: "wk_safe_stopped w \<longrightarrow> wk_safe_stopped w2"
    using assms by (auto simp: grows_def p)
  have "bd_state (dr w j) = kSafeStopped \<or> disable_frame (dr w j) \<in> fst ` set (os @ os')"
    if "j < length (wk_joints w)" "bd_state (dr w2 j) = kSafeStopped" for j
    using b(2) [of j] a(2) [of j] i [of j] that l by auto
  moreover have "tx_log e2 = tx_log e @ os @ os'" using a(1) b(1) by simp
  ultimately show ?thesis using l i st unfolding grows_def p by auto
qed

lemma grows_axis:
  assumes "driver_grows (dr w i, e) (d', e')" and "i < length (wk_joints w)" and "wk_safe_stopped w \<longrightarrow> wk_safe_stopped w'"
    and "map wj_actuator (wk_joints w') = (map wj_actuator (wk_joints w))[i := d']"
  shows "grows (w, e) (w', e')"
proof -
  have l: "length (wk_joints w') = length (wk_joints w)" by (metis assms(4) length_list_update length_map)
  have "dr w' j = (if j = i then d' else dr w j)" if "j < length (wk_joints w)" for j
    using arg_cong [OF assms(4), of "\<lambda>xs. xs ! j"] that l assms(2) by (auto simp: nth_list_update)
  then show ?thesis using assms(1,3) l by (auto simp: grows_def driver_grows_def)
qed


lemma mark_log [simp]: "tx_log (snd (mark w t0 e)) = tx_log e"
  by (simp add: mark_def)

lemma clock_log:
  "steady_now e = (t, e') \<Longrightarrow> tx_log e' = tx_log e" "wall_now e = (t, e') \<Longrightarrow> tx_log e' = tx_log e"
  "mark w t0 e = (t, e') \<Longrightarrow> tx_log e' = tx_log e"
  by (metis env_log(1) snd_conv, metis env_log(2) snd_conv, metis mark_log snd_conv)

lemma start_sample_fields [simp]:
  "wk_joints (snd (start_sample p t0 w)) = wk_joints w" "wk_safe_stopped (snd (start_sample p t0 w)) = wk_safe_stopped w"
  by (simp_all add: start_sample_def Let_def split: option.split)

lemma note_transaction_spec:
  assumes "note_transaction fb i a b (sample, w, e) = (sample', w', e')"
  shows "wk_joints w' = wk_joints w \<and> wk_safe_stopped w' = wk_safe_stopped w \<and> tx_log e' = tx_log e"
  using assms by (auto simp: note_transaction_def Let_def clock_log split: option.splits prod.splits)

lemma finish_sample_spec:
  assumes "finish_sample t0 sample (w, e) = (w', e')"
  shows "wk_joints w' = wk_joints w \<and> wk_safe_stopped w' = wk_safe_stopped w \<and> tx_log e' = tx_log e"
  using assms by (auto simp: finish_sample_def Let_def clock_log split: option.splits prod.splits)

lemma actuators_same: "(map wj_actuator js)[i := wj_actuator (js ! i)] = map wj_actuator js"
proof (cases "i < length js")
  case True
  then have "(map wj_actuator js)[i := map wj_actuator js ! i] = map wj_actuator js" by (simp only: list_update_id)
  then show ?thesis using True by simp
qed (simp add: list_update_beyond)

lemma judge_feedback_actuators: "map wj_actuator (wk_joints (judge_feedback fb i w)) = map wj_actuator (wk_joints w)"
  by (simp add: judge_feedback_def Let_def map_update actuators_same)

lemma judge_feedback_stop:
  "wk_safe_stopped (judge_feedback fb i w) \<longleftrightarrow> wk_safe_stopped w \<or>
     (if af_valid fb then \<not> isfinite (af_temperature fb) \<or> dlit 80 < af_temperature fb else bd_state (dr w i) = kSafeStopped)"
  by (simp add: judge_feedback_def Let_def)

lemma worker_axis_grows:
  assumes "worker_axis t0 ts k i (sample, out, w, e) = (sample', out', w', e')" and "i < length (wk_joints w)"
  shows "grows (w, e) (w', e')"
proof (cases "wj_overheated (wk_joints w ! i)")
  case True
  then show ?thesis using assms(1) grows_refl by (simp add: worker_axis_def Let_def)
next
  case False
  obtain ts1 e1 where m: "mark w t0 e = (ts1, e1)" by fastforce
  obtain wl e2 where wl: "(if timed w then wall_now e1 else (0, e1)) = (wl, e2)" by fastforce
  obtain fb d e3 where c: "sendControl (at_position (ts ! k)) (at_velocity (ts ! k)) (at_kp (ts ! k)) (at_kd (ts ! k)) (at_effort (ts ! k)) (dr w i) e2 = (fb, d, e3)"
    using prod_cases3 by blast
  let ?w = "w\<lparr>wk_joints := (wk_joints w)[i := (wk_joints w ! i)\<lparr>wj_actuator := d\<rparr>]\<rparr>"
  obtain s1 w4 e4 where n: "note_transaction fb i ts1 wl (sample, ?w, e3) = (s1, w4, e4)" using prod_cases3 by blast
  have r: "w' = judge_feedback fb i w4" "e' = e4"
    using assms(1) False unfolding worker_axis_def Let_def prod.case m wl c n by simp_all
  have log: "tx_log e2 = tx_log e" using wl clock_log(3) [OF m] clock_log(2) by (auto split: if_splits)
  note ns = note_transaction_spec [OF n]
  have "driver_grows (dr w i, e) (d, e4)" using sendControl_grows [OF c] ns log by (simp add: driver_grows_def)
  moreover have "map wj_actuator (wk_joints w') = (map wj_actuator (wk_joints w))[i := d]"
    using ns by (simp add: r(1) judge_feedback_actuators map_update)
  moreover have "wk_safe_stopped w \<longrightarrow> wk_safe_stopped w'" using ns by (simp add: r(1) judge_feedback_stop)
  ultimately show ?thesis using grows_axis [OF _ assms(2)] r(2) by blast
qed

lemma grows_length: "grows (w, e) (w', e') \<Longrightarrow> length (wk_joints w') = length (wk_joints w)"
  by (simp add: grows_def)

lemma read_stopD: "read_stop w = (b, w') \<Longrightarrow> wk_joints w' = wk_joints w \<and> wk_safe_stopped w' = b \<and> (wk_safe_stopped w \<longrightarrow> b)"
  by (auto simp: read_stop_def split: list.splits)

lemma read_stop_grows: "read_stop w = (b, w') \<Longrightarrow> grows (w, e) (w', e)"
  using read_stopD by (intro grows_same) auto

lemma worker_axes_grows:
  assumes "worker_axes t0 ts k is (sample, out, w, e) = (sample', out', w', e')" and "\<forall>i \<in> set is. i < length (wk_joints w)"
  shows "grows (w, e) (w', e')"
  using assms
proof (induction "is" arbitrary: k sample out w e)
  case Nil
  then show ?case using grows_refl by simp
next
  case (Cons i js)
  obtain b w1 where r: "read_stop w = (b, w1)" by fastforce
  have g: "grows (w, e) (w1, e)" using read_stop_grows [OF r] .
  show ?case
  proof (cases b)
    case True
    then show ?thesis using Cons.prems(1) r g by simp
  next
    case False
    obtain s2 o2 w2 e2 where a: "worker_axis t0 ts k i (sample, out, w1, e) = (s2, o2, w2, e2)" using prod_cases4 by blast
    have l: "length (wk_joints w1) = length (wk_joints w)" using grows_length [OF g] .
    then have g2: "grows (w1, e) (w2, e2)" using worker_axis_grows [OF a] Cons.prems(2) by simp
    have rest: "worker_axes t0 ts (Suc k) js (s2, o2, w2, e2) = (sample', out', w', e')" using Cons.prems(1) r False a by simp
    have "grows (w2, e2) (w', e')" using Cons.IH [OF rest] Cons.prems(2) grows_length [OF g2] l by simp
    then show ?thesis using g g2 grows_trans by blast
  qed
qed


lemma publish_feedback_fields [simp]:
  "wk_joints (publish_feedback is out w) = wk_joints w" "wk_safe_stopped (publish_feedback is out w) = wk_safe_stopped w"
  by (simp_all add: publish_feedback_def)

lemma worker_cycle_grows:
  assumes "worker_cycle period is ts (w, e) = (x, w', e')" and "\<forall>i \<in> set is. i < length (wk_joints w)"
  shows "grows (w, e) (w', e')" and "x = Break \<longleftrightarrow> wk_safe_stopped w'"
proof -
  obtain b w1 where r: "read_stop w = (b, w1)" by fastforce
  have g1: "grows (w, e) (w1, e)" using read_stop_grows [OF r] .
  have "grows (w, e) (w', e') \<and> (x = Break \<longleftrightarrow> wk_safe_stopped w')"
  proof (cases b)
    case True
    then show ?thesis using assms(1) r g1 read_stopD [OF r] by (auto simp: worker_cycle_def)
  next
    case False
    obtain t0 e2 where t0: "steady_now e = (t0, e2)" by fastforce
    obtain s2 w2 where s2: "start_sample period t0 w1 = (s2, w2)" by fastforce
    obtain a e3 where m3: "mark w2 t0 e2 = (a, e3)" by fastforce
    obtain l1 e4 where m4: "mark w2 t0 e3 = (l1, e4)" by fastforce
    obtain q1 e5 where m5: "mark w2 t0 e4 = (q1, e5)" by fastforce
    obtain r1 e6 where m6: "mark w2 t0 e5 = (r1, e6)" by fastforce
    obtain c1 e7 where m7: "mark w2 t0 e6 = (c1, e7)" by fastforce
    let ?s = "s2\<lparr>wc_allocation_ns := a - t0, wc_target_lock_wait_ns := q1 - l1, wc_target_lock_hold_ns := r1 - q1\<rparr>"
    obtain s8 o8 w8 e8 where ax: "worker_axes t0 (map (\<lambda>i. ts ! i) is) 0 is (?s, map (\<lambda>i. wk_fb w2 ! i) is, w2, e7) = (s8, o8, w8, e8)"
      using prod_cases4 by blast
    obtain c2 e9 where m9: "mark w8 t0 e8 = (c2, e9)" by fastforce
    obtain l2 e10 where m10: "mark w8 t0 e9 = (l2, e10)" by fastforce
    obtain q2 e11 where m11: "mark w8 t0 e10 = (q2, e11)" by fastforce
    obtain r2 e12 where m12: "mark (publish_feedback is o8 w8) t0 e11 = (r2, e12)" by fastforce
    let ?s' = "s8\<lparr>wc_can_ns := c2 - c1, wc_feedback_lock_wait_ns := q2 - l2, wc_feedback_lock_hold_ns := r2 - q2\<rparr>"
    obtain w13 e13 where f: "finish_sample t0 ?s' (publish_feedback is o8 w8, e12) = (w13, e13)" by fastforce
    obtain b' w14 where r': "read_stop w13 = (b', w14)" by fastforce
    note eqs = r t0 s2 m3 m4 m5 m6 m7 ax m9 m10 m11 m12 f r'
    have res: "w' = w14" "tx_log e' = tx_log e13" "x = (if b' then Break else Continue)"
      using assms(1) False unfolding worker_cycle_def Let_def prod.case eqs by (auto simp: sleep_until_def split: if_splits)
    have js: "wk_joints w2 = wk_joints w1" "wk_safe_stopped w2 = wk_safe_stopped w1"
      using arg_cong [OF s2, of "\<lambda>p. wk_joints (snd p)"] arg_cong [OF s2, of "\<lambda>p. wk_safe_stopped (snd p)"] by simp_all
    have l1: "tx_log e7 = tx_log e" using clock_log(1) [OF t0] clock_log(3) [OF m3] clock_log(3) [OF m4] clock_log(3) [OF m5] clock_log(3) [OF m6] clock_log(3) [OF m7] by simp
    have g2: "grows (w1, e) (w2, e7)" using js l1 by (intro grows_same) auto
    have g3: "grows (w2, e7) (w8, e8)" using worker_axes_grows [OF ax] assms(2) js(1) grows_length [OF g1] by simp
    note fs = finish_sample_spec [OF f]
    have l2: "tx_log e13 = tx_log e8" using fs clock_log(3) [OF m9] clock_log(3) [OF m10] clock_log(3) [OF m11] clock_log(3) [OF m12] by simp
    have g4: "grows (w8, e8) (w13, e13)" using fs l2 by (intro grows_same) simp_all
    have g5: "grows (w13, e13) (w', e')" using read_stop_grows [OF r', of e13] res(1,2) by (simp add: grows_def)
    have "wk_safe_stopped w14 = b'" using read_stopD [OF r'] by simp
    then show ?thesis using grows_trans [OF grows_trans [OF grows_trans [OF grows_trans [OF g1 g2] g3] g4] g5] res by simp
  qed
  then show "grows (w, e) (w', e')" "x = Break \<longleftrightarrow> wk_safe_stopped w'" by simp_all
qed

lemma worker_cycles_grows:
  assumes "worker_cycles period is ts (w, e) = (w', e')" and "\<forall>i \<in> set is. i < length (wk_joints w)"
  shows "grows (w, e) (w', e')"
  using assms
proof (induction ts arbitrary: w e)
  case Nil
  then show ?case using grows_refl by simp
next
  case (Cons t ts)
  obtain x w1 e1 where c: "worker_cycle period is t (w, e) = (x, w1, e1)" using prod_cases3 by blast
  note g = worker_cycle_grows(1) [OF c Cons.prems(2)]
  show ?case
  proof (cases x)
    case Continue
    then show ?thesis using Cons.IH [of w1 e1] Cons.prems c grows_length [OF g] grows_trans [OF g] by simp
  next
    case Break
    then show ?thesis using Cons.prems(1) c g by simp
  qed
qed


lemma exit_axis_spec:
  assumes "exit_axis i (w, e) = (w', e')" and "i < length (wk_joints w)"
  shows "grows (w, e) (w', e')" and "wk_safe_stopped w' = wk_safe_stopped w"
    and "\<exists>os. tx_log e' = tx_log e @ os \<and> (\<forall>(f, b) \<in> set os. f = disable_frame (dr w i)) \<and>
      (bd_state (dr w i) = kSafeStopped \<or> disable_frame (dr w i) \<in> fst ` set os)"
proof -
  have "grows (w, e) (w', e') \<and> wk_safe_stopped w' = wk_safe_stopped w \<and> (\<exists>os. tx_log e' = tx_log e @ os \<and>
      (\<forall>(f, b) \<in> set os. f = disable_frame (dr w i)) \<and> (bd_state (dr w i) = kSafeStopped \<or> disable_frame (dr w i) \<in> fst ` set os))"
  proof (cases "bd_state (dr w i) = kSafeStopped")
    case True
    then show ?thesis using assms(1) grows_refl by (auto simp: exit_axis_def)
  next
    case False
    obtain fb d e1 where d: "disable (dr w i) e = (fb, d, e1)" using prod_cases3 by blast
    have r: "w' = w\<lparr>wk_joints := (wk_joints w)[i := (wk_joints w ! i)\<lparr>wj_actuator := d\<rparr>]\<rparr>" "e' = e1"
      using assms(1) False d by (simp_all add: exit_axis_def Let_def)
    have "grows (w, e) (w', e')"
      using r(2) by (intro grows_axis [OF disable_grows [OF d, folded r(2)] assms(2)]) (simp_all add: r(1) map_update)
    moreover obtain os where "tx_log e' = tx_log e @ os" "fst ` set os = {disable_frame (dr w i)}"
      using disable_sends [OF d False] r(2) by blast
    moreover from this have "\<forall>(f, b) \<in> set os. f = disable_frame (dr w i)" by force
    ultimately show ?thesis using r(1) by auto
  qed
  then show "grows (w, e) (w', e')" "wk_safe_stopped w' = wk_safe_stopped w"
    "\<exists>os. tx_log e' = tx_log e @ os \<and> (\<forall>(f, b) \<in> set os. f = disable_frame (dr w i)) \<and>
      (bd_state (dr w i) = kSafeStopped \<or> disable_frame (dr w i) \<in> fst ` set os)" by blast+
qed

text \<open>A disable frame of some motor.\<close>

definition is_disable :: "CanFrame \<Rightarrow> bool" where
  "is_disable f \<longleftrightarrow> (\<exists>i. f = motor_frame i (encodeSpecialCommand kDisable))"

lemma exit_axes_spec:
  assumes "fold exit_axis is (w, e) = (w', e')" and "\<forall>i \<in> set is. i < length (wk_joints w)"
  shows "grows (w, e) (w', e') \<and> wk_safe_stopped w' = wk_safe_stopped w \<and> (\<exists>os. tx_log e' = tx_log e @ os \<and> (\<forall>(f, b) \<in> set os. is_disable f) \<and>
    (\<forall>i \<in> set is. bd_state (dr w i) = kSafeStopped \<or> disable_frame (dr w i) \<in> fst ` set os))"
  using assms
proof (induction "is" arbitrary: w e)
  case Nil
  then show ?case using grows_refl by simp
next
  case (Cons i js)
  obtain w1 e1 where x: "exit_axis i (w, e) = (w1, e1)" by fastforce
  have i: "i < length (wk_joints w)" using Cons.prems(2) by simp
  note s = exit_axis_spec [OF x i]
  obtain os where os: "tx_log e1 = tx_log e @ os" "\<forall>(f, b) \<in> set os. f = disable_frame (dr w i)"
    "bd_state (dr w i) = kSafeStopped \<or> disable_frame (dr w i) \<in> fst ` set os" using s(3) by blast
  have rest: "fold exit_axis js (w1, e1) = (w', e')" using Cons.prems(1) x by simp
  have IH: "grows (w1, e1) (w', e') \<and> wk_safe_stopped w' = wk_safe_stopped w1 \<and> (\<exists>os. tx_log e' = tx_log e1 @ os \<and> (\<forall>(f, b) \<in> set os. is_disable f) \<and>
    (\<forall>i \<in> set js. bd_state (dr w1 i) = kSafeStopped \<or> disable_frame (dr w1 i) \<in> fst ` set os))"
    using Cons.IH [OF rest] Cons.prems(2) grows_length [OF s(1)] by simp
  then obtain os' where os': "tx_log e' = tx_log e1 @ os'" "\<forall>(f, b) \<in> set os'. is_disable f"
    "\<And>j. j \<in> set js \<Longrightarrow> bd_state (dr w1 j) = kSafeStopped \<or> disable_frame (dr w1 j) \<in> fst ` set os'" by blast
  have "bd_state (dr w j) = kSafeStopped \<or> disable_frame (dr w j) \<in> fst ` set (os @ os')" if "j \<in> set (i # js)" for j
  proof (cases "j = i")
    case True
    then show ?thesis using os(3) by auto
  next
    case False
    have j: "j \<in> set js" "j < length (wk_joints w)" using that False Cons.prems(2) by auto
    have "bd_can_id (dr w1 j) = bd_can_id (dr w j)" using s(1) j(2) by (simp add: grows_def)
    moreover have "bd_state (dr w1 j) = kSafeStopped \<Longrightarrow> bd_state (dr w j) = kSafeStopped \<or> disable_frame (dr w j) \<in> fst ` set os"
      using s(1) j(2) os(1) by (auto simp: grows_def)
    ultimately show ?thesis using os'(3) [OF j(1)] by auto
  qed
  moreover have "\<forall>(f, b) \<in> set (os @ os'). is_disable f" using os(2) os'(2) by (auto simp: is_disable_def)
  moreover have "tx_log e' = tx_log e @ os @ os'" using os(1) os'(1) by simp
  ultimately show ?case using IH grows_trans [OF s(1)] s(2) by blast
qed

section \<open>Properties\<close>

text \<open>Property C11: whatever targets, replies, send results and stops by other threads occur, a worker that
  ends while the hardware is in safe-stop has tried to send a disable frame to every motor of its bus since it started.\<close>

theorem worker_exit_disables_bus:
  assumes "workerLoop period indices ts (w, e) = (w', e')" and "wk_safe_stopped w'"
    and "\<forall>i \<in> set indices. i < length (wk_joints w) \<and> bd_state (dr w i) \<noteq> kSafeStopped"
  shows "\<exists>os. tx_log e' = tx_log e @ os \<and> (\<forall>i \<in> set indices. disable_frame (dr w i) \<in> fst ` set os)"
proof -
  obtain w1 e1 where c: "worker_cycles period indices ts (w, e) = (w1, e1)" by fastforce
  obtain b w2 where r: "read_stop w1 = (b, w2)" by fastforce
  have b: "b" using assms(1,2) c r read_stopD [OF r] by (auto simp: workerLoop_def split: if_splits)
  then have f: "fold exit_axis indices (w2, e1) = (w', e')" using assms(1) c r by (simp add: workerLoop_def)
  have g: "grows (w, e) (w2, e1)" using grows_trans [OF worker_cycles_grows [OF c] read_stop_grows [OF r]] assms(3) by blast
  obtain os where os: "tx_log e1 = tx_log e @ os"
    "\<And>i. i < length (wk_joints w) \<Longrightarrow> bd_state (dr w2 i) = kSafeStopped \<Longrightarrow> bd_state (dr w i) = kSafeStopped \<or> disable_frame (dr w i) \<in> fst ` set os"
    using g by (auto simp: grows_def)
  obtain os' where os': "tx_log e' = tx_log e1 @ os'"
    "\<And>i. i \<in> set indices \<Longrightarrow> bd_state (dr w2 i) = kSafeStopped \<or> disable_frame (dr w2 i) \<in> fst ` set os'"
    using exit_axes_spec [OF f] assms(3) grows_length [OF g] by auto
  have "disable_frame (dr w i) \<in> fst ` set (os @ os')" if "i \<in> set indices" for i
  proof -
    have i: "i < length (wk_joints w)" "bd_state (dr w i) \<noteq> kSafeStopped" using assms(3) that by simp_all
    have "bd_can_id (dr w2 i) = bd_can_id (dr w i)" using g i(1) by (simp add: grows_def)
    then show ?thesis using os(2) [OF i(1)] os'(2) [OF that] i(2) by auto
  qed
  moreover have "tx_log e' = tx_log e @ os @ os'" using os(1) os'(1) by simp
  ultimately show ?thesis by blast
qed

text \<open>A bus with two motors, stopped by another thread before the first cycle.\<close>

definition sample_joint :: "int \<Rightarrow> WorkerJoint" where
  "sample_joint i = \<lparr>wj_actuator = sample_driver\<lparr>bd_can_id := i, bd_state := kEnabled\<rparr>, wj_overheated = False,
     wj_temperature_sensor_fault = False, wj_communication_fault = False\<rparr>"

definition sample_worker :: Worker where
  "sample_worker = \<lparr>wk_joints = [sample_joint 1, sample_joint 2], wk_fb = replicate 2 \<lparr>ax_position = 0, ax_velocity = 0, ax_effort = 0, ax_temperature = 0\<rparr>,
     wk_safe_stopped = False, wk_stops = [True], wk_timing = None, wk_previous_start = 0\<rparr>"

lemma sample_worker_stops:
  "\<exists>w' e'. workerLoop 5000000 [0, 1] [replicate 2 \<lparr>at_position = 0, at_velocity = 0, at_kp = 0, at_kd = 0, at_effort = 0\<rparr>] (sample_worker, silent_env) = (w', e') \<and> wk_safe_stopped w'"
proof -
  let ?w = "sample_worker\<lparr>wk_safe_stopped := True, wk_stops := []\<rparr>"
  obtain w' e' where f: "fold exit_axis [0, 1] (?w, silent_env) = (w', e')" by fastforce
  have "wk_safe_stopped w'" using exit_axes_spec [OF f] by (simp add: sample_worker_def)
  moreover have "workerLoop 5000000 [0, 1] [replicate 2 \<lparr>at_position = 0, at_velocity = 0, at_kp = 0, at_kd = 0, at_effort = 0\<rparr>] (sample_worker, silent_env)
      = fold exit_axis [0, 1] (?w, silent_env)"
    by (simp add: workerLoop_def worker_cycle_def read_stop_def sample_worker_def del: fold.simps)
  ultimately show ?thesis using f by auto
qed

theorem worker_exit_disables_bus_witness:
  "\<exists>w' e'. workerLoop 5000000 [0, 1] [replicate 2 \<lparr>at_position = 0, at_velocity = 0, at_kp = 0, at_kd = 0, at_effort = 0\<rparr>] (sample_worker, silent_env) = (w', e') \<and>
     {motor_frame 1 (encodeSpecialCommand kDisable), motor_frame 2 (encodeSpecialCommand kDisable)} \<subseteq> fst ` set (tx_log e')"
proof -
  obtain w' e' where r: "workerLoop 5000000 [0, 1] [replicate 2 \<lparr>at_position = 0, at_velocity = 0, at_kp = 0, at_kd = 0, at_effort = 0\<rparr>] (sample_worker, silent_env) = (w', e')"
    "wk_safe_stopped w'" using sample_worker_stops by blast
  have "\<forall>i \<in> set [0, 1]. i < length (wk_joints sample_worker) \<and> bd_state (dr sample_worker i) \<noteq> kSafeStopped"
    by (simp add: sample_worker_def sample_joint_def)
  from worker_exit_disables_bus [OF r this]
  have "disable_frame (dr sample_worker 0) \<in> fst ` set (tx_log e')" "disable_frame (dr sample_worker 1) \<in> fst ` set (tx_log e')"
    by (auto simp: silent_env_def)
  then show ?thesis using r(1) by (simp add: sample_worker_def sample_joint_def)
qed

text \<open>Also: a worker that runs while the stop flag is already set sends nothing but disable frames.\<close>

theorem worker_quiet_after_stop:
  assumes "workerLoop period indices ts (w, e) = (w', e')" and "wk_safe_stopped w" and "\<forall>i \<in> set indices. i < length (wk_joints w)"
  shows "\<exists>os. tx_log e' = tx_log e @ os \<and> (\<forall>(f, b) \<in> set os. is_disable f)"
proof -
  obtain w1 e1 where c: "worker_cycles period indices ts (w, e) = (w1, e1)" by fastforce
  obtain b0 w0 where r0: "read_stop w = (b0, w0)" by fastforce
  have "e1 = e \<and> wk_safe_stopped w1 \<and> wk_joints w1 = wk_joints w"
    using c r0 read_stopD [OF r0] assms(2) by (cases ts) (auto simp: worker_cycle_def)
  moreover obtain b w2 where r: "read_stop w1 = (b, w2)" by fastforce
  ultimately have "fold exit_axis indices (w2, e) = (w', e')" "wk_joints w2 = wk_joints w"
    using assms(1) c r read_stopD [OF r] by (auto simp: workerLoop_def)
  then show ?thesis using exit_axes_spec [of indices w2 e w' e'] assms(3) by auto
qed

theorem worker_quiet_after_stop_witness:
  "\<exists>w' e'. workerLoop 5000000 [0, 1] [] (sample_worker\<lparr>wk_safe_stopped := True\<rparr>, silent_env) = (w', e') \<and> (\<forall>(f, b) \<in> set (tx_log e'). is_disable f)"
proof -
  obtain w' e' where r: "workerLoop 5000000 [0, 1] [] (sample_worker\<lparr>wk_safe_stopped := True\<rparr>, silent_env) = (w', e')" by fastforce
  show ?thesis using worker_quiet_after_stop [OF r] r by (auto simp: sample_worker_def silent_env_def)
qed

end
