(* ===== verification/System_Cycle.thy ===== *)
theory System_Cycle
  imports Pair_System System_Worker
begin

text \<open>
  The cyclic callbacks of the hardware interface (\<^verbatim>\<open>src/bxi_system_interface.cpp\<close>: \<^verbatim>\<open>streamCycle\<close>,
  \<^verbatim>\<open>read\<close>, \<^verbatim>\<open>write\<close>) outside the group mode. The vectors of the class are lists of records per
  joint. Results of reading a feedback snapshot, of publishing commands and of reading the stop flag are scripts;
  \<open>si_batches\<close> logs every batch handed to a stream.
\<close>

section \<open>Records of a cycle\<close>

record ControlRecord =
  cr_rx_sequence :: u64
  cr_cycle_attempts :: u32
  cr_failures :: u32
  cr_read_start :: ns
  cr_read_done :: ns
  cr_acquired_ns :: ns
  cr_rx_received :: ns
  cr_rx_published :: ns
  cr_write_start :: ns
  cr_published :: ns
  cr_notify_before :: ns
  cr_notify_after :: ns
  cr_write_end :: ns

unbundle bit_operations_syntax

definition record_cycle_number :: "ControlRecord \<Rightarrow> u32" where
  "record_cycle_number r = cr_cycle_attempts r AND 0x3fffffff"

definition record_attempts :: "ControlRecord \<Rightarrow> u32" where
  "record_attempts r = drop_bit 30 (cr_cycle_attempts r)"

definition setCycle :: "u64 \<Rightarrow> ControlRecord \<Rightarrow> ControlRecord" where
  "setCycle v r = r\<lparr>cr_cycle_attempts := (cr_cycle_attempts r AND 0xc0000000) OR (ucast v AND 0x3fffffff)\<rparr>"

definition setAttempts :: "u32 \<Rightarrow> ControlRecord \<Rightarrow> ControlRecord" where
  "setAttempts v r = r\<lparr>cr_cycle_attempts := (cr_cycle_attempts r AND 0x3fffffff) OR push_bit 30 v\<rparr>"

record DiagnosticEvent =
  de_at_ns :: ns
  de_cycle :: u64
  de_joint :: nat
  de_unavailable :: bool

text \<open>A bus with a direct or write-triggered stream. \<open>None\<close> as record index is \<^verbatim>\<open>SIZE_MAX\<close>; the flags
  \<^verbatim>\<open>controlUnavailable\<close> of the streamer are kept with it.\<close>

record ControlStream =
  cs_write_triggered :: bool
  cs_indices :: "nat list"
  cs_commands :: "PublishedCommand list"
  cs_feedback :: "PublishedFeedback list"
  cs_failures :: "u32 list"
  cs_unavailable :: "bool list"
  cs_diagnostics :: "DiagnosticEvent list"
  cs_diagnostic_count :: nat
  cs_records :: "ControlRecord list"
  cs_capacity :: nat
  cs_record_count :: nat
  cs_record_index :: "nat option"
  cs_read_diagnostics :: bool

record SystemJoint =
  sj_actuator :: bool
  sj_default_kp :: double
  sj_default_kd :: double
  sj_overheated :: bool
  sj_temperature_sensor_fault :: bool

record SystemInterface =
  si_joints :: "SystemJoint list"
  si_st :: "AxisState list"
  si_cmd :: "AxisTarget list"
  si_tgt :: "AxisTarget list"
  si_fb :: "AxisState list"
  si_fb_sequence :: "u64 list"
  si_fb_received_ns :: "ns list"
  si_fb_published_ns :: "ns list"
  si_streams :: "ControlStream list"
  si_direct_joint :: "bool list"
  si_write_joint :: "bool list"
  si_control_sequence :: u64
  si_legacy_command_sequence :: u64
  si_legacy_command_published_ns :: ns
  si_last_write_ns :: ns
  si_safe_stopped :: bool
  si_stops :: "bool list"
  si_reads :: "(u32 \<times> PublishedFeedback option) list"
  si_publish_results :: "bool list"
  si_batches :: "PublishedCommand list list"

definition stopped_flag :: "SystemInterface \<Rightarrow> bool \<times> SystemInterface" where
  "stopped_flag s = (case si_stops s of [] \<Rightarrow> (si_safe_stopped s, s)
     | b # bs \<Rightarrow> (si_safe_stopped s \<or> b, s\<lparr>si_safe_stopped := si_safe_stopped s \<or> b, si_stops := bs\<rparr>))"

text \<open>The row of an axis in the current cycle, if there is room for it.\<close>

definition row_axis :: "(ControlRecord \<Rightarrow> ControlRecord) \<Rightarrow> nat \<Rightarrow> ControlStream \<Rightarrow> ControlStream" where
  "row_axis f axis c = (case cs_record_index c of None \<Rightarrow> c
     | Some r \<Rightarrow> if r < cs_capacity c
         then let k = r * length (cs_indices c) + axis in c\<lparr>cs_records := (cs_records c)[k := f (cs_records c ! k)]\<rparr>
         else c)"

definition row_axes :: "(ControlRecord \<Rightarrow> ControlRecord) \<Rightarrow> ControlStream \<Rightarrow> ControlStream" where
  "row_axes f c = fold (row_axis f) [0..<length (cs_indices c)] c"

section \<open>The hook of a send thread\<close>

text \<open>One axis; the result carries the last axis with a sensor fault and the last overheated axis.\<close>

definition stream_axis ::
  "StreamFeedback list \<Rightarrow> nat \<times> nat \<Rightarrow> (int \<times> int) \<times> StreamCommand list \<times> SystemInterface \<times> env
     \<Rightarrow> (int \<times> int) \<times> StreamCommand list \<times> SystemInterface \<times> env" where
  "stream_axis feedback = (\<lambda>(k, i) ((sensor_fault, overheated), commands, s, e).
     let f = feedback ! k; fb = sf_feedback f;
         ((sensor_fault, overheated), s, e) =
           (if sf_updated f then
              (let (now, e) = steady_now e;
                   j = si_joints s ! i;
                   s = s\<lparr>si_fb := (si_fb s)[i := \<lparr>ax_position = af_position fb, ax_velocity = af_velocity fb,
                           ax_effort = af_effort fb, ax_temperature = af_temperature fb\<rparr>],
                         si_fb_sequence := (si_fb_sequence s)[i := sf_sequence f],
                         si_fb_received_ns := (si_fb_received_ns s)[i := sf_received_ns f],
                         si_fb_published_ns := (si_fb_published_ns s)[i := now]\<rparr>
               in if \<not> isfinite (af_temperature fb)
                  then ((int i, overheated), s\<lparr>si_joints := (si_joints s)[i := j\<lparr>sj_temperature_sensor_fault := True\<rparr>]\<rparr>, e)
                  else if dlit 80 < af_temperature fb
                  then ((sensor_fault, int i), s\<lparr>si_joints := (si_joints s)[i := j\<lparr>sj_overheated := True\<rparr>]\<rparr>, e)
                  else ((sensor_fault, overheated), s, e))
            else ((sensor_fault, overheated), s, e));
         t = si_tgt s ! i
     in ((sensor_fault, overheated),
         commands[k := \<lparr>cm_position = at_position t, cm_velocity = at_velocity t, cm_kp = at_kp t, cm_kd = at_kd t,
           cm_effort = at_effort t, cm_sequence = si_legacy_command_sequence s, cm_published_ns = si_legacy_command_published_ns s\<rparr>],
         s, e))"

definition streamCycle ::
  "nat list \<Rightarrow> StreamFeedback list \<Rightarrow> StreamCommand list \<Rightarrow> SystemInterface \<times> env \<Rightarrow> bool \<times> StreamCommand list \<times> SystemInterface \<times> env" where
  "streamCycle indices feedback commands = (\<lambda>(s, e).
     let ((sensor_fault, overheated), commands, s, e) =
           fold (stream_axis feedback) (zip [0..<length indices] indices) ((-1, -1), commands, s, e)
     in (sensor_fault < 0 \<and> overheated < 0, commands, s, e))"

section \<open>read\<close>

definition open_record :: "ns \<Rightarrow> ControlStream \<Rightarrow> ControlStream" where
  "open_record read_start c =
     row_axes (\<lambda>r. r\<lparr>cr_read_start := read_start\<rparr>) (c\<lparr>cs_record_index := Some (cs_record_count c), cs_record_count := Suc (cs_record_count c)\<rparr>)"

definition is_direct :: "SystemInterface \<Rightarrow> nat \<Rightarrow> bool" where
  "is_direct s i \<longleftrightarrow> si_direct_joint s \<noteq> [] \<and> si_direct_joint s ! i"

definition copy_legacy :: "SystemInterface \<Rightarrow> SystemInterface" where
  "copy_legacy s = s\<lparr>si_st := fold (\<lambda>i st. if is_direct s i then st else st[i := si_fb s ! i]) [0..<length (si_joints s)] (si_st s)\<rparr>"

definition legacy_read :: "SystemInterface \<Rightarrow> bool" where
  "legacy_read s \<longleftrightarrow> si_direct_joint s = [] \<or>
     list_ex (\<lambda>i. sj_actuator (si_joints s ! i) \<and> \<not> si_direct_joint s ! i) [0..<length (si_joints s)]"

definition copy_stamps :: "SystemInterface \<Rightarrow> ControlStream \<Rightarrow> ControlStream" where
  "copy_stamps s c = (if cs_read_diagnostics c then c
     else c\<lparr>cs_feedback := fold (\<lambda>axis fs. let i = cs_indices c ! axis
         in fs[axis := (fs ! axis)\<lparr>pf_sequence := si_fb_sequence s ! i, pf_received_ns := si_fb_received_ns s ! i,
               pf_published_ns := si_fb_published_ns s ! i\<rparr>]) [0..<length (cs_indices c)] (cs_feedback c)\<rparr>)"

definition readFeedback :: "SystemInterface \<Rightarrow> (u32 \<times> PublishedFeedback option) \<times> SystemInterface" where
  "readFeedback s = (case si_reads s of [] \<Rightarrow> ((0, None), s) | r # rs \<Rightarrow> (r, s\<lparr>si_reads := rs\<rparr>))"

text \<open>The state of an axis taken from a snapshot that could be read.\<close>

definition store_snapshot ::
  "nat \<Rightarrow> nat \<Rightarrow> PublishedFeedback option \<Rightarrow> ControlStream \<times> SystemInterface \<Rightarrow> ControlStream \<times> SystemInterface" where
  "store_snapshot axis i got = (\<lambda>(c, s). case got of
     Some v \<Rightarrow>
       (c\<lparr>cs_feedback := (cs_feedback c)[axis := v], cs_failures := (cs_failures c)[axis := 0]\<rparr>,
        s\<lparr>si_st := (si_st s)[i := \<lparr>ax_position = af_position (pf_feedback v), ax_velocity = af_velocity (pf_feedback v),
            ax_effort = af_effort (pf_feedback v), ax_temperature = af_temperature (pf_feedback v)\<rparr>]\<rparr>)
   | None \<Rightarrow>
       (if cs_read_diagnostics c \<and> cs_failures c ! axis < 0xffffffff
        then c\<lparr>cs_failures := (cs_failures c)[axis := cs_failures c ! axis + 1]\<rparr> else c, s))"

definition note_unavailable :: "nat \<Rightarrow> nat \<Rightarrow> bool \<Rightarrow> ControlStream \<times> SystemInterface \<times> env \<Rightarrow> ControlStream \<times> SystemInterface \<times> env" where
  "note_unavailable axis i was = (\<lambda>(c, s, e).
     if \<not> cs_read_diagnostics c then (c, s, e)
     else let unavailable = (3 \<le> cs_failures c ! axis);
              c = c\<lparr>cs_unavailable := (cs_unavailable c)[axis := unavailable]\<rparr>
     in if unavailable = was then (c, s, e)
     else let (c, e) = (if cs_diagnostic_count c < length (cs_diagnostics c)
                then let (now, e) = steady_now e
                     in (c\<lparr>cs_diagnostics := (cs_diagnostics c)[cs_diagnostic_count c :=
                           \<lparr>de_at_ns = now, de_cycle = si_control_sequence s + 1, de_joint = i, de_unavailable = unavailable\<rparr>]\<rparr>, e)
                else (c, e))
     in (c\<lparr>cs_diagnostic_count := Suc (cs_diagnostic_count c)\<rparr>, s, e))"

definition record_axis :: "nat \<Rightarrow> u32 \<Rightarrow> ControlStream \<times> env \<Rightarrow> ControlStream \<times> env" where
  "record_axis axis attempts = (\<lambda>(c, e).
     if (case cs_record_index c of None \<Rightarrow> False | Some r \<Rightarrow> r < cs_capacity c)
     then let (now, e) = steady_now e; f = cs_feedback c ! axis
          in (row_axis (\<lambda>r. setAttempts attempts (r\<lparr>cr_acquired_ns := now, cr_rx_sequence := pf_sequence f,
                cr_rx_received := pf_received_ns f, cr_rx_published := pf_published_ns f\<rparr>)\<lparr>cr_failures := cs_failures c ! axis\<rparr>) axis c, e)
     else (c, e))"

definition read_axis :: "nat \<Rightarrow> ControlStream \<times> SystemInterface \<times> env \<Rightarrow> ControlStream \<times> SystemInterface \<times> env" where
  "read_axis axis = (\<lambda>(c, s, e).
     let i = cs_indices c ! axis;
         ((attempts, got), s) = (if cs_read_diagnostics c then readFeedback s else ((0, None), s));
         was = (3 \<le> cs_failures c ! axis);
         (c, s) = store_snapshot axis i got (c, s);
         (c, s, e) = note_unavailable axis i was (c, s, e);
         (c, e) = record_axis axis attempts (c, e)
     in (c, s, e))"

definition read_stream :: "nat \<Rightarrow> SystemInterface \<times> env \<Rightarrow> SystemInterface \<times> env" where
  "read_stream n = (\<lambda>(s, e).
     let c = si_streams s ! n;
         (c, s, e) = fold read_axis [0..<length (cs_indices c)] (c, s, e)
     in (s\<lparr>si_streams := (si_streams s)[n := c]\<rparr>, e))"

definition hw_read :: "SystemInterface \<times> env \<Rightarrow> return_type \<times> SystemInterface \<times> env" where
  "hw_read = (\<lambda>(s, e).
     let (read_start, e) = steady_now e;
         s = s\<lparr>si_streams := map (open_record read_start) (si_streams s)\<rparr>;
         s = (if legacy_read s then let s = copy_legacy s in s\<lparr>si_streams := map (copy_stamps s) (si_streams s)\<rparr> else s);
         (s, e) = fold read_stream [0..<length (si_streams s)] (s, e);
         (read_end, e) = steady_now e;
         s = s\<lparr>si_streams := map (row_axes (\<lambda>r. r\<lparr>cr_read_done := read_end\<rparr>)) (si_streams s)\<rparr>;
         (stopped, s) = stopped_flag s
     in (if stopped then ERROR else OK, s, e))"

section \<open>write\<close>

text \<open>What an axis is told: its command while its position is commanded, else its measured position without gains.\<close>

definition setpoint :: "SystemInterface \<Rightarrow> nat \<Rightarrow> AxisTarget" where
  "setpoint s i =
     (let c = si_cmd s ! i; j = si_joints s ! i; active = isfinite (at_position c)
      in \<lparr>at_position = (if active then at_position c else ax_position (si_st s ! i)),
          at_velocity = (if active \<and> isfinite (at_velocity c) then at_velocity c else dlit 0),
          at_kp = (if active then if isfinite (at_kp c) then at_kp c else sj_default_kp j else dlit 0),
          at_kd = (if active then if isfinite (at_kd c) then at_kd c else sj_default_kd j else dlit 0),
          at_effort = (if active \<and> isfinite (at_effort c) then at_effort c else dlit 0)\<rparr>)"

definition packet :: "SystemInterface \<Rightarrow> ns \<Rightarrow> nat \<Rightarrow> PublishedCommand" where
  "packet s published_ns i =
     (let t = setpoint s i
      in \<lparr>pc_command = default_StreamCommand\<lparr>cm_position := at_position t, cm_velocity := at_velocity t, cm_kp := at_kp t,
           cm_kd := at_kd t, cm_effort := at_effort t\<rparr>, pc_sequence = si_control_sequence s, pc_published_ns = published_ns\<rparr>)"

definition publish_result :: "PublishedCommand list \<Rightarrow> SystemInterface \<Rightarrow> bool \<times> SystemInterface" where
  "publish_result packets s =
     (let (ok, rest) = (case si_publish_results s of [] \<Rightarrow> (False, []) | b # bs \<Rightarrow> (b, bs))
      in (ok, s\<lparr>si_publish_results := rest, si_batches := si_batches s @ [packets]\<rparr>))"

definition write_stream :: "nat \<Rightarrow> SystemInterface \<times> env \<Rightarrow> bool \<times> SystemInterface \<times> env" where
  "write_stream n = (\<lambda>(s, e).
     let c = si_streams s ! n
     in if \<not> cs_write_triggered c then (True, s, e)
     else let (published_ns, e) = steady_now e;
              packets = map (packet s published_ns) (cs_indices c);
              (notify_before, e) = steady_now e;
              (ok, s) = publish_result packets s;
              (notify_after, e) = steady_now e;
              c = row_axes (\<lambda>r. r\<lparr>cr_published := published_ns, cr_notify_before := notify_before, cr_notify_after := notify_after\<rparr>)
                    (c\<lparr>cs_commands := packets\<rparr>)
     in (ok, s\<lparr>si_streams := (si_streams s)[n := c]\<rparr>, e))"

text \<open>The loop over the streams; it ends at the first failed publication.\<close>

fun write_streams :: "nat list \<Rightarrow> SystemInterface \<times> env \<Rightarrow> bool \<times> SystemInterface \<times> env" where
  "write_streams [] (s, e) = (True, s, e)"
| "write_streams (n # ns) (s, e) =
     (let (ok, s, e) = write_stream n (s, e) in if ok then write_streams ns (s, e) else (False, s, e))"

definition is_written :: "SystemInterface \<Rightarrow> nat \<Rightarrow> bool" where
  "is_written s i \<longleftrightarrow> si_write_joint s \<noteq> [] \<and> si_write_joint s ! i"

definition legacy_write :: "SystemInterface \<Rightarrow> bool" where
  "legacy_write s \<longleftrightarrow> si_write_joint s = [] \<or>
     list_ex (\<lambda>i. sj_actuator (si_joints s ! i) \<and> \<not> si_write_joint s ! i) [0..<length (si_joints s)]"

definition store_targets :: "SystemInterface \<times> env \<Rightarrow> SystemInterface \<times> env" where
  "store_targets = (\<lambda>(s, e).
     if \<not> legacy_write s then (s, e)
     else let tgt = fold (\<lambda>i t. if \<not> sj_actuator (si_joints s ! i) \<or> is_written s i then t else t[i := setpoint s i])
                [0..<length (si_joints s)] (si_tgt s);
              (now, e) = steady_now e
     in (s\<lparr>si_tgt := tgt, si_legacy_command_sequence := si_control_sequence s, si_legacy_command_published_ns := now\<rparr>, e))"

definition close_record :: "u64 \<Rightarrow> ns \<Rightarrow> ns \<Rightarrow> ControlStream \<Rightarrow> ControlStream" where
  "close_record sequence write_start write_end c =
     (row_axes (\<lambda>r. let r = (setCycle sequence r)\<lparr>cr_write_start := write_start, cr_write_end := write_end\<rparr>
        in if cr_published r = 0 then r\<lparr>cr_published := write_end\<rparr> else r) c)\<lparr>cs_record_index := None\<rparr>"

definition ensure_record :: "ControlStream \<Rightarrow> ControlStream" where
  "ensure_record c = (if cs_record_index c = None
     then c\<lparr>cs_record_index := Some (cs_record_count c), cs_record_count := Suc (cs_record_count c)\<rparr> else c)"

definition hw_write :: "SystemInterface \<times> env \<Rightarrow> return_type \<times> SystemInterface \<times> env" where
  "hw_write = (\<lambda>(s, e).
     let (stopped, s) = stopped_flag s
     in if stopped then (ERROR, s, e)
     else let (write_start, e) = steady_now e;
              s = s\<lparr>si_streams := map ensure_record (si_streams s), si_control_sequence := si_control_sequence s + 1\<rparr>;
              (ok, s, e) = write_streams [0..<length (si_streams s)] (s, e)
     in if \<not> ok then (ERROR, s, e)
     else let (s, e) = store_targets (s, e);
              (now, e) = steady_now e;
              s = s\<lparr>si_last_write_ns := now\<rparr>;
              (write_end, e) = steady_now e
     in (OK, s\<lparr>si_streams := map (close_record (si_control_sequence s) write_start write_end) (si_streams s)\<rparr>, e))"


section \<open>Packed records\<close>

lemma record_masks: "(0x3fffffff :: u32) = mask 30" "(0xc0000000 :: u32) = NOT (mask 30)"
  by (simp_all add: mask_eq_exp_minus_1 not_eq_complement)

text \<open>Also: the cycle number and the read attempts packed into one word do not disturb each other.\<close>

theorem record_fields_independent:
  "record_cycle_number (setAttempts a (setCycle v r)) = ucast v AND mask 30 \<and> record_attempts (setAttempts a (setCycle v r)) = a AND 3 \<and>
   record_cycle_number (setCycle v (setAttempts a r)) = ucast v AND mask 30 \<and> record_attempts (setCycle v (setAttempts a r)) = a AND 3"
proof -
  have three: "(3 :: u32) = mask 2" by (simp add: mask_eq_exp_minus_1)
  show ?thesis unfolding three record_masks record_cycle_number_def record_attempts_def setAttempts_def setCycle_def
    by (auto intro!: bit_word_eqI simp: bit_simps record_masks)
qed

section \<open>The hook decides\<close>

definition bad_temperature :: "StreamFeedback \<Rightarrow> bool" where
  "bad_temperature f \<longleftrightarrow> sf_updated f \<and> (\<not> isfinite (af_temperature (sf_feedback f)) \<or> dlit 80 < af_temperature (sf_feedback f))"

definition target_command :: "SystemInterface \<Rightarrow> nat \<Rightarrow> StreamCommand" where
  "target_command s i = (let t = si_tgt s ! i in \<lparr>cm_position = at_position t, cm_velocity = at_velocity t, cm_kp = at_kp t,
     cm_kd = at_kd t, cm_effort = at_effort t, cm_sequence = si_legacy_command_sequence s, cm_published_ns = si_legacy_command_published_ns s\<rparr>)"

definition target_view :: "SystemInterface \<Rightarrow> AxisTarget list \<times> u64 \<times> ns" where
  "target_view s = (si_tgt s, si_legacy_command_sequence s, si_legacy_command_published_ns s)"

lemma target_command_view: "target_view s' = target_view s \<Longrightarrow> target_command s' i = target_command s i"
  by (simp add: target_command_def target_view_def)

lemma stream_axis_spec:
  assumes "stream_axis feedback (k, i) ((sf, oh), commands, s, e) = ((sf', oh'), commands', s', e')"
  shows "(sf' < 0 \<and> oh' < 0) = (sf < 0 \<and> oh < 0 \<and> \<not> bad_temperature (feedback ! k)) \<and> target_view s' = target_view s \<and>
    commands' = commands[k := target_command s i]"
  using assms by (auto simp: stream_axis_def Let_def bad_temperature_def target_view_def target_command_def split: if_splits prod.splits)

lemma stream_axes_spec:
  assumes "fold (stream_axis feedback) ps ((sf, oh), commands, s, e) = ((sf', oh'), commands', s', e')"
  shows "(sf' < 0 \<and> oh' < 0) = (sf < 0 \<and> oh < 0 \<and> (\<forall>(k, i) \<in> set ps. \<not> bad_temperature (feedback ! k))) \<and>
    commands' = fold (\<lambda>(k, i) cs. cs[k := target_command s i]) ps commands"
  using assms
proof (induction ps arbitrary: sf oh commands s e)
  case (Cons p ps)
  obtain k i where p: "p = (k, i)" by fastforce
  obtain sf1 oh1 c1 s1 e1 where x: "stream_axis feedback (k, i) ((sf, oh), commands, s, e) = ((sf1, oh1), c1, s1, e1)" by (metis surj_pair)
  note sp = stream_axis_spec [OF x]
  have tc: "target_command s1 = target_command s" using sp by (intro ext target_command_view) blast
  have rest: "fold (stream_axis feedback) ps ((sf1, oh1), c1, s1, e1) = ((sf', oh'), commands', s', e')" using Cons.prems by (simp add: p x)
  note IH = Cons.IH [OF rest, unfolded tc]
  have "commands' = fold (\<lambda>(k, i) cs. cs[k := target_command s i]) (p # ps) commands" using IH sp by (simp add: p)
  moreover have "(sf' < 0 \<and> oh' < 0) = (sf < 0 \<and> oh < 0 \<and> (\<forall>(k, i) \<in> set (p # ps). \<not> bad_temperature (feedback ! k)))"
    unfolding conjunct1 [OF IH] p list.set ball_simps prod.case using sp by blast
  ultimately show ?case by blast
qed simp

lemma fold_update_zip:
  assumes "length cs = length is" and "n + length is = length (as @ cs)" and "length as = n"
  shows "fold (\<lambda>(k, i) cs. cs[k := f i]) (zip [n..<n + length is] is) (as @ cs) = as @ map f is"
  using assms
proof (induction "is" arbitrary: n as cs)
  case (Cons i js)
  obtain c ds where c: "cs = c # ds" using Cons.prems(1) by (cases cs) auto
  have z: "[n..<n + length (i # js)] = n # [Suc n..<Suc n + length js]" by (subst upt_conv_Cons) (simp_all del: upt_Suc)
  have "fold (\<lambda>(k, i) cs. cs[k := f i]) (zip [Suc n..<Suc n + length js] js) ((as @ [f i]) @ ds) = (as @ [f i]) @ map f js"
    using Cons.prems c by (intro Cons.IH) auto
  then show ?case using Cons.prems(3) unfolding z c by (simp add: list_update_append)
qed simp

text \<open>Also: the hook lets the send thread go on exactly if no axis with new feedback reports a faulty sensor or
  more than 80 degrees, and it hands out the current target of every axis.\<close>

theorem streamCycle_decides:
  assumes "streamCycle indices feedback commands (s, e) = (ok, commands', s', e')" and "length commands = length indices"
  shows "ok = (\<forall>k < length indices. \<not> bad_temperature (feedback ! k)) \<and> commands' = map (target_command s) indices"
proof -
  let ?ps = "zip [0..<length indices] indices"
  obtain sf oh c1 s1 e1 where f: "fold (stream_axis feedback) ?ps ((-1, -1), commands, s, e) = ((sf, oh), c1, s1, e1)" by (metis surj_pair)
  have r: "ok = (sf < 0 \<and> oh < 0)" "commands' = c1" using assms(1) f by (auto simp: streamCycle_def)
  have "(\<forall>(k, i) \<in> set ?ps. \<not> bad_temperature (feedback ! k)) = (\<forall>k < length indices. \<not> bad_temperature (feedback ! k))"
    by (auto simp: set_zip)
  moreover have "fold (\<lambda>(k, i) cs. cs[k := target_command s i]) ?ps commands = map (target_command s) indices"
    using fold_update_zip [of commands indices 0 "[]" "target_command s"] assms(2) by simp
  ultimately show ?thesis using stream_axes_spec [OF f] r by simp
qed


definition sample_interface :: SystemInterface where
  "sample_interface = \<lparr>si_joints = replicate 2 \<lparr>sj_actuator = True, sj_default_kp = Fin 50, sj_default_kd = Fin 2, sj_overheated = False, sj_temperature_sensor_fault = False\<rparr>,
     si_st = replicate 2 \<lparr>ax_position = Fin 1, ax_velocity = Fin 0, ax_effort = Fin 0, ax_temperature = Fin 30\<rparr>,
     si_cmd = [\<lparr>at_position = NaN, at_velocity = Fin 3, at_kp = Fin 10, at_kd = Fin 1, at_effort = NaN\<rparr>, \<lparr>at_position = Fin 2, at_velocity = NaN, at_kp = NaN, at_kd = Fin 1, at_effort = NaN\<rparr>],
     si_tgt = replicate 2 \<lparr>at_position = Fin 0, at_velocity = Fin 0, at_kp = Fin 0, at_kd = Fin 0, at_effort = Fin 0\<rparr>,
     si_fb = replicate 2 \<lparr>ax_position = Fin 1, ax_velocity = Fin 0, ax_effort = Fin 0, ax_temperature = Fin 30\<rparr>,
     si_fb_sequence = [0, 0], si_fb_received_ns = [0, 0], si_fb_published_ns = [0, 0],
     si_streams = [\<lparr>cs_write_triggered = True, cs_indices = [0, 1], cs_commands = [], cs_feedback = replicate 2 default_PublishedFeedback, cs_failures = [0, 0],
       cs_unavailable = [False, False], cs_diagnostics = [], cs_diagnostic_count = 0, cs_records = [], cs_capacity = 0, cs_record_count = 0,
       cs_record_index = None, cs_read_diagnostics = True\<rparr>],
     si_direct_joint = [True, True], si_write_joint = [True, True], si_control_sequence = 6, si_legacy_command_sequence = 0,
     si_legacy_command_published_ns = 0, si_last_write_ns = 0, si_safe_stopped = False, si_stops = [], si_reads = replicate 3 (4, None),
     si_publish_results = [True], si_batches = []\<rparr>"

definition hot_feedback :: StreamFeedback where
  "hot_feedback = \<lparr>sf_feedback = default_ActuatorFeedback\<lparr>af_temperature := Fin 81\<rparr>, sf_updated = True, sf_age_ms = 0, sf_sequence = 1, sf_received_ns = 0\<rparr>"

theorem streamCycle_decides_witness:
  "\<exists>s' e'. streamCycle [0] [hot_feedback] [default_StreamCommand] (sample_interface, silent_env) = (False, [target_command sample_interface 0], s', e')"
proof -
  obtain ok c s' e' where r: "streamCycle [0] [hot_feedback] [default_StreamCommand] (sample_interface, silent_env) = (ok, c, s', e')" by (metis surj_pair)
  show ?thesis using streamCycle_decides [OF r] r by (simp add: bad_temperature_def hot_feedback_def)
qed

section \<open>What write hands out\<close>

text \<open>What the packets depend on.\<close>

definition command_view :: "SystemInterface \<Rightarrow> (SystemJoint list \<times> AxisState list \<times> AxisTarget list \<times> u64) \<times> nat list list" where
  "command_view s = ((si_joints s, si_st s, si_cmd s, si_control_sequence s), map cs_indices (si_streams s))"

lemma packet_view: "command_view s' = command_view s \<Longrightarrow> packet s' = packet s \<and> setpoint s' = setpoint s"
  by (simp add: command_view_def packet_def setpoint_def fun_eq_iff Let_def)

lemma row_axes_indices [simp]: "cs_indices (row_axes f c) = cs_indices c"
proof -
  have "cs_indices (fold (row_axis f) xs c) = cs_indices c" for xs
    by (induction xs arbitrary: c) (simp_all add: row_axis_def Let_def split: option.split)
  then show ?thesis by (simp add: row_axes_def)
qed

lemma indices_update: "n < length cs \<Longrightarrow> cs_indices c = cs_indices (cs ! n) \<Longrightarrow> map cs_indices (cs[n := c]) = map cs_indices cs"
  by (simp add: map_update list_update_same_conv)

lemma write_stream_spec:
  assumes "write_stream n (s, e) = (ok, s', e')" and "n < length (si_streams s)"
  shows "command_view s' = command_view s \<and> si_tgt s' = si_tgt s \<and>
    (\<exists>bs. si_batches s' = si_batches s @ bs \<and> (\<forall>b \<in> set bs. \<exists>js t. js \<in> set (map cs_indices (si_streams s)) \<and> b = map (packet s t) js))"
proof (cases "cs_write_triggered (si_streams s ! n)")
  case False
  then show ?thesis using assms(1) by (auto simp: write_stream_def)
next
  case True
  obtain t e1 where t: "steady_now e = (t, e1)" by fastforce
  obtain nb e2 where nb: "steady_now e1 = (nb, e2)" by fastforce
  obtain na e3 where na: "steady_now e2 = (na, e3)" by fastforce
  let ?ps = "map (packet s t) (cs_indices (si_streams s ! n))"
  obtain ok' s1 where p: "publish_result ?ps s = (ok', s1)" by fastforce
  define c where "c = row_axes (\<lambda>r. r\<lparr>cr_published := t, cr_notify_before := nb, cr_notify_after := na\<rparr>) ((si_streams s ! n)\<lparr>cs_commands := ?ps\<rparr>)"
  have s': "s' = s1\<lparr>si_streams := (si_streams s1)[n := c]\<rparr>"
    using assms(1) True unfolding write_stream_def Let_def prod.case t nb na p c_def by auto
  have s1: "si_batches s1 = si_batches s @ [?ps]" "si_streams s1 = si_streams s" "si_tgt s1 = si_tgt s" "command_view s1 = command_view s"
    using p by (auto simp: publish_result_def Let_def command_view_def split: list.splits)
  have "cs_indices c = cs_indices (si_streams s ! n)" by (simp add: c_def)
  then have "command_view s' = command_view s" using s1 indices_update [OF assms(2)] by (simp add: s' command_view_def)
  moreover have "cs_indices (si_streams s ! n) \<in> set (map cs_indices (si_streams s))" using assms(2) by simp
  ultimately show ?thesis using s1(1,3) unfolding s'
    by (intro conjI exI [of _ "[?ps]"]) (simp, simp, simp, metis list.set_intros(1) set_ConsD empty_iff empty_set)
qed

lemma write_streams_spec:
  assumes "write_streams ns (s, e) = (ok, s', e')" and "\<forall>n \<in> set ns. n < length (si_streams s)"
  shows "command_view s' = command_view s \<and> si_tgt s' = si_tgt s \<and>
    (\<exists>bs. si_batches s' = si_batches s @ bs \<and> (\<forall>b \<in> set bs. \<exists>js t. js \<in> set (map cs_indices (si_streams s)) \<and> b = map (packet s t) js))"
  using assms
proof (induction ns arbitrary: s e)
  case Nil
  then show ?case by auto
next
  case (Cons n ns)
  obtain ok1 s1 e1 where w: "write_stream n (s, e) = (ok1, s1, e1)" using prod_cases3 by blast
  have n: "n < length (si_streams s)" using Cons.prems(2) by simp
  note sp = write_stream_spec [OF w n]
  then obtain bs where bs: "si_batches s1 = si_batches s @ bs"
    "\<forall>b \<in> set bs. \<exists>js t. js \<in> set (map cs_indices (si_streams s)) \<and> b = map (packet s t) js" by blast
  have pk: "packet s1 = packet s" and ci: "map cs_indices (si_streams s1) = map cs_indices (si_streams s)"
    using sp packet_view [of s1 s] by (auto simp: command_view_def)
  show ?case
  proof (cases ok1)
    case False
    then show ?thesis using Cons.prems(1) w sp by simp
  next
    case True
    then have rest: "write_streams ns (s1, e1) = (ok, s', e')" using Cons.prems(1) w by simp
    have "length (si_streams s1) = length (si_streams s)" using map_eq_imp_length_eq [OF ci] .
    then have "\<forall>n \<in> set ns. n < length (si_streams s1)" using Cons.prems(2) by simp
    note IH = Cons.IH [OF rest this, unfolded pk ci]
    then obtain bs' where bs': "si_batches s' = si_batches s1 @ bs'"
      "\<forall>b \<in> set bs'. \<exists>js t. js \<in> set (map cs_indices (si_streams s)) \<and> b = map (packet s t) js" by blast
    have "\<forall>b \<in> set (bs @ bs'). \<exists>js t. js \<in> set (map cs_indices (si_streams s)) \<and> b = map (packet s t) js" using bs(2) bs'(2) by auto
    then show ?thesis using IH sp bs(1) bs'(1) by (intro conjI exI [of _ "bs @ bs'"]) simp_all
  qed
qed

lemma fold_update_nth:
  fixes g :: "nat \<Rightarrow> 'a"
  shows "length (fold (\<lambda>i t. if P i then t else t[i := g i]) js xs) = length xs"
    and "i < length xs \<Longrightarrow> fold (\<lambda>i t. if P i then t else t[i := g i]) js xs ! i = (if i \<in> set js \<and> \<not> P i then g i else xs ! i)"
proof (induction js arbitrary: xs)
  case (Cons a js)
  case 2
  then show ?case using Cons(2) [of "if P a then xs else xs[a := g a]"] by (cases "a = i") auto
qed auto

lemma store_targets_spec:
  assumes "store_targets (s, e) = (s', e')"
  shows "si_batches s' = si_batches s" and "i < length (si_tgt s) \<Longrightarrow> si_tgt s' ! i = si_tgt s ! i \<or> si_tgt s' ! i = setpoint s i"
proof -
  obtain now e1 where n: "steady_now e = (now, e1)" by fastforce
  show "si_batches s' = si_batches s" using assms n by (auto simp: store_targets_def Let_def split: if_splits)
  assume "i < length (si_tgt s)"
  note nth = fold_update_nth(2) [OF this, of "\<lambda>i. \<not> sj_actuator (si_joints s ! i) \<or> is_written s i" "setpoint s" "[0..<length (si_joints s)]"]
  have "si_tgt s' = (if legacy_write s then fold (\<lambda>i t. if \<not> sj_actuator (si_joints s ! i) \<or> is_written s i then t else t[i := setpoint s i])
      [0..<length (si_joints s)] (si_tgt s) else si_tgt s)"
    using assms n by (auto simp: store_targets_def Let_def split: if_splits)
  then show "si_tgt s' ! i = si_tgt s ! i \<or> si_tgt s' ! i = setpoint s i" using nth by presburger
qed

text \<open>A command that is safe to hand out for an axis.\<close>

definition safe_command :: "SystemInterface \<Rightarrow> nat \<Rightarrow> AxisTarget \<Rightarrow> bool" where
  "safe_command s i t \<longleftrightarrow>
     isfinite (at_position t) \<and> isfinite (at_velocity t) \<and> isfinite (at_kp t) \<and> isfinite (at_kd t) \<and> isfinite (at_effort t) \<and>
     (\<not> isfinite (at_position (si_cmd s ! i)) \<longrightarrow>
        t = \<lparr>at_position = ax_position (si_st s ! i), at_velocity = 0, at_kp = 0, at_kd = 0, at_effort = 0\<rparr>)"

definition axis_ready :: "SystemInterface \<Rightarrow> nat \<Rightarrow> bool" where
  "axis_ready s i \<longleftrightarrow> isfinite (ax_position (si_st s ! i)) \<and> isfinite (sj_default_kp (si_joints s ! i)) \<and> isfinite (sj_default_kd (si_joints s ! i))"

lemma setpoint_safe: "axis_ready s i \<Longrightarrow> safe_command s i (setpoint s i)"
  by (simp add: safe_command_def setpoint_def axis_ready_def Let_def zero_double_def)

definition packet_target :: "PublishedCommand \<Rightarrow> AxisTarget" where
  "packet_target p = (let c = pc_command p in \<lparr>at_position = cm_position c, at_velocity = cm_velocity c, at_kp = cm_kp c, at_kd = cm_kd c, at_effort = cm_effort c\<rparr>)"

lemma packet_fields: "packet_target (packet s t i) = setpoint s i" "pc_sequence (packet s t i) = si_control_sequence s" "pc_published_ns (packet s t i) = t"
  by (simp_all add: packet_target_def packet_def Let_def)

text \<open>Property C12: whatever the controllers store, also values that are not finite, every batch a write
  publishes carries the next sequence number and one time for all its axes and holds only finite values; an axis whose position is not
  commanded is told its measured position without gains, velocity and torque. The targets for the sequential workers obey the same.\<close>

theorem write_hands_out_safe_commands:
  assumes "hw_write (s, e) = (r, s', e')" and "\<forall>i < length (si_joints s). axis_ready s i"
    and "\<forall>c \<in> set (si_streams s). \<forall>i \<in> set (cs_indices c). i < length (si_joints s)" and "length (si_tgt s) = length (si_joints s)"
  shows "(\<exists>bs. si_batches s' = si_batches s @ bs \<and>
      (\<forall>b \<in> set bs. \<exists>js t. js \<in> set (map cs_indices (si_streams s)) \<and>
         list_all2 (\<lambda>i p. pc_sequence p = si_control_sequence s + 1 \<and> pc_published_ns p = t \<and> safe_command s i (packet_target p)) js b)) \<and>
    (\<forall>i < length (si_tgt s). si_tgt s' ! i = si_tgt s ! i \<or> safe_command s i (si_tgt s' ! i))"
proof -
  obtain st s0 where f: "stopped_flag s = (st, s0)" by fastforce
  have s0: "command_view s0 = command_view s" "si_tgt s0 = si_tgt s" "si_batches s0 = si_batches s" "length (si_streams s0) = length (si_streams s)"
    using f by (auto simp: stopped_flag_def command_view_def split: list.splits)
  show ?thesis
  proof (cases st)
    case True
    then show ?thesis using assms(1) f s0 by (auto simp: hw_write_def intro: exI [of _ "[]"])
  next
    case False
    obtain ws e1 where w: "steady_now e = (ws, e1)" by fastforce
    define s1 where "s1 = s0\<lparr>si_streams := map ensure_record (si_streams s0), si_control_sequence := si_control_sequence s0 + 1\<rparr>"
    have ei: "cs_indices (ensure_record c) = cs_indices c" for c by (simp add: ensure_record_def)
    have s1: "si_joints s1 = si_joints s" "si_st s1 = si_st s" "si_cmd s1 = si_cmd s" "si_control_sequence s1 = si_control_sequence s + 1"
      "map cs_indices (si_streams s1) = map cs_indices (si_streams s)" "si_tgt s1 = si_tgt s" "si_batches s1 = si_batches s"
      using s0 by (simp_all add: s1_def command_view_def comp_def ei)
    have sp: "setpoint s1 = setpoint s" using s1 by (simp add: setpoint_def fun_eq_iff Let_def)
    obtain ok s2 e2 where ws: "write_streams [0..<length (si_streams s1)] (s1, e1) = (ok, s2, e2)" using prod_cases3 by blast
    have "\<forall>n \<in> set [0..<length (si_streams s1)]. n < length (si_streams s1)" by simp
    note wsp = write_streams_spec [OF ws this, unfolded s1(5,6,7)]
    then obtain bs where bs: "si_batches s2 = si_batches s @ bs" "\<forall>b \<in> set bs. \<exists>js t. js \<in> set (map cs_indices (si_streams s)) \<and> b = map (packet s1 t) js" by blast
    have safe: "list_all2 (\<lambda>i p. pc_sequence p = si_control_sequence s + 1 \<and> pc_published_ns p = t \<and> safe_command s i (packet_target p)) js (map (packet s1 t) js)"
      if "js \<in> set (map cs_indices (si_streams s))" for js t
      using that assms(2,3) setpoint_safe by (auto simp: list_all2_map2 packet_fields s1(4) sp intro!: list.rel_refl_strong)
    have batches: "\<exists>bs. si_batches s2 = si_batches s @ bs \<and> (\<forall>b \<in> set bs. \<exists>js t. js \<in> set (map cs_indices (si_streams s)) \<and>
         list_all2 (\<lambda>i p. pc_sequence p = si_control_sequence s + 1 \<and> pc_published_ns p = t \<and> safe_command s i (packet_target p)) js b)"
    proof (intro exI [of _ bs] conjI ballI)
      fix b assume "b \<in> set bs"
      then obtain js t where j: "js \<in> set (map cs_indices (si_streams s))" "b = map (packet s1 t) js" using bs(2) by blast
      show "\<exists>js t. js \<in> set (map cs_indices (si_streams s)) \<and>
         list_all2 (\<lambda>i p. pc_sequence p = si_control_sequence s + 1 \<and> pc_published_ns p = t \<and> safe_command s i (packet_target p)) js b"
        unfolding j(2) by (intro exI conjI, rule j(1), rule safe [OF j(1)])
    qed (rule bs(1))
    have "command_view s2 = command_view s1" and tg: "si_tgt s2 = si_tgt s" using wsp by blast+
    then have "setpoint s2 = setpoint s" using packet_view [of s2 s1] sp by presburger
    note s2 = tg this
    show ?thesis
    proof (cases ok)
      case no: False
      then have "s' = s2" using assms(1) False f w ws by (auto simp: hw_write_def s1_def Let_def)
      then show ?thesis using batches s2(1) by simp
    next
      case True
      obtain s3 e3 where t3: "store_targets (s2, e2) = (s3, e3)" by fastforce
      have "si_tgt s' = si_tgt s3 \<and> si_batches s' = si_batches s3"
        using assms(1) False True f w ws t3 by (auto simp: hw_write_def s1_def Let_def split: prod.splits)
      moreover have "si_batches s3 = si_batches s2" using store_targets_spec(1) [OF t3] .
      moreover have "si_tgt s3 ! i = si_tgt s ! i \<or> safe_command s i (si_tgt s3 ! i)" if "i < length (si_tgt s)" for i
        using store_targets_spec(2) [OF t3, of i, unfolded s2] that assms(2,4) setpoint_safe [of s i] by metis
      ultimately show ?thesis using batches by simp
    qed
  qed
qed


theorem write_hands_out_safe_commands_witness:
  "\<exists>r s' e'. hw_write (sample_interface, silent_env) = (r, s', e') \<and>
     (\<exists>bs. si_batches s' = bs \<and> (\<forall>b \<in> set bs. \<exists>t. list_all2 (\<lambda>i p. pc_sequence p = 7 \<and> pc_published_ns p = t \<and> safe_command sample_interface i (packet_target p)) [0, 1] b))"
proof -
  obtain r s' e' where r: "hw_write (sample_interface, silent_env) = (r, s', e')" using prod_cases3 by blast
  have h: "\<forall>i < length (si_joints sample_interface). axis_ready sample_interface i"
    "\<forall>c \<in> set (si_streams sample_interface). \<forall>i \<in> set (cs_indices c). i < length (si_joints sample_interface)"
    "length (si_tgt sample_interface) = length (si_joints sample_interface)"
    by (simp_all add: sample_interface_def axis_ready_def)
  have v: "si_control_sequence sample_interface + 1 = 7" "si_batches sample_interface = []" "map cs_indices (si_streams sample_interface) = [[0, 1]]"
    by (simp_all add: sample_interface_def)
  from conjunct1 [OF write_hands_out_safe_commands [OF r h], unfolded v]
  have "\<exists>bs. si_batches s' = bs \<and> (\<forall>b \<in> set bs. \<exists>t. list_all2 (\<lambda>i p. pc_sequence p = 7 \<and> pc_published_ns p = t \<and> safe_command sample_interface i (packet_target p)) [0, 1] b)"
    by auto
  then show ?thesis using r by blast
qed

section \<open>Unavailable feedback\<close>

lemma row_axis_fields [simp]:
  "cs_failures (row_axis f a c) = cs_failures c" "cs_unavailable (row_axis f a c) = cs_unavailable c" "cs_read_diagnostics (row_axis f a c) = cs_read_diagnostics c"
  by (simp_all add: row_axis_def Let_def split: option.split)

definition count_failure :: "'a option \<Rightarrow> u32 \<Rightarrow> u32" where
  "count_failure got f = (case got of Some _ \<Rightarrow> 0 | None \<Rightarrow> if f < 0xffffffff then f + 1 else f)"

definition failure_view :: "ControlStream \<Rightarrow> u32 list \<times> bool list \<times> bool" where
  "failure_view c = (cs_failures c, cs_unavailable c, cs_read_diagnostics c)"

lemma store_snapshot_view:
  assumes "store_snapshot a i got (c, s) = (c', s')" and "cs_read_diagnostics c"
  shows "failure_view c' = ((cs_failures c)[a := count_failure got (cs_failures c ! a)], cs_unavailable c, True) \<and> si_reads s' = si_reads s"
  using assms by (cases got) (auto simp: store_snapshot_def failure_view_def count_failure_def)

lemma note_unavailable_view:
  assumes "note_unavailable a i was (c, s, e) = (c', s', e')" and "cs_read_diagnostics c"
  shows "failure_view c' = (cs_failures c, (cs_unavailable c)[a := (3 \<le> cs_failures c ! a)], True) \<and> s' = s"
  using assms by (auto simp: note_unavailable_def failure_view_def Let_def split: if_splits prod.splits)

lemma record_axis_view:
  assumes "record_axis a n (c, e) = (c', e')"
  shows "failure_view c' = failure_view c"
  using assms by (auto simp: record_axis_def failure_view_def Let_def split: if_splits prod.splits)

lemma read_axis_view:
  assumes "read_axis a (c, s, e) = (c', s', e')" and "cs_read_diagnostics c" and "si_reads s = (n, got) # rs" and "a < length (cs_failures c)"
  shows "failure_view c' = ((cs_failures c)[a := count_failure got (cs_failures c ! a)],
      (cs_unavailable c)[a := (3 \<le> count_failure got (cs_failures c ! a))], True) \<and> si_reads s' = rs"
proof -
  define i where "i = cs_indices c ! a"
  obtain c1 s1 where st: "store_snapshot a i got (c, s\<lparr>si_reads := rs\<rparr>) = (c1, s1)" by fastforce
  obtain c2 s2 e2 where nu: "note_unavailable a i (3 \<le> cs_failures c ! a) (c1, s1, e) = (c2, s2, e2)" using prod_cases3 by blast
  obtain c3 e3 where ra: "record_axis a n (c2, e2) = (c3, e3)" by fastforce
  have r: "c' = c3" "s' = s2"
    using assms(1,2,3) by (auto simp: read_axis_def readFeedback_def Let_def st [unfolded i_def] nu [unfolded i_def] ra)
  note v1 = store_snapshot_view [OF st assms(2)]
  have d: "cs_read_diagnostics c1" "cs_failures c1 = (cs_failures c)[a := count_failure got (cs_failures c ! a)]" "cs_unavailable c1 = cs_unavailable c"
    using v1 by (auto simp: failure_view_def)
  note v2 = note_unavailable_view [OF nu d(1)]
  show ?thesis using record_axis_view [OF ra] v2 v1 assms(4) by (simp add: r d)
qed

text \<open>The failures in a row at the end of a list of read results.\<close>

definition failures_in_a_row :: "(u32 \<times> PublishedFeedback option) list \<Rightarrow> nat" where
  "failures_in_a_row rs = length (takeWhile (\<lambda>r. snd r = None) (rev rs))"

lemma count_failure_step:
  assumes "unat f = min (2 ^ 32 - 1) (failures_in_a_row rs)"
  shows "unat (count_failure (snd r) f) = min (2 ^ 32 - 1) (failures_in_a_row (rs @ [r]))"
proof (cases "snd r")
  case None
  show ?thesis
  proof (cases "f < 0xffffffff")
    case True
    then have "unat f < 2 ^ 32 - 1" by (simp add: word_less_nat_alt)
    moreover have "unat (f + 1) = unat f + 1" using True by (simp add: unat_word_ariths(1) word_less_nat_alt)
    ultimately show ?thesis using assms None True by (simp add: count_failure_def failures_in_a_row_def)
  next
    case False
    then have "2 ^ 32 - 1 \<le> unat f" by (simp add: word_less_nat_alt)
    then show ?thesis using assms None False by (simp add: count_failure_def failures_in_a_row_def)
  qed
next
  case (Some v)
  then show ?thesis by (simp add: count_failure_def failures_in_a_row_def)
qed

text \<open>Successive reads of one axis.\<close>

definition read_axis_times :: "nat \<Rightarrow> nat \<Rightarrow> ControlStream \<times> SystemInterface \<times> env \<Rightarrow> ControlStream \<times> SystemInterface \<times> env" where
  "read_axis_times a n s = (read_axis a ^^ n) s"

lemma read_axis_times_view:
  assumes "cs_read_diagnostics c" and "a < length (cs_failures c)" and "a < length (cs_unavailable c)" and "cs_failures c ! a = 0"
    and "si_reads s = rs @ later" and "read_axis_times a (length rs) (c, s, e) = (c', s', e')"
  shows "cs_read_diagnostics c' \<and> a < length (cs_failures c') \<and> a < length (cs_unavailable c') \<and> si_reads s' = later \<and>
    unat (cs_failures c' ! a) = min (2 ^ 32 - 1) (failures_in_a_row rs) \<and> (rs \<noteq> [] \<longrightarrow> (cs_unavailable c' ! a \<longleftrightarrow> 3 \<le> cs_failures c' ! a))"
  using assms(5,6)
proof (induction rs arbitrary: later c' s' e' rule: rev_induct)
  case Nil
  then show ?case using assms(1-4) by (auto simp: read_axis_times_def failures_in_a_row_def)
next
  case (snoc r rs)
  obtain c1 s1 e1 where x: "read_axis_times a (length rs) (c, s, e) = (c1, s1, e1)" using prod_cases3 by blast
  have "si_reads s = rs @ (r # later)" using snoc.prems(1) by simp
  note IH = snoc.IH [OF this x]
  have y: "read_axis a (c1, s1, e1) = (c', s', e')" using snoc.prems(2) x by (simp add: read_axis_times_def)
  obtain n got where r: "r = (n, got)" by fastforce
  have d: "cs_read_diagnostics c1" "a < length (cs_failures c1)" "a < length (cs_unavailable c1)" "si_reads s1 = (n, got) # later"
    "unat (cs_failures c1 ! a) = min (2 ^ 32 - 1) (failures_in_a_row rs)" using IH r by auto
  have v: "cs_failures c' = (cs_failures c1)[a := count_failure got (cs_failures c1 ! a)]"
    "cs_unavailable c' = (cs_unavailable c1)[a := (3 \<le> count_failure got (cs_failures c1 ! a))]" "cs_read_diagnostics c'" "si_reads s' = later"
    using read_axis_view [OF y d(1,4,2)] by (auto simp: failure_view_def)
  show ?case using v d(2,3) count_failure_step [OF d(5), of r] by (simp add: r)
qed

text \<open>Also: after any successive reads of an axis, starting without failures, the axis is marked as
  unavailable exactly if the last three or more reads found no consistent snapshot.\<close>

theorem feedback_unavailable_after_three:
  assumes "cs_read_diagnostics c" and "a < length (cs_failures c)" and "a < length (cs_unavailable c)" and "cs_failures c ! a = 0"
    and "si_reads s = rs" and "rs \<noteq> []" and "read_axis_times a (length rs) (c, s, e) = (c', s', e')"
  shows "cs_unavailable c' ! a \<longleftrightarrow> 3 \<le> failures_in_a_row rs"
proof -
  have "si_reads s = rs @ []" using assms(5) by simp
  note v = read_axis_times_view [OF assms(1-4) this assms(7)]
  then have "(3 \<le> cs_failures c' ! a) = (3 \<le> unat (cs_failures c' ! a))" by (simp add: word_le_nat_alt)
  then show ?thesis using v assms(6) by auto
qed

theorem feedback_unavailable_after_three_witness:
  "\<exists>c' s' e'. read_axis_times 1 3 (hd (si_streams sample_interface), sample_interface, silent_env) = (c', s', e') \<and> cs_unavailable c' ! 1"
proof -
  obtain c' s' e' where x: "read_axis_times 1 (length (replicate 3 (4 :: u32, None :: PublishedFeedback option))) (hd (si_streams sample_interface), sample_interface, silent_env) = (c', s', e')"
    using prod_cases3 by blast
  have "cs_unavailable c' ! 1 \<longleftrightarrow> 3 \<le> failures_in_a_row (replicate 3 (4 :: u32, None))"
    by (rule feedback_unavailable_after_three [OF _ _ _ _ _ _ x]) (simp_all add: sample_interface_def)
  then show ?thesis using x by (simp add: failures_in_a_row_def numeral_3_eq_3)
qed

end
