(* ===== verification/Hil_System.thy ===== *)
theory Hil_System
  imports Hil_Controller System_Cycle
begin

text \<open>
  The single-joint controller and the hardware interface together. The command handles keep the last value they accepted, and
  the write callback of the hardware turns them into what the joint is told. The flag \<open>release_write_pending\<close> of the controller is
  shown to be truthful: once it is cleared after a run, the joint is told no gain. The other result is an execution in which a
  refused write while armed gives the joint the default gains.
\<close>

section \<open>Command handles\<close>

definition store_write :: "nat \<times> double \<times> bool \<Rightarrow> AxisTarget \<Rightarrow> AxisTarget" where
  "store_write = (\<lambda>(k, v, ok) t. if \<not> ok then t
     else if k = 0 then t\<lparr>at_position := v\<rparr> else if k = 1 then t\<lparr>at_velocity := v\<rparr> else if k = 2 then t\<lparr>at_kp := v\<rparr>
     else if k = 3 then t\<lparr>at_kd := v\<rparr> else t\<lparr>at_effort := v\<rparr>)"

definition stored :: "(nat \<times> double \<times> bool) list \<Rightarrow> AxisTarget \<Rightarrow> AxisTarget" where
  "stored b = fold store_write b"

definition limp :: "AxisTarget \<Rightarrow> bool" where
  "limp t \<longleftrightarrow> at_velocity t = 0 \<and> at_kp t = 0 \<and> at_kd t = 0 \<and> at_effort t = 0"

text \<open>What the joint is told for limp commands, whether or not the position is defined.\<close>

lemma setpoint_limp: "limp (si_cmd h ! j) \<Longrightarrow> limp (setpoint h j)"
  by (simp add: limp_def setpoint_def Let_def zero_double_def)

lemma stored_append [simp]: "stored (a @ b) t = stored b (stored a t)"
  by (simp add: stored_def)

lemma batch_cases:
  assumes "hil_batch [p, v, kp, kd, f] b"
  obtains o0 o1 o2 o3 o4 where "b = [(0, p, o0), (1, v, o1), (2, kp, o2), (3, kd, o3), (4, f, o4)]"
proof -
  have z: "zip [0..<5] [p, v, kp, kd, f] = [(0, p), (1, v), (2, kp), (3, kd), (4, f)]" by (simp add: upt_rec)
  have "logged b = [(0, p), (1, v), (2, kp), (3, kd), (4, f)]" using assms unfolding hil_batch_def z by blast
  then show thesis using that by (auto simp: Cons_eq_map_conv map_eq_Cons_conv)
qed

lemma released_keeps_limp: "hil_batch (hil_released i) b \<Longrightarrow> limp t \<Longrightarrow> limp (stored b t)"
  unfolding hil_released_def by (erule batch_cases) (auto simp: stored_def store_write_def limp_def)

lemma released_makes_limp: "hil_batch (hil_released i) b \<Longrightarrow> list_all (\<lambda>(k, v, ok). ok) b \<Longrightarrow> limp (stored b t)"
  unfolding hil_released_def by (erule batch_cases) (auto simp: stored_def store_write_def limp_def)

section \<open>The flag of a pending release\<close>

definition run_ended :: "Hil \<Rightarrow> bool" where
  "run_ended s \<longleftrightarrow> hc_state s = HReleased \<or> hc_state s = HAborted"

definition release_truthful :: "AxisTarget \<Rightarrow> Hil \<Rightarrow> bool" where
  "release_truthful t s \<longleftrightarrow> (run_ended s \<and> \<not> hc_release_write_pending s \<longrightarrow> limp (stored (hc_log s) t))"

lemma truthful_endRun: "release_truthful t (endRun r now s)"
  by (simp add: release_truthful_def endRun_def)

lemma truthful_same:
  assumes "release_truthful t s" and "hc_log s' = hc_log s" and "run_ended s' \<Longrightarrow> run_ended s \<and> hc_release_write_pending s' = hc_release_write_pending s"
  shows "release_truthful t s'"
  using assms by (auto simp: release_truthful_def)

lemma truthful_stop: "release_truthful t s \<Longrightarrow> release_truthful t (hil_apply_stop i s)"
  by (auto simp: hil_apply_stop_def Let_def release_truthful_def endRun_def run_ended_def)

lemma truthful_start: "release_truthful t s \<Longrightarrow> release_truthful t (hil_take_start i s)"
  by (erule truthful_same) (auto simp: hil_take_start_def publishRtState_def run_ended_def Let_def split: option.splits if_splits)

lemma truthful_keepalive: "release_truthful t s \<Longrightarrow> release_truthful t (hil_take_keepalive i s)"
  by (simp add: hil_take_keepalive_def release_truthful_def run_ended_def)

lemma truthful_period: "release_truthful t s \<Longrightarrow> release_truthful t (hil_period i s)"
  by (simp add: hil_period_def truthful_endRun)

lemma truthful_arm: "release_truthful t s \<Longrightarrow> release_truthful t (hil_arm i s)"
  by (simp add: hil_arm_def truthful_endRun Let_def) (simp add: release_truthful_def run_ended_def)

lemma truthful_run: "release_truthful t s \<Longrightarrow> release_truthful t (snd (hil_run m i s))"
proof (cases "hc_state s = HRunning")
  case True
  define s1 where "s1 = s\<lparr>hc_elapsed := (if hc_first_running_cycle s then hc_elapsed s else hc_elapsed s + hi_dt i), hc_first_running_cycle := False\<rparr>"
  obtain p f where r: "hil_reference m s1 = (p, f)" by fastforce
  have a: "release_truthful t s1" "release_truthful t (x\<lparr>hc_state := HHolding\<rparr>)" for x using True by (simp_all add: release_truthful_def run_ended_def s1_def)
  show ?thesis using True a truthful_endRun unfolding hil_run_def Let_def s1_def [symmetric] r prod.case by simp
qed (simp add: hil_run_def)

lemma truthful_hold: "release_truthful t s \<Longrightarrow> release_truthful t (hil_hold i s)"
  by (simp add: hil_hold_def truthful_endRun)

lemma truthful_decide:
  assumes "release_truthful t s" and "hil_decide m i s = (r, s')"
  shows "release_truthful t s'"
proof -
  let ?s5 = "hil_arm i (hil_period i (hil_take_keepalive i (hil_take_start i (hil_apply_stop i s))))"
  have "release_truthful t ?s5" using assms(1) by (intro truthful_arm truthful_period truthful_keepalive truthful_start truthful_stop)
  then have "release_truthful t (hil_hold i (snd (hil_run m i ?s5)))" by (intro truthful_hold truthful_run)
  then show ?thesis using assms(2) by (simp add: hil_decide_def split: prod.splits)
qed

lemma truthful_refused:
  assumes "writeReleased q (endRun HeWriteFailed now s) = (ok, s')" and "q = in_position i"
  shows "release_truthful t (if ok then s'\<lparr>hc_release_write_pending := False\<rparr> else s')"
proof -
  note sp = writeOutputs_spec [OF assms(1) [unfolded writeReleased_def assms(2)], folded hil_released_def]
  have p: "hc_release_write_pending s'" using sp by (simp add: endRun_def)
  obtain l where l: "hc_log s' = hc_log (endRun HeWriteFailed now s) @ l" "hil_batch (hil_released i) l" "ok \<longleftrightarrow> list_all (\<lambda>(k, v, ok). ok) l" using sp by blast
  show ?thesis using p l released_makes_limp [OF l(2)] by (simp add: release_truthful_def)
qed

lemma truthful_settle:
  assumes o: "hil_outputs i r s = (wrote, s1)" and t: "release_truthful t s"
  shows "release_truthful t (hil_settle i wrote s1)"
proof -
  note os = hil_outputs_spec [OF o]
  have st: "hc_state s1 = hc_state s" and pe: "hc_release_write_pending s1 = hc_release_write_pending s" using os by (auto simp: hil_marks_def)
  obtain b where b: "hc_log s1 = hc_log s @ b" "hil_batch (cycle_values i r s) b" "wrote \<longleftrightarrow> list_all (\<lambda>(k, v, ok). ok) b" using os by blast
  consider (refused) "\<not> wrote" "hc_state s1 = HRunning \<or> hc_state s1 = HHolding" | (ended) "run_ended s1" | (other) "\<not> run_ended s1" "\<not> (\<not> wrote \<and> (hc_state s1 = HRunning \<or> hc_state s1 = HHolding))" by blast
  then show ?thesis
  proof cases
    case refused
    obtain ok t1 where w: "writeReleased (in_position i) (endRun HeWriteFailed (hi_now i) s1) = (ok, t1)" by fastforce
    note tr = truthful_refused [OF w refl, of t]
    show ?thesis using refused w tr by (simp add: hil_settle_def Let_def release_truthful_def run_ended_def)
  next
    case ended
    then have v: "cycle_values i r s = hil_released i" using st by (cases r) (auto simp: run_ended_def cycle_values_def)
    then have hb: "hil_batch (hil_released i) b" using b(2) by simp
    have "hil_settle i wrote s1 = (if wrote then s1\<lparr>hc_release_write_pending := False\<rparr> else s1\<lparr>hc_write_failures := hc_write_failures s1 + 1\<rparr>)"
      using ended by (auto simp: hil_settle_def run_ended_def Let_def)
    then show ?thesis using t b(1,3) hb released_makes_limp [OF hb] released_keeps_limp [OF hb] st pe ended by (auto simp: release_truthful_def run_ended_def)
  next
    case other
    then show ?thesis by (auto simp: hil_settle_def release_truthful_def run_ended_def Let_def)
  qed
qed

lemma hil_record_pending: "hc_release_write_pending (hil_record i r w s) = hc_release_write_pending s"
  by (simp add: hil_record_def Let_def)

lemma truthful_update:
  assumes "release_truthful t s"
  shows "release_truthful t (snd (hil_update m i s))"
proof -
  obtain r s1 where d: "hil_decide m i s = (r, s1)" by fastforce
  obtain wrote s2 where o: "hil_outputs i r s1 = (wrote, s2)" by fastforce
  let ?s3 = "hil_settle i wrote s2"
  have 3: "release_truthful t ?s3" using truthful_settle [OF o truthful_decide [OF assms d]] .
  have 4: "release_truthful t (hil_record i r wrote ?s3)"
    by (rule truthful_same [OF 3]) (use hil_record_spec [of i r wrote ?s3] hil_record_pending in \<open>auto simp: run_ended_def\<close>)
  have "hc_release_write_pending (hil_publish i x) = hc_release_write_pending x" for x by (simp add: hil_publish_def publishRtState_def Let_def)
  then have "release_truthful t (hil_publish i (hil_record i r wrote ?s3))"
    by (intro truthful_same [OF 4]) (use hil_publish_spec [of i "hil_record i r wrote ?s3"] in \<open>auto simp: run_ended_def hil_marks_def\<close>)
  then show ?thesis using d o by (simp add: hil_update_def)
qed

text \<open>Every call but a deactivation keeps the flag truthful.\<close>

definition keeps_active :: "HilCall \<Rightarrow> bool" where
  "keeps_active c \<longleftrightarrow> (case c of HcDeactivate _ \<Rightarrow> False | _ \<Rightarrow> True)"

lemma truthful_call:
  assumes "release_truthful t s" and "keeps_active c"
  shows "release_truthful t (hil_call c s)"
proof (cases c)
  case (HcConfigure permitted dir rate p)
  obtain q rows where "snd (hil_on_configure permitted dir rate p s) = s\<lparr>hc_par := q, hc_rows := rows\<rparr>"
    using hil_configure_spec by blast
  then show ?thesis using assms(1) HcConfigure by (simp add: release_truthful_def run_ended_def)
next
  case HcActivate
  then show ?thesis using hil_activate_spec [of s] by (simp add: release_truthful_def run_ended_def)
next
  case (HcUpdate m i)
  then show ?thesis using truthful_update [OF assms(1)] by simp
qed (use assms in \<open>auto simp: keeps_active_def release_truthful_def run_ended_def hil_requestStart_def hil_requestFinish_def hil_requestStop_def
      onKeepalive_def writeCompletedRecord_def Let_def\<close>)

lemma truthful_session:
  assumes "list_all keeps_active ds"
  shows "release_truthful t (fold hil_call (cs @ HcActivate # ds) s0)"
proof -
  let ?s = "hil_call HcActivate (fold hil_call cs s0)"
  have "hc_state ?s = HIdle" using hil_activate_spec [of "fold hil_call cs s0"] by simp
  then have "release_truthful t ?s" by (simp add: release_truthful_def run_ended_def)
  moreover have "release_truthful t s \<Longrightarrow> release_truthful t (fold hil_call ds s)" for s
    using assms
  proof (induction ds arbitrary: s)
    case (Cons c ds)
    then show ?case using truthful_call [of t s c] by simp
  qed simp
  ultimately have "release_truthful t (fold hil_call ds ?s)" by blast
  then show ?thesis by simp
qed

section \<open>A trial run\<close>

definition trial_input :: "ns \<Rightarrow> HilInput" where
  "trial_input now = \<lparr>hi_now = now, hi_time = Fin 0, hi_dt = Fin (1 / 1024), hi_states = (Some (Fin 0), Some (Fin 0), Some (Fin 0)), hi_start_lock = True,
     hi_keepalive_lock = False, hi_snapshot_lock = False, hi_update_ns = 1\<rparr>"

definition started :: "bool list \<Rightarrow> Hil" where
  "started io = snd (hil_on_configure False None 1000 trial_parameters_hil (new_Hil trial_parameters_hil io))"

lemma started_configured: "hil_on_configure False None 1000 trial_parameters_hil (new_Hil trial_parameters_hil io) = (SUCCESS, started io)"
  using trial_hil_configured by (auto simp: started_def trial_hil_def hil_on_configure_def Let_def new_Hil_def split: if_splits option.splits)

lemma seconds_0: "seconds 0 = Fin 0"
proof -
  have "\<bar>1 / 10 ^ 9 :: rat\<bar> \<le> pow2 0" by simp
  then obtain c where "rnd (1 / 10 ^ 9) = Fin c" using rnd_small [of "1 / 10 ^ 9" 0] by auto
  then show ?thesis by (simp add: seconds_def dint_def)
qed

lemma seconds_late: "Fin 1 < seconds (2 ^ 53)"
proof -
  have "\<bar>1 / 10 ^ 9 :: rat\<bar> \<le> pow2 0" by simp
  then obtain c where c: "rnd (1 / 10 ^ 9) = Fin c" using rnd_small [of "1 / 10 ^ 9" 0] by auto
  have h: "rnd (1 / 2 ^ 30) = Fin (1 / 2 ^ 30)" using rnd_half_power [of 1 30] by simp
  have "rnd (1 / 2 ^ 30) \<le> rnd (1 / 10 ^ 9)" by (rule rnd_mono) simp
  then have "1 / 2 ^ 30 \<le> c" unfolding c h by simp
  then have "2 \<le> 2 ^ 53 * c" by simp
  then have "rnd 2 \<le> rnd (2 ^ 53 * c)" by (rule rnd_mono)
  moreover have "seconds (2 ^ 53) = rnd (2 ^ 53 * c)" using rnd_of_int [of "2 ^ 53"] unfolding seconds_def c dint_def by simp
  ultimately show ?thesis by (cases "rnd (2 ^ 53 * c)") auto
qed

lemma write_five:
  assumes "hc_io s = o0 # o1 # o2 # o3 # o4 # rest"
  shows "writeOutputs a b c d f s = (o0 \<and> o1 \<and> o2 \<and> o3 \<and> o4,
    s\<lparr>hc_io := rest, hc_log := hc_log s @ [(0, a, o0), (1, b, o1), (2, c, o2), (3, d, o3), (4, f, o4)]\<rparr>)"
  using assms by (simp add: writeOutputs_def writeCommand_def)

text \<open>An update that takes a start, and one in which the wait for a keepalive ends.\<close>

lemma update_takes_start:
  assumes "\<not> hil_active (hc_state s)" and "\<not> hc_recording s" and "\<not> hc_record_complete s" and "hc_stop_count s = hc_applied_stop_count s"
    and "hc_pending_start s = Some r" and "hp_arm_timeout_s (hc_par s) = Fin 1" and "hc_io s = o0 # o1 # o2 # o3 # o4 # rest"
  shows "let s' = snd (hil_update m (trial_input now) s)
    in hc_state s' = HArmed \<and> hc_recording s' \<and> \<not> hc_record_complete s' \<and> hc_armed_ns s' = now \<and> hc_last_keepalive_ns s' = 0 \<and> hc_pending_start s' = None \<and>
      hc_applied_stop_count s' = hc_applied_stop_count s \<and> hc_rt_applied_stop_count s' = hc_rt_applied_stop_count s \<and> hc_stop_count s' = hc_stop_count s \<and>
      hc_par s' = hc_par s \<and> hc_io s' = rest \<and>
      hc_log s' = hc_log s @ [(0, NaN, o0), (1, NaN, o1), (2, NaN, o2), (3, NaN, o3), (4, NaN, o4)]"
proof -
  define s1 where "s1 = hil_take_start (trial_input now) s"
  have stop: "hil_apply_stop (trial_input now) s = s" using assms(4) by (simp add: hil_apply_stop_def)
  have 1: "hc_state s1 = HArmed" "hc_recording s1" "\<not> hc_record_complete s1" "hc_armed_ns s1 = now" "hc_last_keepalive_ns s1 = 0" "hc_pending_start s1 = None"
    "hc_stop_count s1 = hc_stop_count s" "hc_applied_stop_count s1 = hc_applied_stop_count s" "hc_rt_applied_stop_count s1 = hc_rt_applied_stop_count s"
    "hc_par s1 = hc_par s" "hc_io s1 = hc_io s" "hc_log s1 = hc_log s"
    using assms(1,2,3,5) by (simp_all add: s1_def hil_take_start_def trial_input_def publishRtState_def Let_def)
  have ka: "hil_take_keepalive (trial_input now) s1 = s1" "hil_period (trial_input now) s1 = s1" using 1(1) by (simp_all add: hil_take_keepalive_def trial_input_def hil_period_def)
  have ar: "hil_arm (trial_input now) s1 = s1" using 1 assms(6) by (simp add: hil_arm_def trial_input_def seconds_0)
  have d: "hil_decide m (trial_input now) s = ((no_setpoint, 0), s1)"
    unfolding hil_decide_def stop s1_def [symmetric] ka ar using 1(1) by (simp add: hil_run_def hil_hold_def)
  have io: "hc_io s1 = o0 # o1 # o2 # o3 # o4 # rest" using 1 assms(7) by simp
  define s2 where "s2 = s1\<lparr>hc_io := rest, hc_log := hc_log s1 @ [(0, NaN, o0), (1, NaN, o1), (2, NaN, o2), (3, NaN, o3), (4, NaN, o4)], hc_last_target := NaN\<rparr>"
  have o: "hil_outputs (trial_input now) (no_setpoint, 0) s1 = (o0 \<and> o1 \<and> o2 \<and> o3 \<and> o4, s2)"
    using 1(1) by (simp add: hil_outputs_def write_five [OF io] s2_def)
  have 2: "hc_state s2 = HArmed" "hc_recording s2" using 1 by (simp_all add: s2_def)
  define w where "w = (o0 \<and> o1 \<and> o2 \<and> o3 \<and> o4)"
  have se: "hil_settle (trial_input now) w s2 = (if w then s2 else s2\<lparr>hc_write_failures := hc_write_failures s2 + 1\<rparr>)"
    using 2 by (simp add: hil_settle_def)
  define s3 where "s3 = hil_settle (trial_input now) w s2"
  have 3: "hc_state s3 = HArmed" "hc_recording s3" "hc_record_complete s3 = hc_record_complete s2" "hc_armed_ns s3 = hc_armed_ns s2" "hc_last_keepalive_ns s3 = hc_last_keepalive_ns s2"
    "hc_pending_start s3 = hc_pending_start s2" "hc_stop_count s3 = hc_stop_count s2" "hc_applied_stop_count s3 = hc_applied_stop_count s2"
    "hc_rt_applied_stop_count s3 = hc_rt_applied_stop_count s2" "hc_par s3 = hc_par s2" "hc_io s3 = hc_io s2" "hc_log s3 = hc_log s2"
    using 2 by (simp_all add: s3_def se)
  have "snd (hil_update m (trial_input now) s) = publishRtState (hil_record (trial_input now) (no_setpoint, 0) w s3)"
    using d o by (simp add: hil_update_def hil_publish_def w_def [symmetric] s3_def trial_input_def)
  then show ?thesis using 1 3 assms(4) by (simp add: hil_record_def publishRtState_def s2_def Let_def)
qed

lemma update_times_out:
  assumes "hc_state s = HArmed" and "hc_last_keepalive_ns s = 0" and "hc_recording s" and "hc_stop_count s = hc_applied_stop_count s" and "hc_armed_ns s = now - 2 ^ 53"
    and "hp_arm_timeout_s (hc_par s) = Fin 1" and "hp_record_tail_s (hc_par s) = Fin 0" and "hc_io s = True # True # True # True # True # rest"
  shows "let s' = snd (hil_update m (trial_input now) s)
    in hc_state s' = HAborted \<and> \<not> hc_recording s' \<and> hc_record_complete s' \<and> \<not> hc_release_write_pending s' \<and> hc_pending_start s' = hc_pending_start s \<and>
      hc_stop_count s' = hc_stop_count s \<and> hc_applied_stop_count s' = hc_applied_stop_count s \<and> hc_rt_applied_stop_count s' = hc_rt_applied_stop_count s \<and>
      hc_par s' = hc_par s \<and> hc_io s' = rest \<and>
      hc_log s' = hc_log s @ [(0, Fin 0, True), (1, 0, True), (2, 0, True), (3, 0, True), (4, 0, True)]"
proof -
  let ?i = "trial_input now"
  have 0: "hil_apply_stop ?i s = s" "hil_take_start ?i s = s" "hil_take_keepalive ?i s = s" "hil_period ?i s = s"
    using assms(1,4) by (simp_all add: hil_apply_stop_def hil_take_start_def hil_active_def hil_take_keepalive_def trial_input_def hil_period_def)
  define s1 where "s1 = endRun HeNoKeepalive now s"
  have a: "hil_arm ?i s = s1" using assms(1,2,5,6) seconds_late by (simp add: hil_arm_def trial_input_def s1_def)
  have 1: "hc_state s1 = HAborted" "hc_recording s1" "hc_end_ns s1 = now" "hc_pending_start s1 = hc_pending_start s" "hc_stop_count s1 = hc_stop_count s"
    "hc_applied_stop_count s1 = hc_applied_stop_count s" "hc_rt_applied_stop_count s1 = hc_rt_applied_stop_count s" "hc_par s1 = hc_par s" "hc_io s1 = hc_io s" "hc_log s1 = hc_log s"
    using assms(3) by (simp_all add: s1_def endRun_def)
  have d: "hil_decide m ?i s = ((no_setpoint, 0), s1)" unfolding hil_decide_def 0 a using 1(1) by (simp add: hil_run_def hil_hold_def)
  have io: "hc_io s1 = True # True # True # True # True # rest" using 1 assms(8) by simp
  define s2 where "s2 = s1\<lparr>hc_io := rest, hc_log := hc_log s1 @ [(0, Fin 0, True), (1, 0, True), (2, 0, True), (3, 0, True), (4, 0, True)], hc_last_target := NaN\<rparr>"
  have o: "hil_outputs ?i (no_setpoint, 0) s1 = (True, s2)"
    using 1(1) by (simp add: hil_outputs_def writeReleased_def write_five [OF io] s2_def trial_input_def in_position_def value_or_def)
  define s3 where "s3 = hil_settle ?i True s2"
  have s3: "s3 = s2\<lparr>hc_release_write_pending := False\<rparr>" using 1(1) by (simp add: s3_def hil_settle_def s2_def)
  have "snd (hil_update m ?i s) = publishRtState (hil_record ?i (no_setpoint, 0) True s3)"
    using d o by (simp add: hil_update_def hil_publish_def s3_def trial_input_def)
  moreover have "hi_now ?i = now" by (simp add: trial_input_def)
  ultimately show ?thesis using 1 assms(7) by (simp add: hil_record_def publishRtState_def s3 s2_def seconds_0 Let_def)
qed

text \<open>Activation, a start that gets no keepalive, and the abort after the timeout.\<close>

definition first_run :: "HilCall list" where
  "first_run = [HcActivate, HcStart coarse_libm hold_request 5, HcUpdate coarse_libm (trial_input 7), HcUpdate coarse_libm (trial_input (7 + 2 ^ 53))]"

lemma hold_request_valid: "hil_validate coarse_libm hold_request trial_parameters_hil"
proof -
  have "rnd (1 / 10) \<le> rnd 1" by (rule rnd_mono) simp
  then show ?thesis by (simp add: hil_validate_def hold_request_def new_StartRequest_def trial_parameters_hil_def zero_double_def)
qed

lemma start_accepted:
  assumes "hc_par s = trial_parameters_hil" and "hc_pending_start s = None" and "\<not> hc_busy s" and "hc_stop_count s = hc_rt_applied_stop_count s"
  shows "\<exists>r n. snd (hil_requestStart coarse_libm hold_request now s) = s\<lparr>hc_next_id := n, hc_pending_start := Some r\<rparr>"
  using assms hold_request_valid by (auto simp: hil_requestStart_def Let_def)

lemma first_run_spec:
  assumes io: "io = replicate 15 True @ rest"
  shows "let s = fold hil_call first_run (started io)
    in hc_state s = HAborted \<and> \<not> hc_recording s \<and> hc_record_complete s \<and> \<not> hc_release_write_pending s \<and> hc_pending_start s = None \<and>
      hc_stop_count s = 0 \<and> hc_applied_stop_count s = 0 \<and> hc_rt_applied_stop_count s = 0 \<and> hc_par s = trial_parameters_hil \<and> hc_io s = rest \<and>
      at_position (stored (hc_log s) t) = Fin 0"
proof -
  define s0 where "s0 = started io"
  have i5: "io = True # True # True # True # True # replicate 10 True @ rest" by (simp add: io numeral_eq_Suc)
  have 0: "hc_par s0 = trial_parameters_hil" "hc_io s0 = io" "hc_pending_start s0 = None" "\<not> hc_busy s0" "hc_stop_count s0 = 0" "\<not> hc_recording s0" "\<not> hc_record_complete s0" "hc_log s0 = []"
    by (simp_all add: s0_def started_def hil_on_configure_def new_Hil_def Let_def split: if_split)
  define s1 where "s1 = snd (hil_on_activate s0)"
  have 1: "hc_state s1 = HIdle" "hc_par s1 = trial_parameters_hil" "hc_io s1 = replicate 10 True @ rest" "hc_pending_start s1 = None" "\<not> hc_busy s1" "hc_stop_count s1 = 0"
    "hc_applied_stop_count s1 = 0" "hc_rt_applied_stop_count s1 = 0" "\<not> hc_recording s1" "\<not> hc_record_complete s1"
    using 0 by (simp_all add: s1_def hil_on_activate_def publishRtState_def write_five i5 Let_def)
  obtain r n where st: "snd (hil_requestStart coarse_libm hold_request 5 s1) = s1\<lparr>hc_next_id := n, hc_pending_start := Some r\<rparr>" using start_accepted [of s1 5] 1 by auto
  define s2 where "s2 = s1\<lparr>hc_next_id := n, hc_pending_start := Some r\<rparr>"
  have p: "hp_arm_timeout_s trial_parameters_hil = Fin 1" "hp_record_tail_s trial_parameters_hil = Fin 0" by (simp_all add: trial_parameters_hil_def)
  have i10: "replicate 10 True @ rest = True # True # True # True # True # replicate 5 True @ rest" "replicate 5 True @ rest = True # True # True # True # True # rest" by (simp_all add: numeral_eq_Suc)
  define s3 where "s3 = snd (hil_update coarse_libm (trial_input 7) s2)"
  note u3 = update_takes_start [of s2 r True True True True True "replicate 5 True @ rest" coarse_libm 7, unfolded s3_def [symmetric] Let_def]
  have 3: "hc_state s3 = HArmed" "hc_recording s3" "hc_armed_ns s3 = 7" "hc_last_keepalive_ns s3 = 0" "hc_pending_start s3 = None" "hc_stop_count s3 = 0" "hc_applied_stop_count s3 = 0"
    "hc_rt_applied_stop_count s3 = 0" "hc_par s3 = trial_parameters_hil" "hc_io s3 = replicate 5 True @ rest"
    using u3 1 p i10(1) by (simp_all add: s2_def hil_active_def)
  define s4 where "s4 = snd (hil_update coarse_libm (trial_input (7 + 2 ^ 53)) s3)"
  note u4 = update_times_out [of s3 "7 + 2 ^ 53" rest coarse_libm, unfolded s4_def [symmetric] Let_def]
  have 4: "hc_state s4 = HAborted" "\<not> hc_recording s4" "hc_record_complete s4" "\<not> hc_release_write_pending s4" "hc_pending_start s4 = None" "hc_stop_count s4 = 0"
    "hc_applied_stop_count s4 = 0" "hc_rt_applied_stop_count s4 = 0" "hc_par s4 = trial_parameters_hil" "hc_io s4 = rest"
    "hc_log s4 = hc_log s3 @ [(0, Fin 0, True), (1, 0, True), (2, 0, True), (3, 0, True), (4, 0, True)]"
    using u4 3 p i10(2) by simp_all
  have "fold hil_call first_run (started io) = s4"
    unfolding first_run_def fold.simps comp_def id_apply hil_call.simps s0_def [symmetric] s1_def [symmetric] st s2_def [symmetric] s3_def [symmetric] s4_def [symmetric] ..
  then show ?thesis using 4 by (simp add: stored_def store_write_def)
qed

section \<open>Properties\<close>

text \<open>
  Property C5 The status flag of a pending release is truthful from the last activation to the next deactivation: whatever calls came
  before that activation, whatever calls other than a deactivation followed it, and whatever the command handles refused, a run that has ended
  with the flag cleared has left commands for which the hardware interface tells the joint no velocity, no gains and no torque, on top of
  whatever the handles held before. (A deactivation undefines the commands without looking at the outcome: if only its write of the position is
  refused after such a run, the flag stays clear and the joint gets its default gains.)
\<close>

theorem release_flag_truthful:
  assumes "s = fold hil_call (cs @ HcActivate # ds) (new_Hil p0 io)" and "list_all keeps_active ds"
    and "run_ended s" and "\<not> hc_release_write_pending s" and "si_cmd h ! j = stored (hc_log s) t"
  shows "limp (setpoint h j)"
  using truthful_session [OF assms(2), of t cs "new_Hil p0 io"] assms(1,3,4,5) setpoint_limp [of h j] by (simp add: release_truthful_def)

theorem release_flag_truthful_witness:
  "limp (setpoint (sample_interface\<lparr>si_cmd := [stored (hc_log (fold hil_call ([HcConfigure False None 1000 trial_parameters_hil] @ first_run)
      (new_Hil trial_parameters_hil (replicate 15 True)))) \<lparr>at_position = NaN, at_velocity = Fin 1, at_kp = Fin 9, at_kd = Fin 1, at_effort = NaN\<rparr>]\<rparr>) 0)"
proof (rule release_flag_truthful [of _ "[HcConfigure False None 1000 trial_parameters_hil]" "tl first_run"])
  note f = first_run_spec [of "replicate 15 True" "[]", unfolded Let_def]
  let ?io = "replicate 15 True"
  have e: "fold hil_call ([HcConfigure False None 1000 trial_parameters_hil] @ first_run) (new_Hil trial_parameters_hil ?io) = fold hil_call first_run (started ?io)"
    by (simp add: started_def)
  show "fold hil_call ([HcConfigure False None 1000 trial_parameters_hil] @ first_run) (new_Hil trial_parameters_hil ?io) =
      fold hil_call ([HcConfigure False None 1000 trial_parameters_hil] @ HcActivate # tl first_run) (new_Hil trial_parameters_hil ?io)"
    by (simp add: first_run_def)
  show "list_all keeps_active (tl first_run)" by (simp add: first_run_def keeps_active_def)
  show "run_ended (fold hil_call ([HcConfigure False None 1000 trial_parameters_hil] @ first_run) (new_Hil trial_parameters_hil ?io))"
    "\<not> hc_release_write_pending (fold hil_call ([HcConfigure False None 1000 trial_parameters_hil] @ first_run) (new_Hil trial_parameters_hil ?io))"
    unfolding e using f by (simp_all add: run_ended_def)
qed simp

definition second_start :: "HilCall list" where
  "second_start = first_run @ [HcWriteRecord False [], HcStart coarse_libm hold_request 9, HcUpdate coarse_libm (trial_input (8 + 2 ^ 53))]"

text \<open>
  Property C40 A gap of the armed state, shown by a run. An armed controller undefines the five commands in every
  cycle, so that the joint is limp until a keepalive arrives. If only the write of the position is refused, the handle keeps the
  position of the previous run while the gains become undefined, and the hardware interface replaces undefined gains by the
  defaults of the joint: the joint is held with its default gains, and the controller only counts a failed write.
\<close>

theorem armed_refusal_gives_default_gains:
  "let s = fold hil_call second_start (started (replicate 15 True @ [False, True, True, True, True]))
   in hc_state s = HArmed \<and> (\<forall>h t. let told = setpoint (h\<lparr>si_cmd := [stored (hc_log s) t]\<rparr>) 0
     in at_position told = Fin 0 \<and> at_kp told = sj_default_kp (si_joints h ! 0) \<and> at_kd told = sj_default_kd (si_joints h ! 0))"
proof -
  let ?io = "replicate 15 True @ [False, True, True, True, True]"
  define s1 where "s1 = fold hil_call first_run (started ?io)"
  note f = first_run_spec [of ?io, OF refl, unfolded Let_def s1_def [symmetric]]
  define s2 where "s2 = snd (writeCompletedRecord False [] s1)"
  have s2: "hc_par s2 = trial_parameters_hil" "hc_pending_start s2 = None" "\<not> hc_busy s2" "hc_stop_count s2 = 0" "hc_applied_stop_count s2 = 0" "hc_rt_applied_stop_count s2 = 0"
    "hc_state s2 = HAborted" "\<not> hc_recording s2" "\<not> hc_record_complete s2" "hc_io s2 = [False, True, True, True, True]" "hc_log s2 = hc_log s1"
    using f by (simp_all add: s2_def writeCompletedRecord_def trial_parameters_hil_def Let_def)
  obtain r n where st: "snd (hil_requestStart coarse_libm hold_request 9 s2) = s2\<lparr>hc_next_id := n, hc_pending_start := Some r\<rparr>" using start_accepted [of s2 9] s2 by auto
  define s3 where "s3 = s2\<lparr>hc_next_id := n, hc_pending_start := Some r\<rparr>"
  define s4 where "s4 = snd (hil_update coarse_libm (trial_input (8 + 2 ^ 53)) s3)"
  have p: "hp_arm_timeout_s trial_parameters_hil = Fin 1" by (simp add: trial_parameters_hil_def)
  have 4: "hc_state s4 = HArmed" "hc_log s4 = hc_log s1 @ [(0, NaN, False), (1, NaN, True), (2, NaN, True), (3, NaN, True), (4, NaN, True)]"
    using update_takes_start [of s3 r False True True True True "[]" coarse_libm "8 + 2 ^ 53", unfolded s4_def [symmetric] Let_def] s2 p
    by (simp_all add: s3_def hil_active_def)
  have e: "fold hil_call second_start (started ?io) = s4"
    unfolding second_start_def fold_append comp_def s1_def [symmetric] fold.simps id_apply hil_call.simps s2_def [symmetric] st s3_def [symmetric] s4_def [symmetric] ..
  have pos: "at_position (stored (hc_log s1) t) = Fin 0" for t using f by blast
  have "at_position (stored (hc_log s4) t) = Fin 0" "at_kp (stored (hc_log s4) t) = NaN" "at_kd (stored (hc_log s4) t) = NaN" for t
    using pos [of t] by (simp_all add: 4(2)) (simp_all add: stored_def store_write_def)
  then show ?thesis unfolding e Let_def using 4(1) by (simp add: setpoint_def Let_def)
qed

end
