(* ===== verification/NAxis_Controller.thy ===== *)
theory NAxis_Controller
  imports Hil_Trajectory Pair_Adapter
begin

text \<open>
  The trajectory controller for two or three axes (\<^verbatim>\<open>src/n_axis_trajectory_controller.cpp\<close>): configuration,
  binding of handles, activation, the start, keepalive and finish requests, and the update with its state machine, its
  checks, the batch writer with read-back and the commit, and the single release attempt of an abort.

  As in the adapter, the handles of the framework are outside the sources: a state read is an input of the call, and
  storing a command and reading it back take their outcome from the script \<open>na_io\<close>; \<open>na_log\<close> records every
  write. What an update reads from the two snapshots is an input too. Time stamps that only go to the CSV record,
  the CSV writer and the ROS entities are not modelled; the time of an update is an input.
\<close>

unbundle bit_operations_syntax

section \<open>State\<close>

definition na_kMaxGeneration :: u64 where
  "na_kMaxGeneration = 9007199254740991"

definition kLeaseNs :: ns where
  "kLeaseNs = 500000000"

definition kArmNs :: ns where
  "kArmNs = 1000000000"

datatype NState = NaBoot | NaIdle | NaArmed | NaRunning | NaHolding | NaReleased | NaStopped | NaAborted

datatype NReason = NrNone | NrRelease | NrFinish | NrStop | NrState | NrPeriod | NrLease | NrArmTimeout | NrStartRange
  | NrTrajectory | NrTorque | NrWrite | NrCapacity | NrUpperLimit | NrDeactivated

datatype NAccepted = AcInitial | AcMatch | AcMismatch | AcUnavailable | AcNonfinite

record NRequest =
  rq_nonce :: u64
  rq_id :: u64
  rq_sent_ns :: ns
  rq_received_ns :: ns
  rq_axes :: nat
  rq_amplitude :: double
  rq_frequency :: double
  rq_cycles :: double
  rq_ramp_cycles :: double
  rq_hold :: double
  rq_kp :: "double list"
  rq_kd :: "double list"
  rq_release :: bool

record NHeartbeat =
  hb_nonce :: u64
  hb_id :: u64
  hb_sequence :: u64
  hb_sent_ns :: ns

record NAttempt =
  nt_values :: "double list"
  nt_readback :: "double list"
  nt_write_attempted :: u32
  nt_write_ok :: u32
  nt_read_attempted :: u32
  nt_read_ok :: u32
  nt_unavailable :: u32
  nt_mismatch :: u32

definition new_NAttempt :: NAttempt where
  "new_NAttempt = \<lparr>nt_values = replicate 16 0, nt_readback = replicate 16 0, nt_write_attempted = 0, nt_write_ok = 0,
     nt_read_attempted = 0, nt_read_ok = 0, nt_unavailable = 0, nt_mismatch = 0\<rparr>"

record NRow =
  nw_activation :: u64
  nw_cycle :: u64
  nw_nonce :: u64
  nw_request_id :: u64
  nw_generation :: u64
  nw_previous_generation :: u64
  nw_holds :: u64
  nw_max_holds :: u64
  nw_failures :: u64
  nw_start_ns :: ns
  nw_heartbeat_sent_ns :: ns
  nw_deadline_ns :: ns
  nw_request_sent_ns :: ns
  nw_request_received_ns :: ns
  nw_accepted :: double
  nw_elapsed :: double
  nw_acceleration :: double
  nw_states :: "double list"
  nw_state_ok :: u32
  nw_material_missing :: u32
  nw_normal :: NAttempt
  nw_released :: NAttempt
  nw_before :: NState
  nw_after :: NState
  nw_reason :: NReason
  nw_accepted_result :: NAccepted
  nw_axes :: nat
  nw_advanced :: bool
  nw_held :: bool
  nw_released_attempted :: bool

definition new_NRow :: NRow where
  "new_NRow = \<lparr>nw_activation = 0, nw_cycle = 0, nw_nonce = 0, nw_request_id = 0, nw_generation = 0, nw_previous_generation = 0,
     nw_holds = 0, nw_max_holds = 0, nw_failures = 0, nw_start_ns = 0, nw_heartbeat_sent_ns = 0, nw_deadline_ns = 0,
     nw_request_sent_ns = 0, nw_request_received_ns = 0, nw_accepted = 0, nw_elapsed = 0, nw_acceleration = 0,
     nw_states = replicate 9 0, nw_state_ok = 0, nw_material_missing = 0, nw_normal = new_NAttempt, nw_released = new_NAttempt,
     nw_before = NaBoot, nw_after = NaBoot, nw_reason = NrNone, nw_accepted_result = AcInitial, nw_axes = 0,
     nw_advanced = False, nw_held = False, nw_released_attempted = False\<rparr>"

record NAxis =
  na_n :: nat
  na_tries :: nat
  na_command_keys :: "string list"
  na_state_keys :: "string list"
  na_lower :: "double list"
  na_upper :: "double list"
  na_max_period :: double
  na_state_limit :: double
  na_max_torque :: double
  na_input_request :: NRequest
  na_run :: NRequest
  na_input_heart :: NHeartbeat
  na_heart :: NHeartbeat
  na_busy :: bool
  na_terminal :: bool
  na_active :: bool
  na_complete :: bool
  na_stop :: bool
  na_finish :: bool
  na_save_failed :: bool
  na_published_state :: NState
  na_activated_once :: bool
  na_previous_complete :: bool
  na_state :: NState
  na_reason :: NReason
  na_activation :: u64
  na_cycle :: u64
  na_generation :: u64
  na_holds :: u64
  na_max_holds :: u64
  na_failures :: u64
  na_armed_ns :: ns
  na_elapsed :: double
  na_sine :: "SineTrajectory option"
  na_rows :: "NRow list"
  na_capacity :: nat
  na_dropped :: u64
  na_final_row :: NRow
  na_io :: "(bool \<times> double option) list"
  na_log :: "(nat \<times> double \<times> bool \<times> double option) list"

section \<open>Configuration and activation\<close>

definition mayAdvance :: "bool \<Rightarrow> u64 \<Rightarrow> double option \<Rightarrow> bool" where
  "mayAdvance previous_complete g a \<longleftrightarrow> previous_complete \<and> (case a of None \<Rightarrow> False | Some v \<Rightarrow> isfinite v \<and> deq v (dint (uint g)))"

definition leaseExpired :: "ns \<Rightarrow> ns \<Rightarrow> bool" where
  "leaseExpired now sent_ns \<longleftrightarrow> sent_ns \<le> 0 \<or> 2 ^ 63 - 1 - kLeaseNs < sent_ns \<or> now < sent_ns \<or> kLeaseNs \<le> now - sent_ns"

record NParameters =
  np_joints :: "string list"
  np_tries :: int
  np_seconds :: double
  np_max_period :: double
  np_state_limit :: double
  np_max_torque :: double
  np_lower :: "double list"
  np_upper :: "double list"
  np_lock_free :: bool
  np_ros :: bool

definition na_joint_names :: "string list" where
  "na_joint_names = [''joint1'', ''joint2'', ''joint3'']"

definition na_limits :: "double list \<Rightarrow> double \<Rightarrow> nat \<Rightarrow> double" where
  "na_limits xs otherwise a = (if xs = [] then otherwise else xs ! a)"

text \<open>One axis of the configuration; the result says whether the loop goes on.\<close>

definition na_configure_axis :: "NParameters \<Rightarrow> nat \<Rightarrow> bool \<times> NAxis \<Rightarrow> bool \<times> NAxis" where
  "na_configure_axis p a = (\<lambda>(ok, s).
     if \<not> ok then (False, s)
     else let j = np_joints p ! a
     in if j \<noteq> na_joint_names ! a then (False, s)
     else let lo = na_limits (np_lower p) (- kPi / dlit 6) a; hi = na_limits (np_upper p) (kPi / dlit 6) a;
              s = s\<lparr>na_lower := (na_lower s)[a := lo], na_upper := (na_upper s)[a := hi]\<rparr>
     in if \<not> isfinite lo \<or> \<not> isfinite hi \<or> hi \<le> lo then (False, s)
     else (True, s\<lparr>
       na_command_keys := fold (\<lambda>f ks. ks[5 * a + f := j @ ''/'' @ command_fields ! f]) [0..<5] (na_command_keys s),
       na_state_keys := (na_state_keys s)[3 * a := j @ ''/position'', 3 * a + 1 := j @ ''/velocity'', 3 * a + 2 := j @ ''/effort'']\<rparr>))"

definition na_on_configure :: "NParameters \<Rightarrow> NAxis \<Rightarrow> CB \<times> NAxis" where
  "na_on_configure p s =
     (if na_activated_once s then (CB_ERROR, s)
      else let n = length (np_joints p)
      in if n < 2 \<or> 3 < n then (CB_ERROR, s)
      else let s = s\<lparr>na_n := n, na_max_period := np_max_period p, na_state_limit := np_state_limit p, na_max_torque := np_max_torque p\<rparr>
      in if np_tries p < 1 \<or> 10 < np_tries p \<or> \<not> isfinite (np_seconds p) \<or> np_seconds p < dlit 0 \<or> dlit 600 < np_seconds p \<or>
            \<not> isfinite (np_max_period p) \<or> np_max_period p \<le> dlit 0 \<or> dlit (5 / 1000) < np_max_period p \<or>
            \<not> isfinite (np_state_limit p) \<or> np_state_limit p < dlit (5 / 100) \<or> dlit (60 / 100) < np_state_limit p \<or>
            \<not> isfinite (np_max_torque p) \<or> np_max_torque p \<le> dlit 0 \<or> dlit 5 < np_max_torque p
         then (CB_ERROR, s)
      else let s = s\<lparr>na_tries := nat (np_tries p)\<rparr>
      in if (np_lower p \<noteq> [] \<and> length (np_lower p) \<noteq> n) \<or> (np_upper p \<noteq> [] \<and> length (np_upper p) \<noteq> n) then (CB_ERROR, s)
      else let (ok, s) = fold (na_configure_axis p) [0..<n] (True, s)
      in if \<not> ok then (CB_ERROR, s)
      else let s = s\<lparr>na_command_keys := (na_command_keys s)[5 * n := ''bxi_pair/commit_generation''],
               na_state_keys := (na_state_keys s)[3 * n := ''bxi_pair/accepted_generation'']\<rparr>
      in if \<not> np_lock_free p then (CB_ERROR, s)
      else let s = s\<lparr>na_rows := [], na_capacity := (case np_seconds p * dlit 1000 of Fin x \<Rightarrow> nat \<lceil>x\<rceil> | _ \<Rightarrow> 0)\<rparr>
      in if \<not> np_ros p then (CB_ERROR, s) else (SUCCESS, s))"

text \<open>Every key occurs exactly once among the handles, as a double.\<close>

definition na_bind_key :: "(string \<times> string) list \<Rightarrow> string \<Rightarrow> bool" where
  "na_bind_key handles key \<longleftrightarrow> (let found = filter (\<lambda>h. fst h = key) handles in length found = 1 \<and> list_all (\<lambda>h. snd h = ''double'') found)"

definition bindInterfaces :: "(string \<times> string) list \<Rightarrow> (string \<times> string) list \<Rightarrow> NAxis \<Rightarrow> bool" where
  "bindInterfaces commands states s \<longleftrightarrow> length commands = 5 * na_n s + 1 \<and> length states = 3 * na_n s + 1 \<and>
     list_all (na_bind_key commands) (take (5 * na_n s + 1) (na_command_keys s)) \<and> list_all (na_bind_key states) (take (3 * na_n s + 1) (na_state_keys s))"

definition finite_opt :: "double option \<Rightarrow> bool" where
  "finite_opt v \<longleftrightarrow> (case v of None \<Rightarrow> False | Some x \<Rightarrow> isfinite x)"

definition na_on_activate :: "(string \<times> string) list \<Rightarrow> (string \<times> string) list \<Rightarrow> double option \<Rightarrow> NAxis \<Rightarrow> CB \<times> NAxis" where
  "na_on_activate commands states accepted s =
     (if na_activated_once s \<or> na_n s < 2 \<or> 3 < na_n s then (CB_ERROR, s)
      else let s = s\<lparr>na_activated_once := True\<rparr>
      in if \<not> bindInterfaces commands states s then (CB_ERROR, s\<lparr>na_terminal := True\<rparr>)
      else if \<not> finite_opt accepted \<or> \<not> deq (the accepted) (dlit 0) then (CB_ERROR, s\<lparr>na_terminal := True\<rparr>)
      else (SUCCESS, s\<lparr>na_activation := na_activation s + 1, na_state := NaBoot, na_published_state := NaBoot, na_active := True\<rparr>))"

definition na_on_deactivate :: "NAxis \<Rightarrow> CB \<times> NAxis" where
  "na_on_deactivate s = (SUCCESS, s\<lparr>na_terminal := True, na_active := False,
     na_reason := (if na_reason s = NrNone then NrDeactivated else na_reason s), na_complete := True\<rparr>)"

section \<open>Requests\<close>

definition profile_ok :: "NRequest \<Rightarrow> bool" where
  "profile_ok r \<longleftrightarrow> deq (rq_amplitude r) (kPi / dlit 6) \<and> deq (rq_frequency r) (dlit (2 / 10)) \<and> deq (rq_cycles r) (dlit 5) \<and>
     deq (rq_ramp_cycles r) (dlit 1) \<and> deq (rq_hold r) (dlit 1)"

definition gains_ok :: "NAxis \<Rightarrow> NRequest \<Rightarrow> nat \<Rightarrow> bool" where
  "gains_ok s r a \<longleftrightarrow> isfinite (rq_kp r ! a) \<and> dlit 0 < rq_kp r ! a \<and> rq_kp r ! a \<le> dlit 20 \<and>
     isfinite (rq_kd r ! a) \<and> dlit 0 \<le> rq_kd r ! a \<and> rq_kd r ! a \<le> dlit 1 \<and>
     na_lower s ! a \<le> - rq_amplitude r \<and> rq_amplitude r \<le> na_upper s ! a"

text \<open>The same checks in the early-return form of \<open>validRequest\<close>.\<close>

definition gains_refused :: "NAxis \<Rightarrow> NRequest \<Rightarrow> nat \<Rightarrow> bool" where
  "gains_refused s r a \<longleftrightarrow> \<not> isfinite (rq_kp r ! a) \<or> rq_kp r ! a \<le> dlit 0 \<or> dlit 20 < rq_kp r ! a \<or>
     \<not> isfinite (rq_kd r ! a) \<or> rq_kd r ! a < dlit 0 \<or> dlit 1 < rq_kd r ! a \<or>
     - rq_amplitude r < na_lower s ! a \<or> na_upper s ! a < rq_amplitude r"

definition validRequest :: "libm \<Rightarrow> NRequest \<Rightarrow> ns \<Rightarrow> NAxis \<Rightarrow> bool" where
  "validRequest m r now s \<longleftrightarrow>
     rq_axes r = na_n s \<and> rq_nonce r \<noteq> 0 \<and> rq_id r \<noteq> 0 \<and> \<not> leaseExpired now (rq_sent_ns r) \<and> profile_ok r \<and>
     \<not> list_ex (gains_refused s r) [0..<na_n s] \<and>
     (let q = makeSineTrajectory (dlit 0) (rq_amplitude r) (rq_frequency r) (rq_cycles r) (rq_ramp_cycles r)
      in velocityUpperBound m q \<le> dlit (70 / 100) \<and> (case accelerationUpperBound m q of None \<Rightarrow> False | Some a \<Rightarrow> a \<le> dlit (90 / 100)))"

definition requestStart :: "libm \<Rightarrow> NRequest \<Rightarrow> ns \<Rightarrow> ns \<Rightarrow> NAxis \<Rightarrow> bool \<times> NAxis" where
  "requestStart m r now received s =
     (if \<not> na_active s \<or> na_terminal s \<or> na_busy s \<or> na_save_failed s \<or> na_published_state s \<noteq> NaIdle \<or> \<not> validRequest m r now s
      then (False, s)
      else (True, s\<lparr>na_input_request := r\<lparr>rq_received_ns := received\<rparr>,
        na_input_heart := \<lparr>hb_nonce = 0, hb_id = 0, hb_sequence = 0, hb_sent_ns = 0\<rparr>, na_busy := True\<rparr>))"

definition keepalive :: "NHeartbeat \<Rightarrow> ns \<Rightarrow> NAxis \<Rightarrow> bool \<times> NAxis" where
  "keepalive v now s =
     (if \<not> na_active s \<or> na_terminal s \<or> \<not> na_busy s \<or> hb_nonce v \<noteq> rq_nonce (na_input_request s) \<or> hb_id v \<noteq> rq_id (na_input_request s) \<or>
         hb_sequence v = 0 \<or> hb_sequence v \<le> hb_sequence (na_input_heart s) \<or> hb_sent_ns v < rq_sent_ns (na_input_request s) \<or>
         hb_sent_ns v < hb_sent_ns (na_input_heart s) \<or> leaseExpired now (hb_sent_ns v)
      then (False, s) else (True, s\<lparr>na_input_heart := v\<rparr>))"

definition requestFinish :: "NAxis \<Rightarrow> bool \<times> NAxis" where
  "requestFinish s = (if \<not> na_active s \<or> na_terminal s \<or> na_published_state s \<noteq> NaHolding then (False, s) else (True, s\<lparr>na_finish := True\<rparr>))"

definition requestStop :: "NAxis \<Rightarrow> NAxis" where
  "requestStop s = s\<lparr>na_stop := True\<rparr>"

section \<open>Writing a batch\<close>

definition na_write :: "nat \<Rightarrow> double \<Rightarrow> NAttempt \<times> NAxis \<Rightarrow> bool \<times> NAttempt \<times> NAxis" where
  "na_write k v = (\<lambda>(out, s).
     let bit = push_bit k 1 :: u32;
         ((stored, read), io) = (case na_io s of [] \<Rightarrow> ((False, None), []) | x # xs \<Rightarrow> (x, xs));
         s = s\<lparr>na_io := io, na_log := na_log s @ [(k, v, stored, if stored then read else None)]\<rparr>;
         out = out\<lparr>nt_write_attempted := nt_write_attempted out OR bit\<rparr>
     in if \<not> stored then (False, out, s)
     else let out = out\<lparr>nt_write_ok := nt_write_ok out OR bit, nt_read_attempted := nt_read_attempted out OR bit\<rparr>
     in case read of
          None \<Rightarrow> (False, out\<lparr>nt_unavailable := nt_unavailable out OR bit\<rparr>, s)
        | Some r \<Rightarrow>
            if \<not> isfinite r then (False, out\<lparr>nt_unavailable := nt_unavailable out OR bit\<rparr>, s)
            else let out = out\<lparr>nt_readback := (nt_readback out)[k := r]\<rparr>
            in if \<not> deq r v then (False, out\<lparr>nt_mismatch := nt_mismatch out OR bit\<rparr>, s)
               else (True, out\<lparr>nt_read_ok := nt_read_ok out OR bit\<rparr>, s))"

fun na_writes :: "nat list \<Rightarrow> double list \<Rightarrow> NAttempt \<times> NAxis \<Rightarrow> bool \<times> NAttempt \<times> NAxis" where
  "na_writes [] values w = (True, w)"
| "na_writes (k # ks) values w = (let (ok, w) = na_write k (values ! k) w; (rest, w) = na_writes ks values w in (ok \<and> rest, w))"

definition na_attempt :: "double list \<Rightarrow> u64 \<Rightarrow> NAxis \<Rightarrow> bool \<times> NAttempt \<times> NAxis" where
  "na_attempt values g s =
     (let out = new_NAttempt\<lparr>nt_values := values\<rparr>; n = na_n s
      in if g = 0 \<or> na_kMaxGeneration < g then (False, out, s)
      else let (ok, out, s) = na_writes [0..<5 * n] values (out, s)
      in if \<not> ok then (False, out, s)
      else let v = dint (uint g) in na_write (5 * n) v (out\<lparr>nt_values := (nt_values out)[5 * n := v]\<rparr>, s))"

section \<open>The update\<close>

record NInput =
  ni_now :: ns
  ni_dt :: double
  ni_states :: "nat \<Rightarrow> double option"
  ni_request :: "NRequest option"
  ni_heart :: "NHeartbeat option"

type_synonym row_state = "NRow \<times> NAxis"

definition na_abort :: "NReason \<Rightarrow> row_state \<Rightarrow> row_state" where
  "na_abort r = (\<lambda>(row, s). (row\<lparr>nw_reason := r\<rparr>, s\<lparr>na_state := NaAborted, na_reason := r, na_terminal := True\<rparr>))"

definition na_append :: "row_state \<Rightarrow> NAxis" where
  "na_append = (\<lambda>(row, s).
     let row = row\<lparr>nw_after := na_state s, nw_reason := na_reason s, nw_holds := na_holds s, nw_max_holds := na_max_holds s,
           nw_failures := na_failures s, nw_elapsed := na_elapsed s\<rparr>;
         s = s\<lparr>na_final_row := row\<rparr>;
         s = (if length (na_rows s) < na_capacity s then s\<lparr>na_rows := na_rows s @ [row]\<rparr> else s\<lparr>na_dropped := na_dropped s + 1\<rparr>)
     in s\<lparr>na_published_state := na_state s, na_complete := na_complete s \<or> na_state s = NaAborted\<rparr>)"

definition state_value :: "NInput \<Rightarrow> nat \<Rightarrow> double" where
  "state_value i k = (case ni_states i k of Some v \<Rightarrow> if isfinite v then v else NaN | None \<Rightarrow> NaN)"

definition set_bits :: "(nat \<Rightarrow> bool) \<Rightarrow> nat \<Rightarrow> u32" where
  "set_bits P n = fold (\<lambda>k m. if P k then m OR push_bit k 1 else m) [0..<n] 0"

definition na_missing :: "NInput \<Rightarrow> NAxis \<Rightarrow> nat \<Rightarrow> bool" where
  "na_missing i s a \<longleftrightarrow> (let p = state_value i (3 * a) in \<not> isfinite p \<or> p < na_lower s ! a \<or> na_upper s ! a < p)"

definition na_released_values :: "NInput \<Rightarrow> nat \<Rightarrow> double list" where
  "na_released_values i n = fold (\<lambda>a vs. vs[5 * a := state_value i (3 * a)]) [0..<n] (replicate 16 0)"

text \<open>The start of an update: the states and the generation the hardware has accepted.\<close>

definition na_open :: "NInput \<Rightarrow> NAxis \<Rightarrow> row_state" where
  "na_open i s =
     (let n = na_n s; s = s\<lparr>na_cycle := na_cycle s + 1\<rparr>
      in (new_NRow\<lparr>nw_axes := n, nw_activation := na_activation s, nw_cycle := na_cycle s, nw_before := na_state s, nw_start_ns := ni_now i,
           nw_states := map (state_value i) [0..<3 * n] @ replicate (9 - 3 * n) 0,
           nw_state_ok := set_bits (\<lambda>k. isfinite (state_value i k)) (3 * n), nw_material_missing := set_bits (na_missing i s) n\<rparr>, s))"

definition na_judge_accepted :: "NInput \<Rightarrow> row_state \<Rightarrow> row_state" where
  "na_judge_accepted i = (\<lambda>(row, s).
     let accepted = ni_states i (3 * na_n s); g = na_generation s;
         row = row\<lparr>nw_accepted := (case accepted of Some v \<Rightarrow> v | None \<Rightarrow> NaN), nw_previous_generation := g\<rparr>;
         (row, s) =
           (if g \<noteq> 0 then
              (let adv = mayAdvance (na_previous_complete s) g accepted;
                   row = row\<lparr>nw_accepted_result := (case accepted of None \<Rightarrow> AcUnavailable
                       | Some v \<Rightarrow> if \<not> isfinite v then AcNonfinite else if deq v (dint (uint g)) then AcMatch else AcMismatch),
                     nw_advanced := adv, nw_held := \<not> adv\<rparr>
               in (row, if adv then s\<lparr>na_holds := 0\<rparr> else s\<lparr>na_holds := na_holds s + 1, na_max_holds := max (na_max_holds s) (na_holds s + 1)\<rparr>))
            else (row, s))
     in (row\<lparr>nw_generation := (if g = 0 then 1 else g + (if nw_advanced row then 1 else 0))\<rparr>, s))"

definition na_precheck :: "NInput \<Rightarrow> row_state \<Rightarrow> row_state" where
  "na_precheck i = (\<lambda>(row, s).
     if na_capacity s \<le> length (na_rows s) then na_abort NrCapacity (row, s)
     else if nw_state_ok row \<noteq> push_bit (3 * na_n s) 1 - 1 then na_abort NrState (row, s)
     else if \<not> isfinite (ni_dt i) \<or> ni_dt i \<le> dlit 0 \<or> na_max_period s < ni_dt i then na_abort NrPeriod (row, s)
     else (row, s))"

definition na_limit_axis :: "nat \<Rightarrow> row_state \<Rightarrow> row_state" where
  "na_limit_axis a = (\<lambda>(row, s). if na_state s \<noteq> NaAborted \<and> na_state_limit s < \<bar>nw_states row ! (3 * a)\<bar> then na_abort NrState (row, s) else (row, s))"

definition request_fits :: "NRequest \<Rightarrow> NRow \<Rightarrow> NAxis \<Rightarrow> bool" where
  "request_fits r row s \<longleftrightarrow> rq_axes r = na_n s \<and> rq_nonce r \<noteq> 0 \<and> rq_id r \<noteq> 0 \<and> 0 < rq_sent_ns r \<and> rq_sent_ns r \<le> nw_start_ns row \<and>
     rq_received_ns r \<le> nw_start_ns row \<and> profile_ok r \<and> list_all (gains_ok s r) [0..<na_n s]"

definition na_take_request :: "NInput \<Rightarrow> row_state \<Rightarrow> row_state" where
  "na_take_request i = (\<lambda>(row, s).
     case (if na_state s = NaIdle then ni_request i else None) of None \<Rightarrow> (row, s)
     | Some r \<Rightarrow>
         (let s = s\<lparr>na_run := r\<rparr>
          in if \<not> request_fits r row s then na_abort NrTrajectory (row, s)
             else (row, s\<lparr>na_sine := Some (makeSineTrajectory (dlit 0) (rq_amplitude r) (rq_frequency r) (rq_cycles r) (rq_ramp_cycles r)),
               na_state := NaArmed, na_armed_ns := nw_start_ns row\<rparr>)))"

definition na_take_heart :: "NInput \<Rightarrow> row_state \<Rightarrow> row_state" where
  "na_take_heart i = (\<lambda>(row, s).
     case ni_heart i of None \<Rightarrow> (row, s)
     | Some h \<Rightarrow>
         (row, if hb_nonce h = rq_nonce (na_run s) \<and> hb_id h = rq_id (na_run s) \<and> hb_sequence (na_heart s) < hb_sequence h \<and>
            hb_sent_ns (na_heart s) \<le> hb_sent_ns h \<and> hb_sent_ns h \<le> nw_start_ns row then s\<lparr>na_heart := h\<rparr> else s))"

definition na_start_range :: "nat \<Rightarrow> row_state \<Rightarrow> row_state" where
  "na_start_range a = (\<lambda>(row, s). if dlit (5 / 100) < \<bar>nw_states row ! (3 * a)\<bar> then na_abort NrStartRange (row, s) else (row, s))"

definition na_arm :: "NInput \<Rightarrow> row_state \<Rightarrow> row_state" where
  "na_arm i = (\<lambda>(row, s).
     if na_state s = NaArmed then
       if hb_sequence (na_heart s) \<noteq> 0 \<and> \<not> leaseExpired (nw_start_ns row) (hb_sent_ns (na_heart s)) then
         (let (row, s) = fold na_start_range [0..<na_n s] (row, s)
          in (row, if na_state s \<noteq> NaAborted then s\<lparr>na_state := NaRunning, na_elapsed := 0\<rparr> else s))
       else if kArmNs \<le> nw_start_ns row - na_armed_ns s then na_abort NrArmTimeout (row, s)
       else (row, s)
     else if na_state s = NaRunning \<or> na_state s = NaHolding then (row, s\<lparr>na_elapsed := na_elapsed s + ni_dt i\<rparr>)
     else (row, s))"

definition na_end :: "NState \<Rightarrow> NReason \<Rightarrow> NAxis \<Rightarrow> NAxis" where
  "na_end st r s = s\<lparr>na_state := st, na_reason := r, na_terminal := True\<rparr>"

definition na_progress :: "row_state \<Rightarrow> row_state" where
  "na_progress = (\<lambda>(row, s).
     if na_state s = NaRunning \<or> na_state s = NaHolding then
       (let d = (case na_sine s of Some q \<Rightarrow> st_duration q | None \<Rightarrow> 0)
        in if leaseExpired (nw_start_ns row) (hb_sent_ns (na_heart s)) then na_abort NrLease (row, s)
           else if na_state s = NaHolding \<and> na_finish s then (row, na_end NaReleased NrFinish s)
           else if d + rq_hold (na_run s) \<le> na_elapsed s \<and> rq_release (na_run s) then (row, na_end NaReleased NrRelease s)
           else if d \<le> na_elapsed s then (row, s\<lparr>na_state := NaHolding\<rparr>)
           else (row, s))
     else (row, s))"

definition na_mode :: "NInput \<Rightarrow> row_state \<Rightarrow> row_state" where
  "na_mode i = (\<lambda>(row, s).
     if na_state s = NaAborted then (row, s)
     else if na_stop s then (row, na_end NaStopped NrStop s)
     else if na_state s = NaBoot then (row, s)
     else na_progress (na_arm i (na_take_heart i (na_take_request i (row, s)))))"

definition na_track_axis :: "Setpoint \<Rightarrow> nat \<Rightarrow> double list \<times> row_state \<Rightarrow> double list \<times> row_state" where
  "na_track_axis point a = (\<lambda>(values, row, s).
     if na_state s = NaAborted then (values, row, s)
     else if sp_position point < na_lower s ! a \<or> na_upper s ! a < sp_position point then (values, na_abort NrTrajectory (row, s))
     else if na_max_torque s < rq_kp (na_run s) ! a * \<bar>sp_position point - nw_states row ! (3 * a)\<bar> then (values, na_abort NrTorque (row, s))
     else (values[5 * a := sp_position point, 5 * a + 1 := (if na_state s = NaHolding then 0 else sp_velocity point),
             5 * a + 2 := rq_kp (na_run s) ! a, 5 * a + 3 := rq_kd (na_run s) ! a], row, s))"

definition na_track :: "libm \<Rightarrow> double list \<Rightarrow> row_state \<Rightarrow> double list \<times> row_state" where
  "na_track m released = (\<lambda>(row, s).
     case (if na_state s = NaRunning \<or> na_state s = NaHolding then na_sine s else None) of None \<Rightarrow> (released, row, s)
     | Some q \<Rightarrow>
         (let point = sine_at m q (na_elapsed s); a = accelerationAt m q (na_elapsed s);
              row = row\<lparr>nw_acceleration := a\<rparr>;
              (row, s) = (if \<not> isfinite (sp_position point) \<or> \<not> isfinite (sp_velocity point) \<or> \<not> isfinite a \<or>
                  dlit (70 / 100) < \<bar>sp_velocity point\<bar> \<or> dlit (90 / 100) < \<bar>a\<bar> then na_abort NrTrajectory (row, s) else (row, s))
          in fold (na_track_axis point) [0..<na_n s] (released, row, s)))"

definition na_stamp :: "row_state \<Rightarrow> row_state" where
  "na_stamp = (\<lambda>(row, s). let h = hb_sent_ns (na_heart s); r = na_run s
     in (row\<lparr>nw_nonce := rq_nonce r, nw_request_id := rq_id r, nw_request_sent_ns := rq_sent_ns r, nw_request_received_ns := rq_received_ns r,
           nw_heartbeat_sent_ns := h, nw_deadline_ns := (if h \<noteq> 0 then h + kLeaseNs else 0)\<rparr>, s))"

definition na_commit :: "double list \<Rightarrow> row_state \<Rightarrow> row_state" where
  "na_commit values = (\<lambda>(row, s).
     if na_state s = NaAborted then (row, s)
     else if nw_material_missing row \<noteq> 0 \<and> na_state s \<noteq> NaRunning \<and> na_state s \<noteq> NaHolding then na_abort NrState (row, s)
     else let (ok, out, s) = na_attempt values (nw_generation row) s; row = row\<lparr>nw_normal := out\<rparr>
     in if \<not> ok then na_abort NrWrite (row, s)
     else (row, s\<lparr>na_generation := nw_generation row, na_previous_complete := True,
             na_state := (if na_state s = NaBoot then NaIdle else na_state s)\<rparr>))"

definition na_close :: "double list \<Rightarrow> row_state \<Rightarrow> return_type \<times> NAxis" where
  "na_close released = (\<lambda>(row, s).
     if na_state s = NaAborted then
       (let s = s\<lparr>na_failures := na_failures s + 1\<rparr>;
            (row, s) = (if nw_material_missing row = 0 \<and> nw_generation row \<le> na_kMaxGeneration
              then let (ok, out, s) = na_attempt released (nw_generation row) s in (row\<lparr>nw_released_attempted := True, nw_released := out\<rparr>, s)
              else (row, s))
        in (ERROR, na_append (row, s)))
     else (OK, na_append (row, s)))"

definition na_update :: "libm \<Rightarrow> NInput \<Rightarrow> NAxis \<Rightarrow> return_type \<times> NAxis" where
  "na_update m i s =
     (if na_state s = NaAborted \<or> \<not> na_active s then (ERROR, s)
      else let released = na_released_values i (na_n s);
               (row, s) = na_precheck i (na_judge_accepted i (na_open i s))
      in if na_state s \<noteq> NaAborted \<and> na_kMaxGeneration < nw_generation row
         then (OK, na_append (row\<lparr>nw_advanced := False\<rparr>, s\<lparr>na_terminal := True, na_reason := NrUpperLimit\<rparr>))
      else let (row, s) = na_mode i (fold na_limit_axis [0..<na_n s] (row, s));
               (values, row, s) = na_track m released (row, s)
      in na_close released (na_commit values (na_stamp (row, s))))"


section \<open>What the batch writer logs\<close>

type_synonym log_entry = "nat \<times> double \<times> bool \<times> double option"

definition key_value :: "log_entry \<Rightarrow> nat \<times> double" where
  "key_value = (\<lambda>(k, v, _, _). (k, v))"

definition na_verified :: "log_entry \<Rightarrow> bool" where
  "na_verified = (\<lambda>(k, v, stored, read). stored \<and> (case read of None \<Rightarrow> False | Some r \<Rightarrow> isfinite r \<and> deq r v))"

text \<open>The log of an attempt: nothing, all values, or all values, verified, and then the generation.\<close>

definition attempt_log :: "u64 \<Rightarrow> nat \<Rightarrow> double list \<Rightarrow> log_entry list \<Rightarrow> bool" where
  "attempt_log g n vs b \<longleftrightarrow> b = [] \<or>
     (let ks = map (\<lambda>k. (k, vs ! k)) [0..<5 * n]
      in map key_value b = ks \<or>
         (map key_value b = ks @ [(5 * n, dint (uint g))] \<and> list_all na_verified (butlast b) \<and> 0 < g \<and> g \<le> na_kMaxGeneration))"

definition na_frame :: "NAxis \<Rightarrow> NAxis" where
  "na_frame s = s\<lparr>na_io := [], na_log := []\<rparr>"

lemma na_write_spec:
  assumes "na_write k v (out, s) = (ok, out', s')"
  shows "na_frame s' = na_frame s \<and> (\<exists>x. na_log s' = na_log s @ [x] \<and> key_value x = (k, v) \<and> (ok \<longleftrightarrow> na_verified x)) \<and> nt_values out' = nt_values out"
proof -
  obtain stored read io where io: "(case na_io s of [] \<Rightarrow> ((False, None), []) | x # xs \<Rightarrow> (x, xs)) = ((stored, read), io)" by (metis surj_pair)
  let ?x = "(k, v, stored, if stored then read else None)"
  have s': "s' = s\<lparr>na_io := io, na_log := na_log s @ [?x]\<rparr>" and ok: "ok \<longleftrightarrow> na_verified ?x" and o: "nt_values out' = nt_values out"
    using assms unfolding na_write_def Let_def prod.case io
    by (auto simp: na_verified_def split: option.splits if_splits)
  have "na_frame s' = na_frame s" "na_log s' = na_log s @ [?x]" by (simp_all add: s' na_frame_def)
  then show ?thesis using ok o by (auto simp: key_value_def)
qed

lemma na_writes_spec:
  assumes "na_writes ks vs (out, s) = (ok, out', s')"
  shows "na_frame s' = na_frame s \<and> nt_values out' = nt_values out \<and>
    (\<exists>b. na_log s' = na_log s @ b \<and> map key_value b = map (\<lambda>k. (k, vs ! k)) ks \<and> (ok \<longleftrightarrow> list_all na_verified b))"
  using assms
proof (induction ks arbitrary: out s ok out' s')
  case Nil
  then show ?case by simp
next
  case (Cons k ks)
  obtain ok1 out1 s1 where w: "na_write k (vs ! k) (out, s) = (ok1, out1, s1)" using prod_cases3 by blast
  obtain ok2 out2 s2 where r: "na_writes ks vs (out1, s1) = (ok2, out2, s2)" using prod_cases3 by blast
  have e: "ok = (ok1 \<and> ok2)" "out' = out2" "s' = s2" using Cons.prems w r by simp_all
  obtain x where x: "na_log s1 = na_log s @ [x]" "key_value x = (k, vs ! k)" "ok1 \<longleftrightarrow> na_verified x" using na_write_spec [OF w] by blast
  obtain b where b: "na_log s2 = na_log s1 @ b" "map key_value b = map (\<lambda>k. (k, vs ! k)) ks" "ok2 \<longleftrightarrow> list_all na_verified b"
    using Cons.IH [OF r] by blast
  have "na_log s' = na_log s @ (x # b) \<and> map key_value (x # b) = map (\<lambda>k. (k, vs ! k)) (k # ks) \<and> (ok \<longleftrightarrow> list_all na_verified (x # b))"
    using x b e by simp
  then show ?case using na_write_spec [OF w] Cons.IH [OF r] e by metis
qed

lemma frame_n: "na_frame s' = na_frame s \<Longrightarrow> na_n s' = na_n s"
  by (drule arg_cong [of _ _ na_n]) (simp add: na_frame_def)

lemma na_attempt_spec:
  assumes "na_attempt vs g s = (ok, out, s')"
  shows "na_frame s' = na_frame s" and "\<exists>b. na_log s' = na_log s @ b \<and> attempt_log g (na_n s) vs b"
proof -
  have "na_frame s' = na_frame s \<and> (\<exists>b. na_log s' = na_log s @ b \<and> attempt_log g (na_n s) vs b)"
  proof (cases "g = 0 \<or> na_kMaxGeneration < g")
    case True
    then show ?thesis using assms by (auto simp: na_attempt_def attempt_log_def Let_def)
  next
    case False
    obtain ok1 out1 s1 where w: "na_writes [0..<5 * na_n s] vs (new_NAttempt\<lparr>nt_values := vs\<rparr>, s) = (ok1, out1, s1)" using prod_cases3 by blast
    note sp = na_writes_spec [OF w]
    then obtain b where b: "na_log s1 = na_log s @ b" "map key_value b = map (\<lambda>k. (k, vs ! k)) [0..<5 * na_n s]" "ok1 \<longleftrightarrow> list_all na_verified b" by blast
    show ?thesis
    proof (cases ok1)
      case no: False
      then have "s' = s1" using assms False w by (simp add: na_attempt_def Let_def)
      then show ?thesis using sp b by (auto simp: attempt_log_def Let_def)
    next
      case True
      then have c: "na_write (5 * na_n s) (dint (uint g)) (out1\<lparr>nt_values := (nt_values out1)[5 * na_n s := dint (uint g)]\<rparr>, s1) = (ok, out, s')"
        using assms False w by (simp add: na_attempt_def Let_def)
      obtain x where x: "na_log s' = na_log s1 @ [x]" "key_value x = (5 * na_n s, dint (uint g))" "na_frame s' = na_frame s1"
        using na_write_spec [OF c] by blast
      have "attempt_log g (na_n s) vs (b @ [x])"
        using b(2,3) True x(2) False by (auto simp: attempt_log_def Let_def word_neq_0_conv not_less)
      then show ?thesis using sp b(1) x(1,3) by auto
    qed
  qed
  then show "na_frame s' = na_frame s" "\<exists>b. na_log s' = na_log s @ b \<and> attempt_log g (na_n s) vs b" by blast+
qed

section \<open>The steps of an update before the write\<close>

text \<open>What these steps leave alone.\<close>

definition na_core :: "NAxis \<Rightarrow> (log_entry list \<times> nat \<times> double list \<times> double list) \<times> double \<times> double \<times> bool \<times> bool \<times> u64" where
  "na_core s = ((na_log s, na_n s, na_lower s, na_upper s), na_max_torque s, na_state_limit s, na_active s, na_activated_once s, na_generation s)"

definition na_row_core :: "NRow \<Rightarrow> ns \<times> double list \<times> u32 \<times> u32" where
  "na_row_core r = (nw_start_ns r, nw_states r, nw_state_ok r, nw_material_missing r)"

definition run_ok :: "NAxis \<Rightarrow> bool" where
  "run_ok s \<longleftrightarrow> list_all (gains_ok s (na_run s)) [0..<na_n s] \<and> profile_ok (na_run s) \<and>
     na_sine s = Some (makeSineTrajectory (dlit 0) (rq_amplitude (na_run s)) (rq_frequency (na_run s)) (rq_cycles (na_run s)) (rq_ramp_cycles (na_run s)))"

definition moving :: "NState \<Rightarrow> bool" where
  "moving st \<longleftrightarrow> st = NaRunning \<or> st = NaHolding"

definition run_inv :: "NAxis \<Rightarrow> bool" where
  "run_inv s \<longleftrightarrow> (na_state s = NaArmed \<or> moving (na_state s) \<longrightarrow> run_ok s)"

definition na_ended :: "NState \<Rightarrow> bool" where
  "na_ended st \<longleftrightarrow> st = NaReleased \<or> st = NaStopped \<or> st = NaAborted"

text \<open>One step: it keeps the frame, the generation of the row, the invariant, and an ended state stays ended.\<close>

definition na_step :: "row_state \<Rightarrow> row_state \<Rightarrow> bool" where
  "na_step a b \<longleftrightarrow> (case (a, b) of ((row, s), (row', s')) \<Rightarrow>
     na_core s' = na_core s \<and> na_row_core row' = na_row_core row \<and> nw_generation row' = nw_generation row \<and>
     (run_inv s \<longrightarrow> run_inv s') \<and> (na_ended (na_state s) \<longrightarrow> na_ended (na_state s')))"


lemmas step_defs = na_step_def na_core_def na_row_core_def run_inv_def run_ok_def moving_def na_ended_def

lemma gains_ok_fields [simp]:
  "gains_ok (s\<lparr>na_heart := h\<rparr>) = gains_ok s" "gains_ok (s\<lparr>na_state := st\<rparr>) = gains_ok s" "gains_ok (s\<lparr>na_elapsed := x\<rparr>) = gains_ok s"
  "gains_ok (s\<lparr>na_run := r\<rparr>) = gains_ok s" "gains_ok (s\<lparr>na_reason := q\<rparr>) = gains_ok s" "gains_ok (s\<lparr>na_terminal := b\<rparr>) = gains_ok s"
  "gains_ok (s\<lparr>na_armed_ns := t\<rparr>) = gains_ok s" "gains_ok (s\<lparr>na_sine := sn\<rparr>) = gains_ok s"
  by (simp_all add: gains_ok_def fun_eq_iff)

lemma na_step_refl: "na_step a a"
  by (auto simp: na_step_def split: prod.splits)

lemma na_step_trans: "na_step a b \<Longrightarrow> na_step b c \<Longrightarrow> na_step a c"
  by (auto simp: na_step_def split: prod.splits)

lemma na_step_fold: "(\<And>x a. na_step a (f x a)) \<Longrightarrow> na_step a (fold f xs a)"
proof (induction xs arbitrary: a)
  case (Cons x xs)
  then show ?case using na_step_trans [of a "f x a"] by simp
qed (simp add: na_step_refl)

lemma na_step_abort: "na_step a (na_abort r a)"
  by (cases a) (simp add: na_abort_def step_defs)

lemma na_step_precheck: "na_step a (na_precheck i a)"
  by (cases a) (auto simp: na_precheck_def na_step_refl na_step_abort)

lemma na_step_limit_axis: "na_step a (na_limit_axis k a)"
  by (cases a) (auto simp: na_limit_axis_def na_step_refl na_step_abort)

lemma na_step_start_range: "na_step a (na_start_range k a)"
  by (cases a) (auto simp: na_start_range_def na_step_refl na_step_abort)

lemma na_step_take_heart: "na_step a (na_take_heart i a)"
  by (cases a) (auto simp: na_take_heart_def step_defs split: option.splits)

lemma na_step_take_request: "na_step a (na_take_request i a)"
proof -
  obtain row s where a: "a = (row, s)" by fastforce
  show ?thesis
  proof (cases "if na_state s = NaIdle then ni_request i else None")
    case None
    then show ?thesis by (simp add: a na_take_request_def na_step_refl)
  next
    case (Some r)
    then have idle: "na_state s = NaIdle" by (auto split: if_splits)
    show ?thesis
    proof (cases "request_fits r row (s\<lparr>na_run := r\<rparr>)")
      case True
      then show ?thesis using Some idle by (auto simp: a na_take_request_def Let_def request_fits_def step_defs list_all_iff)
    next
      case False
      have "na_step (row, s) (row, s\<lparr>na_run := r\<rparr>)" using idle by (simp add: step_defs)
      then show ?thesis using Some False na_step_trans [OF _ na_step_abort] by (simp add: a na_take_request_def Let_def)
    qed
  qed
qed

lemma start_range_fold:
  assumes "fold na_start_range xs (row, s) = (row', s')"
  shows "row' = row \<and> s' = s \<or> na_state s' = NaAborted"
proof -
  have ab: "na_state s = NaAborted \<Longrightarrow> na_state (snd (fold na_start_range xs (row, s))) = NaAborted" for row s
    by (induction xs arbitrary: row s) (auto simp: na_start_range_def na_abort_def)
  have "fold na_start_range xs (row, s) = (row, s) \<or> na_state (snd (fold na_start_range xs (row, s))) = NaAborted"
  proof (induction xs)
    case (Cons x xs)
    show ?case
    proof (cases "na_start_range x (row, s) = (row, s)")
      case False
      then have st: "na_state (snd (na_start_range x (row, s))) = NaAborted" by (auto simp: na_start_range_def na_abort_def split: if_splits)
      have ab': "na_state s = NaAborted \<Longrightarrow> na_state (snd (fold na_start_range xs (row, s))) = NaAborted" for row s
        by (induction xs arbitrary: row s) (auto simp: na_start_range_def na_abort_def)
      then show ?thesis using st by (metis fold_simps(2) prod.collapse)
    qed (use Cons in simp)
  qed simp
  then show ?thesis using assms by auto
qed

lemma na_step_arm: "na_step a (na_arm i a)"
proof -
  obtain row s where a: "a = (row, s)" by fastforce
  consider (start) "na_state s = NaArmed" "hb_sequence (na_heart s) \<noteq> 0 \<and> \<not> leaseExpired (nw_start_ns row) (hb_sent_ns (na_heart s))"
    | (wait) "na_state s = NaArmed" "\<not> (hb_sequence (na_heart s) \<noteq> 0 \<and> \<not> leaseExpired (nw_start_ns row) (hb_sent_ns (na_heart s)))"
    | (other) "na_state s \<noteq> NaArmed" by blast
  then show ?thesis
  proof cases
    case start
    obtain row' s' where f: "fold na_start_range [0..<na_n s] (row, s) = (row', s')" by fastforce
    have st: "na_step (row, s) (row', s')" using na_step_fold [of na_start_range "(row, s)"] na_step_start_range f by metis
    show ?thesis
    proof (cases "na_state s' = NaAborted")
      case True
      then show ?thesis using start st f by (simp add: a na_arm_def)
    next
      case False
      then have "row' = row" "s' = s" using start_range_fold [OF f] by auto
      then show ?thesis using start f by (auto simp: a na_arm_def step_defs)
    qed
  next
    case wait
    then show ?thesis by (auto simp: a na_arm_def na_step_refl na_step_abort)
  next
    case other
    then show ?thesis by (auto simp: a na_arm_def step_defs)
  qed
qed

lemma na_step_progress: "na_step a (na_progress a)"
  by (cases a) (auto simp: na_progress_def na_end_def na_abort_def Let_def step_defs)

lemma na_step_mode: "na_step a (na_mode i a)"
proof -
  obtain row s where a: "a = (row, s)" by fastforce
  have "na_step a (na_progress (na_arm i (na_take_heart i (na_take_request i a))))"
    using na_step_trans [OF na_step_take_request na_step_trans [OF na_step_take_heart na_step_trans [OF na_step_arm na_step_progress]]] .
  moreover have "na_step a (row, na_end NaStopped NrStop s)" by (simp add: a na_end_def step_defs)
  ultimately show ?thesis by (simp add: a na_mode_def na_step_refl)
qed

text \<open>After the mode step a moving controller holds an unexpired lease.\<close>

lemma na_mode_lease:
  assumes "na_mode i (row, s) = (row', s')" and "moving (na_state s')"
  shows "\<not> leaseExpired (nw_start_ns row') (hb_sent_ns (na_heart s')) \<and> na_state s \<noteq> NaAborted \<and> \<not> na_ended (na_state s)"
proof -
  have run: "na_state s \<noteq> NaAborted" "\<not> na_stop s" "na_state s \<noteq> NaBoot"
    using assms by (auto simp: na_mode_def na_end_def moving_def split: if_splits)
  obtain row1 s1 where p: "na_arm i (na_take_heart i (na_take_request i (row, s))) = (row1, s1)" by fastforce
  have pr: "na_progress (row1, s1) = (row', s')" using assms(1) run p by (simp add: na_mode_def)
  have "\<not> leaseExpired (nw_start_ns row') (hb_sent_ns (na_heart s'))"
    using pr assms(2) by (auto simp: na_progress_def na_abort_def na_end_def moving_def Let_def split: if_splits)
  moreover have "\<not> na_ended (na_state s)"
    using na_step_mode [of "(row, s)" i] assms by (auto simp: na_step_def na_ended_def moving_def)
  ultimately show ?thesis using run by blast
qed


section \<open>Tracking\<close>

text \<open>What one axis of a moving batch satisfies.\<close>

definition tracked_axis :: "NAxis \<Rightarrow> NRow \<Rightarrow> double list \<Rightarrow> nat \<Rightarrow> bool" where
  "tracked_axis s row vs a \<longleftrightarrow>
     isfinite (vs ! (5 * a)) \<and> \<not> vs ! (5 * a) < na_lower s ! a \<and> \<not> na_upper s ! a < vs ! (5 * a) \<and>
     \<not> dlit (70 / 100) < \<bar>vs ! (5 * a + 1)\<bar> \<and> vs ! (5 * a + 2) = rq_kp (na_run s) ! a \<and> vs ! (5 * a + 3) = rq_kd (na_run s) ! a \<and>
     vs ! (5 * a + 4) = 0 \<and> \<not> na_max_torque s < vs ! (5 * a + 2) * \<bar>vs ! (5 * a) - nw_states row ! (3 * a)\<bar>"

definition point_ok :: "Setpoint \<Rightarrow> bool" where
  "point_ok p \<longleftrightarrow> isfinite (sp_position p) \<and> isfinite (sp_velocity p) \<and> \<not> dlit (70 / 100) < \<bar>sp_velocity p\<bar>"

lemma zero_speed_ok: "\<not> dlit (70 / 100) < \<bar>0\<bar>"
proof -
  have "dlit 0 \<le> dlit (70 / 100)" by (rule rnd_mono) simp
  then show ?thesis by (cases "dlit (70 / 100)") (auto simp: zero_double_def)
qed

lemma na_step_track_axis: "na_step (snd v) (snd (na_track_axis p a v))"
  by (cases v) (auto simp: na_track_axis_def na_step_refl na_step_abort)

lemma na_step_track_axes: "na_step (snd v) (snd (fold (na_track_axis p) xs v))"
proof (induction xs arbitrary: v)
  case (Cons x xs)
  show ?case using na_step_trans [OF na_step_track_axis Cons.IH] by simp
qed (simp add: na_step_refl)

lemma track_axes_spec:
  assumes "fold (na_track_axis p) [0..<k] (vs, row, s) = (vs', row', s')" and "k \<le> 3" and "length vs = 16" and "\<And>a. a < 3 \<Longrightarrow> vs ! (5 * a + 4) = 0"
    and "point_ok p" and "na_state s' \<noteq> NaAborted"
  shows "row' = row \<and> s' = s \<and> length vs' = 16 \<and> (\<forall>a < 3. vs' ! (5 * a + 4) = 0) \<and> (\<forall>a < k. tracked_axis s row vs' a)"
  using assms(1,2,6)
proof (induction k arbitrary: vs' row' s')
  case 0
  then show ?case using assms(3,4) by simp
next
  case (Suc k)
  obtain vs1 row1 s1 where f: "fold (na_track_axis p) [0..<k] (vs, row, s) = (vs1, row1, s1)" using prod_cases3 by blast
  have x: "na_track_axis p k (vs1, row1, s1) = (vs', row', s')" using Suc.prems(1) f by simp
  have n1: "na_state s1 \<noteq> NaAborted" using x Suc.prems(3) by (auto simp: na_track_axis_def)
  have IH: "row1 = row" "s1 = s" "length vs1 = 16" "\<forall>a < 3. vs1 ! (5 * a + 4) = 0" "\<forall>a < k. tracked_axis s row vs1 a"
    using Suc.IH [OF f _ n1] Suc.prems(2) by auto
  have r: "row' = row" "s' = s" "\<not> sp_position p < na_lower s ! k" "\<not> na_upper s ! k < sp_position p"
    "\<not> na_max_torque s < rq_kp (na_run s) ! k * \<bar>sp_position p - nw_states row ! (3 * k)\<bar>"
    "vs' = vs1[5 * k := sp_position p, 5 * k + 1 := (if na_state s = NaHolding then 0 else sp_velocity p),
       5 * k + 2 := rq_kp (na_run s) ! k, 5 * k + 3 := rq_kd (na_run s) ! k]"
    using x IH(1,2) Suc.prems(3) by (auto simp: na_track_axis_def na_abort_def split: if_splits)
  have "tracked_axis s row vs' k"
    using r IH(3,4) Suc.prems(2) assms(5) zero_speed_ok by (auto simp: tracked_axis_def point_ok_def nth_list_update)
  moreover have "tracked_axis s row vs' a" if "a < k" for a
    using IH(5) that by (auto simp: tracked_axis_def r(6))
  moreover have "vs' ! (5 * a + 4) = 0" if "a < 3" for a
  proof -
    have "5 * a + 4 \<noteq> 5 * k" "5 * a + 4 \<noteq> 5 * k + 1" "5 * a + 4 \<noteq> 5 * k + 2" "5 * a + 4 \<noteq> 5 * k + 3" by presburger+
    then show ?thesis using IH(4) that by (simp add: r(6))
  qed
  ultimately show ?case using r IH(3) by (auto simp: less_Suc_eq)
qed

lemma na_track_spec:
  assumes "na_track m released (row, s) = (vs, row', s')" and "run_inv s" and "na_n s \<le> 3" and "length released = 16" and "\<And>a. a < 3 \<Longrightarrow> released ! (5 * a + 4) = 0"
  shows "na_step (row, s) (row', s')"
    and "na_state s' \<noteq> NaAborted \<Longrightarrow> s' = s \<and> na_row_core row' = na_row_core row \<and>
      (if moving (na_state s) then (\<forall>a < na_n s. tracked_axis s row vs a) else vs = released)"
proof -
  show st: "na_step (row, s) (row', s')"
  proof (cases "if na_state s = NaRunning \<or> na_state s = NaHolding then na_sine s else None")
    case None
    then show ?thesis using assms(1) by (simp add: na_track_def na_step_refl)
  next
    case (Some q)
    let ?p = "sine_at m q (na_elapsed s)" and ?a = "accelerationAt m q (na_elapsed s)"
    let ?rs = "if \<not> isfinite (sp_position ?p) \<or> \<not> isfinite (sp_velocity ?p) \<or> \<not> isfinite ?a \<or> dlit (70 / 100) < \<bar>sp_velocity ?p\<bar> \<or> dlit (90 / 100) < \<bar>?a\<bar>
        then na_abort NrTrajectory (row\<lparr>nw_acceleration := ?a\<rparr>, s) else (row\<lparr>nw_acceleration := ?a\<rparr>, s)"
    obtain row1 s1 where rs: "?rs = (row1, s1)" by fastforce
    have "na_step (row, s) (row\<lparr>nw_acceleration := ?a\<rparr>, s)" by (simp add: step_defs)
    then have "na_step (row, s) ?rs" using na_step_trans [OF _ na_step_abort] by simp
    moreover have "fold (na_track_axis ?p) [0..<na_n s1] (released, row1, s1) = (vs, row', s')"
      using assms(1) Some rs unfolding na_track_def Let_def by simp
    then have "na_step (row1, s1) (row', s')" using na_step_track_axes [of "(released, row1, s1)" ?p "[0..<na_n s1]"] by simp
    ultimately show ?thesis using na_step_trans unfolding rs by blast
  qed
  assume n: "na_state s' \<noteq> NaAborted"
  show "s' = s \<and> na_row_core row' = na_row_core row \<and> (if moving (na_state s) then (\<forall>a < na_n s. tracked_axis s row vs a) else vs = released)"
  proof (cases "moving (na_state s)")
    case False
    then show ?thesis using assms(1) by (auto simp: na_track_def moving_def)
  next
    case True
    then obtain q where q: "na_sine s = Some q" using assms(2) by (auto simp: run_inv_def run_ok_def)
    let ?p = "sine_at m q (na_elapsed s)" and ?a = "accelerationAt m q (na_elapsed s)"
    let ?row = "row\<lparr>nw_acceleration := ?a\<rparr>"
    define bad where "bad \<longleftrightarrow> \<not> isfinite (sp_position ?p) \<or> \<not> isfinite (sp_velocity ?p) \<or> \<not> isfinite ?a \<or> dlit (70 / 100) < \<bar>sp_velocity ?p\<bar> \<or> dlit (90 / 100) < \<bar>?a\<bar>"
    have e: "(case (if bad then na_abort NrTrajectory (?row, s) else (?row, s)) of (row, s) \<Rightarrow> fold (na_track_axis ?p) [0..<na_n s] (released, row, s)) = (vs, row', s')"
      using assms(1) True q unfolding na_track_def Let_def bad_def moving_def by simp
    have "\<not> bad"
    proof
      assume bad
      have "na_state (snd (snd (fold (na_track_axis ?p) xs v))) = NaAborted" if "na_state (snd (snd v)) = NaAborted" for xs v
        using that by (induction xs arbitrary: v) (auto simp: na_track_axis_def)
      from this [of "(released, na_abort NrTrajectory (?row, s))" "[0..<na_n s]"] show False using e \<open>bad\<close> n by (simp add: na_abort_def)
    qed
    then have "fold (na_track_axis ?p) [0..<na_n s] (released, ?row, s) = (vs, row', s')" and "point_ok ?p" using e by (auto simp: point_ok_def bad_def)
    from track_axes_spec [OF this(1) assms(3,4,5) this(2) n]
    show ?thesis using True by (auto simp: tracked_axis_def na_row_core_def)
  qed
qed


section \<open>The whole update\<close>

lemma released_values_fold:
  "length (fold (\<lambda>a vs. vs[5 * a := x a]) [0..<n] vs) = length vs"
  "k mod 5 \<noteq> 0 \<Longrightarrow> fold (\<lambda>a vs. vs[5 * a := x a]) [0..<n] vs ! k = vs ! k"
proof -
  show "length (fold (\<lambda>a vs. vs[5 * a := x a]) [0..<n] vs) = length vs" by (induction n) simp_all
  show "fold (\<lambda>a vs. vs[5 * a := x a]) [0..<n] vs ! k = vs ! k" if "k mod 5 \<noteq> 0"
  proof (induction n)
    case (Suc n)
    have "5 * n \<noteq> k" using that by auto
    then show ?case using Suc by simp
  qed simp
qed

lemma released_values_position:
  "5 * n \<le> length vs \<Longrightarrow> a < n \<Longrightarrow> fold (\<lambda>a vs. vs[5 * a := x a]) [0..<n] vs ! (5 * a) = x a"
proof (induction n)
  case (Suc n)
  then show ?case by (cases "a = n") (auto simp: released_values_fold(1))
qed simp

lemma released_values:
  assumes "n \<le> 3"
  shows "length (na_released_values i n) = 16" and "k < 16 \<Longrightarrow> k mod 5 \<noteq> 0 \<Longrightarrow> na_released_values i n ! k = 0"
    and "a < n \<Longrightarrow> na_released_values i n ! (5 * a) = state_value i (3 * a)"
proof -
  show "length (na_released_values i n) = 16" by (simp add: na_released_values_def released_values_fold(1))
  show "na_released_values i n ! k = 0" if "k < 16" "k mod 5 \<noteq> 0"
    unfolding na_released_values_def released_values_fold(2) [OF that(2)] using that(1) by simp
  show "na_released_values i n ! (5 * a) = state_value i (3 * a)" if "a < n"
    unfolding na_released_values_def by (rule released_values_position) (use assms that in auto)
qed

lemma set_bits_bit: "n \<le> 32 \<Longrightarrow> bit (set_bits P n) j \<longleftrightarrow> j < n \<and> P j"
proof (induction n)
  case (Suc n)
  have "set_bits P (Suc n) = (if P n then set_bits P n OR push_bit n 1 else set_bits P n)" by (simp add: set_bits_def)
  then show ?case using Suc by (auto simp: bit_simps less_Suc_eq)
qed (simp add: set_bits_def)

lemma set_bits_all: "n \<le> 32 \<Longrightarrow> set_bits P n = push_bit n 1 - 1 \<longleftrightarrow> (\<forall>j < n. P j)"
proof -
  assume n: "n \<le> 32"
  have m: "push_bit n 1 - 1 = (mask n :: u32)" by (simp add: mask_eq_exp_minus_1 push_bit_eq_mult)
  have "set_bits P n = mask n \<longleftrightarrow> (\<forall>j. j < n \<and> P j \<longleftrightarrow> j < n)"
  proof
    assume e: "set_bits P n = mask n"
    have "j < n \<and> P j \<longleftrightarrow> j < n" for j
      using set_bits_bit [OF n, of P j] n unfolding e by (auto simp: bit_mask_iff)
    then show "\<forall>j. j < n \<and> P j \<longleftrightarrow> j < n" by blast
  next
    assume a: "\<forall>j. j < n \<and> P j \<longleftrightarrow> j < n"
    show "set_bits P n = mask n"
      by (rule bit_word_eqI) (use a set_bits_bit [OF n, of P] in \<open>simp add: bit_mask_iff\<close>)
  qed
  then show ?thesis unfolding m by blast
qed

text \<open>A measured position that the controller lets an axis move from.\<close>

definition position_safe :: "NInput \<Rightarrow> NAxis \<Rightarrow> nat \<Rightarrow> bool" where
  "position_safe i s a \<longleftrightarrow> isfinite (state_value i (3 * a)) \<and> \<not> na_state_limit s < \<bar>state_value i (3 * a)\<bar>"

definition next_generation :: "NInput \<Rightarrow> NAxis \<Rightarrow> u64" where
  "next_generation i s = (if na_generation s = 0 then 1
     else if mayAdvance (na_previous_complete s) (na_generation s) (ni_states i (3 * na_n s)) then na_generation s + 1 else na_generation s)"

lemma na_judge_fields:
  assumes "na_judge_accepted i (row, s) = (row', s')"
  shows "na_core s' = na_core s \<and> na_state s' = na_state s \<and> na_heart s' = na_heart s \<and> run_inv s' = run_inv s \<and> na_row_core row' = na_row_core row \<and>
    nw_generation row' = next_generation i s"
proof -
  have g: "gains_ok (s\<lparr>na_holds := h\<rparr>) = gains_ok s" "gains_ok (s\<lparr>na_holds := h, na_max_holds := mh\<rparr>) = gains_ok s" for h mh
    by (simp_all add: gains_ok_def fun_eq_iff)
  consider "na_generation s = 0" | "na_generation s \<noteq> 0" "mayAdvance (na_previous_complete s) (na_generation s) (ni_states i (3 * na_n s))"
    | "na_generation s \<noteq> 0" "\<not> mayAdvance (na_previous_complete s) (na_generation s) (ni_states i (3 * na_n s))" by blast
  then show ?thesis
  proof cases
    case 1
    then show ?thesis using assms by (auto simp: na_judge_accepted_def Let_def new_NRow_def na_row_core_def next_generation_def)
  next
    case 2
    then show ?thesis using assms by (auto simp: na_judge_accepted_def Let_def na_core_def na_row_core_def run_inv_def run_ok_def next_generation_def g)
  next
    case 3
    then show ?thesis using assms by (auto simp: na_judge_accepted_def Let_def na_core_def na_row_core_def run_inv_def run_ok_def next_generation_def g)
  qed
qed

lemma na_open_judge:
  assumes "na_judge_accepted i (na_open i s) = (row, s1)"
  shows "na_core s1 = na_core s" and "run_inv s1 = run_inv s" and "na_state s1 = na_state s" and "na_heart s1 = na_heart s"
    and "nw_start_ns row = ni_now i" and "nw_generation row = next_generation i s"
    and "\<And>a. a < na_n s \<Longrightarrow> nw_states row ! (3 * a) = state_value i (3 * a)"
    and "nw_state_ok row = set_bits (\<lambda>k. isfinite (state_value i k)) (3 * na_n s)"
proof -
  obtain row0 s0 where o: "na_open i s = (row0, s0)" by fastforce
  have s0: "s0 = s\<lparr>na_cycle := na_cycle s + 1\<rparr>" using o by (simp add: na_open_def Let_def)
  have r0: "na_row_core row0 = (ni_now i, map (state_value i) [0..<3 * na_n s] @ replicate (9 - 3 * na_n s) 0,
      set_bits (\<lambda>k. isfinite (state_value i k)) (3 * na_n s), nw_material_missing row0)" using o by (auto simp: na_open_def Let_def na_row_core_def)
  have g: "gains_ok s0 = gains_ok s" by (simp add: s0 gains_ok_def fun_eq_iff)
  have k: "na_core s0 = na_core s" "na_state s0 = na_state s" "na_heart s0 = na_heart s" "run_inv s0 = run_inv s" "next_generation i s0 = next_generation i s"
    using g by (simp_all add: s0 na_core_def run_inv_def run_ok_def next_generation_def)
  note j = na_judge_fields [OF assms [unfolded o]]
  show "na_core s1 = na_core s" "run_inv s1 = run_inv s" "na_state s1 = na_state s" "na_heart s1 = na_heart s" "nw_generation row = next_generation i s"
    using j k by simp_all
  have rc: "na_row_core row = na_row_core row0" using j by simp
  show "nw_start_ns row = ni_now i" "nw_state_ok row = set_bits (\<lambda>k. isfinite (state_value i k)) (3 * na_n s)"
    using rc unfolding r0 by (simp_all add: na_row_core_def)
  have "nw_states row = map (state_value i) [0..<3 * na_n s] @ replicate (9 - 3 * na_n s) 0" using rc unfolding r0 by (simp add: na_row_core_def)
  then show "nw_states row ! (3 * a) = state_value i (3 * a)" if "a < na_n s" for a using that by (simp add: nth_append)
qed

lemma limit_axes_spec:
  assumes "fold na_limit_axis xs (row, s) = (row', s')" and "na_state s' \<noteq> NaAborted"
  shows "row' = row \<and> s' = s \<and> (\<forall>a \<in> set xs. \<not> na_state_limit s < \<bar>nw_states row ! (3 * a)\<bar>)"
  using assms
proof (induction xs arbitrary: row s)
  case (Cons x xs)
  have ab: "na_state s = NaAborted \<Longrightarrow> fold na_limit_axis xs (row, s) = (row, s)" for row s
    by (induction xs) (auto simp: na_limit_axis_def)
  show ?case
  proof (cases "na_state s \<noteq> NaAborted \<and> na_state_limit s < \<bar>nw_states row ! (3 * x)\<bar>")
    case True
    then have "na_limit_axis x (row, s) = (row\<lparr>nw_reason := NrState\<rparr>, s\<lparr>na_state := NaAborted, na_reason := NrState, na_terminal := True\<rparr>)"
      by (simp add: na_limit_axis_def na_abort_def)
    then have "fold na_limit_axis xs (row\<lparr>nw_reason := NrState\<rparr>, s\<lparr>na_state := NaAborted, na_reason := NrState, na_terminal := True\<rparr>) = (row', s')"
      using Cons.prems(1) by simp
    then have "na_state s' = NaAborted" unfolding ab [of "s\<lparr>na_state := NaAborted, na_reason := NrState, na_terminal := True\<rparr>", simplified] by auto
    then show ?thesis using Cons.prems(2) by simp
  next
    case False
    then have "na_limit_axis x (row, s) = (row, s)" by (auto simp: na_limit_axis_def)
    then have "fold na_limit_axis xs (row, s) = (row', s')" using Cons.prems(1) by simp
    moreover from this have "na_state s \<noteq> NaAborted" using Cons.prems(2) ab by auto
    ultimately show ?thesis using Cons.IH [of row s] Cons.prems(2) False by auto
  qed
qed simp

lemma na_append_fields [simp]:
  "na_log (na_append (row, s)) = na_log s" "na_heart (na_append (row, s)) = na_heart s" "na_state (na_append (row, s)) = na_state s"
  "na_core (na_append (row, s)) = na_core s" "na_generation (na_append (row, s)) = na_generation s"
  by (simp_all add: na_append_def Let_def na_core_def)

lemma run_inv_append [simp]: "run_inv (na_append (row, s)) = run_inv s"
proof -
  have "gains_ok (na_append (row, s)) = gains_ok s" by (simp add: gains_ok_def fun_eq_iff na_append_def Let_def)
  then show ?thesis by (simp add: run_inv_def run_ok_def na_append_def Let_def)
qed

text \<open>What the writes of an update leave alone.\<close>

definition na_const :: "NAxis \<Rightarrow> NHeartbeat \<times> NRequest \<times> nat \<times> (double list \<times> double list) \<times> (double \<times> double) \<times> bool \<times> bool" where
  "na_const s = (na_heart s, na_run s, na_n s, (na_lower s, na_upper s), (na_max_torque s, na_state_limit s), na_active s, na_activated_once s)"

text \<open>A write phase: it extends the log by one attempt and changes nothing else that matters here.\<close>

definition na_written :: "u64 \<Rightarrow> double list \<Rightarrow> NAxis \<Rightarrow> NAxis \<Rightarrow> bool" where
  "na_written g vs s s' \<longleftrightarrow> na_const s' = na_const s \<and> (run_inv s \<longrightarrow> run_inv s') \<and> (na_ended (na_state s) \<longrightarrow> na_ended (na_state s')) \<and>
     (\<exists>b. na_log s' = na_log s @ b \<and> attempt_log g (na_n s) vs b)"

lemma na_frame_fields:
  assumes "na_frame s' = na_frame s"
  shows "na_const s' = na_const s" and "na_state s' = na_state s" and "run_inv s' = run_inv s" and "na_generation s' = na_generation s"
proof -
  have g: "gains_ok (na_frame t) = gains_ok t" for t by (simp add: gains_ok_def fun_eq_iff na_frame_def)
  have fr: "na_const (na_frame t) = na_const t" "na_state (na_frame t) = na_state t" "na_generation (na_frame t) = na_generation t" "run_inv (na_frame t) = run_inv t" for t
    using g [of t] by (simp_all add: na_frame_def na_const_def run_inv_def run_ok_def)
  show "na_const s' = na_const s" using fr(1) [of s] fr(1) [of s'] by (simp add: assms)
  show "na_state s' = na_state s" using fr(2) [of s] fr(2) [of s'] by (simp add: assms)
  show "na_generation s' = na_generation s" using fr(3) [of s] fr(3) [of s'] by (simp add: assms)
  show "run_inv s' = run_inv s" using fr(4) [of s] fr(4) [of s'] by (simp add: assms)
qed

lemma na_written_refl: "na_written g vs s s"
  by (simp add: na_written_def attempt_log_def)

lemma na_written_attempt:
  assumes "na_attempt vs g s = (ok, out, s')"
  shows "na_written g vs s s'"
proof -
  note f = na_frame_fields [OF na_attempt_spec(1) [OF assms]]
  show ?thesis unfolding na_written_def f using na_attempt_spec(2) [OF assms] by blast
qed

text \<open>Changes of bookkeeping after an attempt.\<close>

lemma na_written_after:
  assumes "na_written g vs s s'" and "na_log s'' = na_log s'" and "na_const s'' = na_const s'" and "run_inv s' \<Longrightarrow> run_inv s''"
    and "na_ended (na_state s') \<Longrightarrow> na_ended (na_state s'')"
  shows "na_written g vs s s''"
  using assms by (simp add: na_written_def)

lemma na_commit_spec:
  assumes "na_commit vs (row, s) = (row', s')"
  shows "na_written (nw_generation row) vs s s'" and "nw_generation row' = nw_generation row"
    and "na_state s = NaAborted \<Longrightarrow> s' = s"
    and "na_generation s' = na_generation s \<or> na_generation s' = nw_generation row"
proof -
  obtain ok out s1 where a: "na_attempt vs (nw_generation row) s = (ok, out, s1)" using prod_cases3 by blast
  note w = na_written_attempt [OF a]
  consider (ab) "na_state s = NaAborted" | (missing) "na_state s \<noteq> NaAborted" "nw_material_missing row \<noteq> 0 \<and> na_state s \<noteq> NaRunning \<and> na_state s \<noteq> NaHolding"
    | (attempted) "na_state s \<noteq> NaAborted" "\<not> (nw_material_missing row \<noteq> 0 \<and> na_state s \<noteq> NaRunning \<and> na_state s \<noteq> NaHolding)" by blast
  then have "na_written (nw_generation row) vs s s' \<and> nw_generation row' = nw_generation row \<and> (na_state s = NaAborted \<longrightarrow> s' = s) \<and>
    (na_generation s' = na_generation s \<or> na_generation s' = nw_generation row)"
  proof cases
    case ab
    then show ?thesis using assms by (auto simp: na_commit_def na_written_refl)
  next
    case missing
    then have "row' = row\<lparr>nw_reason := NrState\<rparr>" "s' = s\<lparr>na_state := NaAborted, na_reason := NrState, na_terminal := True\<rparr>"
      using assms by (auto simp: na_commit_def na_abort_def)
    moreover from this have "na_written (nw_generation row) vs s s'"
      using na_written_after [OF na_written_refl, of s' s] by (simp add: na_const_def run_inv_def moving_def na_ended_def)
    ultimately show ?thesis using missing by simp
  next
    case attempted
    show ?thesis
    proof (cases ok)
      case False
      then have e: "row' = row\<lparr>nw_normal := out, nw_reason := NrWrite\<rparr>" "s' = s1\<lparr>na_state := NaAborted, na_reason := NrWrite, na_terminal := True\<rparr>"
        using assms attempted a by (auto simp: na_commit_def na_abort_def Let_def)
      have "na_written (nw_generation row) vs s s'"
        using na_written_after [OF w, of s'] e(2) by (simp add: na_const_def run_inv_def moving_def na_ended_def)
      then show ?thesis using e attempted na_frame_fields(4) [OF na_attempt_spec(1) [OF a]] by simp
    next
      case True
      then have e: "row' = row\<lparr>nw_normal := out\<rparr>" "s' = s1\<lparr>na_generation := nw_generation row, na_previous_complete := True,
          na_state := (if na_state s1 = NaBoot then NaIdle else na_state s1)\<rparr>"
        using assms attempted a by (auto simp: na_commit_def Let_def)
      have g: "gains_ok s' = gains_ok s1" by (simp add: e(2) gains_ok_def fun_eq_iff)
      have "na_written (nw_generation row) vs s s'"
        by (rule na_written_after [OF w]) (use g in \<open>auto simp: e(2) na_const_def run_inv_def run_ok_def moving_def na_ended_def\<close>)
      then show ?thesis using e attempted by simp
    qed
  qed
  then show "na_written (nw_generation row) vs s s'" "nw_generation row' = nw_generation row" "na_state s = NaAborted \<Longrightarrow> s' = s"
    "na_generation s' = na_generation s \<or> na_generation s' = nw_generation row" by blast+
qed

lemma na_finish_spec:
  assumes "na_close rel (row, s) = (r, s')"
  shows "na_written (nw_generation row) rel s s'" and "na_generation s' = na_generation s" and "na_state s' = na_state s"
proof -
  have ap: "na_const (na_append (row, t)) = na_const t" "na_generation (na_append (row, t)) = na_generation t" for row t by (simp_all add: na_append_def na_const_def Let_def)
  let ?s = "s\<lparr>na_failures := na_failures s + 1\<rparr>"
  have g: "gains_ok ?s = gains_ok s" by (simp add: gains_ok_def fun_eq_iff)
  have f: "na_const ?s = na_const s" "na_log ?s = na_log s" "run_inv ?s = run_inv s" "na_state ?s = na_state s" "na_n ?s = na_n s" "na_generation ?s = na_generation s"
    using g by (simp_all add: na_const_def run_inv_def run_ok_def)
  obtain ok out s1 where a: "na_attempt rel (nw_generation row) ?s = (ok, out, s1)" using prod_cases3 by blast
  have w: "na_written (nw_generation row) rel s s1" using na_written_attempt [OF a] unfolding na_written_def f by blast
  note n1 = na_frame_fields [OF na_attempt_spec(1) [OF a]]
  consider "s' = na_append (row, s)" | "s' = na_append (row, ?s)" | "s' = na_append (row\<lparr>nw_released_attempted := True, nw_released := out\<rparr>, s1)"
    using assms a by (auto simp: na_close_def Let_def split: if_splits)
  then have "na_written (nw_generation row) rel s s' \<and> na_generation s' = na_generation s \<and> na_state s' = na_state s"
  proof cases
    case 1
    then show ?thesis using na_written_after [OF na_written_refl, of s' s] ap by simp
  next
    case 2
    then show ?thesis using na_written_after [OF na_written_refl, of s' s] ap f by simp
  next
    case 3
    then show ?thesis using na_written_after [OF w, of s'] ap n1 f by simp
  qed
  then show "na_written (nw_generation row) rel s s'" "na_generation s' = na_generation s" "na_state s' = na_state s" by blast+
qed

text \<open>A batch that moves: the lease is unexpired, every measured position is finite and inside the limit, and every axis has
  checked gains, a position inside its range, a bounded velocity, no feed-forward effort and a bounded torque.\<close>

definition guarded_axis :: "NInput \<Rightarrow> NAxis \<Rightarrow> double list \<Rightarrow> nat \<Rightarrow> bool" where
  "guarded_axis i s vs a \<longleftrightarrow> position_safe i s a \<and>
     isfinite (vs ! (5 * a)) \<and> \<not> vs ! (5 * a) < na_lower s ! a \<and> \<not> na_upper s ! a < vs ! (5 * a) \<and>
     \<not> dlit (70 / 100) < \<bar>vs ! (5 * a + 1)\<bar> \<and> dlit 0 < vs ! (5 * a + 2) \<and> vs ! (5 * a + 2) \<le> dlit 20 \<and>
     dlit 0 \<le> vs ! (5 * a + 3) \<and> vs ! (5 * a + 3) \<le> dlit 1 \<and> vs ! (5 * a + 4) = 0 \<and>
     \<not> na_max_torque s < vs ! (5 * a + 2) * \<bar>vs ! (5 * a) - state_value i (3 * a)\<bar>"

definition guarded_batch :: "NInput \<Rightarrow> NAxis \<Rightarrow> double list \<Rightarrow> bool" where
  "guarded_batch i s vs \<longleftrightarrow> \<not> leaseExpired (ni_now i) (hb_sent_ns (na_heart s)) \<and> list_all (guarded_axis i s vs) [0..<na_n s]"

lemma guarded_const: "na_const s' = na_const s \<Longrightarrow> guarded_batch i s' vs = guarded_batch i s vs"
proof -
  assume c: "na_const s' = na_const s"
  then have "guarded_axis i s' vs = guarded_axis i s vs" by (simp add: na_const_def guarded_axis_def position_safe_def fun_eq_iff)
  then show ?thesis using c by (simp add: na_const_def guarded_batch_def)
qed

text \<open>Everything up to the write.\<close>

lemma na_before_write:
  assumes j: "na_precheck i (na_judge_accepted i (na_open i s)) = (row1, s1)"
    and l: "na_mode i (fold na_limit_axis [0..<na_n s1] (row1, s1)) = (row3, s3)"
    and tr: "na_track m (na_released_values i (na_n s)) (row3, s3) = (vs, row4, s4)"
    and n: "na_n s \<le> 3" and inv: "run_inv s"
  shows "na_core s4 = na_core s" and "run_inv s4" and "nw_generation row4 = next_generation i s"
    and "na_ended (na_state s) \<Longrightarrow> na_ended (na_state s4)"
    and "na_state s4 \<noteq> NaAborted \<Longrightarrow> if moving (na_state s4) then guarded_batch i s4 vs else vs = na_released_values i (na_n s)"
proof -
  let ?rel = "na_released_values i (na_n s)"
  obtain row0 s0 where o: "na_judge_accepted i (na_open i s) = (row0, s0)" by fastforce
  note oj = na_open_judge [OF o]
  obtain row2 s2 where f: "fold na_limit_axis [0..<na_n s1] (row1, s1) = (row2, s2)" by fastforce
  have m: "na_mode i (row2, s2) = (row3, s3)" using l f by simp
  have st1: "na_step (row0, s0) (row1, s1)" using na_step_precheck [of "(row0, s0)" i] j o by simp
  have st2: "na_step (row1, s1) (row2, s2)" using na_step_fold [of na_limit_axis "(row1, s1)" "[0..<na_n s1]"] na_step_limit_axis f by metis
  have st3: "na_step (row2, s2) (row3, s3)" using na_step_mode [of "(row2, s2)" i] m by simp
  have st03: "na_step (row0, s0) (row3, s3)" using na_step_trans [OF na_step_trans [OF st1 st2] st3] .
  have n3: "na_core s3 = na_core s" and r3: "run_inv s3" and rc3: "na_row_core row3 = na_row_core row0"
    using st03 oj(1,2) inv by (auto simp: na_step_def)
  have nn: "na_n s3 = na_n s" "na_n s1 = na_n s" using n3 st1 oj(1) by (auto simp: na_core_def na_step_def)
  have len: "length ?rel = 16" "\<And>a. a < 3 \<Longrightarrow> ?rel ! (5 * a + 4) = 0"
  proof -
    show "length ?rel = 16" using released_values(1) [OF n] .
    show "?rel ! (5 * a + 4) = 0" if "a < 3" for a using released_values(2) [OF n, of "5 * a + 4" i] that by simp
  qed
  have k3: "na_n s3 \<le> 3" using nn n by simp
  have st4: "na_step (row3, s3) (row4, s4)" by (rule na_track_spec(1) [OF tr r3 k3 len(1)]) (rule len(2))
  then show "na_core s4 = na_core s" "run_inv s4" using n3 r3 by (auto simp: na_step_def)
  show "nw_generation row4 = next_generation i s" using st03 st4 oj(6) by (auto simp: na_step_def)
  show "na_ended (na_state s4)" if "na_ended (na_state s)" using that st03 st4 oj(3) by (auto simp: na_step_def)
  assume na: "na_state s4 \<noteq> NaAborted"
  have t2: "s4 = s3 \<and> na_row_core row4 = na_row_core row3 \<and> (if moving (na_state s3) then (\<forall>a < na_n s3. tracked_axis s3 row3 vs a) else vs = ?rel)"
    by (rule na_track_spec(2) [OF tr r3 k3 len(1) _ na]) (rule len(2))
  show "if moving (na_state s4) then guarded_batch i s4 vs else vs = ?rel"
  proof (cases "moving (na_state s3)")
    case False
    then show ?thesis using t2 by simp
  next
    case True
    have lease: "\<not> leaseExpired (nw_start_ns row3) (hb_sent_ns (na_heart s3))" and s2a: "na_state s2 \<noteq> NaAborted" using na_mode_lease [OF m True] by auto
    have lim: "row2 = row1" "s2 = s1" "\<forall>a \<in> set [0..<na_n s1]. \<not> na_state_limit s1 < \<bar>nw_states row1 ! (3 * a)\<bar>"
      using limit_axes_spec [OF f s2a] by auto
    have "nw_state_ok row0 = push_bit (3 * na_n s0) 1 - 1" "row1 = row0" "s1 = s0"
      using j s2a unfolding o lim(2) by (auto simp: na_precheck_def na_abort_def split: if_splits)
    moreover have "na_n s0 = na_n s" using oj(1) by (simp add: na_core_def)
    ultimately have fin: "\<forall>k < 3 * na_n s. isfinite (state_value i k)" using oj(8) set_bits_all [of "3 * na_n s"] n by simp
    have states: "nw_states row3 ! (3 * a) = state_value i (3 * a)" if "a < na_n s" for a using rc3 oj(7) [OF that] by (simp add: na_row_core_def)
    have start: "nw_start_ns row3 = ni_now i" using rc3 oj(5) by (simp add: na_row_core_def)
    have gains: "gains_ok s3 (na_run s3) a" if "a < na_n s" for a using r3 True nn that by (auto simp: run_inv_def run_ok_def list_all_iff)
    have "guarded_axis i s3 vs a" if a: "a < na_n s" for a
    proof -
      have tk: "tracked_axis s3 row3 vs a" using t2 True nn a by simp
      have kp: "vs ! (5 * a + 2) = rq_kp (na_run s3) ! a" and kd: "vs ! (5 * a + 3) = rq_kd (na_run s3) ! a" using tk unfolding tracked_axis_def by blast+
      have "\<not> na_state_limit s1 < \<bar>nw_states row1 ! (3 * a)\<bar>" using lim(3) a nn by simp
      moreover have "na_state_limit s1 = na_state_limit s3" "nw_states row1 = nw_states row3"
        using st2 st3 by (auto simp: na_step_def na_core_def na_row_core_def)
      ultimately have "position_safe i s3 a" using fin a states [OF a] by (simp add: position_safe_def)
      then show ?thesis using gains [OF a, unfolded gains_ok_def] tk [unfolded tracked_axis_def states [OF a] kp kd] unfolding guarded_axis_def kp kd by blast
    qed
    then show ?thesis using True lease start nn t2 by (auto simp: guarded_batch_def list_all_iff)
  qed
qed

text \<open>What one update writes: a batch, verified before it is committed, and in an abort one release batch.\<close>

definition update_writes :: "NInput \<Rightarrow> NAxis \<Rightarrow> NAxis \<Rightarrow> bool" where
  "update_writes i s s' \<longleftrightarrow> (\<exists>vs b1 b2. na_log s' = na_log s @ b1 @ b2 \<and>
     attempt_log (next_generation i s) (na_n s) vs b1 \<and> attempt_log (next_generation i s) (na_n s) (na_released_values i (na_n s)) b2 \<and>
     (vs = na_released_values i (na_n s) \<or> (guarded_batch i s' vs \<and> \<not> na_ended (na_state s))))"

definition na_fixed :: "NAxis \<Rightarrow> nat \<times> bool \<times> bool" where
  "na_fixed s = (na_n s, na_active s, na_activated_once s)"

lemma na_update_spec:
  assumes "na_update m i s = (r, s')" and n: "na_n s \<le> 3" and inv: "run_inv s"
  shows "update_writes i s s' \<and> run_inv s' \<and> na_fixed s' = na_fixed s \<and> (na_ended (na_state s) \<longrightarrow> na_ended (na_state s')) \<and>
    (na_generation s' = na_generation s \<or> na_generation s' = next_generation i s)"
proof -
  let ?rel = "na_released_values i (na_n s)" and ?g = "next_generation i s"
  have unwritten: "update_writes i s t" if "na_log t = na_log s" for t
    unfolding update_writes_def using that by (intro exI [of _ ?rel] exI [of _ "[]"]) (simp add: attempt_log_def)
  show ?thesis
  proof (cases "na_state s = NaAborted \<or> \<not> na_active s")
    case True
    then have "s' = s" using assms(1) by (simp add: na_update_def)
    then show ?thesis using unwritten [OF refl] inv by blast
  next
    case go: False
    obtain row1 s1 where j: "na_precheck i (na_judge_accepted i (na_open i s)) = (row1, s1)" by fastforce
    show ?thesis
    proof (cases "na_state s1 \<noteq> NaAborted \<and> na_kMaxGeneration < nw_generation row1")
      case True
      obtain row0 s0 where o: "na_judge_accepted i (na_open i s) = (row0, s0)" by fastforce
      note oj = na_open_judge [OF o]
      have st: "na_step (row0, s0) (row1, s1)" using na_step_precheck [of "(row0, s0)" i] j o by simp
      let ?t = "s1\<lparr>na_terminal := True, na_reason := NrUpperLimit\<rparr>"
      have s': "s' = na_append (row1\<lparr>nw_advanced := False\<rparr>, ?t)" using assms(1) go j True by (simp add: na_update_def Let_def)
      have t: "run_inv ?t = run_inv s1" "na_core ?t = na_core s1" by (simp_all add: run_inv_def run_ok_def na_core_def)
      have c: "na_core s' = na_core s" "run_inv s'" using st oj(1,2) inv t unfolding s' by (auto simp: na_step_def)
      have "na_fixed s' = na_fixed s" "na_log s' = na_log s" "na_generation s' = na_generation s" using c(1) by (auto simp: na_core_def na_fixed_def)
      moreover have "na_ended (na_state s) \<longrightarrow> na_ended (na_state s')" using st oj(3) unfolding s' by (auto simp: na_step_def)
      ultimately show ?thesis using unwritten c(2) by blast
    next
      case False
      obtain row3 s3 where l: "na_mode i (fold na_limit_axis [0..<na_n s1] (row1, s1)) = (row3, s3)" by fastforce
      obtain vs row4 s4 where tr: "na_track m ?rel (row3, s3) = (vs, row4, s4)" using prod_cases3 by blast
      note bw = na_before_write [OF j l tr n inv]
      obtain row5 where row5: "na_stamp (row4, s4) = (row5, s4)" "nw_generation row5 = nw_generation row4" by (simp add: na_stamp_def Let_def)
      obtain row6 s6 where c: "na_commit vs (row5, s4) = (row6, s6)" by fastforce
      have fi: "na_close ?rel (row6, s6) = (r, s')"
        using assms(1) go j False l tr row5(1) c by (simp add: na_update_def Let_def)
      have g: "nw_generation row5 = ?g" "nw_generation row6 = ?g" using row5(2) bw(3) na_commit_spec(2) [OF c] by auto
      note w1 = na_commit_spec(1) [OF c, unfolded g] and w2 = na_finish_spec [OF fi, unfolded g]
      have n4: "na_n s4 = na_n s" "na_log s4 = na_log s" using bw(1) by (auto simp: na_core_def)
      have n6: "na_n s6 = na_n s4" using w1 by (simp add: na_written_def na_const_def)
      obtain b1 where b1: "na_log s6 = na_log s4 @ b1" "attempt_log ?g (na_n s4) vs b1" using w1 by (auto simp: na_written_def)
      obtain b2 where b2: "na_log s' = na_log s6 @ b2" "attempt_log ?g (na_n s6) ?rel b2" using w2(1) by (auto simp: na_written_def)
      have c4: "na_const s' = na_const s4" using w1 w2(1) by (simp add: na_written_def)
      have fx: "na_fixed s' = na_fixed s" using c4 bw(1) by (auto simp: na_fixed_def na_const_def na_core_def)
      have ri: "run_inv s'" using w1 w2(1) bw(2) by (simp add: na_written_def)
      have en: "na_ended (na_state s) \<longrightarrow> na_ended (na_state s')" using w1 w2(3) bw(4) by (auto simp: na_written_def)
      have gen: "na_generation s' = na_generation s \<or> na_generation s' = ?g"
        using w2(2) na_commit_spec(4) [OF c] g(1) bw(1) by (auto simp: na_core_def)
      have "update_writes i s s'"
      proof (cases "na_state s4 \<noteq> NaAborted \<and> moving (na_state s4)")
        case True
        then have gb: "guarded_batch i s' vs" using bw(5) guarded_const [OF c4] by simp
        have "\<not> na_ended (na_state s)" using True bw(4) by (auto simp: na_ended_def moving_def)
        then show ?thesis unfolding update_writes_def using b1 b2 n4 n6 gb by (intro exI [of _ vs] exI [of _ b1] exI [of _ b2]) simp
      next
        case False
        have "attempt_log ?g (na_n s) ?rel b1"
        proof (cases "na_state s4 = NaAborted")
          case True
          then have "b1 = []" using na_commit_spec(3) [OF c] b1(1) by simp
          then show ?thesis by (simp add: attempt_log_def)
        next
          case no: False
          then show ?thesis using bw(5) False b1(2) n4 by simp
        qed
        then show ?thesis unfolding update_writes_def using b1 b2 n4 n6 by (intro exI [of _ ?rel] exI [of _ b1] exI [of _ b2]) simp
      qed
      then show ?thesis using fx ri en gen by blast
    qed
  qed
qed

section \<open>Sequences of calls\<close>

text \<open>The controller as constructed, with a script of outcomes for its handles.\<close>

definition new_NRequest :: NRequest where
  "new_NRequest = \<lparr>rq_nonce = 0, rq_id = 0, rq_sent_ns = 0, rq_received_ns = 0, rq_axes = 0, rq_amplitude = kPi / dlit 6,
     rq_frequency = dlit (2 / 10), rq_cycles = dlit 5, rq_ramp_cycles = dlit 1, rq_hold = dlit 1, rq_kp = replicate 3 (dlit 20),
     rq_kd = replicate 3 (dlit 1), rq_release = True\<rparr>"

definition new_NHeartbeat :: NHeartbeat where
  "new_NHeartbeat = \<lparr>hb_nonce = 0, hb_id = 0, hb_sequence = 0, hb_sent_ns = 0\<rparr>"

definition new_NAxis :: "(bool \<times> double option) list \<Rightarrow> NAxis" where
  "new_NAxis io = \<lparr>na_n = 0, na_tries = 1, na_command_keys = replicate 16 [], na_state_keys = replicate 10 [],
     na_lower = replicate 3 (- kPi / dlit 6), na_upper = replicate 3 (kPi / dlit 6), na_max_period = dlit (5 / 1000),
     na_state_limit = dlit (60 / 100), na_max_torque = dlit 5, na_input_request = new_NRequest, na_run = new_NRequest,
     na_input_heart = new_NHeartbeat, na_heart = new_NHeartbeat, na_busy = False, na_terminal = False, na_active = False,
     na_complete = False, na_stop = False, na_finish = False, na_save_failed = False, na_published_state = NaBoot,
     na_activated_once = False, na_previous_complete = False, na_state = NaBoot, na_reason = NrNone, na_activation = 0, na_cycle = 0,
     na_generation = 0, na_holds = 0, na_max_holds = 0, na_failures = 0, na_armed_ns = 0, na_elapsed = 0, na_sine = None, na_rows = [],
     na_capacity = 0, na_dropped = 0, na_final_row = new_NRow, na_io = io, na_log = []\<rparr>"

datatype NCall = NConfigure NParameters | NActivate "(string \<times> string) list" "(string \<times> string) list" "double option" | NDeactivate
  | NStart libm NRequest ns ns | NKeepalive NHeartbeat ns | NFinish | NStop | NUpdate libm NInput

fun na_call :: "NCall \<Rightarrow> NAxis \<Rightarrow> NAxis" where
  "na_call (NConfigure p) s = snd (na_on_configure p s)"
| "na_call (NActivate cs ss a) s = snd (na_on_activate cs ss a s)"
| "na_call NDeactivate s = snd (na_on_deactivate s)"
| "na_call (NStart m r now rec) s = snd (requestStart m r now rec s)"
| "na_call (NKeepalive h now) s = snd (keepalive h now s)"
| "na_call NFinish s = snd (requestFinish s)"
| "na_call NStop s = requestStop s"
| "na_call (NUpdate m i) s = snd (na_update m i s)"

definition na_inv :: "NAxis \<Rightarrow> bool" where
  "na_inv s \<longleftrightarrow> na_n s \<le> 3 \<and> run_inv s \<and> (\<not> na_activated_once s \<longrightarrow> na_state s = NaBoot \<and> \<not> na_active s)"

text \<open>What configuration leaves alone, and what the other calls besides an update leave alone.\<close>

definition boot_part :: "NAxis \<Rightarrow> NState \<times> bool \<times> bool \<times> log_entry list \<times> u64" where
  "boot_part s = (na_state s, na_active s, na_activated_once s, na_log s, na_generation s)"

lemma configure_axes_part:
  "boot_part (snd (fold (na_configure_axis p) xs v)) = boot_part (snd v) \<and> na_n (snd (fold (na_configure_axis p) xs v)) = na_n (snd v)"
proof (induction xs arbitrary: v)
  case (Cons x xs)
  have "boot_part (snd (na_configure_axis p x v)) = boot_part (snd v)" "na_n (snd (na_configure_axis p x v)) = na_n (snd v)"
    by (cases v; simp add: na_configure_axis_def Let_def boot_part_def)+
  then show ?case using Cons.IH [of "na_configure_axis p x v"] by simp
qed simp

lemma configure_part: "boot_part (snd (na_on_configure p s)) = boot_part s \<and> (na_n (snd (na_on_configure p s)) = na_n s \<or> na_n (snd (na_on_configure p s)) \<le> 3)"
proof (cases "na_activated_once s \<or> length (np_joints p) < 2 \<or> 3 < length (np_joints p)")
  case True
  then show ?thesis by (auto simp: na_on_configure_def Let_def)
next
  case False
  define s1 where "s1 = s\<lparr>na_n := length (np_joints p), na_max_period := np_max_period p, na_state_limit := np_state_limit p, na_max_torque := np_max_torque p\<rparr>"
  define s2 where "s2 = s1\<lparr>na_tries := nat (np_tries p)\<rparr>"
  obtain ok s3 where f: "fold (na_configure_axis p) [0..<length (np_joints p)] (True, s2) = (ok, s3)" by fastforce
  have p1: "boot_part s1 = boot_part s" "na_n s1 \<le> 3" using False by (simp_all add: s1_def boot_part_def)
  have p2: "boot_part s2 = boot_part s" "na_n s2 \<le> 3" using p1 by (simp_all add: s2_def boot_part_def)
  have p3: "boot_part s3 = boot_part s" "na_n s3 \<le> 3" using configure_axes_part [of p "[0..<length (np_joints p)]" "(True, s2)"] p2 by (simp_all add: f)
  let ?s4 = "s3\<lparr>na_command_keys := (na_command_keys s3)[5 * length (np_joints p) := ''bxi_pair/commit_generation''],
     na_state_keys := (na_state_keys s3)[3 * length (np_joints p) := ''bxi_pair/accepted_generation'']\<rparr>"
  have p4: "boot_part ?s4 = boot_part s" "na_n ?s4 \<le> 3" "boot_part (?s4\<lparr>na_rows := [], na_capacity := c\<rparr>) = boot_part s" for c using p3 by (simp_all add: boot_part_def)
  have "snd (na_on_configure p s) \<in> {s1, s2, s3, ?s4, ?s4\<lparr>na_rows := [], na_capacity := (case np_seconds p * dlit 1000 of Fin x \<Rightarrow> nat \<lceil>x\<rceil> | _ \<Rightarrow> 0)\<rparr>}"
    using False unfolding na_on_configure_def s1_def [symmetric] s2_def [symmetric] Let_def f prod.case by simp
  then show ?thesis using p1 p2 p3 p4 by auto
qed

lemma other_calls:
  "na_fixed (snd (requestStart m r now rec s)) = na_fixed s \<and> boot_part (snd (requestStart m r now rec s)) = boot_part s \<and> run_inv (snd (requestStart m r now rec s)) = run_inv s"
  "na_fixed (snd (keepalive h now s)) = na_fixed s \<and> boot_part (snd (keepalive h now s)) = boot_part s \<and> run_inv (snd (keepalive h now s)) = run_inv s"
  "na_fixed (snd (requestFinish s)) = na_fixed s \<and> boot_part (snd (requestFinish s)) = boot_part s \<and> run_inv (snd (requestFinish s)) = run_inv s"
  "na_fixed (requestStop s) = na_fixed s \<and> boot_part (requestStop s) = boot_part s \<and> run_inv (requestStop s) = run_inv s"
proof -
  have g: "gains_ok (s\<lparr>na_input_request := q, na_input_heart := h, na_busy := True\<rparr>) = gains_ok s" "gains_ok (s\<lparr>na_input_heart := h\<rparr>) = gains_ok s"
    "gains_ok (s\<lparr>na_finish := True\<rparr>) = gains_ok s" "gains_ok (s\<lparr>na_stop := True\<rparr>) = gains_ok s" for q h
    by (simp_all add: gains_ok_def fun_eq_iff)
  note d = na_fixed_def boot_part_def run_inv_def run_ok_def
  show "na_fixed (snd (requestStart m r now rec s)) = na_fixed s \<and> boot_part (snd (requestStart m r now rec s)) = boot_part s \<and> run_inv (snd (requestStart m r now rec s)) = run_inv s"
    by (simp add: requestStart_def d g)
  show "na_fixed (snd (keepalive h now s)) = na_fixed s \<and> boot_part (snd (keepalive h now s)) = boot_part s \<and> run_inv (snd (keepalive h now s)) = run_inv s"
    by (simp add: keepalive_def d g)
  show "na_fixed (snd (requestFinish s)) = na_fixed s \<and> boot_part (snd (requestFinish s)) = boot_part s \<and> run_inv (snd (requestFinish s)) = run_inv s"
    by (simp add: requestFinish_def d g)
  show "na_fixed (requestStop s) = na_fixed s \<and> boot_part (requestStop s) = boot_part s \<and> run_inv (requestStop s) = run_inv s"
    by (simp add: requestStop_def d g)
qed

lemma deactivate_part:
  "na_n (snd (na_on_deactivate s)) = na_n s \<and> na_state (snd (na_on_deactivate s)) = na_state s \<and> na_log (snd (na_on_deactivate s)) = na_log s \<and>
    \<not> na_active (snd (na_on_deactivate s)) \<and> na_activated_once (snd (na_on_deactivate s)) = na_activated_once s \<and> run_inv (snd (na_on_deactivate s)) = run_inv s"
proof -
  have "gains_ok (s\<lparr>na_terminal := True, na_active := False, na_reason := r, na_complete := True\<rparr>) = gains_ok s" for r by (simp add: gains_ok_def fun_eq_iff)
  then show ?thesis by (simp add: na_on_deactivate_def run_inv_def run_ok_def)
qed

lemma activate_part:
  "na_n (snd (na_on_activate cs ss a s)) = na_n s \<and> na_log (snd (na_on_activate cs ss a s)) = na_log s \<and>
    (snd (na_on_activate cs ss a s) = s \<or> \<not> na_activated_once s \<and> na_activated_once (snd (na_on_activate cs ss a s)) \<and>
      (na_state (snd (na_on_activate cs ss a s)) = na_state s \<or> na_state (snd (na_on_activate cs ss a s)) = NaBoot))"
  by (simp add: na_on_activate_def Let_def)

lemma na_inv_call: "na_inv s \<Longrightarrow> na_inv (na_call c s)"
proof (cases c)
  case (NConfigure p)
  assume inv: "na_inv s"
  note cp = configure_part [of p s]
  show ?thesis
  proof (cases "na_activated_once s")
    case True
    then show ?thesis using inv NConfigure by (simp add: na_on_configure_def)
  next
    case False
    then show ?thesis using inv NConfigure cp by (auto simp: na_inv_def boot_part_def run_inv_def moving_def)
  qed
next
  case (NActivate cs ss a)
  assume "na_inv s"
  then show ?thesis using NActivate activate_part [of cs ss a s] by (auto simp: na_inv_def run_inv_def moving_def)
next
  case NDeactivate
  assume "na_inv s"
  then show ?thesis using NDeactivate deactivate_part [of s] by (simp add: na_inv_def)
next
  case (NUpdate m i)
  assume inv: "na_inv s"
  obtain r s' where u: "na_update m i s = (r, s')" by fastforce
  have k: "run_inv s'" "na_fixed s' = na_fixed s" using na_update_spec [OF u] inv by (simp_all add: na_inv_def)
  have "s' = s" if "\<not> na_active s" using u that by (simp add: na_update_def)
  then show ?thesis using k inv NUpdate u by (auto simp: na_inv_def na_fixed_def)
qed (use other_calls in \<open>auto simp: na_inv_def na_fixed_def boot_part_def\<close>)

lemma na_inv_session: "na_inv (fold na_call cs (new_NAxis io))"
proof -
  have "na_inv s \<Longrightarrow> na_inv (fold na_call cs s)" for s by (induction cs arbitrary: s) (simp_all add: na_inv_call)
  moreover have "na_inv (new_NAxis io)" by (simp add: na_inv_def new_NAxis_def run_inv_def moving_def)
  ultimately show ?thesis by blast
qed

section \<open>The end of a run\<close>

definition run_over :: "NAxis \<Rightarrow> bool" where
  "run_over s \<longleftrightarrow> na_inv s \<and> na_activated_once s \<and> na_ended (na_state s)"

text \<open>A write that leaves the axes without gain, velocity and effort: a position, the generation, or a zero.\<close>

definition releasing :: "log_entry \<Rightarrow> bool" where
  "releasing = (\<lambda>(k, v, _, _). k mod 5 = 0 \<or> v = 0)"

lemma released_releasing:
  assumes "attempt_log g n (na_released_values i n) b" and "n \<le> 3"
  shows "list_all releasing b"
proof -
  let ?rel = "na_released_values i n"
  have rel: "\<forall>x \<in> set b. (\<exists>k < 5 * n. key_value x = (k, ?rel ! k)) \<or> key_value x = (5 * n, dint (uint g))"
  proof
    fix x assume "x \<in> set b"
    then have "key_value x \<in> set (map key_value b)" by simp
    then show "(\<exists>k < 5 * n. key_value x = (k, ?rel ! k)) \<or> key_value x = (5 * n, dint (uint g))"
      using assms(1) \<open>x \<in> set b\<close> unfolding attempt_log_def Let_def by (elim disjE conjE) (auto simp del: list.set_map simp: image_iff set_map [of "\<lambda>k. (k, _ k)"])
  qed
  have "releasing x" if "x \<in> set b" for x
  proof -
    obtain k v y z where x: "x = (k, v, y, z)" using prod_cases4 by blast
    from rel that x consider "k < 5 * n" "v = ?rel ! k" | "k = 5 * n" by (auto simp: key_value_def)
    then show ?thesis
    proof cases
      case 1
      then show ?thesis using released_values(2) [OF assms(2), of k i] assms(2) by (auto simp: x releasing_def)
    next
      case 2
      then show ?thesis by (simp add: x releasing_def)
    qed
  qed
  then show ?thesis by (simp add: list_all_iff)
qed

lemma run_over_update:
  assumes "run_over s" and "na_update m i s = (r, s')"
  shows "run_over s'" and "\<exists>b. na_log s' = na_log s @ b \<and> list_all releasing b"
proof -
  have n: "na_n s \<le> 3" and inv: "run_inv s" and i: "na_inv s" and a: "na_activated_once s" and e: "na_ended (na_state s)"
    using assms(1) by (auto simp: run_over_def na_inv_def)
  note u = na_update_spec [OF assms(2) n inv]
  show "run_over s'" using u a e na_inv_call [OF i, of "NUpdate m i"] assms(2) by (auto simp: run_over_def na_fixed_def)
  obtain vs b1 b2 where b: "na_log s' = na_log s @ b1 @ b2" "attempt_log (next_generation i s) (na_n s) vs b1"
    "attempt_log (next_generation i s) (na_n s) (na_released_values i (na_n s)) b2" "vs = na_released_values i (na_n s)"
    using u e by (auto simp: update_writes_def)
  have "list_all releasing (b1 @ b2)" using released_releasing b n by auto
  then show "\<exists>b. na_log s' = na_log s @ b \<and> list_all releasing b" using b(1) by blast
qed

lemma run_over_call:
  assumes "run_over s"
  shows "run_over (na_call c s) \<and> (\<exists>b. na_log (na_call c s) = na_log s @ b \<and> list_all releasing b)"
proof -
  have same: ?thesis if "na_log (na_call c s) = na_log s" "na_activated_once (na_call c s) = na_activated_once s" "na_state (na_call c s) = na_state s"
    using that assms na_inv_call [of s c] by (auto simp: run_over_def)
  have once: "na_activated_once s" using assms by (simp add: run_over_def)
  show ?thesis
  proof (cases c)
    case (NUpdate m i)
    obtain r s' where u: "na_update m i s = (r, s')" by fastforce
    show ?thesis using run_over_update [OF assms u] NUpdate u by simp
  next
    case (NActivate cs ss a)
    then show ?thesis using same once activate_part [of cs ss a s] by auto
  next
    case (NConfigure p)
    then show ?thesis using same configure_part [of p s] by (simp add: boot_part_def)
  next
    case NDeactivate
    then show ?thesis using same deactivate_part [of s] by simp
  qed (use same other_calls in \<open>simp_all add: boot_part_def\<close>)
qed

interpretation na_over: quiet_latch na_call run_over na_log releasing
  by unfold_locales (simp_all add: run_over_call)

section \<open>A trial run\<close>

text \<open>A configured and activated controller whose first update finds no feedback: it aborts, and no release is possible.\<close>

definition trial_parameters :: NParameters where
  "trial_parameters = \<lparr>np_joints = [''joint1'', ''joint2''], np_tries = 1, np_seconds = Fin 1, np_max_period = Fin (1 / 256),
     np_state_limit = Fin (1 / 2), np_max_torque = Fin 5, np_lower = [Fin (- 1), Fin (- 1)], np_upper = [Fin 1, Fin 1],
     np_lock_free = True, np_ros = True\<rparr>"

definition trial_commands :: "(string \<times> string) list" where
  "trial_commands = map (\<lambda>k. (k, ''double'')) [''joint1/position'', ''joint1/velocity'', ''joint1/kp'', ''joint1/kd'', ''joint1/effort'',
     ''joint2/position'', ''joint2/velocity'', ''joint2/kp'', ''joint2/kd'', ''joint2/effort'', ''bxi_pair/commit_generation'']"

definition trial_states :: "(string \<times> string) list" where
  "trial_states = map (\<lambda>k. (k, ''double'')) [''joint1/position'', ''joint1/velocity'', ''joint1/effort'',
     ''joint2/position'', ''joint2/velocity'', ''joint2/effort'', ''bxi_pair/accepted_generation'']"

definition blind_input :: NInput where
  "blind_input = \<lparr>ni_now = 1, ni_dt = Fin (1 / 1024), ni_states = \<lambda>_. None, ni_request = None, ni_heart = None\<rparr>"

definition trial_calls :: "NCall list" where
  "trial_calls = [NConfigure trial_parameters, NActivate trial_commands trial_states (Some (Fin 0)), NUpdate coarse_libm blind_input]"

lemma trial_bounds: "\<not> rnd (5 / 1000) < Fin (1 / 256)" "\<not> Fin (1 / 2) < rnd (5 / 100)" "\<not> rnd (60 / 100) < Fin (1 / 2)"
proof -
  have e: "rnd (1 / 256) = Fin (1 / 256)" "rnd (1 / 2) = Fin (1 / 2)" using rnd_half_power [of 1 8] rnd_half_power [of 1 1] by simp_all
  have "rnd (1 / 256) \<le> rnd (5 / 1000)" "rnd (5 / 100) \<le> rnd (1 / 2)" "rnd (1 / 2) \<le> rnd (60 / 100)" by (rule rnd_mono; simp)+
  then show "\<not> rnd (5 / 1000) < Fin (1 / 256)" "\<not> Fin (1 / 2) < rnd (5 / 100)" "\<not> rnd (60 / 100) < Fin (1 / 2)"
    unfolding e by (cases "rnd (5 / 1000)"; cases "rnd (5 / 100)"; cases "rnd (60 / 100)"; auto)+
qed

lemma trial_configured:
  "let s = na_call (NConfigure trial_parameters) (new_NAxis [])
   in na_n s = 2 \<and> \<not> na_activated_once s \<and> na_state s = NaBoot \<and> na_generation s = 0 \<and> na_rows s = [] \<and>
     take 11 (na_command_keys s) = map fst trial_commands \<and> take 7 (na_state_keys s) = map fst trial_states"
  using trial_bounds
  by (simp add: na_on_configure_def trial_parameters_def new_NAxis_def Let_def na_configure_axis_def na_joint_names_def na_limits_def upt_rec
      command_fields_def trial_commands_def trial_states_def numeral_eq_Suc)

lemma trial_activated:
  assumes "na_n s = 2" and "\<not> na_activated_once s" and "take 11 (na_command_keys s) = map fst trial_commands" and "take 7 (na_state_keys s) = map fst trial_states"
  shows "snd (na_on_activate trial_commands trial_states (Some (Fin 0)) s) =
    s\<lparr>na_activated_once := True, na_activation := na_activation s + 1, na_state := NaBoot, na_published_state := NaBoot, na_active := True\<rparr>"
proof -
  have "bindInterfaces trial_commands trial_states (s\<lparr>na_activated_once := True\<rparr>)"
    using assms by (simp add: bindInterfaces_def na_bind_key_def trial_commands_def trial_states_def Let_def)
  then show ?thesis using assms by (simp add: na_on_activate_def finite_opt_def Let_def)
qed

lemma blind_update:
  assumes "na_n s = 2" and "na_active s" and "na_state s = NaBoot" and "na_generation s = 0"
  shows "na_state (snd (na_update m blind_input s)) = NaAborted \<and> na_activated_once (snd (na_update m blind_input s)) = na_activated_once s"
proof -
  have sv: "state_value blind_input k = NaN" for k by (simp add: state_value_def blind_input_def)
  obtain row0 s0 where o: "na_judge_accepted blind_input (na_open blind_input s) = (row0, s0)" by fastforce
  note oj = na_open_judge [OF o]
  have "fold (\<lambda>k m. m) xs x = x" for xs :: "nat list" and x :: u32 by (induction xs) simp_all
  then have z: "nw_state_ok row0 = 0" unfolding oj(8) sv by (simp add: set_bits_def)
  have missing: "nw_material_missing row0 = 3" using o assms by (auto simp: na_judge_accepted_def na_open_def Let_def set_bits_def na_missing_def sv upt_rec)
  have s0: "na_n s0 = 2" "na_state s0 = NaBoot" "na_activated_once s0 = na_activated_once s" using oj(1,3) assms by (auto simp: na_core_def)
  define q where "q = (if na_capacity s0 \<le> length (na_rows s0) then NrCapacity else NrState)"
  have p: "na_precheck blind_input (row0, s0) = na_abort q (row0, s0)" using z s0(1) by (simp add: na_precheck_def q_def)
  define row1 s1 where "row1 = row0\<lparr>nw_reason := q\<rparr>" and "s1 = s0\<lparr>na_state := NaAborted, na_reason := q, na_terminal := True\<rparr>"
  have p1: "na_precheck blind_input (row0, s0) = (row1, s1)" by (simp add: p na_abort_def row1_def s1_def)
  have f1: "na_state s1 = NaAborted" "na_activated_once s1 = na_activated_once s" "nw_material_missing row1 = 3"
    using s0 missing by (simp_all add: s1_def row1_def)
  have l: "fold na_limit_axis xs (row1, s1) = (row1, s1)" for xs by (induction xs) (simp_all add: na_limit_axis_def f1)
  have m: "na_mode blind_input (row1, s1) = (row1, s1)" by (simp add: na_mode_def f1)
  have tr: "na_track m rel (row1, s1) = (rel, row1, s1)" for rel by (simp add: na_track_def f1)
  obtain row2 where st: "na_stamp (row1, s1) = (row2, s1)" "nw_material_missing row2 = 3" by (simp add: na_stamp_def Let_def f1)
  have cm: "na_commit vs (row2, s1) = (row2, s1)" for vs by (simp add: na_commit_def f1)
  have "na_update m blind_input s = na_close (na_released_values blind_input (na_n s)) (row2, s1)"
    unfolding na_update_def o p1 prod.case Let_def l m tr st(1) cm using assms f1 by simp
  then show ?thesis using f1 st(2) by (simp add: na_close_def na_append_def Let_def)
qed

section \<open>Properties\<close>

text \<open>
  Property C3 The writes of an update of the multi-axis controller, after any sequence of calls since construction and
  for any outcome of the handles: first one batch, then at most the release batch of an abort; either batch is committed only
  after all its values were stored and read back, and with the next generation. The first batch is a release (measured
  positions, no gains) or, while the run has not ended, a guarded batch: the lease of the client is unexpired, the measured
  positions are finite and inside the limit, the gains are those of a checked request (\<open>0 < kp \<le> 20\<close>, \<open>0 \<le> kd \<le> 1\<close>), the
  set-point is inside the range of its axis, the velocity is at most 0.70, there is no effort and \<open>kp\<close> times the position error is
  at most the configured torque.
\<close>

theorem naxis_writes_guarded:
  "let s = fold na_call cs (new_NAxis io); s' = snd (na_update m i s); g = next_generation i s; n = na_n s; released = na_released_values i n
   in \<exists>vs b1 b2. na_log s' = na_log s @ b1 @ b2 \<and> attempt_log g n vs b1 \<and> attempt_log g n released b2 \<and>
     (vs = released \<or> (guarded_batch i s' vs \<and> \<not> na_ended (na_state s)))"
proof -
  let ?s = "fold na_call cs (new_NAxis io)"
  have "na_n ?s \<le> 3" "run_inv ?s" using na_inv_session by (simp_all add: na_inv_def)
  moreover obtain r s' where u: "na_update m i ?s = (r, s')" by fastforce
  ultimately show ?thesis using na_update_spec [OF u] by (simp add: u Let_def update_writes_def)
qed

text \<open>
  Property C39 The generation of the multi-axis controller: an update either keeps it or raises it by one, and it raises
  a generation other than the initial zero only when the hardware reports exactly that generation as accepted.
\<close>

theorem naxis_generation_follows_acceptance:
  "let s = fold na_call cs (new_NAxis io); s' = snd (na_update m i s); g = na_generation s
   in na_generation s' = g \<or> (na_generation s' = g + 1 \<and>
     (g = 0 \<or> (\<exists>v. ni_states i (3 * na_n s) = Some v \<and> isfinite v \<and> deq v (dint (uint g)))))"
proof -
  let ?s = "fold na_call cs (new_NAxis io)"
  have "na_n ?s \<le> 3" "run_inv ?s" using na_inv_session by (simp_all add: na_inv_def)
  moreover obtain r s' where u: "na_update m i ?s = (r, s')" by fastforce
  ultimately have "na_generation s' = na_generation ?s \<or> na_generation s' = next_generation i ?s" using na_update_spec [OF u] by blast
  then show ?thesis by (auto simp: u Let_def next_generation_def mayAdvance_def split: if_splits option.splits)
qed

text \<open>
  Property C13 The end of a run of the multi-axis controller is final: once it is released, stopped or aborted, no later sequence of calls
  (configuration, activation, requests, keepalives, updates) makes it write anything but positions, a generation and zeros.
\<close>

theorem naxis_end_is_final:
  assumes "na_activated_once (fold na_call cs (new_NAxis io))" and "na_ended (na_state (fold na_call cs (new_NAxis io)))"
  shows "\<exists>b. na_log (fold na_call (cs @ ds) (new_NAxis io)) = na_log (fold na_call cs (new_NAxis io)) @ b \<and> list_all releasing b"
  using na_over.output_run [of "fold na_call cs (new_NAxis io)" ds] assms na_inv_session [of cs io] by (simp add: run_over_def)

theorem naxis_end_is_final_witness:
  "\<exists>b. na_log (fold na_call (trial_calls @ [NUpdate coarse_libm blind_input]) (new_NAxis [])) = na_log (fold na_call trial_calls (new_NAxis [])) @ b \<and> list_all releasing b"
proof (rule naxis_end_is_final)
  define s where "s = na_call (NConfigure trial_parameters) (new_NAxis [])"
  note c = trial_configured [unfolded s_def [symmetric] Let_def]
  define t where "t = na_call (NActivate trial_commands trial_states (Some (Fin 0))) s"
  have t: "na_n t = 2" "na_active t" "na_state t = NaBoot" "na_generation t = 0" "na_activated_once t"
    using trial_activated [of s] c by (simp_all add: t_def)
  have f: "fold na_call trial_calls (new_NAxis []) = snd (na_update coarse_libm blind_input t)" by (simp add: trial_calls_def t_def s_def)
  show "na_activated_once (fold na_call trial_calls (new_NAxis []))" "na_ended (na_state (fold na_call trial_calls (new_NAxis [])))"
    using blind_update [OF t(1-4), of coarse_libm] t(5) by (simp_all add: f na_ended_def)
qed

end
