(* ===== verification/Atomic_Snapshot.thy ===== *)
theory Atomic_Snapshot
  imports Prelude
begin

text \<open>
  The version-checked snapshot of \<^verbatim>\<open>atomic_snapshot.hpp\<close>: one writer publishes a fixed number of
  64-bit words, readers copy them without locks and accept the copy only if the version was the same
  even number before and after. Each atomic load and store is one step of an interleaving of the
  writer with a reader (all operations are sequentially consistent in the source); the history of
  completed publications and the number of them at the start of a read are recorded beside the state.
\<close>

section \<open>Payload bytes and words\<close>

text \<open>\<^verbatim>\<open>memcpy\<close> of up to eight payload bytes into a zeroed 64-bit word, little-endian, and back.\<close>

fun bytes_word :: "u8 list \<Rightarrow> u64" where
  "bytes_word [] = 0"
| "bytes_word (b # bs) = ucast b OR push_bit 8 (bytes_word bs)"

definition word_bytes :: "nat \<Rightarrow> u64 \<Rightarrow> u8 list" where
  "word_bytes n w = map (\<lambda>i. ucast (drop_bit (8 * i) w)) [0..<n]"

fun pack_words :: "u8 list \<Rightarrow> u64 list" where
  "pack_words [] = []"
| "pack_words (b # bs) = bytes_word (take 8 (b # bs)) # pack_words (drop 7 bs)"

fun unpack_words :: "nat \<Rightarrow> u64 list \<Rightarrow> u8 list" where
  "unpack_words n [] = []"
| "unpack_words n (w # ws) = word_bytes (min 8 n) w @ unpack_words (n - 8) ws"

lemma word_bytes_bytes_word: "length bs \<le> 8 \<Longrightarrow> word_bytes (length bs) (bytes_word bs) = bs"
proof (induction bs)
  case (Cons b bs)
  have hd: "(ucast (ucast b OR push_bit 8 (bytes_word bs) :: u64) :: u8) = b"
    by (rule bit_word_eqI) (auto simp: bit_simps)
  have tl: "(ucast (drop_bit (8 + 8 * i) (ucast b OR push_bit 8 (bytes_word bs) :: u64)) :: u8)
      = ucast (drop_bit (8 * i) (bytes_word bs))" if "i < length bs" for i
  proof -
    have "8 * i + 16 \<le> 64" using that Cons.prems by simp
    then show ?thesis by (intro bit_word_eqI) (auto simp: bit_simps dest: bit_imp_le_length)
  qed
  have "word_bytes (length (b # bs)) (bytes_word (b # bs))
      = b # map (\<lambda>i. ucast (drop_bit (8 + 8 * i) (bytes_word (b # bs)))) [0..<length bs]"
    by (simp add: word_bytes_def upt_conv_Cons hd map_Suc_upt [symmetric] del: upt_Suc)
  also have "\<dots> = b # word_bytes (length bs) (bytes_word bs)"
    using tl by (simp add: word_bytes_def)
  finally show ?case using Cons by simp
qed (simp add: word_bytes_def)

lemma unpack_pack: "unpack_words (length bs) (pack_words bs) = bs"
proof (induction bs rule: pack_words.induct)
  case (2 b bs)
  let ?t = "take 8 (b # bs)"
  have l: "min 8 (length (b # bs)) = length ?t" by simp
  have "word_bytes (min 8 (length (b # bs))) (bytes_word ?t) = ?t"
    unfolding l by (rule word_bytes_bytes_word) simp
  moreover have "length (b # bs) - 8 = length (drop 7 bs)" by simp
  ultimately show ?case using 2 append_take_drop_id [of 7 bs] by simp
qed simp

section \<open>The interleaving\<close>

datatype writer_pc = WIdle | WLoaded u64 "u64 list" | WStore u64 "u64 list" nat

datatype reader_pc = RIdle | RLoad nat | RCopy nat u64 nat | RDone bool

record snap =
  sn_version :: u64
  sn_data :: "u64 list"
  sn_writer :: writer_pc
  sn_reader :: reader_pc
  sn_scratch :: "u64 list"
  sn_history :: "u64 list list"
  sn_started :: nat

definition next_attempt :: "nat \<Rightarrow> reader_pc" where
  "next_attempt a = (if a < 2 then RLoad (Suc a) else RDone False)"

inductive snap_step :: "nat \<Rightarrow> snap \<Rightarrow> snap \<Rightarrow> bool" for n where
  publish_load: "sn_writer s = WIdle \<Longrightarrow> length vs = n \<Longrightarrow>
     snap_step n s (s\<lparr>sn_writer := WLoaded (sn_version s) vs\<rparr>)"
| publish_odd: "sn_writer s = WLoaded v vs \<Longrightarrow>
     snap_step n s (s\<lparr>sn_version := v + 1, sn_writer := WStore v vs 0\<rparr>)"
| publish_word: "sn_writer s = WStore v vs k \<Longrightarrow> k < n \<Longrightarrow>
     snap_step n s (s\<lparr>sn_data := (sn_data s)[k := vs ! k], sn_writer := WStore v vs (Suc k)\<rparr>)"
| publish_even: "sn_writer s = WStore v vs n \<Longrightarrow>
     snap_step n s (s\<lparr>sn_version := v + 2, sn_writer := WIdle, sn_history := sn_history s @ [vs]\<rparr>)"
| read_start: "sn_reader s = RIdle \<or> sn_reader s = RDone b \<Longrightarrow> length sc = n \<Longrightarrow>
     snap_step n s (s\<lparr>sn_reader := RLoad 1, sn_scratch := sc, sn_started := length (sn_history s)\<rparr>)"
| read_busy: "sn_reader s = RLoad a \<Longrightarrow> sn_version s = 0 \<or> odd (sn_version s) \<Longrightarrow>
     snap_step n s (s\<lparr>sn_reader := next_attempt a\<rparr>)"
| read_before: "sn_reader s = RLoad a \<Longrightarrow> sn_version s \<noteq> 0 \<Longrightarrow> even (sn_version s) \<Longrightarrow>
     snap_step n s (s\<lparr>sn_reader := RCopy a (sn_version s) 0\<rparr>)"
| read_word: "sn_reader s = RCopy a b k \<Longrightarrow> k < n \<Longrightarrow>
     snap_step n s (s\<lparr>sn_scratch := (sn_scratch s)[k := sn_data s ! k], sn_reader := RCopy a b (Suc k)\<rparr>)"
| read_good: "sn_reader s = RCopy a b n \<Longrightarrow> sn_version s = b \<Longrightarrow>
     snap_step n s (s\<lparr>sn_reader := RDone True\<rparr>)"
| read_torn: "sn_reader s = RCopy a b n \<Longrightarrow> sn_version s \<noteq> b \<Longrightarrow>
     snap_step n s (s\<lparr>sn_reader := next_attempt a\<rparr>)"

definition snap_init :: "nat \<Rightarrow> snap" where
  "snap_init n = \<lparr>sn_version = 0, sn_data = replicate n 0, sn_writer = WIdle, sn_reader = RIdle,
     sn_scratch = replicate n 0, sn_history = [], sn_started = 0\<rparr>"

section \<open>The invariant\<close>

text \<open>The version after a number of completed publications.\<close>

definition even_version :: "nat \<Rightarrow> u64" where
  "even_version m = of_nat (2 * m)"

lemma even_version_0 [simp]: "even_version 0 = 0"
  by (simp add: even_version_def)

lemma even_version_Suc: "even_version m + 2 = even_version (Suc m)"
  by (simp add: even_version_def)

lemma even_version_unat: "m < 2 ^ 63 \<Longrightarrow> unat (even_version m) = 2 * m"
proof -
  assume "m < 2 ^ 63"
  then have "2 * m < 2 ^ LENGTH(64)" by simp
  then show ?thesis unfolding even_version_def unat_of_nat by (rule mod_less)
qed

lemma even_version_inj:
  "m < 2 ^ 63 \<Longrightarrow> k < 2 ^ 63 \<Longrightarrow> even_version m = even_version k \<longleftrightarrow> m = k"
  using even_version_unat by (metis mult_cancel1 zero_neq_numeral)

lemma even_version_even [simp]: "even (even_version m)"
  by (simp add: even_version_def)

lemma odd_version: "odd (even_version m + 1)" "even_version m + 1 \<noteq> even_version k"
  using even_version_even by (metis even_plus_one_iff)+

definition writer_ok :: "nat \<Rightarrow> snap \<Rightarrow> bool" where
  "writer_ok n s \<longleftrightarrow> length (sn_data s) = n \<and> (\<forall>vs \<in> set (sn_history s). length vs = n) \<and>
     (case sn_writer s of
        WStore v vs k \<Rightarrow> sn_version s = even_version (length (sn_history s)) + 1 \<and>
          v = even_version (length (sn_history s)) \<and> length vs = n \<and> k \<le> n \<and> take k (sn_data s) = take k vs
      | WLoaded v vs \<Rightarrow> sn_version s = even_version (length (sn_history s)) \<and> v = sn_version s \<and> length vs = n \<and>
          (sn_history s \<noteq> [] \<longrightarrow> sn_data s = last (sn_history s))
      | WIdle \<Rightarrow> sn_version s = even_version (length (sn_history s)) \<and>
          (sn_history s \<noteq> [] \<longrightarrow> sn_data s = last (sn_history s)))"

definition storing :: "snap \<Rightarrow> bool" where
  "storing s \<longleftrightarrow> (case sn_writer s of WStore _ _ _ \<Rightarrow> True | _ \<Rightarrow> False)"

definition reader_ok :: "nat \<Rightarrow> snap \<Rightarrow> bool" where
  "reader_ok n s \<longleftrightarrow> length (sn_scratch s) = n \<and> sn_started s \<le> length (sn_history s) \<and>
     (case sn_reader s of
        RCopy a b k \<Rightarrow> k \<le> n \<and> (\<exists>m. b = even_version m \<and> 0 < m \<and> m \<le> length (sn_history s) \<and> sn_started s \<le> m \<and>
          (m = length (sn_history s) \<and> \<not> storing s \<longrightarrow> take k (sn_scratch s) = take k (last (sn_history s))))
      | RDone True \<Rightarrow> (\<exists>m. 0 < m \<and> m \<le> length (sn_history s) \<and> sn_started s \<le> m \<and>
          sn_scratch s = sn_history s ! (m - 1))
      | _ \<Rightarrow> True)"

lemma snap_init_ok: "writer_ok n (snap_init n)" "reader_ok n (snap_init n)"
  by (auto simp: writer_ok_def reader_ok_def snap_init_def)

lemma writer_ok_step: "snap_step n s s' \<Longrightarrow> writer_ok n s \<Longrightarrow> writer_ok n s'"
proof (induction rule: snap_step.induct)
  case (publish_word s v vs k)
  then show ?case by (auto simp: writer_ok_def take_Suc_conv_app_nth)
next
  case (publish_even s v vs)
  then have v: "v = even_version (length (sn_history s))" and t: "take n (sn_data s) = take n vs"
    and h: "\<forall>us \<in> set (sn_history s). length us = n" "length vs = n" "length (sn_data s) = n"
    by (simp_all add: writer_ok_def)
  have d: "sn_data s = vs" using t h(2,3) by (metis order_refl take_all)
  have "v + 2 = even_version (length (sn_history s @ [vs]))"
    unfolding v even_version_Suc by simp
  then show ?case using d h by (simp add: writer_ok_def)
qed (auto simp: writer_ok_def split: writer_pc.splits)


text \<open>The version a reader can meet, as a statement on the history.\<close>

lemma version_even:
  assumes "writer_ok n s" and "even (sn_version s)"
  shows "\<not> storing s" and "sn_version s = even_version (length (sn_history s))"
    and "sn_history s \<noteq> [] \<Longrightarrow> sn_data s = last (sn_history s)"
  using assms odd_version(1) by (auto simp: writer_ok_def storing_def split: writer_pc.splits)

lemma read_word_ok:
  assumes "reader_ok n s" and "writer_ok n s" and "sn_reader s = RCopy a b k" and "k < n"
  shows "reader_ok n (s\<lparr>sn_scratch := (sn_scratch s)[k := sn_data s ! k], sn_reader := RCopy a b (Suc k)\<rparr>)"
proof -
  let ?s = "s\<lparr>sn_scratch := (sn_scratch s)[k := sn_data s ! k], sn_reader := RCopy a b (Suc k)\<rparr>"
  obtain m where m: "b = even_version m" "0 < m" "m \<le> length (sn_history s)" "sn_started s \<le> m"
    and t: "m = length (sn_history s) \<and> \<not> storing s \<longrightarrow> take k (sn_scratch s) = take k (last (sn_history s))"
    using assms(1,3) by (auto simp: reader_ok_def)
  have st: "storing ?s = storing s" by (simp add: storing_def)
  have "take (Suc k) (sn_scratch ?s) = take (Suc k) (last (sn_history s))"
    if "m = length (sn_history s)" "\<not> storing s"
  proof -
    have h: "sn_history s \<noteq> []" using that m(2) by auto
    have d: "sn_data s = last (sn_history s)" and l: "length (sn_data s) = n"
      using assms(2) that(2) h by (auto simp: writer_ok_def storing_def split: writer_pc.splits)
    have sc: "length (sn_scratch s) = n" using assms(1) by (simp add: reader_ok_def)
    show ?thesis using t that d l sc assms(4) by (simp add: take_Suc_conv_app_nth)
  qed
  with m st assms(1,4) show ?thesis by (auto simp: reader_ok_def)
qed

lemma storing_simps:
  "sn_writer s = WIdle \<Longrightarrow> \<not> storing s" "sn_writer s = WLoaded v vs \<Longrightarrow> \<not> storing s"
  "sn_writer s = WStore v vs k \<Longrightarrow> storing s"
  "storing (s\<lparr>sn_reader := r\<rparr>) = storing s" "storing (s\<lparr>sn_reader := r, sn_scratch := x, sn_started := y\<rparr>) = storing s"
  by (simp_all add: storing_def)

lemma reader_ok_step:
  "snap_step n s s' \<Longrightarrow> writer_ok n s \<Longrightarrow> length (sn_history s) < 2 ^ 63 \<Longrightarrow> reader_ok n s \<Longrightarrow> reader_ok n s'"
proof (induction rule: snap_step.induct)
  case (publish_load s vs)
  then show ?case by (auto simp: reader_ok_def storing_def split: reader_pc.splits bool.splits)
next
  case (publish_odd s v vs)
  then show ?case by (auto simp: reader_ok_def storing_def split: reader_pc.splits bool.splits)
next
  case (publish_word s v vs k)
  then show ?case by (auto simp: reader_ok_def storing_def split: reader_pc.splits bool.splits)
next
  case (publish_even s v vs)
  show ?case
  proof (cases "sn_reader s")
    case (RCopy a b k)
    then obtain m where "b = even_version m" "0 < m" "m \<le> length (sn_history s)" "sn_started s \<le> m"
      using publish_even by (auto simp: reader_ok_def)
    then show ?thesis using publish_even RCopy by (auto simp: reader_ok_def intro!: exI [of _ m])
  next
    case (RDone ok)
    show ?thesis
    proof (cases ok)
      case True
      then obtain m where "0 < m" "m \<le> length (sn_history s)" "sn_started s \<le> m" "sn_scratch s = sn_history s ! (m - 1)"
        using publish_even RDone by (auto simp: reader_ok_def)
      then show ?thesis using publish_even RDone True
        by (auto simp: reader_ok_def nth_append intro!: exI [of _ m])
    qed (use publish_even RDone in \<open>auto simp: reader_ok_def\<close>)
  qed (use publish_even in \<open>auto simp: reader_ok_def\<close>)
next
  case (read_start s b sc)
  then show ?case by (auto simp: reader_ok_def)
next
  case (read_busy s a)
  then show ?case by (auto simp: reader_ok_def next_attempt_def)
next
  case (read_before s a)
  note v = version_even [OF read_before(4,3)]
  have "0 < length (sn_history s)" using read_before(2) v(2) by (cases "sn_history s") auto
  then show ?case using read_before v by (auto simp: reader_ok_def intro!: exI [of _ "length (sn_history s)"])
next
  case (read_word s a b k)
  then show ?case by (intro read_word_ok) auto
next
  case (read_good s a b)
  then obtain m where m: "b = even_version m" "0 < m" "m \<le> length (sn_history s)" "sn_started s \<le> m"
    "m = length (sn_history s) \<and> \<not> storing s \<longrightarrow> take n (sn_scratch s) = take n (last (sn_history s))"
    by (auto simp: reader_ok_def)
  have ev: "even (sn_version s)" using read_good(2) m(1) by simp
  note v = version_even [OF read_good(3) ev]
  have "m = length (sn_history s)"
    using v(2) read_good(2,4) m(1,3) even_version_inj [of m "length (sn_history s)"] by simp
  moreover have "sn_history s \<noteq> []" using m by auto
  moreover have "length (last (sn_history s)) = n" "length (sn_scratch s) = n"
    using read_good(3,5) \<open>sn_history s \<noteq> []\<close> by (auto simp: writer_ok_def reader_ok_def)
  ultimately show ?case using m v read_good(5)
    by (auto simp: reader_ok_def last_conv_nth intro!: exI [of _ m])
next
  case (read_torn s a b)
  then show ?case by (auto simp: reader_ok_def next_attempt_def)
qed

lemma history_grows: "snap_step n s s' \<Longrightarrow> length (sn_history s) \<le> length (sn_history s')"
  by (induction rule: snap_step.induct) auto

lemma snap_reachable_ok:
  "(snap_step n)\<^sup>*\<^sup>* (snap_init n) s \<Longrightarrow> length (sn_history s) < 2 ^ 63 \<Longrightarrow> writer_ok n s \<and> reader_ok n s"
proof (induction rule: rtranclp_induct)
  case base
  then show ?case using snap_init_ok by simp
next
  case (step s s')
  have "length (sn_history s) < 2 ^ 63" using history_grows [OF step.hyps(2)] step.prems by simp
  with step writer_ok_step reader_ok_step show ?case by blast
qed

text \<open>Property C1: a read that succeeds returns exactly the words of one completed
  publication, never a mixture of two, and not an older one than was complete when the read began,
  however the steps of writer and reader interleave (fewer than \<open>2^63\<close> publications).\<close>

theorem snapshot_read_is_published:
  assumes "(snap_step n)\<^sup>*\<^sup>* (snap_init n) s" and "length (sn_history s) < 2 ^ 63"
    and "sn_reader s = RDone True"
  shows "\<exists>m. m < length (sn_history s) \<and> sn_started s \<le> Suc m \<and> sn_scratch s = sn_history s ! m"
proof -
  obtain m where "0 < m" "m \<le> length (sn_history s)" "sn_started s \<le> m" "sn_scratch s = sn_history s ! (m - 1)"
    using snap_reachable_ok [OF assms(1,2)] assms(3) by (auto simp: reader_ok_def)
  then show ?thesis by (intro exI [of _ "m - 1"]) auto
qed

definition sample_run :: "snap list" where
  "sample_run =
     (let s0 = snap_init 1; s1 = s0\<lparr>sn_writer := WLoaded 0 [7]\<rparr>;
          s2 = s1\<lparr>sn_version := 1, sn_writer := WStore 0 [7] 0\<rparr>;
          s3 = s2\<lparr>sn_data := [7], sn_writer := WStore 0 [7] 1\<rparr>;
          s4 = s3\<lparr>sn_reader := RLoad 1, sn_scratch := [0], sn_started := 0\<rparr>;
          s5 = s4\<lparr>sn_reader := RLoad 2\<rparr>;
          s6 = s5\<lparr>sn_version := 2, sn_writer := WIdle, sn_history := [[7]]\<rparr>;
          s7 = s6\<lparr>sn_reader := RCopy 2 2 0\<rparr>;
          s8 = s7\<lparr>sn_scratch := [7], sn_reader := RCopy 2 2 1\<rparr>;
          s9 = s8\<lparr>sn_reader := RDone True\<rparr>
      in [s0, s1, s2, s3, s4, s5, s6, s7, s8, s9])"

lemma sample_run_steps: "i < 9 \<Longrightarrow> snap_step 1 (sample_run ! i) (sample_run ! Suc i)"
proof -
  assume "i < 9"
  then consider "i = 0" | "i = 1" | "i = 2" | "i = 3" | "i = 4" | "i = 5" | "i = 6" | "i = 7" | "i = 8" by linarith
  then show ?thesis
  proof cases
    case 1 show ?thesis unfolding 1 using publish_load [of "snap_init 1" "[7]" 1] by (simp add: sample_run_def snap_init_def Let_def)
  next
    case 2 show ?thesis unfolding 2 using publish_odd [of "sample_run ! 1" 0 "[7]" 1] by (simp add: sample_run_def snap_init_def Let_def)
  next
    case 3 show ?thesis unfolding 3 using publish_word [of "sample_run ! 2" 0 "[7]" 0 1] by (simp add: sample_run_def snap_init_def Let_def)
  next
    case 4 show ?thesis unfolding 4 using read_start [of "sample_run ! 3" False "[0]" 1] by (simp add: sample_run_def snap_init_def Let_def)
  next
    case 5 show ?thesis unfolding 5 using read_busy [of "sample_run ! 4" 1 1] by (simp add: sample_run_def snap_init_def Let_def next_attempt_def numeral_2_eq_2)
  next
    case 6 show ?thesis unfolding 6 using publish_even [of "sample_run ! 5" 0 "[7]" 1] by (simp add: sample_run_def snap_init_def Let_def)
  next
    case 7 show ?thesis unfolding 7 using read_before [of "sample_run ! 6" 2 1] by (simp add: sample_run_def snap_init_def Let_def)
  next
    case 8 show ?thesis unfolding 8 using read_word [of "sample_run ! 7" 2 2 0 1] by (simp add: sample_run_def snap_init_def Let_def)
  next
    case 9 show ?thesis unfolding 9 using read_good [of "sample_run ! 8" 2 2 1] by (simp add: sample_run_def snap_init_def Let_def)
  qed
qed

lemma sample_run_reachable: "k \<le> 9 \<Longrightarrow> (snap_step 1)\<^sup>*\<^sup>* (snap_init 1) (sample_run ! k)"
proof (induction k)
  case 0
  then show ?case by (simp add: sample_run_def Let_def)
next
  case (Suc k)
  then show ?case using sample_run_steps [of k] by (auto intro: rtranclp.rtrancl_into_rtrancl)
qed

theorem snapshot_read_is_published_witness:
  "\<exists>m. m < length (sn_history (sample_run ! 9)) \<and> sn_started (sample_run ! 9) \<le> Suc m \<and>
     sn_scratch (sample_run ! 9) = sn_history (sample_run ! 9) ! m"
  by (rule snapshot_read_is_published [OF sample_run_reachable]) (simp_all add: sample_run_def Let_def snap_init_def)

end
