(* ===== verification/Activation_Startup.thy ===== *)
theory Activation_Startup
  imports Bxi_Actuator
begin

text \<open>
  The startup policy of an activation (\<^verbatim>\<open>activation_startup.hpp\<close>): a settling time after the last
  enable, then at most two attempts of a first control transaction per motor, all inside one
  deadline. The callbacks of the source (the transaction and the question whether the driver is
  still enabled) are parameters; a callback that throws is the result \<open>None\<close>. Waiting lets an
  arbitrary time pass, possibly less than asked for: the code checks the clock after every wait.
\<close>

section \<open>Model\<close>

datatype VsSend = NOT_EVALUATED | before_send | at_or_after_send

definition kernelVsSend :: "ns \<Rightarrow> ns \<Rightarrow> VsSend" where
  "kernelVsSend kernel_realtime send_realtime =
     (if kernel_realtime = 0 \<or> send_realtime = 0 then NOT_EVALUATED
      else if kernel_realtime < send_realtime then before_send else at_or_after_send)"

definition initialPositionAllowed :: "double \<Rightarrow> double \<Rightarrow> double \<Rightarrow> bool" where
  "initialPositionAllowed p lo hi \<longleftrightarrow>
     isfinite p \<and> isfinite lo \<and> isfinite hi \<and> lo \<le> hi \<and> lo \<le> p \<and> p \<le> hi"

definition settle_ns :: ns where "settle_ns = 10000000"
definition policy_attempts :: int where "policy_attempts = 2"
definition retry_interval_ns :: ns where "retry_interval_ns = 5000000"
definition budget_ns :: ns where "budget_ns = 100000000"

datatype StartReason =
  st_deadline | st_safe_stop | st_exception | st_send_failed | st_timeout | st_ok
  | st_temperature_fault | st_attempt_limit

fun result_reason :: "TransactionResult \<Rightarrow> StartReason" where
  "result_reason tr_safe_stop = st_safe_stop"
| "result_reason tr_send_failed = st_send_failed"
| "result_reason tr_ok = st_ok"
| "result_reason tr_temperature_fault = st_temperature_fault"
| "result_reason tr_timeout = st_timeout"

record InitialAttempt =
  ia_number :: int
  ia_observation :: TransactionObservation
  ia_reason :: StartReason

record ActivationStartup =
  as_deadline :: ns
  as_response_timeout :: ns
  as_settle_end :: ns
  as_settle_wait :: ns
  as_reason :: StartReason

definition wait_until :: "ns \<Rightarrow> env \<Rightarrow> env" where
  "wait_until target e = snd (steady_now e)"

definition room :: "ns \<Rightarrow> ActivationStartup \<Rightarrow> env \<Rightarrow> bool \<times> env" where
  "room wait st e =
     (let (now, e) = steady_now e
      in (now < as_deadline st \<and> wait \<le> as_deadline st - now \<and>
          as_response_timeout st \<le> as_deadline st - now - wait, e))"

definition settle :: "ns \<Rightarrow> ActivationStartup \<Rightarrow> env \<Rightarrow> bool \<times> ActivationStartup \<times> env" where
  "settle last_enable st e =
     (let (before, e) = steady_now e; target = last_enable + settle_ns;
          (fits, e) = room (max 0 (target - before)) st e
      in if \<not> fits then (False, st, e)
      else let e = (if before < target then wait_until target e else e);
               (after, e) = steady_now e;
               st = st\<lparr>as_settle_end := after, as_settle_wait := after - before\<rparr>
      in if target \<le> after then (let (fits, e) = room 0 st e in (fits, st, e)) else (False, st, e))"

definition set_reason :: "StartReason \<Rightarrow> InitialAttempt list \<Rightarrow> InitialAttempt list" where
  "set_reason r records = butlast records @ [(last records)\<lparr>ia_reason := r\<rparr>]"

type_synonym 'd transaction = "'d \<Rightarrow> env \<Rightarrow> (ActuatorFeedback \<times> TransactionObservation \<times> 'd \<times> env) option"

type_synonym 'd start_outcome =
  "bool option \<times> ActivationStartup \<times> ActuatorFeedback \<times> InitialAttempt list \<times> 'd \<times> env"

text \<open>The pause before another attempt: false when it does not fit or the wait was cut short.\<close>

definition retry_wait :: "ActivationStartup \<Rightarrow> env \<Rightarrow> bool \<times> env" where
  "retry_wait st e =
     (let (fits, e) = room retry_interval_ns st e
      in if \<not> fits then (False, e)
      else let (now, e) = steady_now e; target = now + retry_interval_ns;
               e = wait_until target e; (now, e) = steady_now e
      in if now < target then (False, e) else room 0 st e)"

text \<open>The judgement of one transaction, with the record of it last in the list: either the outcome
  of the startup, or the state for the next attempt.\<close>

definition judge_transaction ::
  "('d \<Rightarrow> bool) \<Rightarrow> int \<Rightarrow> ActivationStartup \<Rightarrow> ActuatorFeedback \<Rightarrow> TransactionObservation \<Rightarrow> InitialAttempt list
     \<Rightarrow> 'd \<Rightarrow> env \<Rightarrow> 'd start_outcome + (ActuatorFeedback \<times> InitialAttempt list \<times> 'd \<times> env)" where
  "judge_transaction enabled attempt st feedback ob records d e =
     (let fail = (\<lambda>r e. Inl (Some False, st\<lparr>as_reason := r\<rparr>, feedback, set_reason r records, d, e));
          (now, e) = steady_now e
      in if as_deadline st \<le> now then fail st_deadline e
      else if af_valid feedback then
        (if \<not> isfinite (af_temperature feedback) then fail st_temperature_fault e
         else Inl (Some True, st\<lparr>as_reason := st_ok\<rparr>, feedback, set_reason st_ok records, d, e))
      else if \<not> enabled d \<or> to_result ob = tr_send_failed then
        fail (if to_result ob = tr_send_failed then st_send_failed else st_safe_stop) e
      else if to_result ob \<noteq> tr_timeout then fail (result_reason (to_result ob)) e
      else if attempt = policy_attempts then fail st_attempt_limit e
      else let (again, e) = retry_wait st e
      in if \<not> again then Inl (Some False, st\<lparr>as_reason := st_deadline\<rparr>, feedback, records, d, e)
         else Inr (feedback, records, d, e))"

definition initial_attempt ::
  "'d transaction \<Rightarrow> ('d \<Rightarrow> bool) \<Rightarrow> int \<Rightarrow> ActivationStartup \<Rightarrow> ActuatorFeedback \<Rightarrow> InitialAttempt list
     \<Rightarrow> 'd \<Rightarrow> env \<Rightarrow> 'd start_outcome + (ActuatorFeedback \<times> InitialAttempt list \<times> 'd \<times> env)" where
  "initial_attempt send enabled attempt st feedback records d e =
     (if \<not> enabled d then Inl (Some False, st\<lparr>as_reason := st_safe_stop\<rparr>, feedback, records, d, e)
      else let (fits, e) = room 0 st e
      in if \<not> fits then Inl (Some False, st\<lparr>as_reason := st_deadline\<rparr>, feedback, records, d, e)
      else let fresh = \<lparr>ia_number = attempt, ia_observation = default_TransactionObservation,
                 ia_reason = st_exception\<rparr>;
               (fits, e) = room 0 st e
      in if \<not> fits then Inl (Some False, st\<lparr>as_reason := st_deadline\<rparr>, feedback,
             records @ [fresh\<lparr>ia_reason := st_deadline\<rparr>], d, e)
      else case send d e of
        None \<Rightarrow> Inl (None, st\<lparr>as_reason := st_exception\<rparr>, feedback, records @ [fresh], d, e)
      | Some (feedback, ob, d, e) \<Rightarrow>
          judge_transaction enabled attempt st feedback ob
            (records @ [fresh\<lparr>ia_observation := ob, ia_reason := result_reason (to_result ob)\<rparr>]) d e)"

fun initial_loop ::
  "'d transaction \<Rightarrow> ('d \<Rightarrow> bool) \<Rightarrow> nat \<Rightarrow> int \<Rightarrow> ActivationStartup \<Rightarrow> ActuatorFeedback \<Rightarrow> InitialAttempt list
     \<Rightarrow> 'd \<Rightarrow> env \<Rightarrow> 'd start_outcome" where
  "initial_loop send enabled 0 attempt st feedback records d e = (Some False, st, feedback, records, d, e)"
| "initial_loop send enabled (Suc left) attempt st feedback records d e =
     (case initial_attempt send enabled attempt st feedback records d e of
        Inl outcome \<Rightarrow> outcome
      | Inr (feedback, records, d, e) \<Rightarrow>
          initial_loop send enabled left (attempt + 1) st feedback records d e)"

definition initial ::
  "'d transaction \<Rightarrow> ('d \<Rightarrow> bool) \<Rightarrow> ActivationStartup \<Rightarrow> ActuatorFeedback \<Rightarrow> InitialAttempt list \<Rightarrow> 'd \<Rightarrow> env
     \<Rightarrow> 'd start_outcome" where
  "initial send enabled st feedback records d e =
     initial_loop send enabled (nat policy_attempts) 1 st feedback records d e"

text \<open>The callbacks an activation uses: a first control of the driver.\<close>

definition driver_transaction :: "BxiActuatorDriver transaction" where
  "driver_transaction d e = Some (initialControlObserved d e)"


section \<open>Lemmas\<close>

lemma room_True:
  assumes "room w st e = (True, e')"
  shows "clk e' < as_deadline st \<and> as_response_timeout st + w \<le> as_deadline st - clk e'"
proof -
  obtain now e1 where n: "steady_now e = (now, e1)" by fastforce
  then have "clk e1 = now" using env_clk(2) [of e] by simp
  with assms n show ?thesis by (auto simp: room_def)
qed

lemma set_reason_snoc [simp]: "set_reason r (xs @ [x]) = xs @ [x\<lparr>ia_reason := r\<rparr>]"
  by (simp add: set_reason_def)

lemma judge_success:
  assumes "judge_transaction enabled attempt st fb ob (records @ [x]) d e = Inl (Some True, st', fb', records', d', e')"
  shows "fb' = fb \<and> af_valid fb \<and> isfinite (af_temperature fb) \<and> as_reason st' = st_ok \<and> clk e' < as_deadline st \<and>
    records' = records @ [x\<lparr>ia_reason := st_ok\<rparr>]"
proof -
  obtain now e1 where n: "steady_now e = (now, e1)" by fastforce
  then have "clk e1 = now" using env_clk(2) [of e] by simp
  with assms n show ?thesis
    by (auto simp: judge_transaction_def Let_def split: if_splits prod.splits)
qed

lemma judge_failure:
  assumes "judge_transaction enabled attempt st fb ob (records @ [x]) d e = Inl (Some False, st', fb', records', d', e')"
  shows "as_reason st' \<noteq> st_ok \<or> to_result ob = tr_ok \<and> \<not> af_valid fb"
  using assms by (cases "to_result ob")
    (auto simp: judge_transaction_def Let_def split: if_splits prod.splits)

lemma judge_again:
  assumes "judge_transaction enabled attempt st fb ob (records @ [x]) d e = Inr (fb', records', d', e')"
  shows "attempt \<noteq> policy_attempts \<and> to_result ob = tr_timeout \<and> \<not> af_valid fb \<and> enabled d' \<and> records' = records @ [x]"
  using assms by (auto simp: judge_transaction_def Let_def split: if_splits prod.splits)

lemma judge_records:
  assumes "judge_transaction enabled attempt st fb ob (records @ [x]) d e = Inl (ok, st', fb', records', d', e')"
  shows "\<exists>y. records' = records @ [y] \<and> ia_number y = ia_number x"
  using assms by (auto simp: judge_transaction_def Let_def split: if_splits prod.splits)

text \<open>A transaction that refuses to start without room for a response before the deadline.\<close>

definition with_room :: "ActivationStartup \<Rightarrow> 'd transaction \<Rightarrow> 'd transaction" where
  "with_room st send d e =
     (if clk e < as_deadline st \<and> as_response_timeout st \<le> as_deadline st - clk e then send d e else None)"

lemma initial_attempt_room:
  "initial_attempt (with_room st send) enabled attempt st fb records d e =
     initial_attempt send enabled attempt st fb records d e"
proof -
  obtain fits e1 where r1: "room 0 st e = (fits, e1)" by fastforce
  obtain fits2 e2 where r2: "room 0 st e1 = (fits2, e2)" by fastforce
  have "fits2 \<Longrightarrow> with_room st send d e2 = send d e2"
    using room_True [of 0 st e1 e2] r2 by (auto simp: with_room_def)
  then show ?thesis by (cases fits2) (simp_all add: initial_attempt_def r1 r2)
qed

lemma initial_attempt_success:
  assumes "initial_attempt send enabled attempt st fb records d e = Inl (Some True, st', fb', records', d', e')"
  shows "enabled d \<and> af_valid fb' \<and> isfinite (af_temperature fb') \<and> as_reason st' = st_ok \<and>
    clk e' < as_deadline st \<and> (\<exists>x. records' = records @ [x] \<and> ia_number x = attempt \<and> ia_reason x = st_ok)"
  using assms
  by (auto simp: initial_attempt_def Let_def split: if_splits prod.splits option.splits dest!: judge_success)

lemma initial_attempt_records:
  assumes "initial_attempt send enabled attempt st fb records d e = Inl (ok, st', fb', records', d', e')"
  shows "records' = records \<or> (\<exists>x. records' = records @ [x] \<and> ia_number x = attempt)"
  using assms
  by (auto simp: initial_attempt_def Let_def split: if_splits prod.splits option.splits dest!: judge_records)

lemma initial_attempt_again:
  assumes "initial_attempt send enabled attempt st fb records d e = Inr (fb', records', d', e')"
  shows "attempt \<noteq> policy_attempts \<and> (\<exists>x. records' = records @ [x] \<and> ia_number x = attempt)"
  using assms
  by (auto simp: initial_attempt_def Let_def split: if_splits prod.splits option.splits dest!: judge_again)

lemma initial_loop_spec:
  assumes "initial_loop send enabled left attempt st fb records d e = (ok, st', fb', records', d', e')"
  shows "\<exists>new. records' = records @ new \<and> map ia_number new = [attempt..attempt + int (length new) - 1] \<and>
    length new \<le> left \<and>
    (ok = Some True \<longrightarrow> af_valid fb' \<and> isfinite (af_temperature fb') \<and> as_reason st' = st_ok \<and>
       clk e' < as_deadline st \<and> new \<noteq> [] \<and> ia_reason (last new) = st_ok)"
  using assms
proof (induction left arbitrary: attempt fb records d e)
  case 0
  then show ?case by auto
next
  case (Suc left)
  show ?case
  proof (cases "initial_attempt send enabled attempt st fb records d e")
    case (Inl q)
    then have a: "initial_attempt send enabled attempt st fb records d e = Inl (ok, st', fb', records', d', e')"
      using Suc.prems by simp
    from initial_attempt_records [OF a] consider "records' = records"
      | x where "records' = records @ [x]" "ia_number x = attempt" by blast
    then show ?thesis
    proof cases
      case 1
      moreover have "ok \<noteq> Some True" using initial_attempt_success a 1 by fastforce
      ultimately show ?thesis by (intro exI [of _ "[]"]) auto
    next
      case (2 x)
      have "ok = Some True \<longrightarrow> af_valid fb' \<and> isfinite (af_temperature fb') \<and> as_reason st' = st_ok \<and>
          clk e' < as_deadline st \<and> ia_reason x = st_ok"
        using initial_attempt_success a 2(1) by fastforce
      with 2 show ?thesis by (intro exI [of _ "[x]"]) (auto simp: upto_rec1)
    qed
  next
    case (Inr q)
    obtain fb1 records1 d1 e1 where q: "q = (fb1, records1, d1, e1)" by (metis prod_cases4)
    obtain x where x: "records1 = records @ [x]" "ia_number x = attempt"
      using initial_attempt_again [OF Inr [unfolded q]] by blast
    have "initial_loop send enabled left (attempt + 1) st fb1 records1 d1 e1 = (ok, st', fb', records', d', e')"
      using Suc.prems Inr q by simp
    from Suc.IH [OF this] obtain new where new: "records' = records1 @ new"
      "map ia_number new = [attempt + 1..attempt + 1 + int (length new) - 1]" "length new \<le> left"
      "ok = Some True \<longrightarrow> af_valid fb' \<and> isfinite (af_temperature fb') \<and> as_reason st' = st_ok \<and>
       clk e' < as_deadline st \<and> new \<noteq> [] \<and> ia_reason (last new) = st_ok" by blast
    then show ?thesis using x by (intro exI [of _ "x # new"]) (auto simp: upto_rec1 algebra_simps)
  qed
qed

text \<open>Property C37: a startup makes at most two attempts, numbered from one; it succeeds only
  with a valid reply and a finite temperature before the deadline, recorded as such; and no
  transaction is ever started without room for a full response before the deadline (replacing the
  transaction by one that refuses to start without room changes nothing).\<close>

theorem startup_respects_policy:
  assumes "initial send enabled st fb [] d e = (ok, st', fb', records, d', e')"
  shows "map ia_number records = [1..int (length records)] \<and> length records \<le> 2 \<and>
    (ok = Some True \<longrightarrow> af_valid fb' \<and> isfinite (af_temperature fb') \<and> clk e' < as_deadline st \<and>
       as_reason st' = st_ok \<and> records \<noteq> [] \<and> ia_reason (last records) = st_ok) \<and>
    initial (with_room st send) enabled st fb [] d e = (ok, st', fb', records, d', e')"
proof -
  have "initial_loop (with_room st send) enabled n attempt st fb records d e =
      initial_loop send enabled n attempt st fb records d e" for n attempt fb records d e
    by (induction n arbitrary: attempt fb records d e) (simp_all add: initial_attempt_room split: sum.split)
  with initial_loop_spec [OF assms [unfolded initial_def]] assms show ?thesis
    by (auto simp: initial_def policy_attempts_def)
qed

definition sample_startup :: ActivationStartup where
  "sample_startup = \<lparr>as_deadline = 100000000, as_response_timeout = 3000000, as_settle_end = 0,
     as_settle_wait = 0, as_reason = st_deadline\<rparr>"

text \<open>A motor that answers its first control with a valid reply.\<close>

definition answering :: "BxiActuatorDriver transaction" where
  "answering d e = Some (default_ActuatorFeedback\<lparr>af_valid := True, af_temperature := Fin 30\<rparr>,
     default_TransactionObservation\<lparr>to_result := tr_ok\<rparr>, d, e\<lparr>clk := clk e + 500000\<rparr>)"

theorem startup_respects_policy_witness:
  "\<exists>st' fb' x d' e'.
     initial answering (\<lambda>d. True) sample_startup default_ActuatorFeedback [] sample_driver silent_env =
       (Some True, st', fb', [x], d', e') \<and>
     ia_number x = 1 \<and> ia_reason x = st_ok \<and> af_valid fb' \<and> clk e' < as_deadline sample_startup"
proof -
  have "\<exists>st' fb' x d' e'. initial answering (\<lambda>d. True) sample_startup default_ActuatorFeedback [] sample_driver silent_env =
       (Some True, st', fb', [x], d', e')"
    by (simp add: initial_def policy_attempts_def initial_attempt_def numeral_2_eq_2 room_def steady_now_def silent_env_def
        sample_startup_def answering_def judge_transaction_def Let_def set_reason_def)
  then obtain st' fb' x d' e' where r: "initial answering (\<lambda>d. True) sample_startup default_ActuatorFeedback [] sample_driver
      silent_env = (Some True, st', fb', [x], d', e')" by blast
  from startup_respects_policy [OF r] r show ?thesis by simp
qed

end
