(* ===== verification/Spec2Isabelle.thy ===== *)
theory Spec2Isabelle
  imports Hil_System NAxis_Controller System_Cycle Hil_Trajectory Pair_Adapter Stream_Write Pair_Commit Atomic_Snapshot Activation_Startup
begin

text \<open>
  A verification development for the BXI actuator stack (\<^verbatim>\<open>bxi_hardware\<close>), a C++ driver and
  \<^verbatim>\<open>ros2_control\<close> plugin for CAN-attached joint actuators that speak the MIT protocol.

  \<^bold>\<open>The program.\<close> A motor is commanded by an 8-byte block of quantised position, velocity, gains and torque and
  answers with its state (\<^verbatim>\<open>mit_protocol.cpp\<close>). A driver (\<^verbatim>\<open>bxi_actuator.cpp\<close>) owns
  one motor: it encodes commands in the joint's frame, checks replies, counts timeouts and falls into a final
  safe-stop. A bus streamer (\<^verbatim>\<open>bus_streamer.cpp\<close>) runs one receive and one send thread per bus: the receive
  thread files replies into per-axis slots, the send thread transmits periodically or as soon as the control loop has
  written, watches the age of feedback and commands, and ends with disable frames. Threads exchange data by a
  lock-free snapshot (\<^verbatim>\<open>atomic_snapshot.hpp\<close>). In group mode several axes move only together: the controller
  (\<^verbatim>\<open>bxi_pair_adapter.cpp\<close>) writes all values of a batch, then a generation number; the hardware interface
  (\<^verbatim>\<open>pair_system_interface.cpp\<close>) inspects the batch with \<^verbatim>\<open>pair_commit.hpp\<close>, publishes it
  to the send thread and registers safety requests, which the send thread answers once with a zero-gain frame.

  \<^bold>\<open>Theories, sources and results.\<close>

  \<^item> \<open>Prelude\<close>: word types, generic lemmas, and the two contracts of a safety latch as locales
    (\<open>latch\<close>: a latched state stays latched; \<open>quiet_latch\<close>: what a latched component may still emit). They are
    interpreted on the driver, the commit protocol, the safety request, the group interface and the three controllers.
  \<^item> \<open>Ieee_Double\<close>: binary64 as rationals with rounding to nearest even, infinities and NaN; monotonicity and error
    of rounding. All floating-point code is modelled on it, not on real numbers.
  \<^item> \<open>Mit_Protocol\<close> (\<^verbatim>\<open>mit_protocol.cpp\<close>, the reply encoder of \<^verbatim>\<open>bxi_vcan_motor_emulator.cpp\<close>):
    when a command is encoded or refused, what the motor reads back, the quantisation round trip with its exact error
    bound, and that a block without stiffness is never mistaken for a special command.
  \<^item> \<open>Can_Frame\<close> (\<^verbatim>\<open>can_bus.hpp\<close>): frames, and the environment \<open>env\<close>: clock ticks, received frames,
    results of sends and the log of transmitted frames. Every behaviour of bus and clock is some \<open>env\<close>.
  \<^item> \<open>Bxi_Actuator\<close> (\<^verbatim>\<open>bxi_actuator.cpp\<close>): all operations of a driver; safe-stop is final and
    quiet, every latch tries to disable the motor, a silent motor is stopped within its timeout limit, saturation. The
    wait for a reply is a recursion over the received frames; that the deadline, and not the end of the script, bounds
    it is part of the property of the silent motor.
  \<^item> \<open>Pair_Commit\<close> (\<^verbatim>\<open>pair_commit.hpp\<close>): acceptance of a batch; committed generations are consecutive, and
    released after a fault.
  \<^item> \<open>Atomic_Snapshot\<close> (\<^verbatim>\<open>atomic_snapshot.hpp\<close>): writer and reader as interleaved atomic steps, with an
    invariant by rule induction; a good read is one completed publication.
  \<^item> \<open>Write_Schedule\<close>, \<open>Stream_Config\<close>, \<open>Activation_Startup\<close>: timing policy, validation and broadcast frame
    (the length of a frame wraps like the \<^verbatim>\<open>size_t\<close> of the code; from 2^61 blocks on the code leaves the array), and the
    first-control procedure.
  \<^item> \<open>Stream_Receive\<close>, \<open>Stream_Send\<close>, \<open>Group_Safety\<close>, \<open>Stream_Write\<close> (\<^verbatim>\<open>bus_streamer.cpp\<close>,
    \<^verbatim>\<open>bus_streamer.hpp\<close>): the loops of the two send threads and of the receive thread, one definition per
    section of a loop body, and the safety request with its phases. The loops run over scripts: a received frame, a read
    of a shared flag or a snapshot result is consumed from a list, so a theorem over all scripts covers every
    interleaving with the other threads; a loop ends with its script. Spacing and zero-gain results speak of the
    frames in the log: a cycle or iteration that transmits without recording it would contradict them. One safety attempt
    is one step, so a request of another thread falls before or after it.
  \<^item> \<open>Pair_System\<close> (\<^verbatim>\<open>pair_system_interface.cpp\<close>): configuration, mode switches, write and error callbacks of
    the group mode, and the reset of the group by an activation; published batches refine the commit protocol of
    \<open>Pair_Commit\<close>. The calls of a run are those within one activation.
  \<^item> \<open>Pair_Mock\<close> (\<^verbatim>\<open>bxi_pair_mock_system.cpp\<close>): the test double, equivalent to the commit protocol while that has
    no fault latched.
  \<^item> \<open>Pair_Adapter\<close> (\<^verbatim>\<open>bxi_pair_adapter.cpp\<close>): the controller from configuration to update and
    release; generations are consecutive over its whole life, and a commit follows only verified writes.
  \<^item> \<open>Hil_Interval\<close>, \<open>Hil_Trajectory\<close> (\<^verbatim>\<open>hil_trajectory.cpp\<close>): ramp and sine references, and the
    acceleration bound computed by outward rounded intervals and a bounded search for stationary points (depth 36, as
    in the code). The specification is the trajectory over the real numbers; the bound is shown never to be below the
    exact acceleration, for amplitudes up to \<open>2^100\<close> and frequencies between \<open>2^-100\<close> and \<open>2^100\<close>, a range chosen so
    that no intermediate result overflows. The functions of the mathematics library are parameters.
  \<^item> \<open>System_Worker\<close> (\<^verbatim>\<open>bxi_system_interface.cpp\<close>): the sequential worker of a bus without a
    streamer and the disabling of a bus; a worker that ends in a safe stop has tried to disable every
    motor of its bus, and after the stop flag it sends only disables.
  \<^item> \<open>System_Cycle\<close> (\<^verbatim>\<open>bxi_system_interface.cpp\<close>): the hook of the periodic send thread and the read
    and write callbacks with their cycle records; what a write hands to streams and workers, when the hook stops a bus,
    and when an axis counts as unavailable.
  \<^item> \<open>NAxis_Controller\<close> (\<^verbatim>\<open>n_axis_trajectory_controller.cpp\<close>): the controller for two or three axes that
    moves along the sine of \<open>Hil_Trajectory\<close> while a client renews its lease; what an update writes after any sequence
    of calls, that the generation follows the acceptance of the hardware, and that the end of a run is final.
  \<^item> \<open>Hil_Controller\<close> (\<^verbatim>\<open>hil_trajectory_controller.cpp\<close>): the single-joint controller with its requests, the
    update and the record; what an update writes after any sequence of calls (configurations included), that a stop ends a run and cancels a waiting
    start, and that a start is accepted only after the record of the previous run was handed over.
  \<^item> \<open>Hil_System\<close>: this controller with the write callback of \<open>System_Cycle\<close>: from an activation to the
    next deactivation a cleared flag of a pending release means that the joint is told no gain, and a run in which a refused write while armed gives the joint its default gains.
  \<^item> this theory: the composition of controller and commit protocol.

  \<^bold>\<open>Conventions.\<close> A field of a C++ class is a record field with a prefix for its class; a \<^verbatim>\<open>uintN_t\<close> is an
  \<open>N word\<close> and wraps; nanoseconds are unbounded integers (signed overflow is undefined in C++); every early return is
  a branch. A conversion from \<^verbatim>\<open>double\<close> to an integer that is undefined in C++ (NaN, out of range) has some
  value here. No fuel is used: every loop is over a list or a bounded range. Code outside the repository (text to
  number conversion, interface handles of the framework) is a parameter or a script.

  \<^bold>\<open>Not modelled.\<close> Thread creation and joining, scheduling and file descriptors; the SocketCAN calls; CSV and timing
  trace writers and log lines; the wake-up pipe, since a thread that is not woken is a script with a longer wait; YAML
  parsing, activation (but for the reset of a group) and clean-up of the hardware plugin in \<^verbatim>\<open>bxi_system_interface.cpp\<close>; the fault
  injection plugins and the command line tools. The sign of zero is not represented.
\<close>

section \<open>Controller and commit protocol\<close>

text \<open>Velocities that pass the checks of an update stay inside the velocity limit of their axis.\<close>

definition velocity_ok :: "Limits \<Rightarrow> double \<Rightarrow> bool" where
  "velocity_ok l v \<longleftrightarrow> isfinite v \<and> \<not> li_velocity l < \<bar>v\<bar>"

definition limits_ok :: "Limits \<Rightarrow> bool" where
  "limits_ok l \<longleftrightarrow> isfinite (li_velocity l) \<and> dlit 0 \<le> li_velocity l \<and> isfinite (li_kp l) \<and> dlit 0 \<le> li_kp l \<and>
     isfinite (li_kd l) \<and> dlit 0 \<le> li_kd l \<and> isfinite (li_position_min l) \<and> isfinite (li_position_max l)"

lemma configure_limits_ok: "configure_limits p j = Some l \<Longrightarrow> limits_ok l"
  by (auto simp: configure_limits_def limits_ok_def Let_def isfinite_iff split: if_splits)

lemma zero_velocity_ok: "limits_ok l \<Longrightarrow> velocity_ok l (Fin 0)"
  by (auto simp: limits_ok_def velocity_ok_def isfinite_iff)

lemma note_reason_fields [simp]:
  "ro_target_velocity (note_reason c r row) = ro_target_velocity row" "r \<noteq> 0 \<Longrightarrow> ro_reason (note_reason c r row) = 0 \<longleftrightarrow> ro_reason row = 0 \<and> \<not> c"
  by (auto simp: note_reason_def)

lemma judge_velocity_ok:
  assumes "judge_velocity boot axis (row, a) = (row', a')" and "ro_reason row' = 0" and "limits_ok (ad_limits a ! axis)"
  shows "ro_reason row = 0 \<and> (\<exists>v. ro_target_velocity row' = (ro_target_velocity row)[axis := v] \<and> velocity_ok (ad_limits a ! axis) v)"
  using assms zero_velocity_ok [OF assms(3)]
  by (auto simp: judge_velocity_def Let_def velocity_ok_def split: if_splits)

lemma judge_target_ok:
  assumes "judge_target boot axis p (row, a) = (t, row', a')" and "ro_reason row' = 0"
  shows "ro_reason row = 0 \<and> ro_target_velocity row' = ro_target_velocity row"
  using assms by (auto simp: judge_target_def Let_def split: if_splits)

lemma update_axis_ok:
  assumes "update_axis boot g i (row, a) = (row', a')" and "ro_reason row' = 0" and "limits_ok (ad_limits a ! (gr_first g + i))"
  shows "ro_reason row = 0 \<and>
    (\<exists>v. ro_target_velocity row' = (ro_target_velocity row)[gr_first g + i := v] \<and> velocity_ok (ad_limits a ! (gr_first g + i)) v)"
proof -
  obtain r1 a1 where v: "judge_velocity boot (gr_first g + i) (row, a) = (r1, a1)" by fastforce
  obtain t r2 a2 where w: "judge_target boot (gr_first g + i) (ro_states row ! (gr_state g + 4 * i)) (r1, a1) = (t, r2, a2)"
    using prod_cases3 by blast
  note e = conjunct1 [OF assms(1) [unfolded update_axis_def Let_def prod.case v w prod.inject], symmetric]
  have "ro_target_velocity row' = ro_target_velocity r2" "ro_reason r2 = 0"
    using arg_cong [OF e, of ro_target_velocity] arg_cong [OF e, of ro_reason] assms(2) by simp_all
  then show ?thesis using judge_target_ok [OF w] judge_velocity_ok [OF v _ assms(3)] by simp
qed

lemma update_axis_reason:
  assumes "update_axis boot g i (row, a) = (row', a')" and "ro_reason row' = 0"
  shows "ro_reason row = 0"
proof -
  obtain r1 a1 where v: "judge_velocity boot (gr_first g + i) (row, a) = (r1, a1)" by fastforce
  obtain t r2 a2 where w: "judge_target boot (gr_first g + i) (ro_states row ! (gr_state g + 4 * i)) (r1, a1) = (t, r2, a2)"
    using prod_cases3 by blast
  note e = conjunct1 [OF assms(1) [unfolded update_axis_def Let_def prod.case v w prod.inject], symmetric]
  have "ro_reason r2 = 0" using arg_cong [OF e, of ro_reason] assms(2) by simp
  then have "ro_reason r1 = 0" using judge_target_ok [OF w] by simp
  then show ?thesis using v by (auto simp: judge_velocity_def Let_def split: if_splits)
qed

lemma update_axes_reason: "fold (update_axis boot g) is (row, a) = (row', a') \<Longrightarrow> ro_reason row' = 0 \<Longrightarrow> ro_reason row = 0"
proof (induction "is" arbitrary: row a)
  case (Cons i js)
  obtain r1 a1 where v: "update_axis boot g i (row, a) = (r1, a1)" by fastforce
  then show ?case using Cons.IH [of r1 a1] Cons.prems update_axis_reason [OF v] by simp
qed simp

text \<open>The axes whose velocity was checked keep a checked velocity, also if they are checked again.\<close>

definition checked :: "Adapter \<Rightarrow> nat set \<Rightarrow> Row \<Rightarrow> bool" where
  "checked a J row \<longleftrightarrow> length (ro_target_velocity row) = 12 \<and> (\<forall>j \<in> J. j < 12 \<longrightarrow> velocity_ok (ad_limits a ! j) (ro_target_velocity row ! j))"

lemma update_axes_ok:
  assumes "fold (update_axis boot g) is (row, a) = (row', a')" and "ro_reason row' = 0" and "checked a J row"
    and "\<forall>i \<in> set is. limits_ok (ad_limits a ! (gr_first g + i))"
  shows "ro_reason row = 0 \<and> checked a (J \<union> (\<lambda>i. gr_first g + i) ` set is) row'"
  using assms
proof (induction "is" arbitrary: row a J)
  case (Cons i js)
  obtain r1 a1 where v: "update_axis boot g i (row, a) = (r1, a1)" by fastforce
  have l: "ad_limits a1 = ad_limits a" using update_axis_keeps [OF v] by (simp add: judged_def)
  have f: "fold (update_axis boot g) js (r1, a1) = (row', a')" using Cons.prems(1) v by simp
  have ck: "checked a1 X r = checked a X r" for X r by (simp add: checked_def l)
  have rest: "checked a1 K r1 \<Longrightarrow> ro_reason r1 = 0 \<and> checked a (K \<union> (\<lambda>i. gr_first g + i) ` set js) row'" for K
    using Cons.IH [OF f Cons.prems(2), of K] Cons.prems(4) by (simp add: ck l)
  have len: "length (ro_target_velocity r1) = 12" if "ro_reason r1 = 0"
    using update_axis_ok [OF v that] Cons.prems(3,4) by (auto simp: checked_def)
  have r1: "ro_reason r1 = 0" using update_axes_reason [OF f Cons.prems(2)] .
  obtain w where w: "ro_reason row = 0" "ro_target_velocity r1 = (ro_target_velocity row)[gr_first g + i := w]" "velocity_ok (ad_limits a ! (gr_first g + i)) w"
    using update_axis_ok [OF v r1] Cons.prems(4) by auto
  have "checked a1 (J \<union> {gr_first g + i}) r1"
    using w(2,3) Cons.prems(3) len [OF r1]
    by (cases "gr_first g + i < 12") (auto simp: checked_def l nth_list_update list_update_beyond)
  from rest [OF this] w(1) show ?case by (simp add: insert_commute Un_assoc)
qed simp

definition group_axes :: "Group \<Rightarrow> nat set" where
  "group_axes g = (\<lambda>i. gr_first g + i) ` {..<gr_axes g}"

text \<open>The checks of a group come before those of its axes.\<close>

lemma judge_group_start:
  assumes "judge_group h (boot, row, a) = (boot', row', a')"
  shows "\<exists>r1. fold (update_axis boot' (ad_groups a ! h)) [0..<gr_axes (ad_groups a ! h)] (r1, a) = (row', a') \<and>
    ro_target_velocity r1 = ro_target_velocity row \<and> (ro_reason r1 = 0 \<longrightarrow> ro_reason row = 0)"
proof -
  let ?g = "ad_groups a ! h"
  define r1 where "r1 = note_reason (kMaxGeneration < gr_generation ?g + 1) 11
    (if \<not> isfinite (ro_states row ! (gr_state ?g + 4 * gr_axes ?g)) \<or> \<not> deq (ro_states row ! (gr_state ?g + 4 * gr_axes ?g)) (dint (uint (gr_generation ?g)))
     then mark_missing h (row\<lparr>ro_previous_g := (ro_previous_g row)[h := gr_generation ?g], ro_candidate_g := (ro_candidate_g row)[h := gr_generation ?g + 1]\<rparr>\<lparr>ro_reason := 4\<rparr>)
     else row\<lparr>ro_previous_g := (ro_previous_g row)[h := gr_generation ?g], ro_candidate_g := (ro_candidate_g row)[h := gr_generation ?g + 1]\<rparr>)"
  have "boot' = (boot \<or> gr_generation ?g = 0)" "fold (update_axis (boot \<or> gr_generation ?g = 0) ?g) [0..<gr_axes ?g] (r1, a) = (row', a')"
    using assms [unfolded judge_group_def Let_def prod.case, folded r1_def] by auto
  moreover have "ro_target_velocity r1 = ro_target_velocity row" by (simp add: r1_def mark_missing_def)
  moreover have "ro_reason r1 = 0 \<longrightarrow> ro_reason row = 0" by (simp add: r1_def)
  ultimately show ?thesis by (intro exI [of _ r1]) simp
qed

lemma judge_group_reason:
  assumes "judge_group h (boot, row, a) = (boot', row', a')" and "ro_reason row' = 0"
  shows "ro_reason row = 0"
  using judge_group_start [OF assms(1)] update_axes_reason assms(2) by blast

lemma judge_group_ok:
  assumes "judge_group h (boot, row, a) = (boot', row', a')" and "ro_reason row' = 0" and "checked a J row"
    and "\<forall>j \<in> group_axes (ad_groups a ! h). limits_ok (ad_limits a ! j)"
  shows "checked a (J \<union> group_axes (ad_groups a ! h)) row'"
proof -
  let ?g = "ad_groups a ! h"
  obtain r1 where f: "fold (update_axis boot' ?g) [0..<gr_axes ?g] (r1, a) = (row', a')" "ro_target_velocity r1 = ro_target_velocity row"
    using judge_group_start [OF assms(1)] by blast
  have "checked a J r1" using assms(3) by (simp add: checked_def f(2))
  moreover have "\<forall>i \<in> set [0..<gr_axes ?g]. limits_ok (ad_limits a ! (gr_first ?g + i))" using assms(4) by (auto simp: group_axes_def)
  moreover have "(\<lambda>i. gr_first ?g + i) ` set [0..<gr_axes ?g] = group_axes ?g" by (simp add: group_axes_def atLeast0LessThan)
  ultimately show ?thesis using update_axes_ok [OF f(1) assms(2)] by metis
qed

lemma judge_groups_ok:
  assumes "fold judge_group [0..<n] (boot, row, a) = (boot', row', a')" and "ro_reason row' = 0" and "checked a {} row"
    and "\<forall>h < n. \<forall>j \<in> group_axes (ad_groups a ! h). limits_ok (ad_limits a ! j)"
  shows "checked a (\<Union>h < n. group_axes (ad_groups a ! h)) row'"
  using assms
proof (induction n arbitrary: boot' row' a')
  case (Suc n)
  obtain b1 r1 a1 where v: "fold judge_group [0..<n] (boot, row, a) = (b1, r1, a1)" using prod_cases3 by blast
  then have w: "judge_group n (b1, r1, a1) = (boot', row', a')" using Suc.prems(1) by simp
  have k: "ad_groups a1 = ad_groups a" "ad_limits a1 = ad_limits a" using judge_groups_keeps [OF v] by (simp_all add: judged_def)
  have ck: "checked a1 X r = checked a X r" for X r by (simp add: checked_def k)
  have r: "ro_reason r1 = 0"
    using judge_group_reason [OF w Suc.prems(2)] .
  have "checked a (\<Union>h < n. group_axes (ad_groups a ! h)) r1"
    using Suc.IH [OF v r Suc.prems(3)] Suc.prems(4) less_SucI by blast
  moreover have "\<forall>j \<in> group_axes (ad_groups a ! n). limits_ok (ad_limits a ! j)" using Suc.prems(4) lessI by blast
  ultimately have "checked a ((\<Union>h < n. group_axes (ad_groups a ! h)) \<union> group_axes (ad_groups a ! n)) row'"
    using judge_group_ok [OF w Suc.prems(2)] by (simp add: ck k)
  then show ?case by (simp add: lessThan_Suc Un_commute)
qed simp

lemma judge_update_ok:
  assumes "judge_update values period a = (row, a')" and "ro_reason row = 0"
    and "\<forall>h < length (ad_groups a). \<forall>j \<in> group_axes (ad_groups a ! h). limits_ok (ad_limits a ! j)"
  shows "checked a (\<Union>h < length (ad_groups a). group_axes (ad_groups a ! h)) row"
proof -
  let ?a = "a\<lparr>ad_cycle := ad_cycle a + 1\<rparr>" and ?n = "length (ad_state_keys a)"
  define r0 where "r0 = fold (read_state values) [0..<?n] (new_Row\<lparr>ro_activation := ad_activation a, ro_cycle := ad_cycle a + 1, ro_dt := period\<rparr>)"
  have rs: "ro_target_velocity (fold (read_state values) ks r) = ro_target_velocity r" for ks r
    by (induction ks arbitrary: r) (simp_all add: read_state_def Let_def split: option.splits)
  define r1 where "r1 = note_reason (\<not> isfinite period \<or> period \<le> dlit 0 \<or> ad_max_period a < period) 2
    (note_reason (ro_state_ok r0 \<noteq> push_bit ?n 1 - 1) 1 r0)"
  have "length (ro_target_velocity r1) = 12" unfolding r1_def r0_def note_reason_fields rs by (simp add: new_Row_def Let_def)
  then have c: "checked ?a {} r1" by (simp add: checked_def)
  obtain b r2 a2 where f: "fold judge_group [0..<length (ad_groups a)] (False, r1, ?a) = (b, r2, a2)" using prod_cases3 by blast
  have e: "row = r2" using assms(1) f by (simp add: judge_update_def r0_def r1_def Let_def)
  show ?thesis using judge_groups_ok [OF f _ c] assms(2,3) by (simp add: e checked_def)
qed

lemma nth_concat_blocks:
  assumes "\<And>i. length (f i) = 5" and "k < 5"
  shows "i < n \<Longrightarrow> concat (map f [0..<n]) ! (5 * i + k) = f i ! k"
proof (induction n)
  case (Suc n)
  have len: "length (concat (map f [0..<n])) = 5 * n" using assms(1) by (induction n) simp_all
  show ?case
  proof (cases "i < n")
    case True
    then have "5 * i + k < 5 * n" using assms(2) by linarith
    then show ?thesis using Suc.IH True len by (simp add: nth_append)
  next
    case False
    then have "i = n" using Suc.prems by simp
    then show ?thesis using len by (simp add: nth_append)
  qed
qed simp

lemma generation_in_range: "m < 9007199254740991 \<Longrightarrow> \<bar>int (m + 1)\<bar> \<le> 2 ^ 53"
  by simp

lemma group_writes_values:
  "map snd (group_writes r row a g) = concat (map (axis_values r row a g) [0..<gr_axes g])"
proof -
  have "map snd (zip [m..<m + 5] (axis_values r row a g i)) = axis_values r row a g i" for m i
    by (simp add: axis_values_def Let_def)
  then show ?thesis by (simp add: group_writes_def map_concat comp_def)
qed

lemma axis_values_length [simp]: "length (axis_values r row a g i) = 5"
  by (simp add: axis_values_def Let_def)

text \<open>The bounds of a commit cover the limits of an axis.\<close>

definition covers :: "Bounds \<Rightarrow> nat \<Rightarrow> Limits \<Rightarrow> bool" where
  "covers b i l \<longleftrightarrow> (let lo = (\<lambda>k. bo_lower b ! (5 * i + k)); hi = (\<lambda>k. bo_upper b ! (5 * i + k))
     in lo 0 \<le> li_position_min l \<and> li_position_max l \<le> hi 0 \<and> lo 1 \<le> - li_velocity l \<and> li_velocity l \<le> hi 1 \<and>
        lo 2 \<le> dlit 0 \<and> li_kp l \<le> hi 2 \<and> lo 3 \<le> dlit 0 \<and> li_kd l \<le> hi 3 \<and> lo 4 \<le> dlit 0 \<and> dlit 0 \<le> hi 4)"

lemma between_ok: "lo \<le> m \<Longrightarrow> m \<le> v \<Longrightarrow> v \<le> n \<Longrightarrow> n \<le> hi \<Longrightarrow> \<not> v < lo \<and> \<not> hi < v" for lo hi m n v :: double
  by (cases lo; cases hi; cases m; cases n; cases v) auto

lemma axis_in_bounds:
  assumes "covers b i l" and "limits_ok l" and "position_ok False row a g i" and "velocity_ok l (ro_target_velocity row ! (gr_first g + i))"
    and "l = ad_limits a ! (gr_first g + i)" and "k < 5"
  shows "isfinite (axis_values False row a g i ! k) \<and> \<not> axis_values False row a g i ! k < bo_lower b ! (5 * i + k) \<and>
    \<not> bo_upper b ! (5 * i + k) < axis_values False row a g i ! k"
proof -
  obtain v kp kd pmin pmax where f: "li_velocity l = Fin v" "0 \<le> v" "li_kp l = Fin kp" "0 \<le> kp" "li_kd l = Fin kd" "0 \<le> kd"
    "li_position_min l = Fin pmin" "li_position_max l = Fin pmax"
    using assms(2) by (auto simp: limits_ok_def isfinite_iff)
  obtain p where p: "ro_command row ! (gr_first g + i) = Fin p" "pmin \<le> p" "p \<le> pmax"
    using assms(3,5) f(7,8) by (auto simp: position_ok_def Let_def isfinite_iff)
  obtain u where u: "ro_target_velocity row ! (gr_first g + i) = Fin u" "\<bar>u\<bar> \<le> v"
    using assms(4) f(1) by (auto simp: velocity_ok_def isfinite_iff)
  have u': "- v \<le> u" "u \<le> v" using u(2) by linarith+
  have c: "bo_lower b ! (5 * i) \<le> Fin pmin" "Fin pmax \<le> bo_upper b ! (5 * i)" "bo_lower b ! (5 * i + 1) \<le> Fin (- v)" "Fin v \<le> bo_upper b ! (5 * i + 1)"
    "bo_lower b ! (5 * i + 2) \<le> Fin 0" "Fin kp \<le> bo_upper b ! (5 * i + 2)" "bo_lower b ! (5 * i + 3) \<le> Fin 0" "Fin kd \<le> bo_upper b ! (5 * i + 3)"
    "bo_lower b ! (5 * i + 4) \<le> Fin 0" "Fin 0 \<le> bo_upper b ! (5 * i + 4)"
    using assms(1) f by (simp_all add: covers_def Let_def)
  note bo = between_ok [OF c(1) _ _ c(2), of "Fin p"] between_ok [OF c(3) _ _ c(4), of "Fin 0"] between_ok [OF c(3) _ _ c(4), of "Fin u"]
    between_ok [OF c(5) _ _ c(6), of "Fin 0"] between_ok [OF c(5) _ _ c(6), of "Fin kp"] between_ok [OF c(7) _ _ c(8), of "Fin 0"]
    between_ok [OF c(7) _ _ c(8), of "Fin kd"] between_ok [OF c(9) _ _ c(10), of "Fin 0"]
  consider "k = 0" | "k = 1" | "k = 2" | "k = 3" | "k = 4" using assms(6) by linarith
  then show ?thesis
    using bo f p u u' assms(5) by cases (simp_all add: axis_values_def Let_def)
qed

text \<open>Property C8: the batch that the controller writes for a group, once an update has passed all its
  checks, is accepted by the commit protocol of the hardware that stands at the same generation, with bounds that
  cover the controller's limits, that has no latched fault and has not expired; the startup deadline matters for the
  first batch only, every later one is accepted at any time.\<close>

theorem adapter_batch_accepted:
  assumes "judge_update values period a = (row, a1)" and "ro_reason row = 0" and "length (ad_groups a) \<le> 4" and "h < length (ad_groups a)"
    and "\<forall>g \<in> set (ad_groups a). gr_first g + gr_axes g \<le> 12 \<and> (\<forall>j \<in> group_axes g. limits_ok (ad_limits a ! j))"
    and "group_ok False h row a1"
    and "pc_axes c = gr_axes (ad_groups a ! h)" and "pc_last c = gr_generation (ad_groups a ! h)"
    and "\<forall>i < pc_axes c. covers (pc_bounds c) i (ad_limits a ! (gr_first (ad_groups a ! h) + i))"
    and "\<not> pc_latched c" and "\<not> pc_expired c" and "pc_last c = 0 \<longrightarrow> now < pc_deadline c"
  shows "inspect (dint (uint (ro_candidate_g row ! h))) (map snd (group_writes False row a1 (ad_groups a ! h))) now c = (kAccepted, c)"
proof -
  let ?g = "ad_groups a ! h" and ?vs = "map snd (group_writes False row a1 (ad_groups a ! h))" and ?x = "dint (uint (ro_candidate_g row ! h))"
  note k = judge_update_keeps [OF assms(1,3)] and kf = judged_fields [OF judge_update_keeps(1) [OF assms(1,3)]]
  have lim: "\<forall>h < length (ad_groups a). \<forall>j \<in> group_axes (ad_groups a ! h). limits_ok (ad_limits a ! j)" using assms(5) nth_mem by blast
  have ck: "velocity_ok (ad_limits a ! (gr_first ?g + i)) (ro_target_velocity row ! (gr_first ?g + i))" if "i < gr_axes ?g" for i
  proof -
    have "gr_first ?g + i < 12" using assms(4,5) that nth_mem by (metis add_le_cancel_left le_trans less_le_trans nat_add_left_cancel_less)
    moreover have "gr_first ?g + i \<in> (\<Union>h < length (ad_groups a). group_axes (ad_groups a ! h))" using assms(4) that by (auto simp: group_axes_def)
    ultimately show ?thesis using judge_update_ok [OF assms(1,2) lim] unfolding checked_def by blast
  qed
  have pos: "list_all (position_ok False row a1 ?g) [0..<gr_axes ?g]" and cand: "ro_candidate_g row ! h \<noteq> 0" "ro_candidate_g row ! h \<le> kMaxGeneration"
    using assms(6) kf(1) by (simp_all add: group_ok_def Let_def)
  have nth: "?vs ! (5 * i + j) = axis_values False row a1 ?g i ! j" if "i < gr_axes ?g" "j < 5" for i j
    unfolding group_writes_values using nth_concat_blocks [of "axis_values False row a1 ?g" j i] that by simp
  have inb: "isfinite (?vs ! m) \<and> \<not> ?vs ! m < bo_lower (pc_bounds c) ! m \<and> \<not> bo_upper (pc_bounds c) ! m < ?vs ! m" if "m < 5 * gr_axes ?g" for m
  proof -
    define i j where "i = m div 5" and "j = m mod 5"
    have m: "m = 5 * i + j" "j < 5" "i < gr_axes ?g" using that by (auto simp: i_def j_def)
    have "covers (pc_bounds c) i (ad_limits a ! (gr_first ?g + i))" using assms(7,9) m(3) by simp
    moreover have "limits_ok (ad_limits a ! (gr_first ?g + i))" using lim assms(4) m(3) by (auto simp: group_axes_def)
    moreover have "position_ok False row a1 ?g i" using pos m(3) by (simp add: list_all_iff)
    ultimately show ?thesis using axis_in_bounds [of "pc_bounds c" i _ row a1 ?g j] ck [OF m(3)] m(2) nth [OF m(3,2)] kf(2) by (simp add: m(1))
  qed
  have bounds: "batch_in_bounds c ?vs"
    using inb by (simp add: batch_in_bounds_def list_all_iff valueCount_def kFieldsPerAxis_def assms(7) mult.commute)
  have rel: "batch_released c ?vs" if g0: "gr_generation ?g = 0"
  proof -
    have "deq (?vs ! m) (dlit 0)" if "m < 5 * gr_axes ?g" "m mod 5 \<noteq> 0" for m
    proof -
      define i j where "i = m div 5" and "j = m mod 5"
      have m: "m = 5 * i + j" "j < 5" "j \<noteq> 0" "i < gr_axes ?g" using that by (auto simp: i_def j_def)
      then consider "j = 1" | "j = 2" | "j = 3" | "j = 4" by linarith
      then have "axis_values False row a1 ?g i ! j = dlit 0" using g0 by cases (simp_all add: axis_values_def Let_def)
      then show ?thesis using nth [OF m(4,2)] by (simp add: m(1))
    qed
    then have "\<not> (m mod 5 \<noteq> 0 \<and> \<not> deq (?vs ! m) (dlit 0))" if "m \<in> set [0..<5 * gr_axes ?g]" for m using that by auto
    then show ?thesis unfolding batch_released_def list_all_iff valueCount_def kFieldsPerAxis_def assms(7) mult.commute [of _ 5] by blast
  qed
  have cg: "ro_candidate_g row ! h = pc_last c + 1" using k(3) assms(4,8) by simp
  have u: "unat (pc_last c + 1) = unat (pc_last c) + 1" using cand(1) cg by (simp add: unatSuc add.commute)
  have lt: "unat (pc_last c) < 9007199254740991" using cand(2) cg u by (simp add: word_le_nat_alt kMaxGeneration_def)
  have x: "?x = Fin (of_nat (unat (pc_last c) + 1))"
  proof -
    have "uint (ro_candidate_g row ! h) = int (unat (pc_last c) + 1)" unfolding cg uint_nat u ..
    moreover have "\<bar>int (unat (pc_last c) + 1)\<bar> \<le> 2 ^ 53" using lt by (rule generation_in_range)
    ultimately show ?thesis using dint_Fin by simp
  qed
  obtain r c' where i: "inspect ?x ?vs now c = (r, c')" by fastforce
  have "pc_latched c \<or> pc_last c = 0 \<longrightarrow> batch_released c ?vs" using rel assms(8,10) by simp
  moreover have "\<not> (pc_last c = 0 \<and> pc_deadline c \<le> now)" using assms(12) by auto
  ultimately have "r = kAccepted"
    unfolding inspect_accepted [OF i less_imp_le [OF lt]] using lt x bounds assms(11) by blast
  then show ?thesis using inspect_keeps(7) [OF i] i by simp
qed

text \<open>The controller of the previous theory after its activation, with two joints at rest.\<close>

definition active_adapter :: Adapter where
  "active_adapter = sample_adapter\<lparr>ad_active := True, ad_activated_once := True, ad_max_period := Fin 1\<rparr>"

definition wide_commit :: PairCommit where
  "wide_commit = (reset 0 100 open_commit)\<lparr>pc_bounds := \<lparr>bo_lower = replicate 15 (Fin (-100)), bo_upper = replicate 15 (Fin 100)\<rparr>\<rparr>"

definition resting_row :: Row where
  "resting_row = fst (judge_update sample_values (Fin 1) active_adapter)"

lemma resting_axis:
  assumes "update_axis True g i (row, a) = (row', a')" and "ad_references a ! (gr_first g + i) = NaN" and "\<not> ad_seen_reference a ! (gr_first g + i)"
    and "\<not> ad_velocity_feedforward a" and "ro_states row ! (gr_state g + 4 * i) = Fin 0" and "ro_states row ! (gr_state g + 4 * i + 3) = Fin 0"
    and "ad_limits a ! (gr_first g + i) = sample_limits\<lparr>li_cycles := 3\<rparr>" and "gr_first g + i < length (ad_deviation_count a)"
  shows "ro_reason row' = ro_reason row \<and> ro_states row' = ro_states row \<and> ad_references a' = ad_references a \<and>
    ad_seen_reference a' = ad_seen_reference a \<and> ad_velocity_feedforward a' = ad_velocity_feedforward a \<and> ad_limits a' = ad_limits a \<and>
    length (ad_deviation_count a') = length (ad_deviation_count a) \<and> ro_command row' = (ro_command row)[gr_first g + i := Fin 0]"
proof -
  obtain r1 a1 where v: "judge_velocity True (gr_first g + i) (row, a) = (r1, a1)" by fastforce
  have f1: "ro_command r1 = ro_command row" "ro_reason r1 = ro_reason row" "ro_states r1 = ro_states row" "ad_references a1 = ad_references a" "ad_seen_reference a1 = ad_seen_reference a"
    "ad_velocity_feedforward a1 = ad_velocity_feedforward a" "ad_limits a1 = ad_limits a" "ad_deviation_count a1 = ad_deviation_count a"
    using v assms(4) by (auto simp: judge_velocity_def Let_def note_reason_def)
  obtain t r2 a2 where w: "judge_target True (gr_first g + i) (ro_states row ! (gr_state g + 4 * i)) (r1, a1) = (t, r2, a2)"
    using prod_cases3 by blast
  have f2: "ro_command r2 = ro_command row" "t = Fin 0" "ro_reason r2 = ro_reason row" "ro_states r2 = ro_states row" "ad_references a2 = ad_references a" "ad_seen_reference a2 = ad_seen_reference a"
    "ad_velocity_feedforward a2 = ad_velocity_feedforward a" "ad_limits a2 = ad_limits a" "ad_deviation_count a2 = ad_deviation_count a"
    using w assms(2,3,5) f1 by (auto simp: judge_target_def Let_def note_reason_def)
  note e = assms(1) [unfolded update_axis_def Let_def prod.case v w prod.inject, THEN conjunct1, symmetric]
    and d = assms(1) [unfolded update_axis_def Let_def prod.case v w prod.inject, THEN conjunct2, symmetric]
  have c: "ad_deviation_count (count_deviation (gr_first g + i) t (ro_states row ! (gr_state g + 4 * i)) a2) ! (gr_first g + i) = 0"
    using f2 assms(5,7,8) by (simp add: count_deviation_def Let_def sample_limits_def minus_double_def)
  show ?thesis
    using arg_cong [OF e, of ro_reason] arg_cong [OF e, of ro_states] arg_cong [OF e, of ro_command] f2 assms(5,6,7) c
    by (simp add: d note_reason_def sample_limits_def count_deviation_def limited_command_def Let_def)
qed

lemma resting_row_ok: "ro_reason resting_row = 0 \<and> ro_command resting_row = replicate 12 (Fin 0)"
proof -
  let ?a = "active_adapter\<lparr>ad_cycle := 1\<rparr>"
  define g where "g = hd (ad_groups active_adapter)"
  have g: "gr_first g = 0" "gr_axes g = 2" "gr_state g = 0" "gr_generation g = 0"
    and gs: "ad_groups active_adapter = [g]" "length (ad_state_keys active_adapter) = 9" "ad_activation active_adapter = 0" "ad_cycle active_adapter = 0"
      "ad_max_period active_adapter = Fin 1"
    by (simp_all add: g_def active_adapter_def sample_adapter_def sample_states_def new_Adapter_def)
  define r0 where "r0 = fold (read_state sample_values) [0..<9] (new_Row\<lparr>ro_activation := 0, ro_cycle := 1, ro_dt := Fin 1\<rparr>)"
  have r0: "ro_reason r0 = 0" "ro_state_ok r0 = 511" "take 9 (ro_states r0) = replicate 9 (Fin 0)" "ro_command r0 = replicate 12 (Fin 0)"
    unfolding r0_def by (simp_all add: upt_rec read_state_def sample_values_def new_Row_def Let_def eval_nat_numeral zero_double_def)
  have st: "ro_states r0 ! k = Fin 0" if "k < 9" for k using arg_cong [OF r0(3), of "\<lambda>xs. xs ! k"] that by simp
  define r1 where "r1 = r0\<lparr>ro_previous_g := (ro_previous_g r0)[0 := 0], ro_candidate_g := (ro_candidate_g r0)[0 := 1]\<rparr>"
  obtain r2 a2 where u: "update_axis True g 0 (r1, ?a) = (r2, a2)" by fastforce
  obtain r3 a3 where v: "update_axis True g 1 (r2, a2) = (r3, a3)" by fastforce
  have f: "ad_references ?a = [NaN, NaN]" "ad_seen_reference ?a = replicate 12 False" "\<not> ad_velocity_feedforward ?a"
    "ad_limits ?a = [sample_limits\<lparr>li_cycles := 3\<rparr>, sample_limits\<lparr>li_cycles := 3\<rparr>]" "length (ad_deviation_count ?a) = 12"
    by (simp_all add: active_adapter_def sample_adapter_def new_Adapter_def)
  have s1: "ro_states r1 = ro_states r0" "ro_reason r1 = 0" "ro_command r1 = replicate 12 (Fin 0)" using r0(1,4) by (simp_all add: r1_def)
  have k2: "ro_reason r2 = 0 \<and> ro_states r2 = ro_states r0 \<and> ad_references a2 = ad_references ?a \<and> ad_seen_reference a2 = ad_seen_reference ?a \<and>
      ad_velocity_feedforward a2 = ad_velocity_feedforward ?a \<and> ad_limits a2 = ad_limits ?a \<and> length (ad_deviation_count a2) = 12 \<and>
      ro_command r2 = replicate 12 (Fin 0)"
    using resting_axis [OF u] f s1 g st [of 0] st [of 3]
    by (fastforce simp: list_update_same_conv)
  have k3: "ro_reason r3 = 0 \<and> ro_command r3 = replicate 12 (Fin 0)" using resting_axis [OF v] f k2 g st [of 4] st [of 7] by (simp add: list_update_same_conv)
  have z: "dint 0 = Fin 0" "kMaxGeneration \<noteq> 0" using dint_Fin [of 0] by (simp_all add: kMaxGeneration_def)
  have "judge_group 0 (False, r0, ?a) = (True, r3, a3)"
    using u v st [of 8] z by (simp add: judge_group_def Let_def gs(1) g note_reason_def r1_def upt_rec kMaxGeneration_def)
  then have "judge_update sample_values (Fin 1) active_adapter = (r3, a3)"
    using r0(2) by (simp add: judge_update_def Let_def gs r0_def [symmetric] note_reason_def)
  then show ?thesis using k3 by (simp add: resting_row_def)
qed

lemma group_axes_alt: "j \<in> group_axes g \<longleftrightarrow> gr_first g \<le> j \<and> j < gr_first g + gr_axes g"
  by (auto simp: group_axes_def image_iff intro!: bexI [of _ "j - gr_first g"])

theorem adapter_batch_accepted_witness:
  "\<exists>row a1. judge_update sample_values (Fin 1) active_adapter = (row, a1) \<and>
     inspect (dint (uint (ro_candidate_g row ! 0))) (map snd (group_writes False row a1 (ad_groups active_adapter ! 0))) 5 wide_commit = (kAccepted, wide_commit)"
proof -
  obtain row a1 where j: "judge_update sample_values (Fin 1) active_adapter = (row, a1)" by fastforce
  have r: "ro_reason row = 0" "ro_command row = replicate 12 (Fin 0)" using resting_row_ok j by (simp_all add: resting_row_def)
  have gs: "ad_groups active_adapter = [\<lparr>gr_first = 0, gr_axes = 2, gr_command = 0, gr_state = 0, gr_generation = 0, gr_gpio = ''pair'', gr_name = ''leg''\<rparr>]"
    and ls: "ad_limits active_adapter = [sample_limits\<lparr>li_cycles := 3\<rparr>, sample_limits\<lparr>li_cycles := 3\<rparr>]"
    by (simp_all add: active_adapter_def sample_adapter_def)
  have n: "length (ad_groups active_adapter) \<le> 4" "0 < length (ad_groups active_adapter)" by (simp_all add: gs)
  note k = judge_update_keeps [OF j n(1)] and kf = judged_fields [OF judge_update_keeps(1) [OF j n(1)]]
  have nth: "ad_limits active_adapter ! i = sample_limits\<lparr>li_cycles := 3\<rparr>" if "i < 2" for i
    using that by (auto simp: ls less_2_cases_iff)
  have ok: "group_ok False 0 row a1"
    using k(3) by (simp add: group_ok_def position_ok_def kf gs ls r(2) Let_def upt_rec kMaxGeneration_def sample_limits_def)
  have lim: "\<forall>g \<in> set (ad_groups active_adapter). gr_first g + gr_axes g \<le> 12 \<and> (\<forall>j \<in> group_axes g. limits_ok (ad_limits active_adapter ! j))"
    by (simp add: gs group_axes_alt nth limits_ok_def sample_limits_def)
  have cov: "\<forall>i < pc_axes wide_commit. covers (pc_bounds wide_commit) i (ad_limits active_adapter ! (gr_first (ad_groups active_adapter ! 0) + i))"
    by (simp add: wide_commit_def reset_def open_commit_fields gs nth covers_def sample_limits_def Let_def)
  have c: "pc_axes wide_commit = gr_axes (ad_groups active_adapter ! 0)" "pc_last wide_commit = gr_generation (ad_groups active_adapter ! 0)"
    "\<not> pc_latched wide_commit" "\<not> pc_expired wide_commit" "pc_last wide_commit = 0 \<longrightarrow> 5 < pc_deadline wide_commit"
    by (simp_all add: wide_commit_def reset_def open_commit_fields gs)
  from adapter_batch_accepted [OF j r(1) n lim ok c(1,2) cov c(3,4,5)] j show ?thesis by blast
qed

end
